(* ===== verification/Bytes_Prelude.thy ===== *)
theory Bytes_Prelude
  imports Main "HOL-Library.Word" "HOL-Library.Sublist"
begin

text \<open>
  Shared ground of the development: the machine types of the C++ sources
  (\<open>std::uint8_t\<close> \dots \<open>std::uint64_t\<close>), byte vectors, the two-byte and general
  big/little-endian codecs the wire formats are built from, \<open>std::search\<close> and
  \<open>std::string::find\<close> as \<open>find_sub\<close>, and the lemma collections that the
  component theories feed to the simplifier.  A \<open>std::vector<std::uint8_t>\<close>, a
  \<open>std::span\<close> or a \<open>std::string_view\<close> is a list; a \<open>std::size_t\<close> is a
  \<open>nat\<close>, with its wrap-around written out where the code can reach it.
\<close>

unbundle bit_operations_syntax

section \<open>Machine types\<close>

type_synonym byte = "8 word"
type_synonym u16 = "16 word"
type_synonym u32 = "32 word"
type_synonym u64 = "64 word"
type_synonym bytes = "byte list"

named_theorems codec_simps \<open>length and round-trip equations of the wire codecs\<close>
named_theorems frame_simps \<open>fields an operation leaves alone\<close>

section \<open>Characters and bytes\<close>

definition byte_of_char :: "char \<Rightarrow> byte" where
  "byte_of_char c = of_char c"

definition char_of_byte :: "byte \<Rightarrow> char" where
  "char_of_byte b = char_of (unat b)"

abbreviation bytes_of :: "string \<Rightarrow> bytes" where
  "bytes_of s \<equiv> map byte_of_char s"

abbreviation text_of :: "bytes \<Rightarrow> string" where
  "text_of bs \<equiv> map char_of_byte bs"

lemma unat_byte_lt [simp]: "unat (b :: byte) < 256"
  using unsigned_less [of b, where 'a = nat] by simp

lemma unat_u16_lt [simp]: "unat (v :: u16) < 65536"
  using unsigned_less [of v, where 'a = nat] by simp

lemma unat_u32_lt [simp]: "unat (v :: u32) < 4294967296"
  using unsigned_less [of v, where 'a = nat] by simp

lemma unat_byte_of_char: "unat (byte_of_char c) = of_char c"
proof -
  have "(of_char c :: byte) = word_of_nat (of_char c)"
    by (cases c) (simp add: of_char_def)
  moreover have "(of_char c :: nat) < 256"
    by (rule nat_of_char_less_256)
  ultimately show ?thesis
    by (simp add: byte_of_char_def unat_of_nat)
qed

lemma char_of_byte_of_char [simp]: "char_of_byte (byte_of_char c) = c"
  by (simp add: char_of_byte_def unat_byte_of_char)

lemma byte_of_char_of_byte [simp]: "byte_of_char (char_of_byte b) = b"
  by (simp add: word_unat_eq_iff char_of_byte_def unat_byte_of_char of_char_of)

lemma text_of_bytes_of [simp]: "text_of (bytes_of s) = s"
  by (simp add: comp_def)

lemma bytes_of_text_of [simp]: "bytes_of (text_of bs) = bs"
  by (simp add: comp_def)

section \<open>Two-byte big-endian fields\<close>

definition u16_be :: "u16 \<Rightarrow> bytes" where
  "u16_be v = [ucast (drop_bit 8 v), ucast (v AND 0xff)]"

definition read_u16 :: "bytes \<Rightarrow> nat \<Rightarrow> u16" where
  "read_u16 bs off = (push_bit 8 (ucast (bs ! off)) OR ucast (bs ! (off + 1)))"

lemma mask_8: "(0xff :: 'a::len word) = mask 8"
  by (simp add: mask_eq_exp_minus_1)

lemma length_u16_be [simp, codec_simps]: "length (u16_be v) = 2"
  by (simp add: u16_be_def)

lemma u16_join_split [simp]:
  fixes v :: u16
  shows "push_bit 8 (ucast (ucast (drop_bit 8 v) :: byte)) OR ucast (ucast (v AND 0xff) :: byte) = v"
  unfolding mask_8 by (rule bit_word_eqI) (auto simp: bit_simps)

lemma u16_split_high [simp]:
  fixes a b :: byte
  shows "ucast (drop_bit 8 ((push_bit 8 (ucast a) OR ucast b) :: u16)) = a"
  by (rule bit_word_eqI) (auto simp: bit_simps dest: bit_imp_le_length)

lemma u16_split_low [simp]:
  fixes a b :: byte
  shows "ucast (((push_bit 8 (ucast a) OR ucast b) :: u16) AND 0xff) = b"
  unfolding mask_8 by (rule bit_word_eqI) (auto simp: bit_simps dest: bit_imp_le_length)

lemma read_u16_be [simp, codec_simps]: "read_u16 (u16_be v @ bs) 0 = v"
  by (simp add: read_u16_def u16_be_def)

lemma read_u16_shift [codec_simps]:
  "n = length xs \<Longrightarrow> read_u16 (xs @ ys) n = read_u16 ys 0"
  by (simp add: read_u16_def nth_append)

lemma u16_be_read_u16 [codec_simps]: "u16_be (read_u16 (a # b # bs) 0) = [a, b]"
  by (simp del: drop_bit_or add: read_u16_def u16_be_def)

lemma read_u16_append [codec_simps]:
  "off + 1 < length xs \<Longrightarrow> read_u16 (xs @ ys) off = read_u16 xs off"
  by (simp add: read_u16_def nth_append)

section \<open>Fields of any width, big- and little-endian\<close>

definition be_bytes :: "nat \<Rightarrow> u64 \<Rightarrow> bytes" where
  "be_bytes n v = map (\<lambda>i. ucast (drop_bit (8 * i) v)) (rev [0..<n])"

definition le_bytes :: "nat \<Rightarrow> u64 \<Rightarrow> bytes" where
  "le_bytes n v = map (\<lambda>i. ucast (drop_bit (8 * i) v)) [0..<n]"

definition be_value :: "bytes \<Rightarrow> u64" where
  "be_value bs = foldl (\<lambda>r b. push_bit 8 r OR ucast b) 0 bs"

definition le_value :: "bytes \<Rightarrow> u64" where
  "le_value bs = be_value (rev bs)"

lemma length_be_bytes [simp, codec_simps]: "length (be_bytes n v) = n"
  by (simp add: be_bytes_def)

lemma length_le_bytes [simp, codec_simps]: "length (le_bytes n v) = n"
  by (simp add: le_bytes_def)

lemma rev_le_bytes: "rev (le_bytes n v) = be_bytes n v"
  by (simp add: le_bytes_def be_bytes_def rev_map)

lemma be_bytes_Suc: "be_bytes (Suc n) v = ucast (drop_bit (8 * n) v) # be_bytes n v"
  by (simp add: be_bytes_def)

lemma foldl_be_bytes:
  "foldl (\<lambda>r b. push_bit 8 r OR ucast b) r (be_bytes n v) = push_bit (8 * n) r OR take_bit (8 * n) v"
proof (induction n arbitrary: r)
  case 0
  then show ?case by (simp add: be_bytes_def)
next
  case (Suc n)
  have "push_bit (8 * n) (push_bit 8 r OR ucast (ucast (drop_bit (8 * n) v) :: byte)) OR take_bit (8 * n) v
      = push_bit (8 * Suc n) r OR take_bit (8 * Suc n) v"
    by (rule bit_word_eqI) (auto simp: bit_simps ac_simps)
  then show ?case
    by (simp add: be_bytes_Suc Suc.IH)
qed

lemma be_value_be_bytes [codec_simps]: "be_value (be_bytes n v) = take_bit (8 * n) v"
  by (simp add: be_value_def foldl_be_bytes)

lemma le_value_le_bytes [codec_simps]: "le_value (le_bytes n v) = take_bit (8 * n) v"
  by (simp add: le_value_def rev_le_bytes be_value_be_bytes)

lemma take_bit_64 [simp]: "take_bit 64 (v :: u64) = v"
  by (rule bit_word_eqI) (simp add: bit_simps)

lemma le_bytes_8_inject [simp]: "le_bytes 8 v = le_bytes 8 w \<longleftrightarrow> v = w"
proof
  assume "le_bytes 8 v = le_bytes 8 w"
  then have "le_value (le_bytes 8 v) = le_value (le_bytes 8 w)" by simp
  then show "v = w" by (simp add: codec_simps)
qed simp

lemma unat_be_value_of_nat:
  assumes "m < 2 ^ (8 * n)" "n \<le> 8"
  shows "unat (be_value (be_bytes n (of_nat m))) = m"
proof -
  have "(2::nat) ^ (8 * n) \<le> 2 ^ 64"
    using assms(2) by (intro power_increasing) simp_all
  with assms(1) have "m < 2 ^ 64" by linarith
  then have "unat (of_nat m :: u64) = m"
    by (simp add: unat_of_nat)
  then have "unat (take_bit (8 * n) (of_nat m :: u64)) = take_bit (8 * n) m"
    by (simp add: unsigned_take_bit_eq)
  then show ?thesis
    using assms(1) by (simp add: codec_simps take_bit_nat_eq_self)
qed

section \<open>Searching: \<open>std::search\<close>, \<open>std::string_view::find\<close>\<close>

fun find_sub :: "'a list \<Rightarrow> 'a list \<Rightarrow> nat option" where
  "find_sub pat [] = (if pat = [] then Some 0 else None)"
| "find_sub pat (x # xs) =
     (if prefix pat (x # xs) then Some 0 else map_option Suc (find_sub pat xs))"

lemma find_sub_SomeD:
  "find_sub pat xs = Some i \<Longrightarrow>
     i + length pat \<le> length xs \<and> prefix pat (drop i xs) \<and> (\<forall>j < i. \<not> prefix pat (drop j xs))"
proof (induction xs arbitrary: i)
  case Nil
  then show ?case by (auto split: if_splits)
next
  case (Cons x xs)
  show ?case
  proof (cases "prefix pat (x # xs)")
    case True
    with Cons.prems show ?thesis by (auto dest: prefix_length_le)
  next
    case False
    with Cons.prems obtain k where k: "find_sub pat xs = Some k" "i = Suc k" by auto
    show ?thesis
      using Cons.IH [OF k(1)] k(2) False by (auto simp: less_Suc_eq_0_disj)
  qed
qed

lemma find_sub_None_iff:
  "find_sub pat xs = None \<longleftrightarrow> (\<forall>i \<le> length xs. \<not> prefix pat (drop i xs))"
proof (induction xs)
  case Nil
  then show ?case by auto
next
  case (Cons x xs)
  have "(\<forall>i \<le> length (x # xs). \<not> prefix pat (drop i (x # xs))) \<longleftrightarrow>
        \<not> prefix pat (x # xs) \<and> (\<forall>i \<le> length xs. \<not> prefix pat (drop i xs))"
    by (auto simp: drop_Cons split: nat.splits)
  with Cons.IH show ?case by auto
qed

lemma find_sub_SomeI:
  assumes "prefix pat (drop i xs)" "\<And>j. j < i \<Longrightarrow> \<not> prefix pat (drop j xs)" "i \<le> length xs"
  shows "find_sub pat xs = Some i"
proof (cases "find_sub pat xs")
  case None
  with assms show ?thesis by (auto simp: find_sub_None_iff)
next
  case (Some k)
  from find_sub_SomeD [OF this] assms have "k = i"
    by (metis linorder_neqE_nat)
  with Some show ?thesis by simp
qed

lemma prefix_append_shorter:
  "prefix pat (as @ bs) \<Longrightarrow> length pat \<le> length as \<Longrightarrow> prefix pat as"
  by (metis prefix_length_prefix prefixI)

lemma find_sub_append:
  assumes "find_sub pat xs = Some i"
  shows "find_sub pat (xs @ ys) = Some i"
proof (rule find_sub_SomeI)
  from find_sub_SomeD [OF assms]
  have len: "i + length pat \<le> length xs" and here: "prefix pat (drop i xs)"
    and before: "\<And>j. j < i \<Longrightarrow> \<not> prefix pat (drop j xs)" by auto
  from len show "i \<le> length (xs @ ys)" by simp
  from len here show "prefix pat (drop i (xs @ ys))" by auto
  fix j assume "j < i"
  with len have "drop j (xs @ ys) = drop j xs @ ys" "length pat \<le> length (drop j xs)" by auto
  with before [OF \<open>j < i\<close>] show "\<not> prefix pat (drop j (xs @ ys))"
    using prefix_append_shorter by metis
qed

lemma find_sub_single:
  "find_sub [c] xs = (if c \<in> set xs then Some (length (takeWhile (\<lambda>x. x \<noteq> c) xs)) else None)"
  by (induction xs) auto

lemma find_sub_not_in:
  "c \<in> set pat \<Longrightarrow> c \<notin> set xs \<Longrightarrow> find_sub pat xs = None"
  by (auto simp: find_sub_None_iff dest!: set_mono_prefix in_set_dropD)

end
