(* ===== verification/Framing.thy ===== *)
theory Framing
  imports Bytes_Prelude
begin

text \<open>
  The interface every incremental decoder of the program offers its client: an
  encoder of one message, a \<open>next\<close> operation that removes one complete message
  from the front of a buffer or reports that more bytes are needed, and the loop
  that drains a buffer.  The locale \<open>stream_handler\<close> states the laws of a loop that
  consumes the messages of its buffer and derives that a stream cut into arbitrary
  chunks has exactly the effect of its messages; \<open>stream_codec\<close> states the laws of a
  decoder and is a \<open>stream_handler\<close> that collects.  The former is
  interpreted on the packet loop of the iAP2 link, the latter on the CSM decoder.
\<close>

section \<open>Draining a buffer\<close>

text \<open>
  The loop \<open>while (auto message = next()) ...\<close>.  The comparison of lengths
  makes the definition total for any \<open>nxt\<close>; a decoder that removes what it
  returns never takes the last branch.
\<close>

function drain :: "('a list \<Rightarrow> 'm option \<times> 'a list) \<Rightarrow> 'a list \<Rightarrow> 'm list \<times> 'a list" where
  "drain nxt buf =
     (case nxt buf of
        (None, rest) \<Rightarrow> ([], rest)
      | (Some m, rest) \<Rightarrow>
          if length rest < length buf
          then (let (ms, rest') = drain nxt rest in (m # ms, rest'))
          else ([m], rest))"
  by pat_completeness auto
termination
  by (relation "measure (\<lambda>(nxt, buf). length buf)") auto

declare drain.simps [simp del]

section \<open>The contract of a handler that consumes messages\<close>

text \<open>
  A handler owns a state and a buffer; \<open>run\<close> consumes every complete message at
  the front of the buffer, acting on the state by \<open>step\<close>.  Whether a message is
  acceptable may depend on the state it meets.
\<close>

primrec valid_run :: "('s \<Rightarrow> 'm \<Rightarrow> bool) \<Rightarrow> ('m \<Rightarrow> 's \<Rightarrow> 's) \<Rightarrow> 's \<Rightarrow> 'm list \<Rightarrow> bool" where
  "valid_run valid step s [] = True"
| "valid_run valid step s (m # ms) = (valid s m \<and> valid_run valid step (step m s) ms)"

lemma valid_run_append:
  "valid_run valid step s (ms @ ms') \<longleftrightarrow>
     valid_run valid step s ms \<and> valid_run valid step (fold step ms s) ms'"
  by (induction ms arbitrary: s) auto

locale stream_handler =
  fixes enc :: "'m \<Rightarrow> 'a list"
    and valid :: "'s \<Rightarrow> 'm \<Rightarrow> bool"
    and step :: "'m \<Rightarrow> 's \<Rightarrow> 's"
    and run :: "'s \<times> 'a list \<Rightarrow> 's \<times> 'a list"
  assumes run_complete: "valid s m \<Longrightarrow> run (s, enc m @ rest) = run (step m s, rest)"
    and run_partial: "valid s m \<Longrightarrow> strict_prefix buf (enc m) \<Longrightarrow> run (s, buf) = (s, buf)"
    and run_empty: "run (s, []) = (s, [])"
    and enc_nonempty: "valid s m \<Longrightarrow> enc m \<noteq> []"
begin

abbreviation stream :: "'m list \<Rightarrow> 'a list" where
  "stream ms \<equiv> concat (map enc ms)"

text \<open>The buffer holds the undecoded beginning of the messages still to come.\<close>

definition waiting :: "'a list \<Rightarrow> 'm list \<Rightarrow> bool" where
  "waiting buf todo = (case todo of [] \<Rightarrow> buf = [] | m # _ \<Rightarrow> strict_prefix buf (enc m))"

lemma waiting_Nil: "valid_run valid step s ms \<Longrightarrow> waiting [] ms"
  by (cases ms) (auto simp: waiting_def strict_prefix_def dest: enc_nonempty [symmetric])

lemma waiting_end: "waiting (stream todo) todo \<Longrightarrow> todo = []"
  by (cases todo) (auto simp: waiting_def strict_prefix_def prefix_def)

lemma waiting_length:
  "waiting buf todo \<Longrightarrow> (\<And>m. m \<in> set todo \<Longrightarrow> length (enc m) \<le> k) \<Longrightarrow> length buf \<le> k"
  by (cases todo) (auto simp: waiting_def dest!: prefix_length_less intro: less_imp_le order_trans)

lemma run_waiting: "valid_run valid step s todo \<Longrightarrow> waiting buf todo \<Longrightarrow> run (s, buf) = (s, buf)"
  by (cases todo) (auto simp: waiting_def run_partial run_empty)

lemma run_prefix:
  assumes "valid_run valid step s ms" "buf @ rest = stream ms"
  shows "\<exists>done todo buf'. ms = done @ todo \<and> run (s, buf) = (fold step done s, buf') \<and>
           buf' @ rest = stream todo \<and> waiting buf' todo"
  using assms
proof (induction ms arbitrary: buf s)
  case Nil
  then show ?case by (auto simp: waiting_def run_empty)
next
  case (Cons m ms)
  then have m: "valid s m" and eq: "buf @ rest = enc m @ stream ms" by auto
  show ?case
  proof (cases "length (enc m) \<le> length buf")
    case True
    have "prefix (enc m) buf"
      by (rule prefix_append_shorter [where bs = rest]) (use eq True in auto)
    then obtain tail where tail: "buf = enc m @ tail" by (auto simp: prefix_def)
    with eq have "tail @ rest = stream ms" by simp
    from Cons.IH [OF _ this, of "step m s"] Cons.prems obtain "done" todo buf'
      where "ms = done @ todo" "run (step m s, tail) = (fold step done (step m s), buf')"
        "buf' @ rest = stream todo" "waiting buf' todo" by auto
    then show ?thesis
      by (intro exI [of _ "m # done"] exI [of _ todo] exI [of _ buf'])
         (simp add: tail run_complete [OF m])
  next
    case False
    from eq have "prefix buf (enc m) \<or> prefix (enc m) buf"
      by (metis prefixI prefix_same_cases)
    with False have "waiting buf (m # ms)"
      by (auto simp: waiting_def strict_prefix_def dest: prefix_length_le)
    with Cons.prems eq run_waiting [of s "m # ms" buf] show ?thesis
      by (intro exI [of _ "[]"] exI [of _ "m # ms"] exI [of _ buf]) auto
  qed
qed

text \<open>
  Chunks arrive through an operation \<open>rcv\<close> that appends to any buffer of at most
  \<open>k\<close> bytes, where \<open>k\<close> bounds a message, in every state that satisfies \<open>P\<close>.
\<close>

lemma run_chunks_prefix:
  assumes "valid_run valid step s ms" "buf @ concat cs @ rest = stream ms" "waiting buf ms" "P s"
    and small: "\<And>m. m \<in> set ms \<Longrightarrow> length (enc m) \<le> k"
    and rcv: "\<And>s b c. P s \<Longrightarrow> length b \<le> k \<Longrightarrow> c \<in> set cs \<Longrightarrow> rcv (s, b) c = run (s, b @ c)"
    and P: "\<And>s m. P s \<Longrightarrow> P (step m s)"
  shows "\<exists>done todo buf'. ms = done @ todo \<and> foldl rcv (s, buf) cs = (fold step done s, buf') \<and>
           buf' @ rest = stream todo \<and> waiting buf' todo"
  using assms
proof (induction cs arbitrary: buf ms s)
  case Nil
  then show ?case by (intro exI [of _ "[]"] exI [of _ ms] exI [of _ buf]) simp
next
  case (Cons c cs)
  have "length buf \<le> k" by (rule waiting_length [OF Cons.prems(3,5)])
  with Cons.prems(4,6) have c: "rcv (s, buf) c = run (s, buf @ c)" by simp
  from Cons.prems(2) have "(buf @ c) @ (concat cs @ rest) = stream ms" by simp
  from run_prefix [OF Cons.prems(1) this]
  obtain d1 todo1 b1 where d1: "ms = d1 @ todo1" "run (s, buf @ c) = (fold step d1 s, b1)"
    "b1 @ concat cs @ rest = stream todo1" "waiting b1 todo1" by auto
  have "P (fold step d1 s)"
    using Cons.prems(4,7) by (induction d1 arbitrary: s) auto
  from Cons.IH [OF _ d1(3,4) this] Cons.prems(1,5,6,7) d1(1)
  obtain d2 todo2 b2 where "todo1 = d2 @ todo2"
    "foldl rcv (fold step d1 s, b1) cs = (fold step d2 (fold step d1 s), b2)"
    "b2 @ rest = stream todo2" "waiting b2 todo2" by (auto simp: valid_run_append)
  with d1 c show ?case
    by (intro exI [of _ "d1 @ d2"] exI [of _ todo2] exI [of _ b2]) simp
qed

theorem run_chunks:
  assumes "valid_run valid step s ms" "concat cs = stream ms" "P s"
    and "\<And>m. m \<in> set ms \<Longrightarrow> length (enc m) \<le> k"
    and "\<And>s b c. P s \<Longrightarrow> length b \<le> k \<Longrightarrow> c \<in> set cs \<Longrightarrow> rcv (s, b) c = run (s, b @ c)"
    and "\<And>s m. P s \<Longrightarrow> P (step m s)"
  shows "foldl rcv (s, []) cs = (fold step ms s, [])"
proof -
  have "[] @ concat cs @ [] = stream ms" using assms(2) by simp
  from run_chunks_prefix [OF assms(1) this waiting_Nil [OF assms(1)] assms(3-6)]
  obtain "done" todo buf' where d: "ms = done @ todo" "foldl rcv (s, []) cs = (fold step done s, buf')"
    "buf' = stream todo" "waiting buf' todo" by auto
  then have "todo = []" using waiting_end by simp
  with d show ?thesis by simp
qed

end

section \<open>The contract of a decoder\<close>

locale stream_codec =
  fixes enc :: "'m \<Rightarrow> 'a list"
    and nxt :: "'a list \<Rightarrow> 'm option \<times> 'a list"
    and valid :: "'m \<Rightarrow> bool"
  assumes next_complete: "valid m \<Longrightarrow> nxt (enc m @ rest) = (Some m, rest)"
    and next_partial: "valid m \<Longrightarrow> strict_prefix buf (enc m) \<Longrightarrow> nxt buf = (None, buf)"
    and next_empty: "nxt [] = (None, [])"
    and code_nonempty: "valid m \<Longrightarrow> enc m \<noteq> []"
begin

lemma drain_complete:
  assumes "valid m"
  shows "drain nxt (enc m @ rest) = (let (ms, r) = drain nxt rest in (m # ms, r))"
proof -
  have "enc m \<noteq> []" using assms by (rule code_nonempty)
  then show ?thesis
    by (subst drain.simps) (simp add: next_complete [OF assms])
qed

lemma drain_partial:
  "valid m \<Longrightarrow> strict_prefix buf (enc m) \<Longrightarrow> drain nxt buf = ([], buf)"
  by (subst drain.simps) (simp add: next_partial)

lemma drain_empty: "drain nxt [] = ([], [])"
  by (subst drain.simps) (simp add: next_empty)

end

text \<open>A decoder is the handler that collects the messages.\<close>

definition collect :: "('a list \<Rightarrow> 'm option \<times> 'a list) \<Rightarrow> 'm list \<times> 'a list \<Rightarrow> 'm list \<times> 'a list" where
  "collect nxt ab = (case drain nxt (snd ab) of (ms, rest) \<Rightarrow> (fst ab @ ms, rest))"

sublocale stream_codec \<subseteq> collecting: stream_handler enc "\<lambda>_. valid" "\<lambda>m acc. acc @ [m]" "collect nxt"
proof unfold_locales
  fix s :: "'m list" and m :: 'm and rest :: "'a list"
  assume "valid m"
  then show "collect nxt (s, enc m @ rest) = collect nxt (s @ [m], rest)"
    by (simp add: collect_def drain_complete split: prod.splits)
qed (simp_all add: collect_def drain_partial drain_empty code_nonempty)

context stream_codec
begin

lemma fold_collect [simp]: "fold (\<lambda>m acc. acc @ [m]) ms acc = acc @ ms"
  by (induction ms arbitrary: acc) auto

lemma valid_run_collect [simp]:
  "valid_run (\<lambda>_. valid) (\<lambda>m acc. acc @ [m]) acc ms \<longleftrightarrow> list_all valid ms"
  by (induction ms arbitrary: acc) auto

lemma collect_chunks:
  assumes "list_all valid ms" "concat cs = concat (map enc ms)"
    and "\<And>m. m \<in> set ms \<Longrightarrow> length (enc m) \<le> k"
    and "\<And>acc b c. length b \<le> k \<Longrightarrow> c \<in> set cs \<Longrightarrow> rcv (acc, b) c = collect nxt (acc, b @ c)"
  shows "foldl rcv ([], []) cs = (ms, [])"
  using collecting.run_chunks [of "[]" ms cs "\<lambda>_. True" k rcv] assms by simp

end

end
