(* ===== verification/Iap2_Csm.thy ===== *)
theory Iap2_Csm
  imports Framing
begin

text \<open>
  Control-session messages (\<open>src/src/iap2/csm.cpp\<close>): the encoder of a message, the
  parameter encoding inside a payload and its lookup, the incremental decoder
  with its resynchronisation and its bounded buffer, and the verification of an
  MFi challenge response.  The OpenSSL calls are the fields of \<open>mfi_openssl\<close>.
\<close>

section \<open>Message identifiers\<close>

definition kStart :: u16 where "kStart = 0x4040"
definition kStartIdentification :: u16 where "kStartIdentification = 0x1d00"
definition kIdentificationInformation :: u16 where "kIdentificationInformation = 0x1d01"
definition kIdentificationAccepted :: u16 where "kIdentificationAccepted = 0x1d02"
definition kIdentificationRejected :: u16 where "kIdentificationRejected = 0x1d03"
definition kRequestAuthenticationCertificate :: u16 where
  "kRequestAuthenticationCertificate = 0xaa00"
definition kAuthenticationCertificate :: u16 where "kAuthenticationCertificate = 0xaa01"
definition kRequestAuthenticationChallengeResponse :: u16 where
  "kRequestAuthenticationChallengeResponse = 0xaa02"
definition kAuthenticationResponse :: u16 where "kAuthenticationResponse = 0xaa03"
definition kAuthenticationFailed :: u16 where "kAuthenticationFailed = 0xaa04"
definition kAuthenticationSucceeded :: u16 where "kAuthenticationSucceeded = 0xaa05"

lemmas csm_ids = kStartIdentification_def kIdentificationInformation_def
  kIdentificationAccepted_def kIdentificationRejected_def
  kRequestAuthenticationCertificate_def kAuthenticationCertificate_def
  kRequestAuthenticationChallengeResponse_def kAuthenticationResponse_def
  kAuthenticationFailed_def kAuthenticationSucceeded_def

record message =
  msg_id :: u16
  msg_payload :: bytes

section \<open>Encoding\<close>

text \<open>
  \<open>write_u16\<close> into a freshly sized vector followed by the copy of the payload is
  the concatenation of the fields.  A message that does not fit its 16-bit
  length is encoded as the empty vector.
\<close>

definition csm_encode :: "u16 \<Rightarrow> bytes \<Rightarrow> bytes" where
  "csm_encode mid payload =
     (if length payload > 65535 - 6 then []
      else u16_be kStart @ u16_be (of_nat (6 + length payload)) @ u16_be mid @ payload)"

definition encode_parameter :: "u16 \<Rightarrow> bytes \<Rightarrow> bytes" where
  "encode_parameter pid value = u16_be (of_nat (4 + length value)) @ u16_be pid @ value"

definition encode_bytes_parameter :: "u16 \<Rightarrow> u16 \<Rightarrow> bytes \<Rightarrow> bytes" where
  "encode_bytes_parameter mid pid value =
     (if length value > 65535 - 10 then []
      else csm_encode mid (encode_parameter pid value))"

section \<open>Looking a parameter up\<close>

function param_scan :: "bytes \<Rightarrow> u16 \<Rightarrow> nat \<Rightarrow> bytes option" where
  "param_scan payload pid offset =
     (if offset + 4 \<le> length payload then
        let len = unat (read_u16 payload offset);
            param_id = read_u16 payload (offset + 2)
        in if len < 4 \<or> offset + len > length payload then None
           else if param_id = pid then Some (take (len - 4) (drop (offset + 4) payload))
           else param_scan payload pid (offset + len)
      else None)"
  by pat_completeness auto
termination
  by (relation "measure (\<lambda>(payload, pid, offset). length payload - offset)") auto

declare param_scan.simps [simp del]

definition first_bytes_parameter :: "bytes \<Rightarrow> u16 \<Rightarrow> bytes option" where
  "first_bytes_parameter payload pid = param_scan payload pid 0"

section \<open>The decoder\<close>

definition kMaximumBufferSize :: nat where
  "kMaximumBufferSize = 128 * 1024"

definition decoder_push :: "bytes \<Rightarrow> bytes \<Rightarrow> bytes" where
  "decoder_push buffer bs =
     (if length bs > kMaximumBufferSize - min (length buffer) kMaximumBufferSize then []
      else buffer @ bs)"

text \<open>The inner loop: the index of the first start marker, or of the last byte.\<close>

fun scan_start :: "bytes \<Rightarrow> nat" where
  "scan_start (a # b # rest) =
     (if a \<noteq> ucast (drop_bit 8 kStart) \<or> b \<noteq> ucast (kStart AND 0xff)
      then Suc (scan_start (b # rest)) else 0)"
| "scan_start _ = 0"

function decoder_next :: "bytes \<Rightarrow> message option \<times> bytes" where
  "decoder_next buffer =
     (if length buffer \<ge> 6 then
        let start = scan_start buffer in
        if start + 1 = length buffer then (None, drop start buffer)
        else if start \<noteq> 0 then decoder_next (drop start buffer)
        else
          let len = unat (read_u16 buffer 2) in
          if len < 6 then decoder_next (drop 1 buffer)
          else if length buffer < len then (None, buffer)
          else (Some \<lparr>msg_id = read_u16 buffer 4, msg_payload = take (len - 6) (drop 6 buffer)\<rparr>,
                drop len buffer)
      else (None, buffer))"
  by pat_completeness auto
termination
  by (relation "measure length") auto

declare decoder_next.simps [simp del]

section \<open>Verifying the MFi challenge response\<close>

record ('p7, 'x509, 'pkey) mfi_openssl =
  d2i_PKCS7 :: "bytes \<Rightarrow> 'p7 option"
  PKCS7_type_is_signed :: "'p7 \<Rightarrow> bool"
  sign_certificates :: "'p7 \<Rightarrow> 'x509 list"
  PKCS7_get0_signers :: "'p7 \<Rightarrow> 'x509 list"
  X509_get_pubkey :: "'x509 \<Rightarrow> 'pkey option"
  is_EVP_PKEY_RSA :: "'pkey \<Rightarrow> bool"
  verify_recover_pkcs1 :: "'pkey \<Rightarrow> bytes \<Rightarrow> bytes option"

definition kSha1DigestInfoPrefix :: bytes where
  "kSha1DigestInfoPrefix =
     [48, 33, 48, 9, 6, 5, 43, 14, 3, 2, 26, 5, 0, 4, 20]"

definition mfi_signer :: "('p7, 'x509, 'pkey) mfi_openssl \<Rightarrow> 'p7 \<Rightarrow> 'x509 option" where
  "mfi_signer ssl bundle =
     (let certificates = (if PKCS7_type_is_signed ssl bundle then sign_certificates ssl bundle else []);
          signers = (if PKCS7_type_is_signed ssl bundle then PKCS7_get0_signers ssl bundle else [])
      in case signers of s # _ \<Rightarrow> Some s
         | [] \<Rightarrow> (case certificates of c # _ \<Rightarrow> Some c | [] \<Rightarrow> None))"

definition verify_mfi_v2_signature ::
    "('p7, 'x509, 'pkey) mfi_openssl \<Rightarrow> bytes \<Rightarrow> bytes \<Rightarrow> bytes \<Rightarrow> bool" where
  "verify_mfi_v2_signature ssl challenge signature certificate_der =
     (case d2i_PKCS7 ssl certificate_der of None \<Rightarrow> False
      | Some bundle \<Rightarrow>
        (case mfi_signer ssl bundle of None \<Rightarrow> False
         | Some signer \<Rightarrow>
           (case X509_get_pubkey ssl signer of None \<Rightarrow> False
            | Some key \<Rightarrow>
              if \<not> is_EVP_PKEY_RSA ssl key then False
              else
                (case verify_recover_pkcs1 ssl key signature of None \<Rightarrow> False
                 | Some recovered \<Rightarrow>
                   let raw_challenge = (recovered = challenge);
                       sha1_digest_info =
                         (length recovered = length kSha1DigestInfoPrefix + length challenge
                          \<and> take (length kSha1DigestInfoPrefix) recovered = kSha1DigestInfoPrefix
                          \<and> drop (length kSha1DigestInfoPrefix) recovered = challenge)
                   in raw_challenge \<or> sha1_digest_info))))"

section \<open>The decoder returns what was encoded\<close>

definition encode_message :: "message \<Rightarrow> bytes" where
  "encode_message m = csm_encode (msg_id m) (msg_payload m)"

definition message_fits :: "message \<Rightarrow> bool" where
  "message_fits m = (length (msg_payload m) \<le> 65535 - 6)"

lemma encode_message_eq:
  "message_fits m \<Longrightarrow> encode_message m =
     0x40 # 0x40 # u16_be (of_nat (6 + length (msg_payload m))) @ u16_be (msg_id m) @ msg_payload m"
  by (simp add: encode_message_def message_fits_def csm_encode_def kStart_def u16_be_def)

lemma length_encode_message:
  "message_fits m \<Longrightarrow> length (encode_message m) = 6 + length (msg_payload m)"
  by (simp add: encode_message_eq)

lemma kStart_bytes [simp]:
  "ucast (drop_bit 8 kStart) = (0x40 :: byte)" "ucast (kStart AND 0xff) = (0x40 :: byte)"
  by (simp_all add: kStart_def)

lemma unat_of_nat_u16 [simp]: "n < 65536 \<Longrightarrow> unat (of_nat n :: u16) = n"
  by (simp add: unat_of_nat)

lemma decoder_next_encoded:
  assumes "message_fits m"
  shows "decoder_next (encode_message m @ rest) = (Some m, rest)"
proof -
  let ?n = "length (msg_payload m)"
  let ?buf = "encode_message m @ rest"
  have n: "6 + ?n < 65536" using assms by (simp add: message_fits_def)
  have "read_u16 ?buf 2 = of_nat (6 + ?n)" and mid: "read_u16 ?buf 4 = msg_id m"
    using read_u16_shift [of 2 "[0x40, 0x40]"]
      read_u16_shift [of 4 "0x40 # 0x40 # u16_be (of_nat (6 + ?n))"]
    by (simp_all add: encode_message_eq [OF assms])
  then have len: "unat (read_u16 ?buf 2) = 6 + ?n" using unat_of_nat_u16 [OF n] by simp
  have start: "scan_start ?buf = 0" by (simp add: encode_message_eq [OF assms])
  have "6 + ?n \<le> length ?buf" "drop 6 ?buf = msg_payload m @ rest" "drop (6 + ?n) ?buf = rest"
    by (simp_all add: encode_message_eq [OF assms] u16_be_def numeral_eq_Suc)
  then show ?thesis
    by (subst decoder_next.simps) (simp add: Let_def start len mid del: drop_append length_append)
qed

lemma decoder_next_partial:
  assumes "message_fits m" "strict_prefix buf (encode_message m)"
  shows "decoder_next buf = (None, buf)"
proof (cases "length buf \<ge> 6")
  case False
  then show ?thesis by (subst decoder_next.simps) simp
next
  case True
  let ?n = "length (msg_payload m)"
  have n: "6 + ?n < 65536" using assms by (simp add: message_fits_def)
  from assms(2) obtain more where more: "encode_message m = buf @ more"
    by (auto simp: strict_prefix_def prefix_def)
  have "read_u16 (buf @ more) 2 = of_nat (6 + ?n)"
    using read_u16_shift [of 2 "[0x40, 0x40]"]
    by (simp flip: more add: encode_message_eq [OF assms(1)])
  with True have "read_u16 buf 2 = of_nat (6 + ?n)"
    by (simp add: read_u16_append)
  then have len: "unat (read_u16 buf 2) = 6 + ?n" using unat_of_nat_u16 [OF n] by simp
  from True obtain a b c where buf: "buf = a # b # c"
    by (auto simp: Suc_le_length_iff numeral_eq_Suc)
  with more have "a = 0x40" "b = 0x40" by (simp_all add: encode_message_eq [OF assms(1)])
  with buf have start: "scan_start buf = 0" by simp
  have "length buf < 6 + ?n"
    using prefix_length_less [OF assms(2)] by (simp add: length_encode_message [OF assms(1)])
  then show ?thesis
    using True n by (subst decoder_next.simps) (simp add: Let_def start len)
qed

interpretation csm: stream_codec encode_message decoder_next message_fits
proof unfold_locales
  show "decoder_next [] = (None, [])" by (simp add: decoder_next.simps)
next
  fix m assume "message_fits m"
  then show "encode_message m \<noteq> []" by (simp add: encode_message_eq)
qed (simp_all add: decoder_next_encoded decoder_next_partial)

text \<open>
  The decoder as its clients use it: push a chunk (which empties the buffer when
  the chunk does not fit), then call \<open>next\<close> until it has nothing to return.
\<close>

definition decoder_feed :: "bytes list \<Rightarrow> message list \<times> bytes" where
  "decoder_feed cs = foldl (\<lambda>(ms, buf) c. collect decoder_next (ms, decoder_push buf c)) ([], []) cs"

lemma decoder_push_fits:
  "length buf \<le> 65535 \<Longrightarrow> length c \<le> 65536 \<Longrightarrow> decoder_push buf c = buf @ c"
  by (simp add: decoder_push_def kMaximumBufferSize_def min_def)

lemma decoder_feed_stream:
  assumes "list_all message_fits ms" "concat cs = concat (map encode_message ms)"
    "list_all (\<lambda>c. length c \<le> 65536) cs"
  shows "decoder_feed cs = (ms, [])"
  unfolding decoder_feed_def using assms
  by (intro csm.collect_chunks [where k = 65535])
     (auto simp: list_all_iff length_encode_message message_fits_def decoder_push_fits)

section \<open>Bounds of the decoder's buffer\<close>

lemma decoder_next_cases:
  obtains (stop) k where "decoder_next buf = (None, drop k buf)"
  | (skip) k where "0 < k" "k \<le> length buf" "decoder_next buf = decoder_next (drop k buf)"
  | (found) len where "6 \<le> len" "len \<le> length buf"
      "decoder_next buf =
         (Some \<lparr>msg_id = read_u16 buf 4, msg_payload = take (len - 6) (drop 6 buf)\<rparr>, drop len buf)"
proof -
  have scan: "scan_start buf \<le> length buf" by (induction buf rule: scan_start.induct) auto
  show thesis
    using stop [of 0] stop [of "scan_start buf"] skip [of "scan_start buf"] skip [of 1]
      found [of "unat (read_u16 buf 2)"] scan decoder_next.simps [of buf]
    by (simp add: Let_def not_less split: if_splits)
qed

lemma decoder_next_length:
  "decoder_next buf = (r, rest) \<Longrightarrow>
     length rest + (case r of None \<Rightarrow> 0 | Some m \<Rightarrow> 6 + length (msg_payload m)) \<le> length buf"
proof (induction "length buf" arbitrary: buf r rest rule: less_induct)
  case less
  show ?case
  proof (cases buf rule: decoder_next_cases)
    case (skip k)
    then have "length (drop k buf) < length buf" by simp
    from less.hyps [OF this, of r rest] less.prems skip show ?thesis by simp
  qed (use less.prems in \<open>auto\<close>)
qed

lemma drain_decoder_length: "length (snd (drain decoder_next buf)) \<le> length buf"
proof (induction "length buf" arbitrary: buf rule: less_induct)
  case less
  obtain r rest where res: "decoder_next buf = (r, rest)" by force
  from decoder_next_length [OF res] less [of rest] show ?case
    by (subst drain.simps) (fastforce simp: res split: prod.splits option.splits)
qed

lemma decoder_push_bound: "length buf \<le> kMaximumBufferSize \<Longrightarrow> length (decoder_push buf c) \<le> kMaximumBufferSize"
  by (auto simp: decoder_push_def)

lemma decoder_feed_bound: "length (snd (decoder_feed cs)) \<le> kMaximumBufferSize"
proof -
  have "length b \<le> kMaximumBufferSize \<Longrightarrow>
      length (snd (foldl (\<lambda>(ms, buf) c. collect decoder_next (ms, decoder_push buf c)) (a, b) cs))
        \<le> kMaximumBufferSize" for a b
  proof (induction cs arbitrary: a b)
    case (Cons c cs)
    have "length (snd (drain decoder_next (decoder_push b c))) \<le> kMaximumBufferSize"
      using decoder_push_bound [OF Cons.prems] drain_decoder_length le_trans by blast
    then show ?case using Cons.IH by (auto simp: collect_def split: prod.splits)
  qed simp
  then show ?thesis by (simp add: decoder_feed_def)
qed

section \<open>Parameters\<close>

lemma length_encode_parameter [simp]: "length (encode_parameter pid v) = 4 + length v"
  by (simp add: encode_parameter_def)

lemma param_scan_step:
  assumes "4 + length v < 65536"
  shows "param_scan (pre @ encode_parameter pid v @ rest) key (length pre) =
     (if pid = key then Some v
      else param_scan (pre @ encode_parameter pid v @ rest) key (length (pre @ encode_parameter pid v)))"
proof -
  let ?p = "pre @ encode_parameter pid v @ rest"
  have "read_u16 ?p (length pre) = of_nat (4 + length v)"
    by (simp add: read_u16_shift encode_parameter_def)
  then have len: "unat (read_u16 ?p (length pre)) = 4 + length v"
    using unat_of_nat_u16 [OF assms] by simp
  have id: "read_u16 ?p (length pre + 2) = pid"
    using read_u16_shift [of "length pre + 2" "pre @ u16_be (of_nat (4 + length v))" "u16_be pid @ v @ rest"]
    by (simp add: encode_parameter_def)
  have "drop (length pre + 4) ?p = v @ rest"
    by (simp add: encode_parameter_def u16_be_def)
  then show ?thesis
    using len id
    by (subst param_scan.simps) (cases "pid = key"; simp add: Let_def del: drop_append add_2_eq_Suc')
qed

lemma first_bytes_parameter_scan:
  assumes "list_all (\<lambda>(k, v). 4 + length v < 65536) ps"
  shows "param_scan (pre @ concat (map (\<lambda>(k, v). encode_parameter k v) ps)) key (length pre) = map_of ps key"
  using assms
proof (induction ps arbitrary: pre)
  case Nil
  then show ?case by (subst param_scan.simps) simp
next
  case (Cons p ps)
  obtain k v where p: "p = (k, v)" by force
  with Cons.prems Cons.IH [of "pre @ encode_parameter k v"] show ?case
    by (simp add: param_scan_step del: length_append)
qed

lemma first_bytes_parameter_map_of:
  "list_all (\<lambda>(k, v). 4 + length v < 65536) ps \<Longrightarrow>
     first_bytes_parameter (concat (map (\<lambda>(k, v). encode_parameter k v) ps)) key = map_of ps key"
  using first_bytes_parameter_scan [of ps "[]"] by (simp add: first_bytes_parameter_def)

section \<open>Resynchronisation\<close>

lemma scan_start_junk:
  "0x40 \<notin> set junk \<Longrightarrow> scan_start (junk @ 0x40 # 0x40 # bs) = length junk"
proof (induction junk)
  case (Cons x junk)
  then show ?case by (cases "junk @ 0x40 # 0x40 # bs") auto
qed simp

lemma decoder_next_skips_junk:
  assumes "message_fits m" "0x40 \<notin> set junk"
  shows "decoder_next (junk @ encode_message m @ rest) = (Some m, rest)"
proof (cases "junk = []")
  case True
  then show ?thesis by (simp add: decoder_next_encoded [OF assms(1)])
next
  case False
  let ?buf = "junk @ encode_message m @ rest"
  have "scan_start ?buf = length junk"
    using scan_start_junk [OF assms(2)] by (simp add: encode_message_eq [OF assms(1)])
  moreover have "6 \<le> length ?buf" "Suc (length junk) \<noteq> length ?buf"
    by (simp_all add: length_encode_message [OF assms(1)])
  ultimately have "decoder_next ?buf = decoder_next (encode_message m @ rest)"
    using False by (subst decoder_next.simps) (simp add: Let_def del: length_append)
  then show ?thesis by (simp add: decoder_next_encoded [OF assms(1)])
qed

section \<open>Properties\<close>

text \<open>
  However the byte stream of a control session is cut into chunks (of at
  most 64 KiB, so that a chunk fits beside a partial message), pushing the
  chunks and draining the decoder after each returns exactly the encoded
  messages, in order, and leaves the buffer empty.
\<close>

theorem csm_stream_decoded:
  assumes "list_all message_fits ms" "concat cs = concat (map encode_message ms)"
    "list_all (\<lambda>c. length c \<le> 65536) cs"
  shows "decoder_feed cs = (ms, [])"
  using assms by (rule decoder_feed_stream)

theorem csm_stream_decoded_witness:
  "decoder_feed [[0x40, 0x40, 0x00], [0x07, 0x1d, 0x02, 0x2a]] =
     ([\<lparr>msg_id = kIdentificationAccepted, msg_payload = [0x2a]\<rparr>], [])"
  by (rule csm_stream_decoded)
     (simp_all add: message_fits_def encode_message_def csm_encode_def csm_ids kStart_def u16_be_def)

text \<open>
  Bytes before the next start marker are skipped; the message behind them is
  returned whole and the bytes that follow it are kept.
\<close>

theorem csm_resynchronises:
  assumes "message_fits m" "0x40 \<notin> set junk"
  shows "decoder_next (junk @ encode_message m @ rest) = (Some m, rest)"
  using assms by (rule decoder_next_skips_junk)

theorem csm_resynchronises_witness:
  "decoder_next ([1, 2] @ encode_message \<lparr>msg_id = 7, msg_payload = [0x40]\<rparr> @ [9]) =
     (Some \<lparr>msg_id = 7, msg_payload = [0x40]\<rparr>, [9])"
  by (rule csm_resynchronises) (simp_all add: message_fits_def)

text \<open>
  In a payload made of well-formed parameters, \<open>first_bytes_parameter\<close> is the
  lookup of the first parameter with the given identifier.
\<close>

theorem csm_parameter_lookup:
  assumes "list_all (\<lambda>(k, v). 4 + length v < 65536) ps"
  shows "first_bytes_parameter (concat (map (\<lambda>(k, v). encode_parameter k v) ps)) key = map_of ps key"
  using assms by (rule first_bytes_parameter_map_of)

theorem csm_parameter_lookup_witness:
  "first_bytes_parameter (concat (map (\<lambda>(k, v). encode_parameter k v) [(1, [5]), (0, [6, 7])])) 0 = Some [6, 7]"
  using csm_parameter_lookup [of "[(1, [5]), (0, [6, 7])]" 0] by simp

text \<open>
  Whatever is received, the decoder's buffer never exceeds 128 KiB.
\<close>

theorem csm_buffer_bounded: "length (snd (decoder_feed cs)) \<le> kMaximumBufferSize"
  by (rule decoder_feed_bound)

text \<open>
  An MFi signature is accepted exactly when the certificate bundle names an
  RSA signer whose key recovers the challenge from the signature, either raw or
  behind the SHA-1 \<open>DigestInfo\<close> prefix.
\<close>

theorem mfi_signature_accepted_iff:
  "verify_mfi_v2_signature ssl challenge signature certificate \<longleftrightarrow>
     (\<exists>bundle signer key recovered.
        d2i_PKCS7 ssl certificate = Some bundle \<and> mfi_signer ssl bundle = Some signer \<and>
        X509_get_pubkey ssl signer = Some key \<and> is_EVP_PKEY_RSA ssl key \<and>
        verify_recover_pkcs1 ssl key signature = Some recovered \<and>
        recovered \<in> {challenge, kSha1DigestInfoPrefix @ challenge})"
proof -
  have "(length r = length p + length c \<and> take (length p) r = p \<and> drop (length p) r = c) \<longleftrightarrow> r = p @ c"
    for r p c :: bytes by (metis append_eq_conv_conj append_take_drop_id length_append)
  then show ?thesis
    by (auto simp: verify_mfi_v2_signature_def Let_def split: option.splits)
qed

end
