(* ===== verification/Iap2_Link.thy ===== *)
theory Iap2_Link
  imports Framing
begin

text \<open>
  The phone side of the iAP2 link layer (\<open>src/src/iap2/link_layer.cpp\<close>): packet
  headers and link synchronisation payloads with their checksums, and
  \<open>PhoneLink\<close> with its operations \<open>start\<close>, \<open>receive\<close>, \<open>tick\<close> and
  \<open>send_control\<close>.  A link is a record of the members of the class except the
  receive buffer, which travels beside it, since the control-data callback can
  change the former (by calling \<open>send_control\<close>) and not the latter.  The
  transport, the clock and the callback are the fields of \<open>link_env\<close>; the
  component \<open>lk_world\<close> is the state they act on.  Calls that only write a log line
  are left out, \<open>lk_detect_dump_logged\<close> is kept.
\<close>

section \<open>Data\<close>

type_synonym time_point = nat  \<comment> \<open>nanoseconds on the steady clock\<close>

definition milliseconds :: "nat \<Rightarrow> time_point" where
  "milliseconds n = n * 1000000"

definition kMarker :: bytes where "kMarker = [0xff, 0x55, 0x02, 0x00, 0xee, 0x10]"
definition kControlSyn :: byte where "kControlSyn = 0x80"
definition kControlAck :: byte where "kControlAck = 0x40"
definition kControlEak :: byte where "kControlEak = 0x20"
definition kControlRst :: byte where "kControlRst = 0x10"
definition kControlSessionId :: byte where "kControlSessionId = 10"
definition kPacketStart :: u16 where "kPacketStart = 0xff5a"

lemmas control_defs = kControlSyn_def kControlAck_def kControlEak_def kControlRst_def

datatype link_state = Detect | Negotiate | Normal | Dead

record session =
  sess_id :: byte
  sess_type :: byte
  sess_version :: byte

record lsp =
  max_outgoing :: byte
  max_len :: u16
  retransmission_timeout :: u16
  ack_timeout :: u16
  max_retransmissions :: byte
  max_ack :: byte
  sessions :: "session list"

definition default_lsp :: lsp where
  "default_lsp =
     \<lparr>max_outgoing = 4, max_len = 65535, retransmission_timeout = 0, ack_timeout = 0,
      max_retransmissions = 0, max_ack = 0,
      sessions = [\<lparr>sess_id = kControlSessionId, sess_type = 0, sess_version = 2\<rparr>,
                  \<lparr>sess_id = 11, sess_type = 2, sess_version = 1\<rparr>,
                  \<lparr>sess_id = 12, sess_type = 1, sess_version = 2\<rparr>]\<rparr>"

record header =
  hdr_length :: u16
  hdr_control :: byte
  hdr_sequence :: byte
  hdr_acknowledgement :: byte
  hdr_session_id :: byte

section \<open>Checksums, headers and link synchronisation payloads\<close>

definition byte_sum :: "bytes \<Rightarrow> byte" where
  "byte_sum bs = foldl (+) 0 bs"

definition checksum :: "bytes \<Rightarrow> byte" where
  "checksum bs = 0 - byte_sum bs"

definition has_valid_checksum :: "bytes \<Rightarrow> bool" where
  "has_valid_checksum bs = (byte_sum bs = 0)"

definition encode_session :: "session \<Rightarrow> bytes" where
  "encode_session s = [sess_id s, sess_type s, sess_version s]"

definition encode_lsp :: "lsp \<Rightarrow> bytes" where
  "encode_lsp l =
     [1, max_outgoing l] @ u16_be (max_len l) @ u16_be (retransmission_timeout l) @
     u16_be (ack_timeout l) @ [max_retransmissions l, max_ack l] @
     concat (map encode_session (sessions l))"

fun decode_sessions :: "bytes \<Rightarrow> session list" where
  "decode_sessions (a # b # c # rest) =
     \<lparr>sess_id = a, sess_type = b, sess_version = c\<rparr> # decode_sessions rest"
| "decode_sessions _ = []"

definition decode_lsp :: "bytes \<Rightarrow> lsp option" where
  "decode_lsp bs =
     (if length bs < 10 \<or> bs ! 0 \<noteq> 1 \<or> (length bs - 10) mod 3 \<noteq> 0 then None
      else
        let maximum_length = read_u16 bs 2 in
        if maximum_length < 9 then None
        else Some \<lparr>max_outgoing = bs ! 1, max_len = maximum_length,
                   retransmission_timeout = read_u16 bs 4, ack_timeout = read_u16 bs 6,
                   max_retransmissions = bs ! 8, max_ack = bs ! 9,
                   sessions = decode_sessions (drop 10 bs)\<rparr>)"

definition encode_header :: "header \<Rightarrow> bytes" where
  "encode_header h =
     (let fields = u16_be kPacketStart @ u16_be (hdr_length h) @
        [hdr_control h, hdr_sequence h, hdr_acknowledgement h, hdr_session_id h]
      in fields @ [checksum fields])"

definition decode_header :: "bytes \<Rightarrow> header option" where
  "decode_header bs =
     (if \<not> has_valid_checksum bs \<or> read_u16 bs 0 \<noteq> kPacketStart then None
      else
        let len = read_u16 bs 2 in
        if len < 9 then None
        else Some \<lparr>hdr_length = len, hdr_control = bs ! 4, hdr_sequence = bs ! 5,
                   hdr_acknowledgement = bs ! 6, hdr_session_id = bs ! 7\<rparr>)"

section \<open>The link\<close>

record pending_message =
  pm_sequence :: byte
  pm_frame :: bytes
  pm_deadline :: time_point
  pm_retries :: nat

record 'w link =
  lk_state :: link_state
  lk_detect_dump_logged :: bool
  lk_lsp :: lsp
  lk_sent_sequence :: byte
  lk_peer_control_session_id :: byte
  lk_last_received_sequence :: byte
  lk_last_sequence_valid :: bool
  lk_next_marker :: time_point
  lk_next_syn :: time_point
  lk_pending :: "pending_message list"
  lk_syn_sequence :: byte
  lk_syn_outstanding :: bool
  lk_world :: 'w

record 'w link_env =
  send_fn :: "bytes \<Rightarrow> 'w \<Rightarrow> bool \<times> 'w"
  steady_now :: "'w \<Rightarrow> time_point"
  log_set :: bool
  control_data :: "(bytes \<Rightarrow> 'w link \<Rightarrow> 'w link) option"

definition new_link :: "'w \<Rightarrow> 'w link" where
  "new_link w =
     \<lparr>lk_state = Detect, lk_detect_dump_logged = False, lk_lsp = default_lsp, lk_sent_sequence = 99,
      lk_peer_control_session_id = kControlSessionId, lk_last_received_sequence = 0,
      lk_last_sequence_valid = False, lk_next_marker = 0, lk_next_syn = 0, lk_pending = [],
      lk_syn_sequence = 0, lk_syn_outstanding = False, lk_world = w\<rparr>"

text \<open>Calling the transport: its answer, and the link with the new world.\<close>

definition transmit :: "'w link_env \<Rightarrow> bytes \<Rightarrow> 'w link \<Rightarrow> bool \<times> 'w link" where
  "transmit env frame s =
     (let (ok, w) = send_fn env frame (lk_world s) in (ok, s\<lparr>lk_world := w\<rparr>))"

definition encode_packet :: "bytes \<Rightarrow> byte \<Rightarrow> byte \<Rightarrow> byte \<Rightarrow> 'w link \<Rightarrow> bytes" where
  "encode_packet payload sequence control session_id s =
     (if payload \<noteq> [] \<and> length payload > 65535 - 10 then []
      else encode_header
             \<lparr>hdr_length = of_nat (if payload = [] then 9 else length payload + 10),
              hdr_control = control, hdr_sequence = sequence,
              hdr_acknowledgement = lk_last_received_sequence s, hdr_session_id = session_id\<rparr>
           @ (if payload = [] then [] else payload @ [checksum payload]))"

definition write_packet ::
    "'w link_env \<Rightarrow> bytes \<Rightarrow> byte \<Rightarrow> byte \<Rightarrow> byte \<Rightarrow> 'w link \<Rightarrow> 'w link" where
  "write_packet env payload sequence control session_id s =
     (let packet = encode_packet payload sequence control session_id s in
      if packet = [] then s\<lparr>lk_state := Dead\<rparr>
      else let (ok, s') = transmit env packet s in
           if ok then s' else s'\<lparr>lk_state := Dead\<rparr>)"

definition send_marker :: "'w link_env \<Rightarrow> 'w link \<Rightarrow> bool \<times> 'w link" where
  "send_marker env s =
     (let (ok, s') = transmit env kMarker s in
      if ok then (True, s') else (False, s'\<lparr>lk_state := Dead\<rparr>))"

definition send_syn :: "'w link_env \<Rightarrow> time_point \<Rightarrow> bool \<Rightarrow> 'w link \<Rightarrow> 'w link" where
  "send_syn env now acknowledge_peer s =
     (if lk_state s \<noteq> Negotiate then s
      else
        let payload = encode_lsp (lk_lsp s);
            s1 = (if \<not> lk_syn_outstanding s
                  then s\<lparr>lk_sent_sequence := lk_sent_sequence s + 1,
                         lk_syn_sequence := lk_sent_sequence s + 1, lk_syn_outstanding := True\<rparr>
                  else s);
            s2 = write_packet env payload (lk_syn_sequence s1)
                   (kControlSyn OR (if acknowledge_peer then kControlAck else 0)) 0 s1
        in s2\<lparr>lk_next_syn := now + milliseconds 500\<rparr>)"

definition send_ack :: "'w link_env \<Rightarrow> 'w link \<Rightarrow> 'w link" where
  "send_ack env s = write_packet env [] (lk_sent_sequence s) kControlAck 0 s"

definition start :: "'w link_env \<Rightarrow> time_point \<Rightarrow> 'w link \<Rightarrow> 'w link" where
  "start env now s =
     (if lk_state s \<noteq> Detect then s
      else let (ok, s') = send_marker env s in
           if \<not> ok then s' else send_syn env now False (s'\<lparr>lk_state := Negotiate\<rparr>))"

definition send_control :: "'w link_env \<Rightarrow> bytes \<Rightarrow> 'w link \<Rightarrow> bool \<times> 'w link" where
  "send_control env payload s =
     (if lk_state s \<noteq> Normal \<or> payload = [] \<or> max_len (lk_lsp s) < 10
         \<or> length payload > unat (max_len (lk_lsp s)) - 10 then (False, s)
      else if length (lk_pending s) \<ge> unat (max_outgoing (lk_lsp s)) then (False, s)
      else
        let s1 = s\<lparr>lk_sent_sequence := lk_sent_sequence s + 1\<rparr>;
            frame = encode_packet payload (lk_sent_sequence s1) kControlAck
                      (lk_peer_control_session_id s1) s1;
            (ok, s2) = (if frame = [] then (False, s1) else transmit env frame s1)
        in if \<not> ok then (False, s2\<lparr>lk_state := Dead, lk_pending := []\<rparr>)
           else
             let message = \<lparr>pm_sequence = lk_sent_sequence s1, pm_frame = frame,
                   pm_deadline = steady_now env (lk_world s2)
                     + milliseconds (unat (retransmission_timeout (lk_lsp s2))),
                   pm_retries = 0\<rparr>
             in (True, s2\<lparr>lk_pending := lk_pending s2 @ [message]\<rparr>))"

section \<open>Receiving\<close>

text \<open>
  \<open>static_cast<std::int8_t>(acknowledgement - sequence) >= 0\<close>: the signed
  reading of the wrapped difference.
\<close>

definition acknowledged_by :: "byte \<Rightarrow> byte \<Rightarrow> bool" where
  "acknowledged_by sequence acknowledgement = (sint (acknowledgement - sequence) \<ge> 0)"

definition clamp_lsp :: "lsp \<Rightarrow> lsp" where
  "clamp_lsp l = l\<lparr>retransmission_timeout := max (retransmission_timeout l) 100,
     max_outgoing := (if max_outgoing l < 1 then 1 else if 128 < max_outgoing l then 128
                      else max_outgoing l),
     max_retransmissions := max (max_retransmissions l) 1,
     ack_timeout := max (ack_timeout l) 50\<rparr>"

definition handle_syn ::
    "'w link_env \<Rightarrow> header \<Rightarrow> bytes \<Rightarrow> time_point \<Rightarrow> 'w link \<Rightarrow> 'w link" where
  "handle_syn env h payload now s =
     (if lk_state s = Normal then send_ack env s
      else
        case decode_lsp payload of
          None \<Rightarrow> s
        | Some received_lsp \<Rightarrow>
            let negotiated = clamp_lsp received_lsp;
                s1 = s\<lparr>lk_lsp := negotiated\<rparr>;
                s2 = (case find (\<lambda>x. sess_type x = 0) (sessions negotiated) of
                        Some control_session \<Rightarrow>
                          s1\<lparr>lk_peer_control_session_id := sess_id control_session\<rparr>
                      | None \<Rightarrow> s1);
                s3 = s2\<lparr>lk_last_sequence_valid := True,
                        lk_last_received_sequence := hdr_sequence h\<rparr>
            in send_syn env now True s3)"

definition run_callback :: "'w link_env \<Rightarrow> bytes \<Rightarrow> 'w link \<Rightarrow> 'w link" where
  "run_callback env payload s =
     (case control_data env of Some callback \<Rightarrow> callback payload s | None \<Rightarrow> s)"

definition handle_data :: "'w link_env \<Rightarrow> header \<Rightarrow> bytes \<Rightarrow> 'w link \<Rightarrow> 'w link" where
  "handle_data env h payload s =
     (if lk_state s \<noteq> Normal then s
      else if lk_last_sequence_valid s \<and> hdr_sequence h \<noteq> lk_last_received_sequence s
              \<and> hdr_sequence h - lk_last_received_sequence s > 128 then send_ack env s
      else if lk_last_sequence_valid s
              \<and> hdr_sequence h - lk_last_received_sequence s > 1 then send_ack env s
      else if lk_last_sequence_valid s \<and> hdr_sequence h = lk_last_received_sequence s
           then send_ack env s
      else
        let s1 = s\<lparr>lk_last_sequence_valid := True, lk_last_received_sequence := hdr_sequence h\<rparr>;
            s2 = (if hdr_session_id h = lk_peer_control_session_id s1
                  then run_callback env payload s1 else s1)
        in send_ack env s2)"

definition acknowledge :: "header \<Rightarrow> 'w link \<Rightarrow> 'w link" where
  "acknowledge h s =
     (if hdr_control h AND kControlAck \<noteq> 0 \<and> lk_pending s \<noteq> []
      then s\<lparr>lk_pending := filter (\<lambda>m. \<not> acknowledged_by (pm_sequence m) (hdr_acknowledgement h))
                            (lk_pending s)\<rparr>
      else s)"

definition handle_syn_ack :: "header \<Rightarrow> 'w link \<Rightarrow> 'w link" where
  "handle_syn_ack h s =
     (if lk_syn_outstanding s \<and> acknowledged_by (lk_syn_sequence s) (hdr_acknowledgement h)
      then s\<lparr>lk_syn_outstanding := False, lk_state := Normal\<rparr> else s)"

definition handle_packet ::
    "'w link_env \<Rightarrow> header \<Rightarrow> bytes \<Rightarrow> time_point \<Rightarrow> 'w link \<times> bytes \<Rightarrow> 'w link \<times> bytes" where
  "handle_packet env h payload now sb =
     (let (s, buffer) = sb in
      if hdr_control h AND kControlRst \<noteq> 0
      then (s\<lparr>lk_state := Dead, lk_pending := [], lk_syn_outstanding := False\<rparr>, [])
      else
        let s1 = acknowledge h s in
        if hdr_control h AND kControlSyn \<noteq> 0 then (handle_syn env h payload now s1, buffer)
        else if hdr_control h AND kControlAck \<noteq> 0 \<and> lk_state s1 = Negotiate
        then (handle_syn_ack h s1, buffer)
        else if hdr_control h AND NOT kControlAck = 0 \<and> payload \<noteq> []
        then (handle_data env h payload s1, buffer)
        else (s1, buffer))"

lemma snd_handle_packet:
  "snd (handle_packet env h payload now (s, buffer)) = (if hdr_control h AND kControlRst \<noteq> 0 then [] else buffer)"
  by (simp add: handle_packet_def Let_def)

lemma decode_header_length: "decode_header bs = Some h \<Longrightarrow> 9 \<le> unat (hdr_length h)"
  by (auto simp: decode_header_def Let_def word_less_nat_alt split: if_splits)

function process_packets ::
    "'w link_env \<Rightarrow> time_point \<Rightarrow> 'w link \<times> bytes \<Rightarrow> 'w link \<times> bytes" where
  "process_packets env now (s, buf) =
     (if length buf < 9 then (s, buf)
      else
        let start = length (takeWhile (\<lambda>b. b \<noteq> 0xff) (butlast buf)) in
        if start = length buf - 1 then (s, drop (length buf - 1) buf)
        else if buf ! (start + 1) \<noteq> 0x5a then process_packets env now (s, drop (start + 1) buf)
        else
          let buf1 = drop start buf in
          if start \<noteq> 0 \<and> length buf1 < 9 then (s, buf1)
          else
            case decode_header (take 9 buf1) of
              None \<Rightarrow> process_packets env now (s, drop 1 buf1)
            | Some h \<Rightarrow>
                let len = unat (hdr_length h) in
                if hdr_length h > max_len (lk_lsp s) then (s\<lparr>lk_state := Dead\<rparr>, [])
                else if length buf1 < len then (s, buf1)
                else
                  let payload_and_checksum = take (len - 9) (drop 9 buf1) in
                  if len > 9 \<and> \<not> has_valid_checksum payload_and_checksum
                  then process_packets env now (s, drop len buf1)
                  else process_packets env now
                         (handle_packet env h (if len > 9 then butlast payload_and_checksum else [])
                            now (s, drop len buf1)))"
  by pat_completeness auto
termination
proof (relation "measure (\<lambda>(env, now, sb). length (snd sb))", goal_cases)
  case (5 env now s buf start buf1 h len pc)
  then show ?case
    using decode_header_length [of "take 9 buf1" h] by (auto simp: snd_handle_packet not_less)
next
  case (4 env now s buf start buf1 h len pc)
  then show ?case
    using decode_header_length [of "take 9 buf1" h] by (auto simp: not_less)
qed auto

declare process_packets.simps [simp del]

definition kMaxReceiveBuffer :: nat where
  "kMaxReceiveBuffer = 128 * 1024"

definition receive ::
    "'w link_env \<Rightarrow> bytes \<Rightarrow> time_point \<Rightarrow> 'w link \<times> bytes \<Rightarrow> 'w link \<times> bytes" where
  "receive env bs now sb =
     (let (s, buf0) = sb in
      if length buf0 > kMaxReceiveBuffer \<or> length bs > kMaxReceiveBuffer - length buf0
      then (s\<lparr>lk_state := Dead\<rparr>, [])
      else
        let buf = buf0 @ bs in
        if lk_state s = Detect then
          case find_sub kMarker buf of
            None \<Rightarrow>
              (if bs \<noteq> [] \<and> \<not> lk_detect_dump_logged s \<and> log_set env
               then s\<lparr>lk_detect_dump_logged := True\<rparr> else s,
               if length buf > length kMarker - 1 then drop (length buf - (length kMarker - 1)) buf
               else buf)
          | Some marker \<Rightarrow>
              process_packets env now
                (send_syn env now False (s\<lparr>lk_state := Negotiate\<rparr>),
                 drop (marker + length kMarker) buf)
        else process_packets env now (s, buf))"

section \<open>The timer\<close>

fun tick_pending ::
    "'w link_env \<Rightarrow> time_point \<Rightarrow> pending_message list \<Rightarrow> pending_message list \<Rightarrow> 'w link \<Rightarrow> 'w link" where
  "tick_pending env now visited [] s = s\<lparr>lk_pending := visited\<rparr>"
| "tick_pending env now visited (m # ms) s =
     (if now < pm_deadline m then tick_pending env now (visited @ [m]) ms s
      else if pm_retries m \<ge> unat (max_retransmissions (lk_lsp s))
      then s\<lparr>lk_state := Dead, lk_pending := []\<rparr>
      else
        let m' = m\<lparr>pm_retries := pm_retries m + 1,
                   pm_deadline := now + milliseconds (unat (retransmission_timeout (lk_lsp s)))\<rparr>;
            (ok, s') = transmit env (pm_frame m') s
        in if \<not> ok then s'\<lparr>lk_state := Dead, lk_pending := []\<rparr>
           else tick_pending env now (visited @ [m']) ms s')"

definition tick :: "'w link_env \<Rightarrow> time_point \<Rightarrow> 'w link \<Rightarrow> 'w link" where
  "tick env now s =
     (if lk_state s = Dead then s
      else
        let (ok, s1) = (if lk_state s = Detect \<and> now \<ge> lk_next_marker s
                        then let (ok, s') = send_marker env s
                             in (ok, if ok then s'\<lparr>lk_next_marker := now + milliseconds 1000\<rparr> else s')
                        else (True, s))
        in if \<not> ok then s1
           else
             let s2 = (if lk_state s1 = Negotiate \<and> now \<ge> lk_next_syn s1
                       then send_syn env now False s1 else s1)
             in tick_pending env now [] (lk_pending s2) s2)"

section \<open>The codecs are inverse to each other\<close>

lemma byte_sum_eq: "byte_sum bs = sum_list bs"
proof -
  have "foldl (+) a bs = a + sum_list bs" for a :: byte
    by (induction bs arbitrary: a) (simp_all add: ac_simps)
  then show ?thesis by (simp add: byte_sum_def)
qed

lemma has_valid_checksum_iff:
  "has_valid_checksum (bs @ [c]) \<longleftrightarrow> c = checksum bs"
  by (simp add: has_valid_checksum_def checksum_def byte_sum_eq eq_neg_iff_add_eq_0 add.commute)

lemma length_encode_header [simp]: "length (encode_header h) = 9"
  by (simp add: encode_header_def Let_def)

lemma encode_header_not_Nil [simp]: "encode_header h \<noteq> []"
  by (simp add: encode_header_def Let_def)

lemma list_of_length_9:
  "length bs = 9 \<Longrightarrow> \<exists>a b c d e f g h i. bs = [a, b, c, d, e, f, g, h, i]"
  by (auto simp: length_Suc_conv numeral_eq_Suc)

lemma decode_encode_header:
  assumes "9 \<le> hdr_length h"
  shows "decode_header (encode_header h) = Some h"
proof -
  have "has_valid_checksum (encode_header h)"
    unfolding encode_header_def Let_def has_valid_checksum_iff ..
  moreover have "read_u16 (encode_header h) 0 = kPacketStart" "read_u16 (encode_header h) 2 = hdr_length h"
    using read_u16_shift [of 2 "u16_be kPacketStart"] by (simp_all add: encode_header_def Let_def)
  moreover have "encode_header h ! 4 = hdr_control h" "encode_header h ! 5 = hdr_sequence h"
    "encode_header h ! 6 = hdr_acknowledgement h" "encode_header h ! 7 = hdr_session_id h"
    by (simp_all add: encode_header_def Let_def u16_be_def)
  ultimately show ?thesis
    using assms by (simp add: decode_header_def Let_def not_less)
qed

lemma encode_decode_header:
  assumes "length bs = 9" "decode_header bs = Some h"
  shows "encode_header h = bs \<and> 9 \<le> hdr_length h"
proof -
  from assms(1) obtain a b c d e f g i k where bs: "bs = [a, b, c, d, e, f, g, i] @ [k]"
    using list_of_length_9 by fastforce
  from assms(2) have valid: "has_valid_checksum bs" "read_u16 bs 0 = kPacketStart"
    and h: "hdr_length h = read_u16 bs 2" "hdr_control h = e" "hdr_sequence h = f"
      "hdr_acknowledgement h = g" "hdr_session_id h = i" "9 \<le> hdr_length h"
    by (auto simp: decode_header_def Let_def bs not_less split: if_splits)
  from valid(2) have start: "u16_be kPacketStart = [a, b]"
    by (metis bs append_Cons u16_be_read_u16)
  have len: "u16_be (hdr_length h) = [c, d]"
    using read_u16_shift [of 2 "[a, b]"] by (simp add: h bs u16_be_read_u16)
  from valid(1) have "k = checksum [a, b, c, d, e, f, g, i]"
    unfolding bs has_valid_checksum_iff .
  with h(6) show ?thesis
    by (simp add: encode_header_def Let_def start len h(2-5) bs)
qed

lemma decode_sessions_encode: "decode_sessions (concat (map encode_session ss)) = ss"
  by (induction ss) (simp_all add: encode_session_def)

lemma encode_sessions_decode:
  "length bs mod 3 = 0 \<Longrightarrow> concat (map encode_session (decode_sessions bs)) = bs"
  by (induction bs rule: decode_sessions.induct) (auto simp: encode_session_def)

lemma length_concat_encode_session [simp]:
  "length (concat (map encode_session ss)) = 3 * length ss"
  by (induction ss) (simp_all add: encode_session_def)

lemma length_encode_lsp: "length (encode_lsp l) = 10 + 3 * length (sessions l)"
  by (simp add: encode_lsp_def)

lemma decode_encode_lsp:
  assumes "9 \<le> max_len l"
  shows "decode_lsp (encode_lsp l) = Some l"
proof -
  let ?a = "[1, max_outgoing l]" and ?m = "u16_be (max_len l)"
    and ?r = "u16_be (retransmission_timeout l)"
  have "read_u16 (encode_lsp l) 2 = max_len l" "read_u16 (encode_lsp l) 4 = retransmission_timeout l"
    "read_u16 (encode_lsp l) 6 = ack_timeout l"
    using read_u16_shift [of 2 ?a] read_u16_shift [of 4 "?a @ ?m"] read_u16_shift [of 6 "?a @ ?m @ ?r"]
    by (simp_all add: encode_lsp_def)
  moreover have "encode_lsp l ! 0 = 1" "encode_lsp l ! 1 = max_outgoing l"
    "encode_lsp l ! 8 = max_retransmissions l" "encode_lsp l ! 9 = max_ack l"
    "drop 10 (encode_lsp l) = concat (map encode_session (sessions l))"
    by (simp_all add: encode_lsp_def u16_be_def)
  ultimately show ?thesis
    using assms by (simp add: decode_lsp_def Let_def length_encode_lsp decode_sessions_encode not_less)
qed

lemma encode_decode_lsp:
  assumes "decode_lsp bs = Some l"
  shows "encode_lsp l = bs \<and> 9 \<le> max_len l"
proof -
  from assms have len: "10 \<le> length bs" "(length bs - 10) mod 3 = 0"
    by (auto simp: decode_lsp_def split: if_splits)
  then obtain a bs1 where 1: "bs = a # bs1" "9 \<le> length bs1" by (cases bs) auto
  then have "length (take 9 bs1) = 9" by simp
  from list_of_length_9 [OF this] obtain b c d e f g h i j
    where "take 9 bs1 = [b, c, d, e, f, g, h, i, j]" by blast
  with 1 obtain rest where bs: "bs = a # b # c # d # e # f # g # h # i # j # rest"
    by (metis append_take_drop_id append_Cons append_Nil)
  from assms have l: "l = \<lparr>max_outgoing = b, max_len = read_u16 bs 2,
      retransmission_timeout = read_u16 bs 4, ack_timeout = read_u16 bs 6,
      max_retransmissions = i, max_ack = j, sessions = decode_sessions rest\<rparr>" "a = 1" "9 \<le> max_len l"
    by (auto simp: decode_lsp_def Let_def bs not_less split: if_splits)
  have "u16_be (read_u16 bs 2) = [c, d]" "u16_be (read_u16 bs 4) = [e, f]" "u16_be (read_u16 bs 6) = [g, h]"
    using u16_be_read_u16 read_u16_shift [of 2 "[a, b]"] read_u16_shift [of 4 "[a, b, c, d]"]
      read_u16_shift [of 6 "[a, b, c, d, e, f]"] by (simp_all add: bs)
  with l show ?thesis
    using len by (simp add: encode_lsp_def bs encode_sessions_decode)
qed

section \<open>Packets on the wire\<close>

type_synonym packet = "header \<times> bytes"

definition packet_bytes :: "packet \<Rightarrow> bytes" where
  "packet_bytes p = encode_header (fst p) @ (if snd p = [] then [] else snd p @ [checksum (snd p)])"

definition packet_wf :: "packet \<Rightarrow> bool" where
  "packet_wf p = (length (snd p) \<le> 65535 - 10 \<and>
     hdr_length (fst p) = of_nat (if snd p = [] then 9 else length (snd p) + 10))"

definition packet_acceptable :: "'w link \<Rightarrow> packet \<Rightarrow> bool" where
  "packet_acceptable s p = (packet_wf p \<and> hdr_length (fst p) \<le> max_len (lk_lsp s)
     \<and> hdr_control (fst p) AND kControlRst = 0)"

definition packet_step :: "'w link_env \<Rightarrow> time_point \<Rightarrow> packet \<Rightarrow> 'w link \<Rightarrow> 'w link" where
  "packet_step env now p s = fst (handle_packet env (fst p) (snd p) now (s, []))"

lemma encode_packet_bytes:
  assumes "length payload \<le> 65535 - 10"
  shows "encode_packet payload sequence control sid s =
     packet_bytes (\<lparr>hdr_length = of_nat (if payload = [] then 9 else length payload + 10),
        hdr_control = control, hdr_sequence = sequence,
        hdr_acknowledgement = lk_last_received_sequence s, hdr_session_id = sid\<rparr>, payload)"
  using assms by (simp add: encode_packet_def packet_bytes_def)

lemma packet_wf_length:
  "packet_wf p \<Longrightarrow> unat (hdr_length (fst p)) = length (packet_bytes p)"
  by (simp add: packet_wf_def packet_bytes_def unat_of_nat del: of_nat_add)

lemma packet_wf_length_ge: "packet_wf p \<Longrightarrow> 9 \<le> hdr_length (fst p)"
  using packet_wf_length [of p] by (simp add: word_le_nat_alt packet_bytes_def)

lemma handle_packet_buffer:
  "handle_packet env h payload now (s, buf) =
     (packet_step env now (h, payload) s, if hdr_control h AND kControlRst \<noteq> 0 then [] else buf)"
  by (simp add: packet_step_def handle_packet_def Let_def)

lemma encode_header_start:
  "\<exists>rest. encode_header h = 0xff # 0x5a # rest"
  by (simp add: encode_header_def Let_def u16_be_def kPacketStart_def)

lemma process_packets_at_start:
  assumes "9 \<le> length buf" "buf = 0xff # 0x5a # body" "decode_header (take 9 buf) = Some h"
  shows "process_packets env now (s, buf) =
     (let len = unat (hdr_length h) in
      if hdr_length h > max_len (lk_lsp s) then (s\<lparr>lk_state := Dead\<rparr>, [])
      else if length buf < len then (s, buf)
      else let pc = take (len - 9) (drop 9 buf) in
           if len > 9 \<and> \<not> has_valid_checksum pc then process_packets env now (s, drop len buf)
           else process_packets env now
                  (handle_packet env h (if len > 9 then butlast pc else []) now (s, drop len buf)))"
proof -
  have "takeWhile (\<lambda>b. b \<noteq> 0xff) (butlast buf) = []" "buf ! 1 = 0x5a" "length buf - 1 \<noteq> 0"
    using assms(1,2) by simp_all
  with assms(1,3) show ?thesis
    by (subst process_packets.simps) (simp add: Let_def)
qed

lemma process_packets_complete:
  assumes "packet_acceptable s p"
  shows "process_packets env now (s, packet_bytes p @ rest) = process_packets env now (packet_step env now p s, rest)"
proof -
  obtain h payload where p: "p = (h, payload)" by force
  let ?buf = "packet_bytes p @ rest"
  from assms have wf: "packet_wf p" and max: "hdr_length h \<le> max_len (lk_lsp s)"
    and rst: "hdr_control h AND kControlRst = 0" by (simp_all add: packet_acceptable_def p)
  have len: "unat (hdr_length h) = length (packet_bytes p)"
    using packet_wf_length [OF wf] by (simp add: p)
  have "take 9 ?buf = encode_header h" by (simp add: packet_bytes_def p)
  then have dec: "decode_header (take 9 ?buf) = Some h"
    using packet_wf_length_ge [OF wf] by (simp add: decode_encode_header p)
  obtain body where body: "?buf = 0xff # 0x5a # body"
    using encode_header_start [of h] by (auto simp: packet_bytes_def p)
  have pc: "take (length (packet_bytes p) - 9) (drop 9 ?buf) = (if payload = [] then [] else payload @ [checksum payload])"
    by (simp add: packet_bytes_def p)
  show ?thesis
    using max rst
    by (subst process_packets_at_start [OF _ body dec])
       (auto simp: len pc Let_def handle_packet_buffer p packet_bytes_def has_valid_checksum_iff)
qed

lemma process_packets_partial:
  assumes "packet_acceptable s p" "strict_prefix buf (packet_bytes p)"
  shows "process_packets env now (s, buf) = (s, buf)"
proof (cases "length buf < 9")
  case True
  then show ?thesis by (subst process_packets.simps) simp
next
  case False
  obtain h payload where p: "p = (h, payload)" by force
  from assms have wf: "packet_wf p" and max: "hdr_length h \<le> max_len (lk_lsp s)"
    by (simp_all add: packet_acceptable_def p)
  from assms(2) obtain tail where tail: "packet_bytes p = buf @ tail"
    by (auto simp: strict_prefix_def prefix_def)
  have "take 9 (buf @ tail) = encode_header h"
    unfolding tail [symmetric] by (simp add: packet_bytes_def p)
  with False have t9: "take 9 buf = encode_header h" by simp
  then have dec: "decode_header (take 9 buf) = Some h"
    using packet_wf_length_ge [OF wf] by (simp add: decode_encode_header p)
  obtain body where "encode_header h = 0xff # 0x5a # body" using encode_header_start by blast
  with t9 have body: "buf = 0xff # 0x5a # (body @ drop 9 buf)"
    by (metis append_Cons append_take_drop_id)
  have "length buf < unat (hdr_length h)"
    using packet_wf_length [OF wf] prefix_length_less [OF assms(2)] by (simp add: p)
  with False max show ?thesis
    by (subst process_packets_at_start [OF _ body dec]) (auto simp: Let_def)
qed

interpretation packets: stream_handler packet_bytes packet_acceptable "packet_step env now"
  "process_packets env now" for env :: "'w link_env" and now
proof unfold_locales
  fix s :: "'w link" and p
  show "process_packets env now (s, []) = (s, [])" by (simp add: process_packets.simps)
  show "packet_bytes p \<noteq> []"
    by (simp add: packet_bytes_def)
qed (simp_all add: process_packets_complete process_packets_partial)

section \<open>What the operations leave alone\<close>

text \<open>The state order: a link only moves forward, \<open>Dead\<close> is the end.\<close>

instantiation link_state :: linorder
begin

fun link_rank :: "link_state \<Rightarrow> nat" where
  "link_rank Detect = 0"
| "link_rank Negotiate = 1"
| "link_rank Normal = 2"
| "link_rank Dead = 3"

definition less_eq_link_state :: "link_state \<Rightarrow> link_state \<Rightarrow> bool" where
  "less_eq_link_state a b = (link_rank a \<le> link_rank b)"

definition less_link_state :: "link_state \<Rightarrow> link_state \<Rightarrow> bool" where
  "less_link_state a b = (link_rank a < link_rank b)"

instance
proof
  fix a b :: link_state
  show "a \<le> b \<Longrightarrow> b \<le> a \<Longrightarrow> a = b"
    by (cases a; cases b) (simp_all add: less_eq_link_state_def)
qed (auto simp: less_eq_link_state_def less_link_state_def)

end

lemma state_le_Dead [simp]: "(x :: link_state) \<le> Dead"
  by (cases x) (simp_all add: less_eq_link_state_def)

lemma Dead_le [simp]: "Dead \<le> x \<longleftrightarrow> x = Dead"
  by (cases x) (simp_all add: less_eq_link_state_def)

lemma state_le_simps [simp]: "Detect \<le> x" "Negotiate \<le> Normal" "Negotiate \<le> x \<longleftrightarrow> x \<noteq> Detect"
  by (cases x; simp add: less_eq_link_state_def)+

lemma Normal_le [simp]: "Normal \<le> x \<longleftrightarrow> x = Normal \<or> x = Dead"
  by (cases x) (simp_all add: less_eq_link_state_def)

lemma transmit_eq: "transmit env frame s = (fst (send_fn env frame (lk_world s)), s\<lparr>lk_world := snd (send_fn env frame (lk_world s))\<rparr>)"
  by (simp add: transmit_def split: prod.splits)

lemma write_packet_eq:
  "write_packet env payload q c i s =
     (let packet = encode_packet payload q c i s;
          (ok, w) = (if packet = [] then (False, lk_world s) else send_fn env packet (lk_world s))
      in s\<lparr>lk_world := w, lk_state := (if ok then lk_state s else Dead)\<rparr>)"
  by (cases s) (simp add: write_packet_def Let_def transmit_def split: prod.splits)

text \<open>Sending changes the world, and the state to \<open>Dead\<close> on failure, and nothing else.\<close>

lemma write_packet_cases:
  obtains w st where "write_packet env payload q c i s = s\<lparr>lk_world := w, lk_state := st\<rparr>"
    "st = lk_state s \<or> st = Dead"
proof -
  obtain ok w where "(if encode_packet payload q c i s = [] then (False, lk_world s)
      else send_fn env (encode_packet payload q c i s) (lk_world s)) = (ok, w)" by force
  then have "write_packet env payload q c i s = s\<lparr>lk_world := w, lk_state := (if ok then lk_state s else Dead)\<rparr>"
    by (simp add: write_packet_eq)
  then show thesis by (rule that) simp
qed

lemma send_ack_cases:
  obtains w st where "send_ack env s = s\<lparr>lk_world := w, lk_state := st\<rparr>"
    "st = lk_state s \<or> st = Dead"
  using write_packet_cases [of env "[]" _ _ _ s] unfolding send_ack_def by metis

lemma send_syn_cases:
  assumes "lk_state s = Negotiate"
  obtains q u n w st where "send_syn env now ack s =
    s\<lparr>lk_sent_sequence := q, lk_syn_sequence := u, lk_syn_outstanding := True,
      lk_next_syn := n, lk_world := w, lk_state := st\<rparr>" "st = Negotiate \<or> st = Dead"
proof -
  define q where "q = (if lk_syn_outstanding s then lk_sent_sequence s else lk_sent_sequence s + 1)"
  define u where "u = (if lk_syn_outstanding s then lk_syn_sequence s else lk_sent_sequence s + 1)"
  define s1 where "s1 = s\<lparr>lk_sent_sequence := q, lk_syn_sequence := u, lk_syn_outstanding := True\<rparr>"
  have "send_syn env now ack s =
      (write_packet env (encode_lsp (lk_lsp s)) (lk_syn_sequence s1)
        (kControlSyn OR (if ack then kControlAck else 0)) 0 s1)\<lparr>lk_next_syn := now + milliseconds 500\<rparr>"
    using assms by (cases s) (simp add: send_syn_def Let_def s1_def q_def u_def)
  moreover obtain w st where "write_packet env (encode_lsp (lk_lsp s)) (lk_syn_sequence s1)
        (kControlSyn OR (if ack then kControlAck else 0)) 0 s1 = s1\<lparr>lk_world := w, lk_state := st\<rparr>"
    "st = lk_state s1 \<or> st = Dead" by (rule write_packet_cases)
  ultimately show thesis
    using assms
    by (intro that [where q = q and u = u and n = "now + milliseconds 500" and w = w and st = st])
       (auto simp: s1_def)
qed

section \<open>The invariant of a link\<close>

text \<open>
  A pending message holds the frame it was sent as.  As long as the peer only
  acknowledges what was sent, the sequence numbers of the pending messages are the
  last ones sent, oldest first (\<open>consecutive\<close>).
\<close>

definition pending_wf :: "pending_message \<Rightarrow> bool" where
  "pending_wf m = (\<exists>h payload. pm_frame m = packet_bytes (h, payload) \<and> packet_wf (h, payload)
     \<and> payload \<noteq> [] \<and> hdr_control h = kControlAck \<and> hdr_sequence h = pm_sequence m)"

definition consecutive :: "byte \<Rightarrow> byte list \<Rightarrow> bool" where
  "consecutive q qs = (\<forall>i < length qs. qs ! i = q - of_nat (length qs - 1 - i))"

definition link_inv :: "'w link \<Rightarrow> bool" where
  "link_inv s =
     (max_outgoing (lk_lsp s) \<le> 128
      \<and> (lk_state s \<in> {Detect, Negotiate} \<longrightarrow> lk_pending s = [])
      \<and> (lk_state s = Negotiate \<longrightarrow> lk_syn_outstanding s)
      \<and> (lk_state s = Normal \<longrightarrow>
           length (lk_pending s) \<le> unat (max_outgoing (lk_lsp s))
           \<and> list_all pending_wf (lk_pending s)
           \<and> list_all (\<lambda>m. pm_retries m \<le> unat (max_retransmissions (lk_lsp s))) (lk_pending s)))"

lemma link_inv_Dead: "lk_state s = Dead \<Longrightarrow> link_inv s \<longleftrightarrow> max_outgoing (lk_lsp s) \<le> 128"
  by (simp add: link_inv_def)

lemma link_inv_world [simp]: "link_inv (s\<lparr>lk_world := w\<rparr>) = link_inv s"
  by (simp add: link_inv_def)

lemma link_inv_sending:
  "link_inv s \<Longrightarrow> st = lk_state s \<or> st = Dead \<Longrightarrow> link_inv (s\<lparr>lk_world := w, lk_state := st\<rparr>)"
  by (auto simp: link_inv_def)

lemma link_inv_new: "link_inv (new_link w)"
  by (simp add: link_inv_def new_link_def default_lsp_def)

lemma consecutive_Nil [simp]: "consecutive q []"
  by (simp add: consecutive_def)

lemma consecutive_snoc:
  "consecutive q qs \<Longrightarrow> consecutive (q + 1) (qs @ [q + 1])"
  unfolding consecutive_def
proof (intro allI impI)
  fix i assume qs: "\<forall>i<length qs. qs ! i = q - of_nat (length qs - 1 - i)" and i: "i < length (qs @ [q + 1])"
  show "(qs @ [q + 1]) ! i = q + 1 - of_nat (length (qs @ [q + 1]) - 1 - i)"
  proof (cases "i = length qs")
    case False
    with i have "length qs - i = Suc (length qs - 1 - i)" by simp
    then have "(of_nat (length qs - i) :: byte) = of_nat (length qs - 1 - i) + 1" by simp
    with False i qs show ?thesis by (simp add: nth_append)
  qed simp
qed

lemma send_control_cases:
  obtains (refused) "send_control env payload s = (False, s)"
  | (failed) w where "lk_state s = Normal" "send_control env payload s =
      (False, s\<lparr>lk_sent_sequence := lk_sent_sequence s + 1, lk_world := w, lk_state := Dead, lk_pending := []\<rparr>)"
  | (sent) w m where "lk_state s = Normal" "payload \<noteq> []"
      "length (lk_pending s) < unat (max_outgoing (lk_lsp s))"
      "pm_sequence m = lk_sent_sequence s + 1" "pm_retries m = 0"
      "pm_frame m = encode_packet payload (lk_sent_sequence s + 1) kControlAck (lk_peer_control_session_id s) s"
      "length payload \<le> 65535 - 10"
      "send_control env payload s =
      (True, s\<lparr>lk_sent_sequence := lk_sent_sequence s + 1, lk_world := w, lk_pending := lk_pending s @ [m]\<rparr>)"
proof (cases "lk_state s \<noteq> Normal \<or> payload = [] \<or> max_len (lk_lsp s) < 10
         \<or> length payload > unat (max_len (lk_lsp s)) - 10 \<or> length (lk_pending s) \<ge> unat (max_outgoing (lk_lsp s))")
  case True
  then show thesis by (intro refused) (auto simp: send_control_def)
next
  case False
  let ?s1 = "s\<lparr>lk_sent_sequence := lk_sent_sequence s + 1\<rparr>"
  let ?frame = "encode_packet payload (lk_sent_sequence s + 1) kControlAck (lk_peer_control_session_id s) s"
  have frame: "encode_packet payload q c i ?s1 = encode_packet payload q c i s" for q c i
    by (simp add: encode_packet_def)
  have "unat (max_len (lk_lsp s)) < 65536" by simp
  with False have fits: "length payload \<le> 65535 - 10" by linarith
  have "?frame \<noteq> []"
    using fits by (auto simp: encode_packet_def)
  obtain ok w where send: "send_fn env ?frame (lk_world s) = (ok, w)" by force
  show thesis
  proof (cases ok)
    case True
    then show thesis
      using False fits \<open>?frame \<noteq> []\<close> send
      by (intro sent [where w = w]) (auto simp: send_control_def Let_def frame transmit_def)
  next
    case not_ok: False
    then show thesis
      using False \<open>?frame \<noteq> []\<close> send
      by (intro failed [where w = w]) (auto simp: send_control_def Let_def frame transmit_def)
  qed
qed

lemma link_inv_send_control:
  assumes "link_inv s"
  shows "link_inv (snd (send_control env payload s))"
proof (cases rule: send_control_cases [of env payload s])
  case refused
  with assms show ?thesis by simp
next
  case (failed w)
  with assms show ?thesis by (simp add: link_inv_def)
next
  case (sent w m)
  have "pending_wf m"
    unfolding pending_wf_def sent(6) encode_packet_bytes [OF sent(7)]
    by (rule exI, rule exI, rule conjI [OF refl]) (use sent(2,7) in \<open>auto simp: packet_wf_def sent(4)\<close>)
  with assms sent show ?thesis
    by (auto simp: link_inv_def)
qed

lemma link_inv_send_ack: "link_inv s \<Longrightarrow> link_inv (send_ack env s)"
  by (rule send_ack_cases [of env s]) (auto intro: link_inv_sending)

lemma link_inv_send_syn:
  assumes "max_outgoing (lk_lsp s) \<le> 128" "lk_state s \<noteq> Normal"
    "lk_state s \<in> {Detect, Negotiate} \<Longrightarrow> lk_pending s = []"
  shows "link_inv (send_syn env now ack s)"
proof (cases "lk_state s = Negotiate")
  case True
  from send_syn_cases [OF this, of env now ack] obtain q u n w st where
    "send_syn env now ack s = s\<lparr>lk_sent_sequence := q, lk_syn_sequence := u, lk_syn_outstanding := True,
      lk_next_syn := n, lk_world := w, lk_state := st\<rparr>" "st = Negotiate \<or> st = Dead" .
  with True assms show ?thesis by (auto simp: link_inv_def)
next
  case False
  with assms show ?thesis by (auto simp: send_syn_def link_inv_def)
qed

section \<open>Handlers that act on the link through \<open>send_control\<close>\<close>

inductive uses_link :: "'w link_env \<Rightarrow> 'w link \<Rightarrow> 'w link \<Rightarrow> bool" for env where
  keep: "uses_link env s s"
| world: "uses_link env s s' \<Longrightarrow> uses_link env s (s'\<lparr>lk_world := w\<rparr>)"
| control: "uses_link env s s' \<Longrightarrow> uses_link env s (snd (send_control env payload s'))"

lemma uses_link_trans: "uses_link env s' s'' \<Longrightarrow> uses_link env s s' \<Longrightarrow> uses_link env s s''"
  by (induction rule: uses_link.induct) (auto intro: uses_link.intros)

lemma uses_link_inv: "uses_link env s s' \<Longrightarrow> link_inv s \<Longrightarrow> link_inv s'"
  by (induction rule: uses_link.induct) (auto intro: link_inv_send_control)

lemma send_control_keeps:
  "lk_lsp (snd (send_control env p s)) = lk_lsp s"
  "lk_last_received_sequence (snd (send_control env p s)) = lk_last_received_sequence s"
  "lk_last_sequence_valid (snd (send_control env p s)) = lk_last_sequence_valid s"
  "lk_peer_control_session_id (snd (send_control env p s)) = lk_peer_control_session_id s"
  "lk_state s \<le> lk_state (snd (send_control env p s))"
  by (cases rule: send_control_cases [of env p s]; simp)+

lemma uses_link_keeps:
  assumes "uses_link env s s'"
  shows "lk_lsp s' = lk_lsp s \<and> lk_last_received_sequence s' = lk_last_received_sequence s
    \<and> lk_last_sequence_valid s' = lk_last_sequence_valid s
    \<and> lk_peer_control_session_id s' = lk_peer_control_session_id s \<and> lk_state s \<le> lk_state s'"
  using assms
  by (induction rule: uses_link.induct) (auto simp: send_control_keeps intro: order_trans [OF _ send_control_keeps(5)])

lemma byte_le_1_cases: "(d :: byte) \<le> 1 \<longleftrightarrow> d = 0 \<or> d = 1"
proof -
  have "d \<le> 1 \<longleftrightarrow> unat d \<le> 1" by (simp add: word_le_nat_alt)
  also have "\<dots> \<longleftrightarrow> unat d = 0 \<or> unat d = 1" by linarith
  also have "\<dots> \<longleftrightarrow> d = 0 \<or> d = 1" by (simp add: word_unat_eq_iff)
  finally show ?thesis .
qed

lemma in_order_iff: "\<not> (q - r > (1 :: byte)) \<and> q \<noteq> r \<longleftrightarrow> q = r + 1"
  by (auto simp: not_less byte_le_1_cases diff_eq_eq)

text \<open>The three early returns together: everything but the next sequence number.\<close>

lemma handle_data_eq:
  assumes "lk_state s = Normal"
  shows "handle_data env h payload s =
    (if lk_last_sequence_valid s \<and> hdr_sequence h \<noteq> lk_last_received_sequence s + 1
     then send_ack env s
     else
       let s1 = s\<lparr>lk_last_sequence_valid := True, lk_last_received_sequence := hdr_sequence h\<rparr> in
       send_ack env
         (if hdr_session_id h = lk_peer_control_session_id s
          then run_callback env payload s1 else s1))"
proof -
  have "d > 1" if "d > 128" for d :: byte
    using that by (rule less_trans [rotated]) simp
  with assms in_order_iff [of "hdr_sequence h" "lk_last_received_sequence s"] show ?thesis
    by (auto simp: handle_data_def Let_def)
qed

locale control_handler =
  fixes env :: "'w link_env"
  assumes handler: "control_data env = Some callback \<Longrightarrow> uses_link env s (callback payload s)"
begin

lemma run_callback_uses: "uses_link env s (run_callback env payload s)"
  by (simp add: run_callback_def handler keep split: option.split)

lemma handle_data_uses:
  "\<exists>s1. (s1 = s \<or> s1 = s\<lparr>lk_last_sequence_valid := True, lk_last_received_sequence := hdr_sequence h\<rparr>) \<and>
     (\<exists>s2. uses_link env s1 s2 \<and> (handle_data env h payload s = s2 \<or> handle_data env h payload s = send_ack env s2))"
proof (cases "lk_state s = Normal \<and> (lk_last_sequence_valid s \<longrightarrow> hdr_sequence h = lk_last_received_sequence s + 1)")
  case True
  let ?s1 = "s\<lparr>lk_last_sequence_valid := True, lk_last_received_sequence := hdr_sequence h\<rparr>"
  from True have "\<exists>s2. uses_link env ?s1 s2 \<and> handle_data env h payload s = send_ack env s2"
    using run_callback_uses [of ?s1 payload] keep [of env ?s1]
    by (auto simp: handle_data_eq Let_def)
  then show ?thesis by blast
next
  case False
  then have "handle_data env h payload s = s \<or> handle_data env h payload s = send_ack env s"
    by (cases "lk_state s = Normal") (simp_all add: handle_data_eq, simp add: handle_data_def)
  then show ?thesis using keep [of env s] by blast
qed

lemma handle_data_inv:
  assumes "link_inv s"
  shows "link_inv (handle_data env h payload s)"
proof -
  from handle_data_uses [of s h payload] obtain s1 s2 where
    s1: "s1 = s \<or> s1 = s\<lparr>lk_last_sequence_valid := True, lk_last_received_sequence := hdr_sequence h\<rparr>"
    and s2: "uses_link env s1 s2"
    and eq: "handle_data env h payload s = s2 \<or> handle_data env h payload s = send_ack env s2" by blast
  from s1 assms have "link_inv s1" by (auto simp: link_inv_def)
  with s2 have "link_inv s2" by (rule uses_link_inv)
  with eq show ?thesis by (auto intro: link_inv_send_ack)
qed

lemma handle_data_state: "lk_state s \<le> lk_state (handle_data env h payload s)"
proof -
  from handle_data_uses [of s h payload] obtain s1 s2 where
    s1: "s1 = s \<or> s1 = s\<lparr>lk_last_sequence_valid := True, lk_last_received_sequence := hdr_sequence h\<rparr>"
    and s2: "uses_link env s1 s2"
    and eq: "handle_data env h payload s = s2 \<or> handle_data env h payload s = send_ack env s2" by blast
  have "lk_state s2 \<le> lk_state (send_ack env s2)"
    by (rule send_ack_cases [of env s2]) auto
  with s1 uses_link_keeps [OF s2] eq show ?thesis by (auto intro: order_trans)
qed

end

text \<open>Acknowledging the peer's parameters and the handshake do not involve the handler.\<close>

lemma clamp_lsp_window: "max_outgoing (clamp_lsp l) \<le> 128" "1 \<le> max_outgoing (clamp_lsp l)"
  by (auto simp: clamp_lsp_def not_less word_le_nat_alt unat_gt_0 Suc_le_eq)

lemma handle_syn_inv:
  assumes "link_inv s"
  shows "link_inv (handle_syn env h payload now s)"
proof (cases "lk_state s = Normal \<or> decode_lsp payload = None")
  case True
  with assms show ?thesis by (auto simp: handle_syn_def link_inv_send_ack split: option.splits)
next
  case False
  with assms show ?thesis
    by (auto simp: handle_syn_def Let_def clamp_lsp_window link_inv_def [of s]
        intro!: link_inv_send_syn split: option.split)
qed

lemma send_syn_state: "lk_state s \<le> lk_state (send_syn env now ack s)"
proof (cases "lk_state s = Negotiate")
  case True
  show ?thesis by (rule send_syn_cases [OF True, of env now ack]) (auto simp: True)
qed (simp add: send_syn_def)

lemma handle_syn_state: "lk_state s \<le> lk_state (handle_syn env h payload now s)"
proof -
  have "lk_state s \<le> lk_state (send_ack env s)" by (rule send_ack_cases [of env s]) auto
  then show ?thesis
    by (auto simp: handle_syn_def Let_def split: option.split intro!: order_trans [OF _ send_syn_state])
qed

lemma sint_nonneg_byte: "sint (d :: byte) \<ge> 0 \<longleftrightarrow> unat d < 128"
proof -
  have bound: "uint d < 256" using uint_lt2p [of d] by simp
  have "sint d \<ge> 0 \<longleftrightarrow> \<not> bit (uint d) 7"
    by (simp add: sint_uint)
  moreover have "\<not> bit (uint d) 7 \<longleftrightarrow> uint d < 128"
  proof (cases "uint d < 128")
    case True
    then show ?thesis by (simp add: bit_iff_odd)
  next
    case False
    have "uint d div 128 = 1"
      by (rule int_div_pos_eq [where r = "uint d - 128"]) (use False bound in auto)
    with False show ?thesis by (simp add: bit_iff_odd)
  qed
  moreover have "uint d = int (unat d)" by simp
  ultimately show ?thesis by linarith
qed

section \<open>Cumulative acknowledgement\<close>

lemma acknowledged_by_unat: "acknowledged_by q a \<longleftrightarrow> unat (a - q) < 128"
  by (simp add: acknowledged_by_def sint_nonneg_byte)

lemma acknowledged_by_distance:
  fixes q :: byte
  assumes "i < 128" "k \<le> 128"
  shows "acknowledged_by (q - of_nat i) (q - of_nat k) \<longleftrightarrow> k \<le> i"
proof (cases "k \<le> i")
  case True
  then have "q - of_nat k - (q - of_nat i) = (of_nat (i - k) :: byte)" by (simp add: of_nat_diff)
  with True assms show ?thesis
    by (simp add: acknowledged_by_unat unat_of_nat del: of_nat_diff)
next
  case False
  then have "q - of_nat k - (q - of_nat i) = - (of_nat (k - i) :: byte)" by (simp add: of_nat_diff)
  also have "\<dots> = of_nat (256 - (k - i))"
    using False assms by (simp add: of_nat_diff eq_neg_iff_add_eq_0)
  finally have "q - of_nat k - (q - of_nat i) = of_nat (256 - (k - i))" .
  then have "unat (q - of_nat k - (q - of_nat i)) = 256 - (k - i)"
    using False assms by (simp only: unat_of_nat) simp
  with False assms show ?thesis by (simp add: acknowledged_by_unat)
qed

lemma filter_index_drop:
  assumes "\<And>i. i < length xs \<Longrightarrow> P (xs ! i) \<longleftrightarrow> n \<le> i"
  shows "filter P xs = drop n xs"
  using assms
proof (induction xs arbitrary: n)
  case (Cons x xs)
  from Cons.prems [of 0] have x: "P x \<longleftrightarrow> n = 0" by simp
  have "P (xs ! i) \<longleftrightarrow> n - 1 \<le> i" if "i < length xs" for i
    using Cons.prems [of "Suc i"] that by (auto simp: le_diff_conv)
  from Cons.IH [OF this] x show ?case
    by (cases n) (auto simp: filter_True Cons.prems [of "Suc _", simplified])
qed simp

lemma acknowledge_drops_prefix:
  assumes "consecutive q (map pm_sequence ms)" "length ms \<le> 128" "k \<le> length ms"
  shows "filter (\<lambda>m. \<not> acknowledged_by (pm_sequence m) (q - of_nat k)) ms = drop (length ms - k) ms"
proof (rule filter_index_drop)
  fix i assume i: "i < length ms"
  with assms(1) have "pm_sequence (ms ! i) = q - of_nat (length ms - 1 - i)"
    by (simp add: consecutive_def)
  with acknowledged_by_distance [of "length ms - 1 - i" k q] assms i
  show "(\<not> acknowledged_by (pm_sequence (ms ! i)) (q - of_nat k)) = (length ms - k \<le> i)" by auto
qed

lemma consecutive_drop: "consecutive q qs \<Longrightarrow> consecutive q (drop n qs)"
  by (auto simp: consecutive_def less_diff_conv add.commute [of n] diff_diff_eq simp flip: add.assoc)

section \<open>Every operation keeps the invariant and moves the state forward\<close>

lemma acknowledge_inv: "link_inv s \<Longrightarrow> link_inv (acknowledge h s)"
  by (auto simp: acknowledge_def link_inv_def list_all_iff intro: order_trans [OF length_filter_le])

lemma acknowledge_state [simp]: "lk_state (acknowledge h s) = lk_state s"
  by (simp add: acknowledge_def)

lemma handle_syn_ack_inv: "link_inv s \<Longrightarrow> lk_state s = Negotiate \<Longrightarrow> link_inv (handle_syn_ack h s)"
  by (simp add: handle_syn_ack_def link_inv_def)

lemma handle_syn_ack_state: "lk_state s = Negotiate \<Longrightarrow> lk_state s \<le> lk_state (handle_syn_ack h s)"
  by (simp add: handle_syn_ack_def)

lemma process_packets_cases:
  obtains (stop) k where "process_packets env now (s, buf) = (s, drop k buf)"
  | (dead) "process_packets env now (s, buf) = (s\<lparr>lk_state := Dead\<rparr>, [])"
  | (skip) k where "0 < k" "k \<le> length buf"
      "process_packets env now (s, buf) = process_packets env now (s, drop k buf)"
  | (packet) k h payload where "0 < k" "k \<le> length buf" "process_packets env now (s, buf) =
      process_packets env now (handle_packet env h payload now (s, drop k buf))"
proof -
  define start where "start = length (takeWhile (\<lambda>b. b \<noteq> 0xff) (butlast buf))"
  have start: "start \<le> length buf - 1"
    using length_takeWhile_le [of _ "butlast buf"] by (simp add: start_def)
  note unfolded = process_packets.simps [of env now s buf, folded start_def, unfolded Let_def]
  consider "length buf < 9" | "\<not> length buf < 9" "start = length buf - 1"
    | "\<not> length buf < 9" "start \<noteq> length buf - 1" "buf ! (start + 1) \<noteq> 0x5a"
    | "\<not> length buf < 9" "start \<noteq> length buf - 1" "buf ! (start + 1) = 0x5a"
      "start \<noteq> 0 \<and> length (drop start buf) < 9"
    | (decode) "\<not> length buf < 9" "start \<noteq> length buf - 1" "buf ! (start + 1) = 0x5a"
      "\<not> (start \<noteq> 0 \<and> length (drop start buf) < 9)" by blast
  then show thesis
  proof cases
    case 1
    then show ?thesis using stop [of 0] unfolded by simp
  next
    case 2
    then show ?thesis using stop [of "length buf - 1"] unfolded by simp
  next
    case 3
    then show ?thesis using skip [of "start + 1"] start unfolded by simp
  next
    case 4
    then show ?thesis using stop [of start] unfolded by simp
  next
    case decode
    show ?thesis
    proof (cases "decode_header (take 9 (drop start buf))")
      case None
      with decode unfolded have "process_packets env now (s, buf) = process_packets env now (s, drop (start + 1) buf)"
        by auto
      with decode(1) start show ?thesis by (intro skip [of "start + 1"]) auto
    next
      case (Some h)
      let ?len = "unat (hdr_length h)"
      let ?pc = "take (?len - 9) (drop 9 (drop start buf))"
      let ?payload = "if ?len > 9 then butlast ?pc else []"
      have "process_packets env now (s, buf) =
         (if hdr_length h > max_len (lk_lsp s) then (s\<lparr>lk_state := Dead\<rparr>, [])
          else if length (drop start buf) < ?len then (s, drop start buf)
          else if ?len > 9 \<and> \<not> has_valid_checksum ?pc
          then process_packets env now (s, drop (start + ?len) buf)
          else process_packets env now (handle_packet env h ?payload now (s, drop (start + ?len) buf)))"
        using decode Some by (subst unfolded) (cases "start = 0"; simp add: add.commute)
      moreover have "9 \<le> ?len" using Some by (rule decode_header_length)
      ultimately show ?thesis
        using dead stop [of start] skip [of "start + ?len"] packet [of "start + ?len" h ?payload] start
        by (simp add: not_less split: if_splits)
    qed
  qed
qed

context control_handler
begin

lemma packet_step_inv:
  assumes "link_inv s"
  shows "link_inv (packet_step env now (h, payload) s)"
proof -
  have "link_inv (acknowledge h s)" using assms by (rule acknowledge_inv)
  moreover have "link_inv (s\<lparr>lk_state := Dead, lk_pending := [], lk_syn_outstanding := False\<rparr>)"
    using assms by (simp add: link_inv_def)
  ultimately show ?thesis
    by (simp add: packet_step_def handle_packet_def Let_def handle_syn_inv handle_syn_ack_inv handle_data_inv)
qed

lemma packet_step_state: "lk_state s \<le> lk_state (packet_step env now (h, payload) s)"
  using handle_syn_state [of "acknowledge h s" env h payload now] handle_data_state [of "acknowledge h s" h payload]
    handle_syn_ack_state [of "acknowledge h s" h]
  by (simp add: packet_step_def handle_packet_def Let_def)

lemma process_packets_keeps:
  "process_packets env now (s, buf) = (s', buf') \<Longrightarrow>
     (link_inv s \<longrightarrow> link_inv s') \<and> lk_state s \<le> lk_state s' \<and> length buf' \<le> length buf"
proof (induction "length buf" arbitrary: s buf rule: less_induct)
  case less
  show ?case
  proof (cases rule: process_packets_cases [of env now s buf])
    case (skip k)
    then have "length (drop k buf) < length buf" by simp
    from less.hyps [OF this, of s] skip less.prems show ?thesis by auto
  next
    case (packet k h payload)
    let ?b = "if hdr_control h AND kControlRst \<noteq> 0 then [] else drop k buf"
    have "length ?b < length buf" using packet by auto
    from less.hyps [OF this, of "packet_step env now (h, payload) s"] packet less.prems
      packet_step_inv [of s now h payload] packet_step_state [of s now h payload]
    show ?thesis by (auto simp: handle_packet_buffer split: if_splits)
  qed (use less.prems in \<open>auto simp: link_inv_def\<close>)
qed

end

text \<open>The timer touches no handler either.\<close>

lemma tick_pending_inv:
  "link_inv (s\<lparr>lk_pending := visited @ ms\<rparr>) \<Longrightarrow> link_inv (tick_pending env now visited ms s)"
proof (induction ms arbitrary: visited s)
  case Nil
  then show ?case by simp
next
  case (Cons m ms)
  let ?m = "m\<lparr>pm_retries := pm_retries m + 1,
    pm_deadline := now + milliseconds (unat (retransmission_timeout (lk_lsp s)))\<rparr>"
  obtain ok w where send: "send_fn env (pm_frame m) (lk_world s) = (ok, w)" by force
  have dead: "link_inv (s\<lparr>lk_world := w, lk_state := Dead, lk_pending := []\<rparr>)"
    "link_inv (s\<lparr>lk_state := Dead, lk_pending := []\<rparr>)"
    using Cons.prems by (simp_all add: link_inv_def)
  have wf: "pending_wf (m\<lparr>pm_retries := r, pm_deadline := d\<rparr>) = pending_wf m" for r d
    by (simp add: pending_wf_def)
  have "link_inv (s\<lparr>lk_world := w, lk_pending := (visited @ [?m]) @ ms\<rparr>)"
    if "\<not> pm_retries m \<ge> unat (max_retransmissions (lk_lsp s))"
    using Cons.prems that by (auto simp: link_inv_def wf)
  with Cons.IH [where s = "s\<lparr>lk_world := w\<rparr>" and visited = "visited @ [?m]"]
    Cons.IH [where s = s and visited = "visited @ [m]"] Cons.prems dead send
  show ?case by (simp add: Let_def transmit_def)
qed

lemma tick_pending_state: "lk_state s \<le> lk_state (tick_pending env now visited ms s)"
proof (induction ms arbitrary: visited s)
  case (Cons m ms)
  obtain ok w where send: "send_fn env (pm_frame m) (lk_world s) = (ok, w)" by force
  with Cons.IH [where s = "s\<lparr>lk_world := w\<rparr>"] Cons.IH [where s = s]
  show ?case by (simp add: Let_def transmit_def)
qed simp

lemma send_marker_cases:
  obtains w ok where "send_marker env s = (ok, s\<lparr>lk_world := w, lk_state := (if ok then lk_state s else Dead)\<rparr>)"
proof -
  obtain ok w where "send_fn env kMarker (lk_world s) = (ok, w)" by force
  then show thesis by (intro that [of ok w]) (cases s; simp add: send_marker_def transmit_def)
qed

lemma tick_keeps:
  assumes "link_inv s"
  shows "link_inv (tick env now s) \<and> lk_state s \<le> lk_state (tick env now s)"
proof (cases "lk_state s = Dead")
  case True
  with assms show ?thesis by (simp add: tick_def)
next
  case False
  obtain w ok where marker: "send_marker env s = (ok, s\<lparr>lk_world := w, lk_state := (if ok then lk_state s else Dead)\<rparr>)"
    by (rule send_marker_cases)
  define s1 where "s1 = (if lk_state s = Detect \<and> now \<ge> lk_next_marker s
     then s\<lparr>lk_world := w, lk_next_marker := now + milliseconds 1000\<rparr> else s)"
  define s2 where "s2 = (if lk_state s1 = Negotiate \<and> now \<ge> lk_next_syn s1 then send_syn env now False s1 else s1)"
  have "link_inv s1" and st1: "lk_state s1 = lk_state s" using assms by (simp_all add: s1_def link_inv_def)
  then have "link_inv s2" and st2: "lk_state s \<le> lk_state s2"
    using send_syn_state [of s1 env now False]
    by (auto simp: s2_def link_inv_def [of s1] intro!: link_inv_send_syn)
  then have inv: "link_inv (tick_pending env now [] (lk_pending s2) s2)"
    and st: "lk_state s \<le> lk_state (tick_pending env now [] (lk_pending s2) s2)"
    by (auto intro!: tick_pending_inv intro: order_trans [OF _ tick_pending_state])
  show ?thesis
  proof (cases "lk_state s = Detect \<and> now \<ge> lk_next_marker s \<and> \<not> ok")
    case True
    with False marker assms show ?thesis by (simp add: tick_def link_inv_def)
  next
    case ok: False
    then have "tick env now s = tick_pending env now [] (lk_pending s2) s2"
      using False marker by (cases s) (auto simp: tick_def s1_def s2_def Let_def)
    with inv st show ?thesis by simp
  qed
qed

lemma start_keeps:
  assumes "link_inv s"
  shows "link_inv (start env now s) \<and> lk_state s \<le> lk_state (start env now s)"
proof (cases "lk_state s = Detect")
  case True
  obtain w ok where marker: "send_marker env s = (ok, s\<lparr>lk_world := w, lk_state := (if ok then lk_state s else Dead)\<rparr>)"
    by (rule send_marker_cases)
  from True assms have "link_inv (send_syn env now False (s\<lparr>lk_world := w, lk_state := Negotiate\<rparr>))"
    by (intro link_inv_send_syn) (simp_all add: link_inv_def)
  with True marker assms show ?thesis by (simp add: start_def link_inv_def)
qed (use assms in \<open>simp add: start_def\<close>)

section \<open>Reachable links\<close>

datatype link_op =
    Start time_point
  | Receive bytes time_point
  | Tick time_point
  | SendControl bytes

fun link_apply :: "'w link_env \<Rightarrow> link_op \<Rightarrow> 'w link \<times> bytes \<Rightarrow> 'w link \<times> bytes" where
  "link_apply env (Start now) (s, buf) = (start env now s, buf)"
| "link_apply env (Receive bs now) (s, buf) = receive env bs now (s, buf)"
| "link_apply env (Tick now) (s, buf) = (tick env now s, buf)"
| "link_apply env (SendControl payload) (s, buf) = (snd (send_control env payload s), buf)"

inductive link_reachable :: "'w link_env \<Rightarrow> 'w link \<times> bytes \<Rightarrow> bool" for env where
  init: "link_reachable env (new_link w, [])"
| step: "link_reachable env sb \<Longrightarrow> link_reachable env (link_apply env op sb)"
| environment: "link_reachable env (s, buf) \<Longrightarrow> link_reachable env (s\<lparr>lk_world := w\<rparr>, buf)"

context control_handler
begin

lemma receive_keeps:
  assumes "receive env bs now (s, buf) = (s', buf')"
  shows "(link_inv s \<longrightarrow> link_inv s') \<and> lk_state s \<le> lk_state s' \<and> length buf' \<le> kMaxReceiveBuffer"
proof (cases "length buf > kMaxReceiveBuffer \<or> length bs > kMaxReceiveBuffer - length buf")
  case True
  with assms have "s' = s\<lparr>lk_state := Dead\<rparr>" "buf' = []" by (simp_all add: receive_def)
  then show ?thesis by (simp add: link_inv_def)
next
  case False
  then have len: "length (buf @ bs) \<le> kMaxReceiveBuffer" by auto
  show ?thesis
  proof (cases "lk_state s = Detect")
    case True
    let ?s1 = "send_syn env now False (s\<lparr>lk_state := Negotiate\<rparr>)"
    have "link_inv s \<longrightarrow> link_inv ?s1"
      using True by (auto simp: link_inv_def [of s] intro!: link_inv_send_syn)
    moreover have "lk_state s \<le> lk_state ?s1" using True by simp
    ultimately show ?thesis
    proof (cases "find_sub kMarker (buf @ bs)")
      case None
      have "length (drop (length (buf @ bs) - (length kMarker - 1)) (buf @ bs)) \<le> length (buf @ bs)" by simp
      with len assms True False None show ?thesis
        by (auto simp: receive_def Let_def link_inv_def simp del: length_drop drop_append)
    next
      case (Some marker)
      with assms True False
      have "process_packets env now (?s1, drop (marker + length kMarker) (buf @ bs)) = (s', buf')"
        by (simp add: receive_def del: drop_append)
      from process_packets_keeps [OF this] len \<open>link_inv s \<longrightarrow> link_inv ?s1\<close> True
      show ?thesis by auto
    qed
  next
    case not_detect: False
    with assms False len process_packets_keeps [of now s "buf @ bs" s' buf'] show ?thesis
      by (auto simp: receive_def)
  qed
qed

lemma link_apply_keeps:
  assumes "link_apply env op (s, buf) = (s', buf')" "link_inv s" "length buf \<le> kMaxReceiveBuffer"
  shows "link_inv s' \<and> lk_state s \<le> lk_state s' \<and> length buf' \<le> kMaxReceiveBuffer"
  using assms
  by (cases op) (auto simp: start_keeps tick_keeps link_inv_send_control send_control_keeps dest!: receive_keeps)

lemma reachable_inv:
  "link_reachable env sb \<Longrightarrow> link_inv (fst sb) \<and> length (snd sb) \<le> kMaxReceiveBuffer"
proof (induction rule: link_reachable.induct)
  case (step sb op)
  then show ?case
    using link_apply_keeps [of op "fst sb" "snd sb"] by (metis prod.collapse)
qed (auto simp: link_inv_new)

end

section \<open>A dead link is silent\<close>

lemma acknowledge_world [simp]: "lk_world (acknowledge h s) = lk_world s"
  by (simp add: acknowledge_def)

lemma handle_syn_dead:
  "lk_state s = Dead \<Longrightarrow> lk_state (handle_syn env h payload now s) = Dead
     \<and> lk_world (handle_syn env h payload now s) = lk_world s"
  by (simp add: handle_syn_def Let_def send_syn_def split: option.split)

lemma packet_step_dead:
  assumes "lk_state s = Dead"
  shows "lk_state (packet_step env now p s) = Dead \<and> lk_world (packet_step env now p s) = lk_world s"
proof -
  have "lk_state (acknowledge (fst p) s) = Dead" using assms by simp
  then show ?thesis
    using handle_syn_dead [of "acknowledge (fst p) s"]
    by (simp add: packet_step_def handle_packet_def Let_def handle_data_def)
qed

lemma process_packets_dead:
  "lk_state s = Dead \<Longrightarrow> process_packets env now (s, buf) = (s', buf') \<Longrightarrow> lk_state s' = Dead \<and> lk_world s' = lk_world s"
proof (induction "length buf" arbitrary: s buf rule: less_induct)
  case less
  show ?case
  proof (cases rule: process_packets_cases [of env now s buf])
    case (skip k)
    then have "length (drop k buf) < length buf" by simp
    from less.hyps [OF this, of s] skip less.prems show ?thesis by auto
  next
    case (packet k h payload)
    let ?b = "if hdr_control h AND kControlRst \<noteq> 0 then [] else drop k buf"
    have "length ?b < length buf" using packet by auto
    from less.hyps [OF this, of "packet_step env now (h, payload) s"] packet less.prems
      packet_step_dead [of s env now "(h, payload)"]
    show ?thesis by (auto simp: handle_packet_buffer split: if_splits)
  qed (use less.prems in auto)
qed

lemma link_apply_dead:
  assumes "lk_state s = Dead" "link_apply env op (s, buf) = (s', buf')"
  shows "lk_state s' = Dead \<and> lk_world s' = lk_world s"
proof (cases op)
  case (Receive bs now)
  with assms process_packets_dead [of s env now "buf @ bs" s' buf'] show ?thesis
    by (auto simp: receive_def split: if_splits)
qed (use assms in \<open>auto simp: start_def tick_def send_control_def\<close>)

section \<open>Retransmission\<close>

lemma tick_pending_first:
  assumes "lk_state s = Normal" "visited \<noteq> []"
  shows "lk_state (tick_pending env now visited ms s) = Dead \<or>
     (lk_state (tick_pending env now visited ms s) = Normal \<and>
      lk_lsp (tick_pending env now visited ms s) = lk_lsp s \<and>
      (\<exists>rest. lk_pending (tick_pending env now visited ms s) = hd visited # rest))"
  using assms
proof (induction ms arbitrary: visited s)
  case Nil
  then show ?case by (cases visited) auto
next
  case (Cons m ms)
  obtain ok w where send: "send_fn env (pm_frame m) (lk_world s) = (ok, w)" by force
  let ?m = "m\<lparr>pm_retries := Suc (pm_retries m),
    pm_deadline := now + milliseconds (unat (retransmission_timeout (lk_lsp s)))\<rparr>"
  from Cons.IH [where s = s and visited = "visited @ [m]"]
    Cons.IH [where s = "s\<lparr>lk_world := w\<rparr>" and visited = "visited @ [?m]"] Cons.prems send
  show ?case by (simp add: Let_def transmit_def)
qed

lemma tick_expired:
  assumes "lk_state s = Normal" "lk_pending s = m # ms" "pm_deadline m \<le> now"
  shows "lk_state (tick env now s) = Dead \<or>
    (pm_retries m < unat (max_retransmissions (lk_lsp s)) \<and> lk_state (tick env now s) = Normal \<and>
     lk_lsp (tick env now s) = lk_lsp s \<and>
     (\<exists>m' ms'. lk_pending (tick env now s) = m' # ms' \<and> pm_retries m' = Suc (pm_retries m) \<and>
        pm_deadline m' = now + milliseconds (unat (retransmission_timeout (lk_lsp s)))))"
proof -
  obtain ok w where send: "send_fn env (pm_frame m) (lk_world s) = (ok, w)" by force
  let ?m = "m\<lparr>pm_retries := Suc (pm_retries m),
    pm_deadline := now + milliseconds (unat (retransmission_timeout (lk_lsp s)))\<rparr>"
  have "tick env now s = tick_pending env now [] (m # ms) s"
    using assms by (simp add: tick_def)
  with assms send tick_pending_first [of "s\<lparr>lk_world := w\<rparr>" "[?m]" env now ms] show ?thesis
    by (auto simp: Let_def transmit_def not_le)
qed

text \<open>Every call comes at least \<open>gap\<close> after the one before, the first at \<open>due\<close> or later.\<close>

fun spaced :: "time_point \<Rightarrow> time_point \<Rightarrow> time_point list \<Rightarrow> bool" where
  "spaced gap due [] = True"
| "spaced gap due (t # ts) = (due \<le> t \<and> spaced gap (t + gap) ts)"

lemma tick_dead [simp]: "lk_state s = Dead \<Longrightarrow> fold (tick env) ts s = s"
  by (induction ts) (simp_all add: tick_def)

lemma ticks_kill:
  assumes "lk_state s = Normal" "lk_pending s = m # ms"
    "spaced (milliseconds (unat (retransmission_timeout (lk_lsp s)))) (pm_deadline m) ts"
    "pm_retries m + length ts > unat (max_retransmissions (lk_lsp s))"
    "pm_retries m \<le> unat (max_retransmissions (lk_lsp s))"
  shows "lk_state (fold (tick env) ts s) = Dead"
  using assms
proof (induction ts arbitrary: s m ms)
  case (Cons t ts)
  then have "pm_deadline m \<le> t" by simp
  from tick_expired [OF Cons.prems(1,2) this, of env] show ?case
  proof (elim disjE conjE exE)
    fix m' ms'
    assume "lk_state (tick env t s) = Normal" "lk_lsp (tick env t s) = lk_lsp s"
      "lk_pending (tick env t s) = m' # ms'" "pm_retries m' = Suc (pm_retries m)"
      "pm_retries m < unat (max_retransmissions (lk_lsp s))"
      "pm_deadline m' = t + milliseconds (unat (retransmission_timeout (lk_lsp s)))"
    with Cons.IH [of "tick env t s" m' ms'] Cons.prems show ?case by simp
  qed simp
qed simp

section \<open>Invariants of the world behind the link\<close>

text \<open>
  The link changes the world through the transport and the handler alone: what
  both preserve, every operation of the link preserves.
\<close>

locale world_invariant =
  fixes env :: "'w link_env" and W :: "'w \<Rightarrow> bool"
  assumes send_keeps: "W w \<Longrightarrow> W (snd (send_fn env frame w))"
    and callback_keeps: "control_data env = Some callback \<Longrightarrow> W (lk_world s) \<Longrightarrow> W (lk_world (callback payload s))"
begin

lemma write_packet_world: "W (lk_world s) \<Longrightarrow> W (lk_world (write_packet env payload q c i s))"
  using send_keeps by (simp add: write_packet_def Let_def transmit_eq)

lemma send_ack_world: "W (lk_world s) \<Longrightarrow> W (lk_world (send_ack env s))"
  by (simp add: send_ack_def write_packet_world)

lemma send_syn_world: "W (lk_world s) \<Longrightarrow> W (lk_world (send_syn env now ack s))"
  by (simp add: send_syn_def Let_def write_packet_world)

lemma send_marker_world: "W (lk_world s) \<Longrightarrow> W (lk_world (snd (send_marker env s)))"
  using send_keeps by (simp add: send_marker_def transmit_eq)

lemma send_control_world: "W (lk_world s) \<Longrightarrow> W (lk_world (snd (send_control env payload s)))"
  using send_keeps by (simp add: send_control_def Let_def transmit_eq)

lemma start_world: "W (lk_world s) \<Longrightarrow> W (lk_world (start env now s))"
  using send_marker_world [of s] by (auto simp: start_def send_syn_world split: prod.split)

lemma run_callback_world: "W (lk_world s) \<Longrightarrow> W (lk_world (run_callback env payload s))"
  by (simp add: run_callback_def callback_keeps split: option.split)

lemma handle_data_world: "W (lk_world s) \<Longrightarrow> W (lk_world (handle_data env h payload s))"
  by (simp add: handle_data_def Let_def send_ack_world run_callback_world)

lemma handle_syn_world: "W (lk_world s) \<Longrightarrow> W (lk_world (handle_syn env h payload now s))"
  by (auto simp: handle_syn_def Let_def intro!: send_ack_world send_syn_world split: option.split)

lemma packet_step_world: "W (lk_world s) \<Longrightarrow> W (lk_world (packet_step env now p s))"
  by (simp add: packet_step_def handle_packet_def Let_def handle_data_world handle_syn_world handle_syn_ack_def)

lemma process_packets_world:
  "W (lk_world s) \<Longrightarrow> W (lk_world (fst (process_packets env now (s, buf))))"
proof (induction "length buf" arbitrary: s buf rule: less_induct)
  case less
  show ?case
  proof (cases rule: process_packets_cases [of env now s buf])
    case (skip k)
    then have "length (drop k buf) < length buf" by simp
    from less.hyps [OF this less.prems] skip show ?thesis by simp
  next
    case (packet k h payload)
    let ?b = "if hdr_control h AND kControlRst \<noteq> 0 then [] else drop k buf"
    have "length ?b < length buf" using packet by auto
    from less.hyps [OF this packet_step_world [OF less.prems, of now "(h, payload)"]] packet
    show ?thesis by (simp add: handle_packet_buffer)
  qed (use less.prems in auto)
qed

lemma receive_world: "W (lk_world (fst sb)) \<Longrightarrow> W (lk_world (fst (receive env bs now sb)))"
  by (auto simp: receive_def Let_def intro!: process_packets_world send_syn_world split: option.split prod.split)

lemma tick_pending_world: "W (lk_world s) \<Longrightarrow> W (lk_world (tick_pending env now visited ms s))"
proof (induction ms arbitrary: visited s)
  case (Cons m ms)
  from send_keeps [OF Cons.prems, of "pm_frame m"]
  show ?case by (simp add: Cons Let_def transmit_eq)
qed simp

lemma tick_world: "W (lk_world s) \<Longrightarrow> W (lk_world (tick env now s))"
  using send_marker_world [of s]
  by (auto simp: tick_def Let_def intro!: tick_pending_world send_syn_world split: prod.split)

end

end
