(* ===== verification/Iap2_Link_Props.thy ===== *)
theory Iap2_Link_Props
  imports Iap2_Link
begin

text \<open>
  What the link layer promises its users: the codecs are inverse to each other, the
  chunks of the transport do not matter, control data is delivered once and in
  order, an acknowledgement removes exactly what it covers, the handshake
  establishes the link and only it does, a link whose messages are not acknowledged dies,
  and a dead link stays dead and silent.
\<close>

section \<open>In-order delivery\<close>

text \<open>The abstract receiver: from a sequence number on, the packets that come next.\<close>

fun in_order :: "byte \<Rightarrow> packet list \<Rightarrow> packet list" where
  "in_order q [] = []"
| "in_order q (p # ps) =
     (if hdr_sequence (fst p) = q + 1 then p # in_order (q + 1) ps else in_order q ps)"

definition data_packet :: "byte \<Rightarrow> packet \<Rightarrow> bool" where
  "data_packet session p = ((hdr_control (fst p) = kControlAck \<or> hdr_control (fst p) = 0)
     \<and> snd p \<noteq> [] \<and> hdr_session_id (fst p) = session)"

lemma data_packet_step:
  assumes "data_packet session p" "lk_state s = Normal"
  shows "packet_step env now p s = handle_data env (fst p) (snd p) (acknowledge (fst p) s)"
  using assms by (auto simp: data_packet_def packet_step_def handle_packet_def Let_def control_defs)

lemma acknowledge_keeps [simp]:
  "lk_last_received_sequence (acknowledge h s) = lk_last_received_sequence s"
  "lk_last_sequence_valid (acknowledge h s) = lk_last_sequence_valid s"
  "lk_peer_control_session_id (acknowledge h s) = lk_peer_control_session_id s"
  by (simp_all add: acknowledge_def)

lemma send_ack_keeps [simp]:
  "lk_last_received_sequence (send_ack env s) = lk_last_received_sequence s"
  "lk_last_sequence_valid (send_ack env s) = lk_last_sequence_valid s"
  "lk_peer_control_session_id (send_ack env s) = lk_peer_control_session_id s"
  by (rule send_ack_cases [of env s]; simp)+

lemma send_ack_normal: "lk_state (send_ack env s) = Normal \<Longrightarrow> lk_state s = Normal"
  by (rule send_ack_cases [of env s]) auto

text \<open>
  An environment whose handler leaves a trace: \<open>trace\<close> reads the payloads handed
  over so far from the world, and the transport does not disturb it.
\<close>

definition traced :: "'w link_env \<Rightarrow> ('w \<Rightarrow> bytes list) \<Rightarrow> bool" where
  "traced env trace \<longleftrightarrow>
     (\<exists>callback. control_data env = Some callback \<and>
        (\<forall>payload s. trace (lk_world (callback payload s)) = trace (lk_world s) @ [payload])) \<and>
     (\<forall>frame w. trace (snd (send_fn env frame w)) = trace w)"

lemma send_ack_trace: "traced env trace \<Longrightarrow> trace (lk_world (send_ack env s)) = trace (lk_world s)"
  by (simp add: send_ack_def write_packet_def Let_def transmit_eq traced_def)

lemma run_callback_trace:
  "traced env trace \<Longrightarrow> trace (lk_world (run_callback env payload s)) = trace (lk_world s) @ [payload]"
  by (auto simp: run_callback_def traced_def)

context control_handler
begin

lemma run_callback_keeps:
  "lk_last_received_sequence (run_callback env payload s) = lk_last_received_sequence s"
  "lk_last_sequence_valid (run_callback env payload s) = lk_last_sequence_valid s"
  "lk_peer_control_session_id (run_callback env payload s) = lk_peer_control_session_id s"
  using uses_link_keeps [OF run_callback_uses [of s payload]] by simp_all

lemma data_packet_trace:
  assumes "traced env trace" "data_packet (lk_peer_control_session_id s) p" "lk_state s = Normal"
    "lk_last_sequence_valid s"
  shows "let s' = packet_step env now p s; next = (hdr_sequence (fst p) = lk_last_received_sequence s + 1) in
    lk_last_sequence_valid s' \<and> lk_peer_control_session_id s' = lk_peer_control_session_id s
    \<and> lk_last_received_sequence s' = (if next then lk_last_received_sequence s + 1 else lk_last_received_sequence s)
    \<and> trace (lk_world s') = trace (lk_world s) @ (if next then [snd p] else [])"
proof -
  have "hdr_session_id (fst p) = lk_peer_control_session_id s" using assms(2) by (simp add: data_packet_def)
  with assms show ?thesis
    by (simp add: data_packet_step handle_data_eq Let_def run_callback_keeps send_ack_trace run_callback_trace)
qed

lemma normal_throughout:
  "lk_state (fold (packet_step env now) ps s) = Normal \<Longrightarrow> lk_state s \<le> Normal"
proof (induction ps arbitrary: s)
  case (Cons p ps)
  then have "lk_state (packet_step env now p s) \<le> Normal" by simp
  with packet_step_state [of s now "fst p" "snd p"] show ?case by simp
qed simp

theorem trace_in_order:
  assumes tr: "traced env trace" and "lk_state s = Normal" "lk_last_sequence_valid s"
    "list_all (data_packet (lk_peer_control_session_id s)) ps"
    "lk_state (fold (packet_step env now) ps s) = Normal"
  shows "trace (lk_world (fold (packet_step env now) ps s)) =
    trace (lk_world s) @ map snd (in_order (lk_last_received_sequence s) ps)"
  using assms(2-)
proof (induction ps arbitrary: s)
  case (Cons p ps)
  let ?s = "packet_step env now p s"
  have "lk_state ?s \<le> Normal" using normal_throughout Cons.prems(4) by simp
  moreover have "Normal \<le> lk_state ?s"
    using packet_step_state [of s now "fst p" "snd p"] Cons.prems(1) by simp
  ultimately have "lk_state ?s = Normal" by simp
  with Cons data_packet_trace [OF tr, of s p now] show ?case
    by (auto simp: Let_def)
qed simp

end

section \<open>The handshake\<close>

lemma send_syn_not_normal: "lk_state s \<noteq> Normal \<Longrightarrow> lk_state (send_syn env now ack s) \<noteq> Normal"
proof (cases "lk_state s = Negotiate")
  case True
  show ?thesis by (rule send_syn_cases [OF True, of env now ack]) auto
qed (simp add: send_syn_def)

lemma handle_syn_not_normal:
  "lk_state s \<noteq> Normal \<Longrightarrow> lk_state (handle_syn env h payload now s) \<noteq> Normal"
  by (auto simp: handle_syn_def Let_def send_syn_not_normal split: option.split)

lemma acknowledge_syn [simp]:
  "lk_syn_outstanding (acknowledge h s) = lk_syn_outstanding s"
  "lk_syn_sequence (acknowledge h s) = lk_syn_sequence s"
  by (simp_all add: acknowledge_def)

lemma packet_step_to_normal:
  assumes "lk_state s \<noteq> Normal" "lk_state (packet_step env now p s) = Normal"
  shows "lk_state s = Negotiate \<and> lk_syn_outstanding s \<and> hdr_control (fst p) AND kControlAck \<noteq> 0
    \<and> hdr_control (fst p) AND kControlSyn = 0
    \<and> acknowledged_by (lk_syn_sequence s) (hdr_acknowledgement (fst p))"
  using assms handle_syn_not_normal [of "acknowledge (fst p) s" env "fst p" "snd p" now]
  by (auto simp: packet_step_def handle_packet_def Let_def handle_data_def handle_syn_ack_def
      split: if_splits)

text \<open>The peer answers the SYN with its own parameters, and acknowledges ours.\<close>

lemma handshake_completes:
  fixes s :: "'w link"
  assumes "lk_state s = Negotiate" "lk_syn_outstanding s"
    and "9 \<le> max_len l" "length (sessions l) \<le> 21838"
    and works: "\<And>frame w. fst (send_fn env frame w)"
    and syn: "hdr_control syn AND kControlRst = 0" "hdr_control syn AND kControlSyn \<noteq> 0"
    and ack: "hdr_control ack = kControlAck" "hdr_acknowledgement ack = lk_syn_sequence s"
  shows "let s' = packet_step env now' (ack, []) (packet_step env now (syn, encode_lsp l) s) in
    lk_state s' = Normal \<and> lk_lsp s' = clamp_lsp l
    \<and> lk_last_sequence_valid s' \<and> lk_last_received_sequence s' = hdr_sequence syn"
proof -
  define q where "q = (case find (\<lambda>x. sess_type x = 0) (sessions (clamp_lsp l)) of
     Some x \<Rightarrow> sess_id x | None \<Rightarrow> lk_peer_control_session_id (acknowledge syn s))"
  let ?s1 = "(acknowledge syn s)\<lparr>lk_lsp := clamp_lsp l, lk_peer_control_session_id := q,
     lk_last_sequence_valid := True, lk_last_received_sequence := hdr_sequence syn\<rparr>"
  have "packet_step env now (syn, encode_lsp l) s = send_syn env now True ?s1"
    using assms by (cases "acknowledge syn s")
      (auto simp: packet_step_def handle_packet_def handle_syn_def decode_encode_lsp q_def
        Let_def split: option.split)
  moreover have "length (encode_lsp (clamp_lsp l)) \<le> 65535 - 10"
    using assms(4) by (simp add: length_encode_lsp clamp_lsp_def)
  then have "encode_packet (encode_lsp (clamp_lsp l)) x c i s' \<noteq> []" for x c i and s' :: "'w link"
    by (auto simp: encode_packet_def)
  then have "\<exists>w. send_syn env now True ?s1 = ?s1\<lparr>lk_world := w, lk_next_syn := now + milliseconds 500\<rparr>"
    using assms(1,2) works by (simp add: send_syn_def Let_def write_packet_def transmit_eq) blast
  ultimately obtain w where "packet_step env now (syn, encode_lsp l) s =
      ?s1\<lparr>lk_world := w, lk_next_syn := now + milliseconds 500\<rparr>" by auto
  moreover have "acknowledged_by q q" for q by (simp add: acknowledged_by_unat)
  ultimately show ?thesis
    using assms(1,2) ack
    by (simp add: Let_def packet_step_def [of env now' "(ack, [])"] handle_packet_def acknowledge_def
        handle_syn_ack_def control_defs)
qed

section \<open>Properties\<close>

text \<open>
  Nine bytes decode to a header exactly when they are the encoding of that
  header and its length field covers the header itself.
\<close>

theorem link_header_codec:
  assumes "length bs = 9"
  shows "decode_header bs = Some h \<longleftrightarrow> 9 \<le> hdr_length h \<and> bs = encode_header h"
  using encode_decode_header [OF assms] decode_encode_header [of h] by auto

theorem link_header_codec_witness:
  "decode_header [0xff, 0x5a, 0, 9, 0x40, 1, 2, 0, 0x5b] =
     Some \<lparr>hdr_length = 9, hdr_control = 0x40, hdr_sequence = 1, hdr_acknowledgement = 2, hdr_session_id = 0\<rparr>"
  by (subst link_header_codec)
     (simp_all add: encode_header_def Let_def u16_be_def kPacketStart_def checksum_def byte_sum_def)

text \<open>
  A payload decodes to link synchronisation parameters exactly when it is
  their encoding and they allow frames of at least nine bytes.
\<close>

theorem link_lsp_codec: "decode_lsp bs = Some l \<longleftrightarrow> 9 \<le> max_len l \<and> bs = encode_lsp l"
  using encode_decode_lsp [of bs l] decode_encode_lsp [of l] by auto

text \<open>
  Once the marker is past, cutting the bytes of a sequence of packets into
  chunks in any way has the effect of handling the packets one after the other:
  no packet is lost, split or handled twice, and no byte is left over.
\<close>

theorem link_chunks_irrelevant:
  assumes "valid_run packet_acceptable (packet_step env now) s ps"
    and "concat chunks = concat (map packet_bytes ps)"
    and "list_all (\<lambda>c. length c \<le> 65536) chunks"
    and "lk_state s \<noteq> Detect" "control_handler env"
  shows "foldl (\<lambda>sb c. receive env c now sb) (s, []) chunks = (fold (packet_step env now) ps s, [])"
proof (rule packets.run_chunks [OF assms(1,2)])
  show "lk_state s \<noteq> Detect" by (rule assms(4))
next
  fix s :: "'a link" and b c :: bytes
  assume "lk_state s \<noteq> Detect" "length b \<le> 65535" "c \<in> set chunks"
  with assms(3) show "receive env c now (s, b) = process_packets env now (s, b @ c)"
    by (auto simp: receive_def kMaxReceiveBuffer_def list_all_iff)
next
  fix s :: "'a link" and m
  assume "lk_state s \<noteq> Detect"
  with control_handler.packet_step_state [OF assms(5), of s now "fst m" "snd m"]
  show "lk_state (packet_step env now m s) \<noteq> Detect" by (cases "lk_state s") auto
next
  fix p assume "p \<in> set ps"
  then have "packet_wf p"
    using assms(1) by (induction ps arbitrary: s) (auto simp: packet_acceptable_def)
  from packet_wf_length [OF this] show "length (packet_bytes p) \<le> 65535"
    using unat_u16_lt [of "hdr_length (fst p)"] by simp
qed

text \<open>A transport that always works and a handler that keeps what it is given.\<close>

definition recording_env :: "bytes list link_env" where
  "recording_env =
     \<lparr>send_fn = \<lambda>frame w. (True, w), steady_now = \<lambda>w. 0, log_set = False,
      control_data = Some (\<lambda>payload s. s\<lparr>lk_world := lk_world s @ [payload]\<rparr>)\<rparr>"

lemma recording_env_handler: "control_handler recording_env"
  by unfold_locales (auto simp: recording_env_def intro: uses_link.intros)

lemma recording_env_traced: "traced recording_env (\<lambda>w. w)"
  by (simp add: traced_def recording_env_def)

definition established_link :: "'w \<Rightarrow> 'w link" where
  "established_link w = (new_link w)\<lparr>lk_state := Normal, lk_last_sequence_valid := True,
     lk_last_received_sequence := 7\<rparr>"

definition example_packet :: "byte \<Rightarrow> byte \<Rightarrow> packet" where
  "example_packet q b = (\<lparr>hdr_length = 11, hdr_control = kControlAck, hdr_sequence = q,
     hdr_acknowledgement = 99, hdr_session_id = kControlSessionId\<rparr>, [b])"

theorem link_chunks_irrelevant_witness:
  "foldl (\<lambda>sb c. receive recording_env c 0 sb) (established_link [], [])
     [take 5 (packet_bytes (example_packet 8 42)), drop 5 (packet_bytes (example_packet 8 42))] =
   (fold (packet_step recording_env 0) [example_packet 8 42] (established_link []), [])"
  by (rule link_chunks_irrelevant [OF _ _ _ _ recording_env_handler])
     (simp_all add: packet_acceptable_def packet_wf_def example_packet_def established_link_def
        new_link_def default_lsp_def control_defs packet_bytes_def)



text \<open>
  C10: in every reachable state the link keeps its invariant (a send window of at
  most 128 messages and never more pending than it allows, no pending message before
  the link is established, retries within the negotiated limit, an outstanding SYN
  while negotiating) and its receive buffer holds at most 128 KiB.
\<close>

theorem link_invariant:
  assumes "control_handler env" "link_reachable env (s, buf)"
  shows "link_inv s \<and> length buf \<le> kMaxReceiveBuffer"
  using control_handler.reachable_inv [OF assms] by simp

theorem link_invariant_witness:
  "link_inv (start recording_env 5 (new_link [])) \<and> length ([] :: bytes) \<le> kMaxReceiveBuffer"
  using link_invariant [OF recording_env_handler
      step [OF init [of recording_env "[]"], of "Start 5", unfolded link_apply.simps]] .

text \<open>
  The state of a link only moves forward, from \<open>Detect\<close> over \<open>Negotiate\<close> and
  \<open>Normal\<close> to \<open>Dead\<close>, whatever operation is called.
\<close>

theorem link_state_monotone:
  assumes "control_handler env" "link_reachable env (s, buf)" "link_apply env op (s, buf) = (s', buf')"
  shows "lk_state s \<le> lk_state s'"
  using control_handler.link_apply_keeps [OF assms(1,3)] control_handler.reachable_inv [OF assms(1,2)]
  by simp

theorem link_state_monotone_witness:
  "Detect \<le> lk_state (start recording_env 5 (new_link []))"
  using link_state_monotone [OF recording_env_handler init [of recording_env "[]"], of "Start 5"]
  by (simp add: new_link_def)

text \<open>
  A dead link stays dead and sends nothing more, whatever it is asked to do or
  receives: the world behind the transport is unchanged.
\<close>

theorem link_dead_is_silent:
  assumes "lk_state s = Dead" "link_apply env op (s, buf) = (s', buf')"
  shows "lk_state s' = Dead \<and> lk_world s' = lk_world s"
  using assms by (rule link_apply_dead)

theorem link_dead_is_silent_witness:
  "lk_state (tick recording_env 9 ((new_link [])\<lparr>lk_state := Dead\<rparr>)) = Dead
   \<and> lk_world (tick recording_env 9 ((new_link [])\<lparr>lk_state := Dead\<rparr>)) = []"
  using link_dead_is_silent [of "(new_link [])\<lparr>lk_state := Dead\<rparr>" recording_env "Tick 9" "[]"]
  by (simp add: new_link_def)

text \<open>
  Acknowledgement is cumulative across the wrap of the sequence numbers: when
  the pending messages are the last ones sent and the peer acknowledges up to the
  \<open>k\<close>-th newest, exactly those up to it are removed and the \<open>k\<close> newest stay.
\<close>

theorem link_acknowledge_cumulative:
  assumes "link_inv s" "lk_state s = Normal"
    and "consecutive (lk_sent_sequence s) (map pm_sequence (lk_pending s))"
    and "k \<le> length (lk_pending s)" "hdr_control h AND kControlAck \<noteq> 0"
    and "hdr_acknowledgement h = lk_sent_sequence s - of_nat k"
  shows "lk_pending (acknowledge h s) = drop (length (lk_pending s) - k) (lk_pending s)
    \<and> consecutive (lk_sent_sequence s) (map pm_sequence (lk_pending (acknowledge h s)))"
proof -
  have "unat (max_outgoing (lk_lsp s)) \<le> 128"
    using assms(1) by (simp add: link_inv_def word_le_nat_alt)
  then have "length (lk_pending s) \<le> 128"
    using assms(1,2) by (simp add: link_inv_def)
  from acknowledge_drops_prefix [OF assms(3) this assms(4)]
  have "lk_pending (acknowledge h s) = drop (length (lk_pending s) - k) (lk_pending s)"
    using assms(5,6) by (auto simp: acknowledge_def)
  with consecutive_drop [OF assms(3)] show ?thesis by (simp add: drop_map)
qed

theorem link_acknowledge_cumulative_witness:
  "let m = \<lambda>q. \<lparr>pm_sequence = q, pm_frame = packet_bytes (example_packet q 1), pm_deadline = 0, pm_retries = 0\<rparr>;
       s = (established_link ())\<lparr>lk_sent_sequence := 1, lk_pending := [m 255, m 0, m 1]\<rparr>;
       h = \<lparr>hdr_length = 9, hdr_control = kControlAck, hdr_sequence = 7, hdr_acknowledgement = 0, hdr_session_id = 0\<rparr>
   in lk_pending (acknowledge h s) = [m 1]"
proof -
  let ?m = "\<lambda>q. \<lparr>pm_sequence = q, pm_frame = packet_bytes (example_packet q 1), pm_deadline = 0, pm_retries = 0\<rparr>"
  let ?s = "(established_link ())\<lparr>lk_sent_sequence := 1, lk_pending := [?m 255, ?m 0, ?m 1]\<rparr>"
  let ?h = "\<lparr>hdr_length = 9, hdr_control = kControlAck, hdr_sequence = 7, hdr_acknowledgement = 0, hdr_session_id = 0\<rparr>"
  have "pending_wf (?m q)" for q
    unfolding pending_wf_def
    by (intro exI [of _ "fst (example_packet q 1)"] exI [of _ "snd (example_packet q 1)"])
       (simp add: example_packet_def packet_wf_def)
  then have "link_inv ?s"
    by (simp add: link_inv_def established_link_def new_link_def default_lsp_def)
  moreover have "consecutive 1 [255, 0, 1]"
    by (simp add: consecutive_def numeral_3_eq_3 less_Suc_eq)
  ultimately show ?thesis
    using link_acknowledge_cumulative [of ?s 1 ?h]
    by (simp add: established_link_def Let_def control_defs)
qed

text \<open>
  The handshake: a negotiating link that receives the peer's SYN and then the
  acknowledgement of its own is established, with the peer's parameters clamped
  to sane values and the peer's sequence number as the last received.
\<close>

theorem link_handshake_completes:
  fixes s :: "'w link"
  assumes "lk_state s = Negotiate" "lk_syn_outstanding s"
    and "9 \<le> max_len l" "length (sessions l) \<le> 21838"
    and "\<And>frame w. fst (send_fn env frame w)"
    and "hdr_control syn AND kControlRst = 0" "hdr_control syn AND kControlSyn \<noteq> 0"
    and "hdr_control ack = kControlAck" "hdr_acknowledgement ack = lk_syn_sequence s"
  shows "let s' = packet_step env now' (ack, []) (packet_step env now (syn, encode_lsp l) s) in
    lk_state s' = Normal \<and> lk_lsp s' = clamp_lsp l
    \<and> lk_last_sequence_valid s' \<and> lk_last_received_sequence s' = hdr_sequence syn"
  using assms by (rule handshake_completes)

theorem link_handshake_completes_witness:
  "let s = start recording_env 0 (new_link []);
       syn = \<lparr>hdr_length = 29, hdr_control = kControlSyn, hdr_sequence = 3, hdr_acknowledgement = 0, hdr_session_id = 0\<rparr>;
       ack = \<lparr>hdr_length = 9, hdr_control = kControlAck, hdr_sequence = 4, hdr_acknowledgement = 100, hdr_session_id = 0\<rparr>;
       s' = packet_step recording_env 2 (ack, []) (packet_step recording_env 1 (syn, encode_lsp default_lsp) s)
   in lk_state s' = Normal \<and> lk_lsp s' = clamp_lsp default_lsp
    \<and> lk_last_sequence_valid s' \<and> lk_last_received_sequence s' = 3"
proof -
  let ?s = "start recording_env 0 (new_link [])"
  let ?syn = "\<lparr>hdr_length = 29, hdr_control = kControlSyn, hdr_sequence = 3, hdr_acknowledgement = 0, hdr_session_id = 0\<rparr>"
  let ?ack = "\<lparr>hdr_length = 9, hdr_control = kControlAck, hdr_sequence = 4, hdr_acknowledgement = 100, hdr_session_id = 0\<rparr>"
  have "lk_state ?s = Negotiate" "lk_syn_outstanding ?s" "lk_syn_sequence ?s = 100"
    by (simp_all add: start_def send_marker_def transmit_def recording_env_def new_link_def send_syn_def
        write_packet_def encode_packet_def Let_def length_encode_lsp default_lsp_def)
  then show ?thesis
    using link_handshake_completes [of ?s default_lsp recording_env ?syn ?ack 2 1]
    by (simp add: Let_def recording_env_def default_lsp_def control_defs)
qed

text \<open>
  Nothing but the acknowledgement of the outstanding SYN establishes the link.
\<close>

theorem link_established_by_ack_only:
  assumes "lk_state s \<noteq> Normal" "lk_state (packet_step env now p s) = Normal"
  shows "lk_state s = Negotiate \<and> lk_syn_outstanding s \<and> hdr_control (fst p) AND kControlAck \<noteq> 0
    \<and> hdr_control (fst p) AND kControlSyn = 0
    \<and> acknowledged_by (lk_syn_sequence s) (hdr_acknowledgement (fst p))"
  using assms by (rule packet_step_to_normal)

theorem link_established_by_ack_only_witness:
  "acknowledged_by 100 100"
proof -
  let ?s = "(new_link [])\<lparr>lk_state := Negotiate, lk_syn_outstanding := True, lk_syn_sequence := 100\<rparr>"
  let ?ack = "\<lparr>hdr_length = 9, hdr_control = kControlAck, hdr_sequence = 4, hdr_acknowledgement = 100, hdr_session_id = 0\<rparr>"
  have "lk_state (packet_step recording_env 1 (?ack, []) ?s) = Normal"
    by (simp add: packet_step_def handle_packet_def acknowledge_def handle_syn_ack_def acknowledged_by_def
        new_link_def control_defs Let_def)
  then show ?thesis
    using link_established_by_ack_only [of ?s recording_env 1 "(?ack, [])"] by (simp add: new_link_def)
qed

text \<open>
  A message that is never acknowledged kills the link: when the timer runs
  once per retransmission timeout, one more time than the retries that are left,
  the link is dead, whether or not the transport keeps working.
\<close>

theorem link_unacknowledged_dies:
  assumes "lk_state s = Normal" "link_inv s" "lk_pending s = m # ms"
    and "spaced (milliseconds (unat (retransmission_timeout (lk_lsp s)))) (pm_deadline m) ts"
    and "unat (max_retransmissions (lk_lsp s)) < pm_retries m + length ts"
  shows "lk_state (fold (tick env) ts s) = Dead"
proof -
  have "pm_retries m \<le> unat (max_retransmissions (lk_lsp s))"
    using assms(1-3) by (simp add: link_inv_def)
  with assms show ?thesis by (intro ticks_kill [of s m ms]) simp_all
qed

theorem link_unacknowledged_dies_witness:
  "let m = \<lparr>pm_sequence = 100, pm_frame = packet_bytes (example_packet 100 1), pm_deadline = 10, pm_retries = 0\<rparr>;
       s = (established_link [])\<lparr>lk_sent_sequence := 100, lk_pending := [m],
             lk_lsp := default_lsp\<lparr>max_retransmissions := 1\<rparr>\<rparr>
   in lk_state (fold (tick recording_env) [10, 10] s) = Dead"
proof -
  let ?m = "\<lparr>pm_sequence = 100, pm_frame = packet_bytes (example_packet 100 1), pm_deadline = 10, pm_retries = 0\<rparr>"
  let ?s = "(established_link [])\<lparr>lk_sent_sequence := 100, lk_pending := [?m],
             lk_lsp := default_lsp\<lparr>max_retransmissions := 1\<rparr>\<rparr>"
  have "pending_wf ?m"
    unfolding pending_wf_def
    by (intro exI [of _ "fst (example_packet 100 1)"] exI [of _ "snd (example_packet 100 1)"])
       (simp add: example_packet_def packet_wf_def)
  then have "link_inv ?s"
    by (simp add: link_inv_def established_link_def default_lsp_def)
  then show ?thesis
    using link_unacknowledged_dies [of ?s ?m "[]" "[10, 10]" recording_env]
    by (simp add: established_link_def Let_def default_lsp_def milliseconds_def)
qed

lemma start_new_link:
  fixes env :: "'w link_env"
  assumes "\<And>frame w. fst (send_fn env frame w)"
  obtains w' where "start env now (new_link w) = (new_link w)\<lparr>lk_state := Negotiate, lk_sent_sequence := 100,
     lk_syn_sequence := 100, lk_syn_outstanding := True, lk_world := w', lk_next_syn := now + milliseconds 500\<rparr>"
proof -
  have "encode_packet (encode_lsp default_lsp) x c i s' \<noteq> []" for x c i and s' :: "'w link"
    by (simp add: encode_packet_def length_encode_lsp default_lsp_def)
  with assms have "\<exists>w'. start env now (new_link w) = (new_link w)\<lparr>lk_state := Negotiate, lk_sent_sequence := 100,
     lk_syn_sequence := 100, lk_syn_outstanding := True, lk_world := w', lk_next_syn := now + milliseconds 500\<rparr>"
    by (simp add: start_def send_marker_def transmit_eq send_syn_def new_link_def Let_def write_packet_def)
  then show thesis using that by blast
qed

lemma send_control_default:
  fixes env :: "'w link_env"
  assumes "\<And>frame w. fst (send_fn env frame w)" "lk_state s = Normal" "lk_lsp s = default_lsp"
    "lk_pending s = []" "payload \<noteq> []" "length payload \<le> 65525"
  obtains m where "lk_state (snd (send_control env payload s)) = Normal"
    "lk_lsp (snd (send_control env payload s)) = default_lsp"
    "lk_pending (snd (send_control env payload s)) = [m]" "pm_retries m = 0"
    "pm_deadline m = steady_now env (lk_world (snd (send_control env payload s)))"
proof -
  have frame: "encode_packet payload x c i s' \<noteq> []" for x c i and s' :: "'w link"
    using assms(6) by (simp add: encode_packet_def)
  have lsp: "max_len default_lsp = 65535" "max_outgoing default_lsp = 4"
    "retransmission_timeout default_lsp = 0" by (simp_all add: default_lsp_def)
  show thesis
    by (rule that [of "hd (lk_pending (snd (send_control env payload s)))"])
       (use assms frame lsp in \<open>simp_all add: send_control_def Let_def transmit_eq milliseconds_def\<close>)
qed

text \<open>
  The acknowledgement of the own SYN establishes the link even when the peer's
  SYN was never received.  The default parameters are then in force, which allow no
  retransmission: the first message whose deadline passes kills the link.
\<close>

theorem link_established_without_peer_syn:
  fixes w :: 'w
  assumes "\<And>frame w. fst (send_fn env frame w)"
    and "hdr_control ack = kControlAck" "hdr_acknowledgement ack = 100"
  shows "let s = packet_step env now' (ack, []) (start env now (new_link w)) in
    lk_state s = Normal \<and> lk_lsp s = default_lsp \<and> \<not> lk_last_sequence_valid s
    \<and> (\<forall>payload t. payload \<noteq> [] \<and> length payload \<le> 65525 \<and> steady_now env (lk_world (snd (send_control env payload s))) \<le> t
        \<longrightarrow> lk_state (tick env t (snd (send_control env payload s))) = Dead)"
proof -
  obtain w' where start: "start env now (new_link w) = (new_link w)\<lparr>lk_state := Negotiate, lk_sent_sequence := 100,
     lk_syn_sequence := 100, lk_syn_outstanding := True, lk_world := w', lk_next_syn := now + milliseconds 500\<rparr>"
    using start_new_link [OF assms(1)] by blast
  let ?s = "packet_step env now' (ack, []) (start env now (new_link w))"
  have s: "lk_state ?s = Normal" "lk_lsp ?s = default_lsp" "\<not> lk_last_sequence_valid ?s" "lk_pending ?s = []"
    unfolding start using assms(2,3)
    by (simp_all add: packet_step_def handle_packet_def Let_def acknowledge_def
        handle_syn_ack_def acknowledged_by_def new_link_def control_defs)
  have "lk_state (tick env t (snd (send_control env payload ?s))) = Dead"
    if "payload \<noteq> []" "length payload \<le> 65525"
      "steady_now env (lk_world (snd (send_control env payload ?s))) \<le> t" for payload t
  proof -
    from send_control_default [OF assms(1) s(1,2,4) that(1,2)] obtain m where
      "lk_state (snd (send_control env payload ?s)) = Normal"
      "lk_lsp (snd (send_control env payload ?s)) = default_lsp"
      "lk_pending (snd (send_control env payload ?s)) = [m]" "pm_retries m = 0"
      "pm_deadline m = steady_now env (lk_world (snd (send_control env payload ?s)))" .
    with tick_expired [of "snd (send_control env payload ?s)" m "[]" t env] that(3)
    show ?thesis by (simp add: default_lsp_def)
  qed
  with s show ?thesis by (simp add: Let_def)
qed

theorem link_established_without_peer_syn_witness:
  "let ack = \<lparr>hdr_length = 9, hdr_control = kControlAck, hdr_sequence = 4, hdr_acknowledgement = 100, hdr_session_id = 0\<rparr>;
       s = packet_step recording_env 1 (ack, []) (start recording_env 0 (new_link []))
   in lk_state (tick recording_env 0 (snd (send_control recording_env [1] s))) = Dead"
  using link_established_without_peer_syn [of recording_env
      "\<lparr>hdr_length = 9, hdr_control = kControlAck, hdr_sequence = 4, hdr_acknowledgement = 100, hdr_session_id = 0\<rparr>" 1 0 "[]"]
  by (simp add: recording_env_def Let_def)

end
