(* ===== verification/Iap2_Control.thy ===== *)
theory Iap2_Control
  imports Iap2_Csm Iap2_Link
begin

text \<open>
  The two clients of the link layer and the loop that drives them:
  \<open>BootstrapSession\<close> (identification and MFi authentication,
  \<open>src/src/iap2/bootstrap.cpp\<close>), \<open>CarPlayProbe\<close> (CarPlay availability, session start
  and Wi-Fi hand-over, \<open>src/src/iap2/carplay_probe.cpp\<close>), the routing of control
  data between them and the poll loop of \<open>src/src/iap2_bt_main.cpp\<close>.  Both clients
  live in the world of the link, next to the environment \<open>'e\<close> of sockets,
  clock, random numbers and NetworkManager, whose operations are the fields of
  \<open>io\<close>.
\<close>

section \<open>State\<close>

datatype stage = Idle | AwaitIdentification | AwaitCertificate | AwaitResponse | Done | Failed

record bootstrap =
  bs_decoder :: bytes
  bs_attached :: bool
  bs_challenge :: bytes
  bs_certificate :: bytes
  bs_stage :: stage

definition new_bootstrap :: bootstrap where
  "new_bootstrap = \<lparr>bs_decoder = [], bs_attached = False, bs_challenge = replicate 20 0,
     bs_certificate = [], bs_stage = Idle\<rparr>"

record wifi_configuration =
  wifi_ssid :: string
  wifi_passphrase :: string
  wifi_security_type :: byte
  wifi_channel :: byte

record probe =
  pr_decoder :: bytes
  pr_attached :: bool
  pr_bluetooth_identifier :: string
  pr_join_handler_set :: bool
  pr_request_wifi :: bool
  pr_awaiting_wifi_configuration :: bool
  pr_started :: bool
  pr_done :: bool
  pr_failed :: bool
  pr_airplay_port :: u32
  pr_airplay_host :: string

definition new_probe :: "string \<Rightarrow> probe" where
  "new_probe identifier = \<lparr>pr_decoder = [], pr_attached = False, pr_bluetooth_identifier = identifier,
     pr_join_handler_set = False, pr_request_wifi = False, pr_awaiting_wifi_configuration = False,
     pr_started = False, pr_done = False, pr_failed = False, pr_airplay_port = 0, pr_airplay_host = []\<rparr>"

record 'e control_world =
  cw_session :: bootstrap
  cw_probe :: probe
  cw_ext :: 'e

record 'e io =
  io_send_all :: "bytes \<Rightarrow> 'e \<Rightarrow> bool \<times> 'e"
  io_steady_now :: "'e \<Rightarrow> time_point"
  io_random_byte :: "'e \<Rightarrow> byte \<times> 'e"
  io_verify :: "bytes \<Rightarrow> bytes \<Rightarrow> bytes \<Rightarrow> bool"
  io_join_with_networkmanager :: "wifi_configuration \<Rightarrow> 'e \<Rightarrow> bool \<times> 'e"
  io_mark_joined :: "'e \<Rightarrow> 'e"
  io_accessory_endpoint :: "'e \<Rightarrow> string option \<times> 'e"

type_synonym 'e control_link = "'e control_world link"

abbreviation session_of :: "'e control_link \<Rightarrow> bootstrap" where
  "session_of s \<equiv> cw_session (lk_world s)"

abbreviation probe_of :: "'e control_link \<Rightarrow> probe" where
  "probe_of s \<equiv> cw_probe (lk_world s)"

definition on_session :: "(bootstrap \<Rightarrow> bootstrap) \<Rightarrow> 'e control_link \<Rightarrow> 'e control_link" where
  "on_session f s = s\<lparr>lk_world := (lk_world s)\<lparr>cw_session := f (session_of s)\<rparr>\<rparr>"

definition on_probe :: "(probe \<Rightarrow> probe) \<Rightarrow> 'e control_link \<Rightarrow> 'e control_link" where
  "on_probe f s = s\<lparr>lk_world := (lk_world s)\<lparr>cw_probe := f (probe_of s)\<rparr>\<rparr>"

definition on_ext :: "('e \<Rightarrow> 'r \<times> 'e) \<Rightarrow> 'e control_link \<Rightarrow> 'r \<times> 'e control_link" where
  "on_ext f s = (let (r, e) = f (cw_ext (lk_world s)) in (r, s\<lparr>lk_world := (lk_world s)\<lparr>cw_ext := e\<rparr>\<rparr>))"

text \<open>The transport of the link: \<open>send_all\<close> on the socket and the steady clock.\<close>

definition base_env :: "'e io \<Rightarrow> 'e control_world link_env" where
  "base_env io =
     \<lparr>send_fn = (\<lambda>frame w. let (ok, e) = io_send_all io frame (cw_ext w) in (ok, w\<lparr>cw_ext := e\<rparr>)),
      steady_now = (\<lambda>w. io_steady_now io (cw_ext w)), log_set = True, control_data = None\<rparr>"

definition link_send_control :: "'e io \<Rightarrow> bytes \<Rightarrow> 'e control_link \<Rightarrow> bool \<times> 'e control_link" where
  "link_send_control io payload s = send_control (base_env io) payload s"

section \<open>The bootstrap session\<close>

definition bs_fail :: "'e control_link \<Rightarrow> 'e control_link" where
  "bs_fail s = on_session (\<lambda>b. b\<lparr>bs_stage := Failed\<rparr>) s"

definition bs_attach :: "'e control_link \<Rightarrow> 'e control_link" where
  "bs_attach s = on_session (\<lambda>b. b\<lparr>bs_attached := True\<rparr>) s"

definition bs_send_empty :: "'e io \<Rightarrow> u16 \<Rightarrow> 'e control_link \<Rightarrow> 'e control_link" where
  "bs_send_empty io mid s =
     (if \<not> bs_attached (session_of s) then bs_fail s
      else let (ok, s') = link_send_control io (csm_encode mid []) s in
           if \<not> ok then bs_fail s' else s')"

definition bs_begin :: "'e io \<Rightarrow> 'e control_link \<Rightarrow> 'e control_link" where
  "bs_begin io s =
     bs_send_empty io kStartIdentification (on_session (\<lambda>b. b\<lparr>bs_stage := AwaitIdentification\<rparr>) s)"

fun random_bytes :: "'e io \<Rightarrow> nat \<Rightarrow> 'e \<Rightarrow> bytes \<times> 'e" where
  "random_bytes io 0 e = ([], e)"
| "random_bytes io (Suc n) e =
     (let (b, e1) = io_random_byte io e; (bs, e2) = random_bytes io n e1 in (b # bs, e2))"

definition bs_handle_certificate :: "'e io \<Rightarrow> message \<Rightarrow> 'e control_link \<Rightarrow> 'e control_link" where
  "bs_handle_certificate io m s =
     (if msg_id m \<noteq> kAuthenticationCertificate then s
      else case first_bytes_parameter (msg_payload m) 0 of
        None \<Rightarrow> bs_fail s
      | Some certificate \<Rightarrow>
          let s1 = on_session (\<lambda>b. b\<lparr>bs_certificate := certificate\<rparr>) s;
              (challenge, s2) = on_ext (random_bytes io 20) s1;
              s3 = on_session (\<lambda>b. b\<lparr>bs_challenge := challenge\<rparr>) s2;
              request = encode_bytes_parameter kRequestAuthenticationChallengeResponse 0 challenge
          in if \<not> bs_attached (session_of s3) then bs_fail s3
             else let (ok, s4) = link_send_control io request s3 in
                  if \<not> ok then bs_fail s4
                  else on_session (\<lambda>b. b\<lparr>bs_stage := AwaitResponse\<rparr>) s4)"

definition bs_handle :: "'e io \<Rightarrow> message \<Rightarrow> 'e control_link \<Rightarrow> 'e control_link" where
  "bs_handle io m s =
     (case bs_stage (session_of s) of
        AwaitIdentification \<Rightarrow>
          if msg_id m = kIdentificationRejected then bs_fail s
          else if msg_id m = kIdentificationInformation then
            on_session (\<lambda>b. b\<lparr>bs_stage := AwaitCertificate\<rparr>)
              (bs_send_empty io kRequestAuthenticationCertificate
                (bs_send_empty io kIdentificationAccepted s))
          else s
      | AwaitCertificate \<Rightarrow> bs_handle_certificate io m s
      | AwaitResponse \<Rightarrow>
          if msg_id m = kAuthenticationFailed then bs_fail s
          else if msg_id m = kAuthenticationResponse then
            (case first_bytes_parameter (msg_payload m) 0 of
               None \<Rightarrow> bs_fail s
             | Some signature \<Rightarrow>
                 if \<not> io_verify io (bs_challenge (session_of s)) signature (bs_certificate (session_of s))
                 then bs_fail s
                 else on_session (\<lambda>b. b\<lparr>bs_stage := Done\<rparr>)
                        (bs_send_empty io kAuthenticationSucceeded s))
          else s
      | _ \<Rightarrow> s)"

text \<open>
  \<open>handle\<close> does not touch the decoder, so the messages of the loop
  \<open>while (decoder_.next()) handle(...)\<close> are those the drained buffer yields.
\<close>

definition bs_receive :: "'e io \<Rightarrow> bytes \<Rightarrow> 'e control_link \<Rightarrow> 'e control_link" where
  "bs_receive io bs s =
     (let (messages, rest) = drain decoder_next (decoder_push (bs_decoder (session_of s)) bs)
      in fold (bs_handle io) messages (on_session (\<lambda>b. b\<lparr>bs_decoder := rest\<rparr>) s))"

definition bs_done :: "bootstrap \<Rightarrow> bool" where "bs_done b = (bs_stage b = Done)"
definition bs_failed :: "bootstrap \<Rightarrow> bool" where "bs_failed b = (bs_stage b = Failed)"
definition bs_started :: "bootstrap \<Rightarrow> bool" where "bs_started b = (bs_stage b \<noteq> Idle)"

section \<open>The CarPlay probe\<close>

definition kCarPlayAvailability :: u16 where "kCarPlayAvailability = 0x4300"
definition kCarPlayStartSession :: u16 where "kCarPlayStartSession = 0x4301"
definition kRequestAccessoryWifiConfiguration :: u16 where
  "kRequestAccessoryWifiConfiguration = 0x5702"
definition kAccessoryWifiConfiguration :: u16 where "kAccessoryWifiConfiguration = 0x5703"
definition kWirelessCarPlayUpdate :: u16 where "kWirelessCarPlayUpdate = 0x4e0d"

text \<open>\<open>append_parameter\<close> truncates the length field to 16 bits.\<close>

definition append_parameter :: "bytes \<Rightarrow> u16 \<Rightarrow> bytes \<Rightarrow> bytes" where
  "append_parameter output pid value =
     output @ u16_be (of_nat (length value + 4)) @ u16_be pid @ value"

definition attributes :: "bool \<Rightarrow> string \<Rightarrow> bytes" where
  "attributes available identifier =
     (let output = append_parameter [] 0 [if available then 1 else 0] in
      if identifier \<noteq> [] then append_parameter output 1 (bytes_of identifier @ [0]) else output)"

definition string_parameter :: "message \<Rightarrow> u16 \<Rightarrow> string" where
  "string_parameter m pid =
     (case first_bytes_parameter (msg_payload m) pid of
        None \<Rightarrow> []
      | Some value \<Rightarrow> text_of (if value \<noteq> [] \<and> last value = 0 then butlast value else value))"

definition u32_parameter :: "message \<Rightarrow> u16 \<Rightarrow> u32" where
  "u32_parameter m pid =
     (case first_bytes_parameter (msg_payload m) pid of
        None \<Rightarrow> 0
      | Some value \<Rightarrow> if length value \<noteq> 4 then 0 else ucast (be_value value))"

definition u8_parameter :: "message \<Rightarrow> u16 \<Rightarrow> byte" where
  "u8_parameter m pid =
     (case first_bytes_parameter (msg_payload m) pid of
        None \<Rightarrow> 0
      | Some value \<Rightarrow> if length value = 1 then value ! 0 else 0)"

definition pr_fail :: "'e control_link \<Rightarrow> 'e control_link" where
  "pr_fail s = on_probe (\<lambda>p. p\<lparr>pr_failed := True\<rparr>) s"

definition pr_attach :: "'e control_link \<Rightarrow> 'e control_link" where
  "pr_attach s = on_probe (\<lambda>p. p\<lparr>pr_attached := True\<rparr>) s"

definition request_wifi_configuration :: "bool \<Rightarrow> 'e control_link \<Rightarrow> 'e control_link" where
  "request_wifi_configuration enabled s = on_probe (\<lambda>p. p\<lparr>pr_request_wifi := enabled\<rparr>) s"

definition set_wifi_join_handler :: "'e control_link \<Rightarrow> 'e control_link" where
  "set_wifi_join_handler s = on_probe (\<lambda>p. p\<lparr>pr_join_handler_set := True, pr_request_wifi := True\<rparr>) s"

definition set_airplay_endpoint :: "string \<Rightarrow> u32 \<Rightarrow> 'e control_link \<Rightarrow> 'e control_link" where
  "set_airplay_endpoint host port s =
     on_probe (\<lambda>p. p\<lparr>pr_airplay_host := host, pr_airplay_port := port\<rparr>) s"

text \<open>The handler the worker installs: join, remember to clean up, find the endpoint.\<close>

definition wifi_join_handler :: "'e io \<Rightarrow> wifi_configuration \<Rightarrow> 'e control_link \<Rightarrow> bool \<times> 'e control_link" where
  "wifi_join_handler io configuration s =
     (let (joined, s1) = on_ext (io_join_with_networkmanager io configuration) s in
      if \<not> joined then (False, s1)
      else
        let (_, s2) = on_ext (\<lambda>e. ((), io_mark_joined io e)) s1;
            (endpoint, s3) = on_ext (io_accessory_endpoint io) s2
        in case endpoint of
             None \<Rightarrow> (False, s3)
           | Some host \<Rightarrow> (True, set_airplay_endpoint host 7000 s3))"

definition pr_begin :: "'e io \<Rightarrow> 'e control_link \<Rightarrow> 'e control_link" where
  "pr_begin io s =
     (if \<not> pr_attached (probe_of s) then pr_fail s
      else if pr_request_wifi (probe_of s) then
        let (ok, s') = link_send_control io (csm_encode kRequestAccessoryWifiConfiguration []) s in
        if \<not> ok then pr_fail s'
        else on_probe (\<lambda>p. p\<lparr>pr_awaiting_wifi_configuration := True, pr_started := True\<rparr>) s'
      else if pr_bluetooth_identifier (probe_of s) = [] then pr_fail s
      else
        let wireless = attributes True (pr_bluetooth_identifier (probe_of s));
            (ok, s') = link_send_control io (csm_encode kCarPlayAvailability (append_parameter [] 1 wireless)) s
        in if \<not> ok then pr_fail s' else on_probe (\<lambda>p. p\<lparr>pr_started := True\<rparr>) s')"

definition pr_handle_start_session :: "'e io \<Rightarrow> message \<Rightarrow> 'e control_link \<Rightarrow> 'e control_link" where
  "pr_handle_start_session io m s =
     (let s1 = on_probe (\<lambda>p. p\<lparr>pr_airplay_port := u32_parameter m 2,
                              pr_airplay_host := string_parameter m 3\<rparr>) s in
      if \<not> pr_request_wifi (probe_of s1) then on_probe (\<lambda>p. p\<lparr>pr_done := True\<rparr>) s1
      else if \<not> pr_attached (probe_of s1) then pr_fail s1
      else
        let (ok, s2) = link_send_control io (csm_encode kRequestAccessoryWifiConfiguration []) s1 in
        if \<not> ok then pr_fail s2
        else on_probe (\<lambda>p. p\<lparr>pr_awaiting_wifi_configuration := True\<rparr>) s2)"

definition pr_handle_wifi_configuration :: "'e io \<Rightarrow> message \<Rightarrow> 'e control_link \<Rightarrow> 'e control_link" where
  "pr_handle_wifi_configuration io m s =
     (let configuration = \<lparr>wifi_ssid = string_parameter m 1, wifi_passphrase = string_parameter m 2,
            wifi_security_type = u8_parameter m 3, wifi_channel = u8_parameter m 4\<rparr> in
      if wifi_ssid configuration = [] then pr_fail s
      else if pr_join_handler_set (probe_of s) then
        let (joined, s1) = wifi_join_handler io configuration s in
        if \<not> joined then pr_fail s1
        else if \<not> pr_attached (probe_of s1) then pr_fail s1
        else
          let (ok, s2) = link_send_control io (encode_bytes_parameter kWirelessCarPlayUpdate 0 [1]) s1 in
          if \<not> ok then pr_fail s2
          else if pr_airplay_host (probe_of s2) \<noteq> [] \<and> pr_airplay_port (probe_of s2) \<noteq> 0
          then on_probe (\<lambda>p. p\<lparr>pr_done := True\<rparr>) s2
          else s2
      else on_probe (\<lambda>p. p\<lparr>pr_done := True\<rparr>) s)"

definition pr_handle :: "'e io \<Rightarrow> message \<Rightarrow> 'e control_link \<Rightarrow> 'e control_link" where
  "pr_handle io m s =
     (if msg_id m = kCarPlayStartSession then pr_handle_start_session io m s
      else if msg_id m = kAccessoryWifiConfiguration \<and> pr_awaiting_wifi_configuration (probe_of s)
      then pr_handle_wifi_configuration io m s
      else s)"

definition pr_receive :: "'e io \<Rightarrow> bytes \<Rightarrow> 'e control_link \<Rightarrow> 'e control_link" where
  "pr_receive io bs s =
     (let (messages, rest) = drain decoder_next (decoder_push (pr_decoder (probe_of s)) bs)
      in fold (pr_handle io) messages (on_probe (\<lambda>p. p\<lparr>pr_decoder := rest\<rparr>) s))"

section \<open>Routing and the poll loop\<close>

record options =
  opt_bootstrap :: bool
  opt_carplay :: bool

definition route_control_data :: "'e io \<Rightarrow> options \<Rightarrow> bytes \<Rightarrow> 'e control_link \<Rightarrow> 'e control_link" where
  "route_control_data io opts bs s =
     (if opt_carplay opts \<and> bs_done (session_of s) then pr_receive io bs s else bs_receive io bs s)"

definition control_env :: "'e io \<Rightarrow> options \<Rightarrow> 'e control_world link_env" where
  "control_env io opts = (base_env io)\<lparr>control_data := Some (route_control_data io opts)\<rparr>"

definition loop_continues :: "options \<Rightarrow> 'e control_link \<Rightarrow> bool" where
  "loop_continues opts s =
     (lk_state s \<noteq> Dead
      \<and> (\<not> opt_bootstrap opts
         \<or> (if opt_carplay opts then \<not> pr_done (probe_of s) \<and> \<not> pr_failed (probe_of s)
            else \<not> bs_done (session_of s) \<and> \<not> bs_failed (session_of s)))
      \<and> (opt_bootstrap opts \<or> lk_state s \<noteq> Normal))"

text \<open>One iteration: the bytes \<open>recv\<close> returned, if the socket was readable, and the time.\<close>

definition loop_body ::
    "'e io \<Rightarrow> options \<Rightarrow> bytes option \<times> time_point \<Rightarrow> 'e control_link \<times> bytes \<Rightarrow> 'e control_link \<times> bytes" where
  "loop_body io opts event sb =
     (let (received, now) = event;
          (s1, buf) = (case received of Some bs \<Rightarrow> receive (control_env io opts) bs now sb | None \<Rightarrow> sb);
          s2 = tick (control_env io opts) now s1;
          s3 = (if opt_bootstrap opts \<and> lk_state s2 = Normal \<and> \<not> bs_started (session_of s2)
                then bs_begin io s2 else s2);
          s4 = (if opt_carplay opts \<and> bs_done (session_of s3) \<and> \<not> pr_started (probe_of s3)
                then pr_begin io s3 else s3)
      in (s4, buf))"

fun run_loop ::
    "'e io \<Rightarrow> options \<Rightarrow> (bytes option \<times> time_point) list \<Rightarrow> 'e control_link \<times> bytes \<Rightarrow> 'e control_link \<times> bytes" where
  "run_loop io opts [] sb = sb"
| "run_loop io opts (event # events) sb =
     (if loop_continues opts (fst sb) then run_loop io opts events (loop_body io opts event sb) else sb)"

definition control_start ::
    "'e io \<Rightarrow> options \<Rightarrow> string \<Rightarrow> bool \<Rightarrow> bool \<Rightarrow> time_point \<Rightarrow> 'e \<Rightarrow> 'e control_link \<times> bytes" where
  "control_start io opts identifier wifi_config join_wifi now e =
     (let s0 = new_link \<lparr>cw_session = new_bootstrap, cw_probe = new_probe identifier, cw_ext = e\<rparr>;
          s1 = request_wifi_configuration wifi_config (pr_attach (bs_attach s0));
          s2 = (if join_wifi then set_wifi_join_handler s1 else s1)
      in (start (control_env io opts) now s2, []))"

section \<open>The handlers act on the link through \<open>send_control\<close>\<close>

lemma send_control_env: "send_control (base_env io) p s = send_control (control_env io opts) p s"
  by (simp add: send_control_def control_env_def transmit_eq Let_def)

lemma uses_on_session: "uses_link env s s' \<Longrightarrow> uses_link env s (on_session f s')"
  by (simp add: on_session_def uses_link.world)

lemma uses_on_probe: "uses_link env s s' \<Longrightarrow> uses_link env s (on_probe f s')"
  by (simp add: on_probe_def uses_link.world)

lemma uses_on_ext: "uses_link env s s' \<Longrightarrow> uses_link env s (snd (on_ext f s'))"
  by (simp add: on_ext_def split_beta uses_link.world)

lemma uses_link_send_control:
  "uses_link (control_env io opts) s s' \<Longrightarrow> uses_link (control_env io opts) s (snd (link_send_control io p s'))"
  by (simp add: link_send_control_def send_control_env [of io p s' opts] uses_link.control)

lemma uses_if:
  "(b \<Longrightarrow> uses_link env s x) \<Longrightarrow> (\<not> b \<Longrightarrow> uses_link env s y) \<Longrightarrow> uses_link env s (if b then x else y)"
  by simp

lemmas uses_intros = uses_if uses_on_session uses_on_probe uses_on_ext uses_link_send_control

lemma bs_send_empty_uses:
  "uses_link (control_env io opts) s s' \<Longrightarrow> uses_link (control_env io opts) s (bs_send_empty io mid s')"
  unfolding bs_send_empty_def bs_fail_def split_beta Let_def by (intro uses_intros)

lemma bs_handle_certificate_uses:
  "uses_link (control_env io opts) s s' \<Longrightarrow> uses_link (control_env io opts) s (bs_handle_certificate io m s')"
  unfolding bs_handle_certificate_def bs_fail_def split_beta Let_def
  by (cases "first_bytes_parameter (msg_payload m) 0"; simp only: option.case; intro uses_intros)

lemma bs_handle_uses:
  "uses_link (control_env io opts) s s' \<Longrightarrow> uses_link (control_env io opts) s (bs_handle io m s')"
  unfolding bs_handle_def bs_fail_def
  by (cases "bs_stage (session_of s')"; cases "first_bytes_parameter (msg_payload m) 0";
      simp only: stage.case option.case; intro uses_intros bs_send_empty_uses bs_handle_certificate_uses)

lemma wifi_join_handler_uses:
  assumes "uses_link env s s'"
  shows "uses_link env s (snd (wifi_join_handler io c s'))"
proof -
  let ?s1 = "snd (on_ext (io_join_with_networkmanager io c) s')"
  let ?s3 = "snd (on_ext (io_accessory_endpoint io) (snd (on_ext (\<lambda>e. ((), io_mark_joined io e)) ?s1)))"
  have "uses_link env s ?s1" "uses_link env s ?s3" using assms by (intro uses_intros; assumption)+
  then show ?thesis
    by (auto simp: wifi_join_handler_def set_airplay_endpoint_def split_beta Let_def uses_on_probe
        split: option.split)
qed

lemma pr_handle_uses:
  "uses_link (control_env io opts) s s' \<Longrightarrow> uses_link (control_env io opts) s (pr_handle io m s')"
  unfolding pr_handle_def pr_handle_start_session_def pr_handle_wifi_configuration_def pr_fail_def split_beta Let_def
  by (intro uses_intros wifi_join_handler_uses)

lemma fold_uses:
  "(\<And>m s'. uses_link env s s' \<Longrightarrow> uses_link env s (f m s')) \<Longrightarrow> uses_link env s s' \<Longrightarrow> uses_link env s (fold f ms s')"
  by (induction ms arbitrary: s') auto

interpretation control: control_handler "control_env io opts" for io :: "'e io" and opts
proof unfold_locales
  fix callback and s :: "'e control_link" and payload
  assume "control_data (control_env io opts) = Some callback"
  then have "callback = route_control_data io opts" by (simp add: control_env_def)
  then show "uses_link (control_env io opts) s (callback payload s)"
    by (auto simp: route_control_data_def bs_receive_def pr_receive_def split: prod.split
        intro!: fold_uses bs_handle_uses pr_handle_uses uses_on_session uses_on_probe uses_link.keep)
qed

section \<open>Authentication comes first\<close>

lemma on_simps [simp, frame_simps]:
  "session_of (on_session f s) = f (session_of s)" "probe_of (on_session f s) = probe_of s"
  "session_of (on_probe g s) = session_of s" "probe_of (on_probe g s) = g (probe_of s)"
  "session_of (snd (on_ext h s)) = session_of s" "probe_of (snd (on_ext h s)) = probe_of s"
  "session_of (s\<lparr>lk_state := st\<rparr>) = session_of s"
  by (simp_all add: on_session_def on_probe_def on_ext_def split_beta)

lemma link_send_control_simps [simp, frame_simps]:
  "session_of (snd (link_send_control io p s)) = session_of s"
  "probe_of (snd (link_send_control io p s)) = probe_of s"
  by (simp_all add: link_send_control_def send_control_def base_env_def transmit_eq Let_def split_beta)

lemma bs_send_empty_simps [simp, frame_simps]:
  "probe_of (bs_send_empty io mid s) = probe_of s"
  "bs_challenge (session_of (bs_send_empty io mid s)) = bs_challenge (session_of s)"
  "bs_certificate (session_of (bs_send_empty io mid s)) = bs_certificate (session_of s)"
  by (simp_all add: bs_send_empty_def bs_fail_def split_beta)

lemma bs_send_empty_stage:
  "bs_stage (session_of (bs_send_empty io mid s)) \<in> {bs_stage (session_of s), Failed}"
  by (simp add: bs_send_empty_def bs_fail_def split_beta)

lemma length_random_bytes [simp]: "length (fst (random_bytes io n e)) = n"
  by (induction n arbitrary: e) (simp_all add: split_beta)

lemma fst_on_ext: "fst (on_ext f s) = fst (f (cw_ext (lk_world s)))"
  by (simp add: on_ext_def split_beta)

text \<open>
  The challenge has twenty bytes; a finished bootstrap has verified a signature of
  it; the probe has done nothing before that.
\<close>

definition auth_inv :: "'e io \<Rightarrow> 'e control_world \<Rightarrow> bool" where
  "auth_inv io w \<longleftrightarrow>
     length (bs_challenge (cw_session w)) = 20
     \<and> (bs_stage (cw_session w) = Done \<longrightarrow>
         (\<exists>signature. io_verify io (bs_challenge (cw_session w)) signature (bs_certificate (cw_session w))))
     \<and> (pr_started (cw_probe w) \<or> pr_done (cw_probe w) \<longrightarrow> bs_stage (cw_session w) = Done)"

lemma bs_handle_certificate_auth:
  assumes "auth_inv io (lk_world s)" "bs_stage (session_of s) = AwaitCertificate"
  shows "auth_inv io (lk_world (bs_handle_certificate io m s))"
  using assms
  by (auto simp: auth_inv_def bs_handle_certificate_def bs_fail_def Let_def split_beta fst_on_ext
      split: option.split)

lemma bs_handle_auth:
  assumes "auth_inv io (lk_world s)"
  shows "auth_inv io (lk_world (bs_handle io m s))"
proof (cases "bs_stage (session_of s)")
  case AwaitCertificate
  with assms show ?thesis by (simp add: bs_handle_def bs_handle_certificate_auth)
next
  case AwaitIdentification
  with assms show ?thesis by (auto simp: bs_handle_def bs_fail_def auth_inv_def)
next
  case AwaitResponse
  with assms show ?thesis by (auto simp: bs_handle_def bs_fail_def auth_inv_def split: option.split)
qed (use assms in \<open>simp_all add: bs_handle_def\<close>)

lemma fold_keeps: "(\<And>m s. P s \<Longrightarrow> P (f m s)) \<Longrightarrow> P s \<Longrightarrow> P (fold f ms s)"
  by (induction ms arbitrary: s) auto

lemma bs_receive_auth: "auth_inv io (lk_world s) \<Longrightarrow> auth_inv io (lk_world (bs_receive io bs s))"
  unfolding bs_receive_def split_beta Let_def
  by (rule fold_keeps [where P = "\<lambda>s. auth_inv io (lk_world s)"], erule bs_handle_auth)
     (simp add: auth_inv_def)

lemma wifi_join_handler_session [simp]:
  "session_of (snd (wifi_join_handler io c s)) = session_of s"
  by (auto simp: wifi_join_handler_def set_airplay_endpoint_def Let_def split_beta split: option.split)

lemma pr_handle_session [simp]: "session_of (pr_handle io m s) = session_of s"
  by (simp add: pr_handle_def pr_handle_start_session_def pr_handle_wifi_configuration_def pr_fail_def
      Let_def split_beta)

lemma fold_pr_handle_session [simp]: "session_of (fold (pr_handle io) ms s) = session_of s"
  by (induction ms arbitrary: s) simp_all

lemma pr_receive_session [simp]:
  "bs_challenge (session_of (pr_receive io bs s)) = bs_challenge (session_of s)"
  "bs_certificate (session_of (pr_receive io bs s)) = bs_certificate (session_of s)"
  "bs_stage (session_of (pr_receive io bs s)) = bs_stage (session_of s)"
  by (simp_all add: pr_receive_def split_beta)

lemma route_auth: "auth_inv io (lk_world s) \<Longrightarrow> auth_inv io (lk_world (route_control_data io opts bs s))"
proof (cases "opt_carplay opts \<and> bs_done (session_of s)")
  case True
  assume "auth_inv io (lk_world s)"
  with True show ?thesis by (simp add: route_control_data_def bs_done_def auth_inv_def)
qed (auto simp: route_control_data_def intro: bs_receive_auth)

interpretation authenticated: world_invariant "control_env io opts" "auth_inv io" for io :: "'e io" and opts
proof unfold_locales
  fix w :: "'e control_world" and frame
  assume "auth_inv io w"
  then show "auth_inv io (snd (send_fn (control_env io opts) frame w))"
    by (simp add: control_env_def base_env_def split_beta auth_inv_def)
next
  fix callback and s :: "'e control_link" and payload
  assume "control_data (control_env io opts) = Some callback" "auth_inv io (lk_world s)"
  then show "auth_inv io (lk_world (callback payload s))"
    by (auto simp: control_env_def intro: route_auth)
qed

lemma bs_begin_auth:
  "auth_inv io (lk_world s) \<Longrightarrow> \<not> bs_started (session_of s) \<Longrightarrow> auth_inv io (lk_world (bs_begin io s))"
  using bs_send_empty_stage [of io kStartIdentification "on_session (\<lambda>b. b\<lparr>bs_stage := AwaitIdentification\<rparr>) s"]
  by (auto simp: bs_begin_def auth_inv_def bs_started_def)

lemma pr_begin_auth:
  "auth_inv io (lk_world s) \<Longrightarrow> bs_done (session_of s) \<Longrightarrow> auth_inv io (lk_world (pr_begin io s))"
  by (simp add: pr_begin_def pr_fail_def auth_inv_def bs_done_def Let_def split_beta)

lemma loop_body_auth:
  assumes "auth_inv io (lk_world (fst sb))"
  shows "auth_inv io (lk_world (fst (loop_body io opts event sb)))"
proof -
  obtain received now where event: "event = (received, now)" by force
  have "auth_inv io (lk_world (fst (case received of Some bs \<Rightarrow> receive (control_env io opts) bs now sb | None \<Rightarrow> sb)))"
    using assms by (simp add: authenticated.receive_world split: option.split)
  from authenticated.tick_world [OF this, of opts now] show ?thesis
    by (auto simp: loop_body_def Let_def event split_beta intro!: pr_begin_auth intro: bs_begin_auth)
qed

lemma run_loop_auth:
  "auth_inv io (lk_world (fst sb)) \<Longrightarrow> auth_inv io (lk_world (fst (run_loop io opts events sb)))"
  by (induction events arbitrary: sb) (simp_all add: loop_body_auth)

lemma control_start_auth:
  "auth_inv io (lk_world (fst (control_start io opts identifier wifi_config join_wifi now e)))"
  unfolding control_start_def Let_def fst_conv
  by (rule authenticated.start_world)
     (simp add: auth_inv_def new_link_def new_bootstrap_def new_probe_def request_wifi_configuration_def
        pr_attach_def bs_attach_def set_wifi_join_handler_def on_session_def on_probe_def)

section \<open>The loop keeps the link's invariant\<close>

lemma bs_begin_uses: "uses_link (control_env io opts) s (bs_begin io s)"
  unfolding bs_begin_def by (intro bs_send_empty_uses uses_on_session uses_link.keep)

lemma pr_begin_uses: "uses_link (control_env io opts) s (pr_begin io s)"
  unfolding pr_begin_def pr_fail_def split_beta Let_def by (intro uses_intros uses_link.keep)

lemma loop_body_inv:
  assumes "link_inv (fst sb)" "length (snd sb) \<le> kMaxReceiveBuffer"
  shows "link_inv (fst (loop_body io opts event sb)) \<and> length (snd (loop_body io opts event sb)) \<le> kMaxReceiveBuffer"
proof -
  obtain received now where event: "event = (received, now)" by force
  let ?r = "case received of Some bs \<Rightarrow> receive (control_env io opts) bs now sb | None \<Rightarrow> sb"
  have "link_inv (fst ?r) \<and> length (snd ?r) \<le> kMaxReceiveBuffer"
    using assms control.receive_keeps [where now = now and s = "fst sb" and buf = "snd sb", OF surjective_pairing]
    by (cases received) auto
  moreover from this have "link_inv (tick (control_env io opts) now (fst ?r))"
    by (simp add: tick_keeps)
  ultimately show ?thesis
    by (simp add: loop_body_def Let_def event split_beta)
       (intro conjI impI; meson uses_link_inv bs_begin_uses pr_begin_uses)
qed

lemma run_loop_inv:
  "link_inv (fst sb) \<Longrightarrow> length (snd sb) \<le> kMaxReceiveBuffer \<Longrightarrow>
     link_inv (fst (run_loop io opts events sb)) \<and> length (snd (run_loop io opts events sb)) \<le> kMaxReceiveBuffer"
  by (induction events arbitrary: sb) (simp_all add: loop_body_inv)

lemma control_start_inv:
  "link_inv (fst (control_start io opts identifier wifi_config join_wifi now e))"
  "snd (control_start io opts identifier wifi_config join_wifi now e) = []"
proof -
  have "link_inv (on_session f s) = link_inv s" "link_inv (on_probe g s) = link_inv s"
    for f g and s :: "'a control_link"
    by (simp_all add: on_session_def on_probe_def)
  then show "link_inv (fst (control_start io opts identifier wifi_config join_wifi now e))"
    by (simp add: control_start_def Let_def start_keeps request_wifi_configuration_def pr_attach_def
        bs_attach_def set_wifi_join_handler_def link_inv_new)
qed (simp add: control_start_def Let_def)

section \<open>Properties\<close>

text \<open>
  C2: the order of the protocol: whatever the accessory sends, in whatever chunks,
  the CarPlay probe is started or done only after the bootstrap session is done, and
  that only after the signature of its own twenty-byte challenge was verified
  under the certificate the accessory presented.
\<close>

theorem carplay_only_after_authentication:
  "auth_inv io (lk_world (fst (run_loop io opts events
     (control_start io opts identifier wifi_config join_wifi now e))))"
  by (intro run_loop_auth control_start_auth)

text \<open>
  With both clients attached and the loop driving them, the link keeps its
  invariant and its receive buffer its bound after any number of iterations.
\<close>

theorem control_loop_keeps_link_invariant:
  "link_inv (fst (run_loop io opts events (control_start io opts identifier wifi_config join_wifi now e))) \<and>
   length (snd (run_loop io opts events (control_start io opts identifier wifi_config join_wifi now e)))
     \<le> kMaxReceiveBuffer"
  by (intro run_loop_inv) (simp_all add: control_start_inv)

text \<open>
  A send failure while answering the identification does not end the session:
  \<open>send_empty\<close> moves it to \<open>Failed\<close>, and \<open>handle\<close> overwrites that with
  \<open>AwaitCertificate\<close>.
\<close>

theorem bootstrap_send_failure_overwritten:
  assumes "bs_stage (session_of s) = AwaitIdentification" "msg_id m = kIdentificationInformation"
    and "lk_state s \<noteq> Normal"
  shows "bs_stage (session_of (bs_send_empty io kIdentificationAccepted s)) = Failed
    \<and> bs_stage (session_of (bs_handle io m s)) = AwaitCertificate"
proof -
  have "send_control (base_env io) p s = (False, s)" for p
    using assms(3) by (simp add: send_control_def)
  then show ?thesis
    using assms(1,2) by (simp add: bs_send_empty_def bs_handle_def bs_fail_def link_send_control_def csm_ids)
qed

theorem bootstrap_send_failure_overwritten_witness:
  "let s = on_session (\<lambda>b. b\<lparr>bs_stage := AwaitIdentification\<rparr>)
         (new_link \<lparr>cw_session = new_bootstrap, cw_probe = new_probe [], cw_ext = ()\<rparr>);
       m = \<lparr>msg_id = kIdentificationInformation, msg_payload = []\<rparr>
   in \<forall>io. bs_stage (session_of (bs_handle io m s)) = AwaitCertificate"
  using bootstrap_send_failure_overwritten [of "on_session (\<lambda>b. b\<lparr>bs_stage := AwaitIdentification\<rparr>)
         (new_link \<lparr>cw_session = new_bootstrap, cw_probe = new_probe [], cw_ext = ()\<rparr>)"
      "\<lparr>msg_id = kIdentificationInformation, msg_payload = []\<rparr>"]
  by (simp add: on_session_def new_link_def Let_def)

lemma append_parameter_encode: "append_parameter output pid v = output @ encode_parameter pid v"
  by (simp add: append_parameter_def encode_parameter_def add.commute)

lemma attributes_encode:
  "identifier \<noteq> [] \<Longrightarrow> attributes True identifier =
     concat (map (\<lambda>(k, v). encode_parameter k v) [(0, [1]), (1, bytes_of identifier @ [0])])"
  by (simp add: attributes_def append_parameter_encode)

lemma announcement_lookup:
  assumes "identifier \<noteq> []" "length identifier < 65000"
  shows "first_bytes_parameter (append_parameter [] 1 (attributes True identifier)) 1 =
      Some (attributes True identifier)"
    "first_bytes_parameter (attributes True identifier) 1 = Some (bytes_of identifier @ [0])"
  using assms first_bytes_parameter_map_of [of "[(1, attributes True identifier)]" 1]
    first_bytes_parameter_map_of [of "[(0, [1]), (1, bytes_of identifier @ [0])]" 1]
  by (simp_all add: append_parameter_encode attributes_encode)

text \<open>
  The availability announcement names the phone: looking the wireless
  attributes up in its payload and the identifier up in them returns the
  Bluetooth address the probe was given.
\<close>

theorem probe_announces_identifier:
  assumes "identifier \<noteq> []" "length identifier < 65000"
  shows "\<exists>wireless. first_bytes_parameter (append_parameter [] 1 (attributes True identifier)) 1 = Some wireless
    \<and> string_parameter \<lparr>msg_id = kCarPlayAvailability, msg_payload = wireless\<rparr> 1 = identifier"
  using announcement_lookup [OF assms] by (simp add: string_parameter_def comp_def)

theorem probe_announces_identifier_witness:
  "\<exists>wireless. first_bytes_parameter (append_parameter [] 1 (attributes True ''AA:BB'')) 1 = Some wireless
    \<and> string_parameter \<lparr>msg_id = kCarPlayAvailability, msg_payload = wireless\<rparr> 1 = ''AA:BB''"
  by (rule probe_announces_identifier) simp_all

end
