(* ===== verification/Text_Prelude.thy ===== *)
theory Text_Prelude
  imports Bytes_Prelude
begin

text \<open>
  Text handling the components share: \<open>std::to_string\<close> and \<open>std::from_chars\<close> for
  decimal numbers, lower case and trimming as the parsers use them, and header
  blocks, lines that end in CR LF closed by an empty line, with the lemmas on
  searching them.
\<close>

section \<open>Decimal numbers\<close>

definition digit_char :: "nat \<Rightarrow> char" where
  "digit_char d = char_of (48 + d)"

definition is_digit :: "char \<Rightarrow> bool" where
  "is_digit c = (48 \<le> (of_char c :: nat) \<and> (of_char c :: nat) \<le> 57)"

definition digit_value :: "char \<Rightarrow> nat" where
  "digit_value c = of_char c - 48"

fun nat_to_string :: "nat \<Rightarrow> string" where
  "nat_to_string n = (if n < 10 then [digit_char n] else nat_to_string (n div 10) @ [digit_char (n mod 10)])"

declare nat_to_string.simps [simp del]

definition int_to_string :: "int \<Rightarrow> string" where
  "int_to_string i = (if i < 0 then CHR ''-'' # nat_to_string (nat (- i)) else nat_to_string (nat i))"

definition digits_value :: "string \<Rightarrow> nat" where
  "digits_value s = foldl (\<lambda>v c. 10 * v + digit_value c) 0 s"

text \<open>
  \<open>std::from_chars\<close> to an unsigned type with the given maximum, as its callers use
  it: the whole of the text has to be consumed and the value has to fit.
\<close>

definition parse_unsigned :: "nat \<Rightarrow> string \<Rightarrow> nat option" where
  "parse_unsigned maximum s =
     (if s = [] \<or> \<not> list_all is_digit s \<or> digits_value s > maximum then None else Some (digits_value s))"

text \<open>The signed case accepts a minus sign.\<close>

definition parse_int :: "string \<Rightarrow> int option" where
  "parse_int s =
     (case s of
        c # cs \<Rightarrow> if c = CHR ''-''
                  then map_option (\<lambda>n. - int n) (parse_unsigned (2 ^ 31) cs)
                  else map_option int (parse_unsigned (2 ^ 31 - 1) s)
      | [] \<Rightarrow> None)"

lemma digit_char_simps [simp]:
  "d < 10 \<Longrightarrow> is_digit (digit_char d)" "d < 10 \<Longrightarrow> digit_value (digit_char d) = d"
  by (simp_all add: digit_char_def is_digit_def digit_value_def of_char_of)

lemma digits_value_snoc: "digits_value (s @ [c]) = 10 * digits_value s + digit_value c"
  by (simp add: digits_value_def)

lemma nat_to_string_digits [simp]: "list_all is_digit (nat_to_string n)"
  by (induction n rule: nat_to_string.induct) (subst nat_to_string.simps, simp)

lemma nat_to_string_not_Nil [simp]: "nat_to_string n \<noteq> []"
  by (subst nat_to_string.simps) simp

lemma digits_value_nat_to_string [simp]: "digits_value (nat_to_string n) = n"
proof (induction n rule: nat_to_string.induct)
  case (1 n)
  then show ?case
    by (subst nat_to_string.simps) (simp add: digits_value_snoc, simp add: digits_value_def)
qed

lemma parse_unsigned_to_string [simp]:
  "n \<le> maximum \<Longrightarrow> parse_unsigned maximum (nat_to_string n) = Some n"
  by (simp add: parse_unsigned_def)

lemma nat_to_string_inject [simp]: "nat_to_string m = nat_to_string n \<longleftrightarrow> m = n"
  by (metis digits_value_nat_to_string)

lemma digit_not_in_nat_to_string: "\<not> is_digit c \<Longrightarrow> c \<notin> set (nat_to_string n)"
  using nat_to_string_digits [of n] by (auto simp: list_all_iff)

lemma not_digits [simp]:
  "\<not> is_digit (CHR 0x0D)" "\<not> is_digit (CHR 0x0A)" "\<not> is_digit (CHR '' '')" "\<not> is_digit (CHR 0x09)"
  "\<not> is_digit (CHR ''-'')" "\<not> is_digit (CHR '':'')" "\<not> is_digit (CHR ''='')"
  by (simp_all add: is_digit_def)

lemma parse_int_to_string:
  assumes "n < 2 ^ 31"
  shows "parse_int (nat_to_string n) = Some (int n)"
proof -
  obtain c cs where s: "nat_to_string n = c # cs" by (cases "nat_to_string n") auto
  have "is_digit c" using nat_to_string_digits [of n] by (simp add: s)
  then have "c \<noteq> CHR ''-''" by auto
  moreover have "parse_unsigned (2 ^ 31 - 1) (nat_to_string n) = Some n"
    using assms by (intro parse_unsigned_to_string) simp
  ultimately show ?thesis by (simp add: parse_int_def s)
qed

section \<open>Case and white space\<close>

definition lower_char :: "char \<Rightarrow> char" where
  "lower_char c = (let n = (of_char c :: nat) in if 65 \<le> n \<and> n \<le> 90 then char_of (n + 32) else c)"

definition lower :: "string \<Rightarrow> string" where
  "lower s = map lower_char s"

definition is_blank :: "char \<Rightarrow> bool" where
  "is_blank c = (c = CHR '' '' \<or> c = CHR 0x09)"

definition trim :: "string \<Rightarrow> string" where
  "trim s = rev (dropWhile is_blank (rev (dropWhile is_blank s)))"

lemma trim_id: "s = [] \<or> (\<not> is_blank (hd s) \<and> \<not> is_blank (last s)) \<Longrightarrow> trim s = s"
proof (cases s rule: rev_cases)
  case (snoc t c)
  assume "s = [] \<or> (\<not> is_blank (hd s) \<and> \<not> is_blank (last s))"
  with snoc have "\<not> is_blank (hd (t @ [c]))" "\<not> is_blank c" by auto
  moreover from this have "dropWhile is_blank (t @ [c]) = t @ [c]"
    by (cases t) auto
  ultimately show ?thesis by (simp add: trim_def snoc)
qed (simp add: trim_def)

lemma trim_blank: "is_blank c \<Longrightarrow> trim (c # s) = trim s"
  by (simp add: trim_def)

lemma nat_to_string_ends:
  "\<not> is_blank (hd (nat_to_string n))" "\<not> is_blank (last (nat_to_string n))"
proof -
  have "is_digit c \<Longrightarrow> \<not> is_blank c" for c by (auto simp: is_blank_def)
  moreover have "is_digit (hd (nat_to_string n))" "is_digit (last (nat_to_string n))"
    using nat_to_string_digits [of n] by (auto simp: list_all_iff)
  ultimately show "\<not> is_blank (hd (nat_to_string n))" "\<not> is_blank (last (nat_to_string n))" by auto
qed

lemma trim_nat_to_string [simp]: "trim (nat_to_string n) = nat_to_string n"
  by (rule trim_id) (simp add: nat_to_string_ends)

section \<open>Searching from a position\<close>

definition find_from :: "'a list \<Rightarrow> 'a list \<Rightarrow> nat \<Rightarrow> nat option" where
  "find_from pat s pos = (if pos \<le> length s then map_option ((+) pos) (find_sub pat (drop pos s)) else None)"

lemma find_from_append: "find_from pat (pre @ s) (length pre) = map_option ((+) (length pre)) (find_sub pat s)"
  by (simp add: find_from_def)

lemma find_from_SomeD: "find_from pat s pos = Some i \<Longrightarrow> pos \<le> i \<and> i + length pat \<le> length s"
  by (auto simp: find_from_def split: if_splits dest!: find_sub_SomeD)

lemma find_sub_skip:
  "(\<And>i. i < length xs \<Longrightarrow> \<not> prefix pat (drop i xs @ ys)) \<Longrightarrow>
     find_sub pat (xs @ ys) = map_option ((+) (length xs)) (find_sub pat ys)"
proof (induction xs)
  case Nil
  then show ?case by (simp add: option.map_ident)
next
  case (Cons x xs)
  from Cons.prems [of 0] have "\<not> prefix pat (x # xs @ ys)" by simp
  moreover have "\<And>i. i < length xs \<Longrightarrow> \<not> prefix pat (drop i xs @ ys)"
    using Cons.prems [of "Suc _"] by simp
  ultimately show ?case using Cons.IH by (cases "find_sub pat ys") auto
qed

lemma find_char: "c \<notin> set xs \<Longrightarrow> find_sub [c] (xs @ c # ys) = Some (length xs)"
  by (induction xs) auto

lemma find_colon: "CHR '':'' \<notin> set name \<Longrightarrow> find_sub '':'' (name @ CHR '':'' # rest) = Some (length name)"
  by (rule find_char)

section \<open>Header blocks\<close>

abbreviation crlf :: string where
  "crlf \<equiv> [CHR 0x0D, CHR 0x0A]"

abbreviation crlf2 :: string where
  "crlf2 \<equiv> [CHR 0x0D, CHR 0x0A, CHR 0x0D, CHR 0x0A]"

definition header_line :: "string \<Rightarrow> bool" where
  "header_line l = (l \<noteq> [] \<and> CHR 0x0D \<notin> set l)"

definition header_block :: "string list \<Rightarrow> string" where
  "header_block ls = concat (map (\<lambda>l. l @ crlf) ls)"

lemma header_block_simps [simp]:
  "header_block [] = []" "header_block (l # ls) = l @ crlf @ header_block ls"
  "header_block (ls @ ls') = header_block ls @ header_block ls'"
  by (simp_all add: header_block_def)

lemma no_prefix_in_line:
  assumes "CHR 0x0D \<notin> set l" "i < length l"
  shows "\<not> prefix (CHR 0x0D # pat) (drop i l @ rest)"
proof -
  from assms(2) obtain c cs where "drop i l = c # cs" "c = l ! i" by (metis Cons_nth_drop_Suc)
  with assms show ?thesis by (metis append_Cons nth_mem Cons_prefix_Cons)
qed

lemma find_crlf:
  assumes "CHR 0x0D \<notin> set l"
  shows "find_sub crlf (l @ crlf @ rest) = Some (length l)"
proof -
  have "find_sub crlf (l @ crlf @ rest) = map_option ((+) (length l)) (find_sub crlf (crlf @ rest))"
    by (rule find_sub_skip) (rule no_prefix_in_line [OF assms])
  then show ?thesis by simp
qed

lemma find_from_line:
  assumes "CHR 0x0D \<notin> set l"
  shows "find_from crlf (pre @ l @ crlf @ rest) (length pre) = Some (length pre + length l)"
  unfolding find_from_append find_crlf [OF assms] by simp

text \<open>The block ends where its closing empty line starts.\<close>

lemma find_block_end:
  assumes "list_all header_line ls" "ls \<noteq> []"
  shows "find_sub crlf2 (header_block ls @ crlf @ rest) = Some (length (header_block ls) - 2)"
  using assms
proof (induction ls)
  case (Cons l ls)
  then have cr: "CHR 0x0D \<notin> set l" by (simp add: header_line_def)
  have skip: "find_sub crlf2 (l @ ys) = map_option ((+) (length l)) (find_sub crlf2 ys)" for ys
    by (rule find_sub_skip) (rule no_prefix_in_line [OF cr])
  show ?case
  proof (cases ls)
    case Nil
    then show ?thesis using skip [of "crlf2 @ rest"] by simp
  next
    case (Cons l' ls')
    then obtain c cs where l': "l' = c # cs" "c \<noteq> CHR 0x0D"
      using Cons.prems by (cases l') (auto simp: header_line_def)
    from Cons.IH Cons.prems Cons
    have "find_sub crlf2 (header_block ls @ crlf @ rest) = Some (length (header_block ls) - 2)" by simp
    moreover have "find_sub crlf2 (crlf @ header_block ls @ crlf @ rest) =
        map_option ((+) (length crlf)) (find_sub crlf2 (header_block ls @ crlf @ rest))"
      by (rule find_sub_skip) (auto simp: Cons l' less_Suc_eq)
    moreover have "2 \<le> length (header_block ls)" by (simp add: Cons)
    ultimately show ?thesis
      using skip [of "crlf @ header_block ls @ crlf @ rest"] by simp
  qed
qed simp

section \<open>Lines\<close>

text \<open>\<open>std::getline\<close> over a string stream.\<close>

function getlines :: "string \<Rightarrow> string list" where
  "getlines s =
     (if s = [] then []
      else (let line = takeWhile (\<lambda>c. c \<noteq> CHR 0x0A) s in line # getlines (drop (Suc (length line)) s)))"
  by pat_completeness auto
termination
  by (relation "measure length") auto

declare getlines.simps [simp del]

lemma getlines_Nil [simp]: "getlines [] = []"
  by (subst getlines.simps) simp

lemma getlines_line:
  assumes "CHR 0x0A \<notin> set line"
  shows "getlines (line @ CHR 0x0A # rest) = line # getlines rest"
proof -
  have "takeWhile (\<lambda>c. c \<noteq> CHR 0x0A) (line @ CHR 0x0A # rest) = line"
    using assms by (induction line) auto
  then show ?thesis by (subst getlines.simps) (simp add: Let_def)
qed

end
