(* ===== verification/Airplay_Pairing_Store.thy ===== *)
theory Airplay_Pairing_Store
  imports Bytes_Prelude "HOL-Library.Monad_Syntax"
begin

text \<open>
  The file of \<open>src/src/airplay/pairing_store.cpp\<close> that keeps the long-term keys of a pairing, over
  what the operating system answers to each call.
\<close>

section \<open>Records\<close>

record ed25519 =
  private_key :: bytes
  public_key :: bytes

record pairing_record =
  controller_id :: string
  controller :: ed25519
  accessory_public_key :: bytes

definition kPairingMagic :: bytes where
  "kPairingMagic = bytes_of ''ACPPAIR1''"

section \<open>Loading\<close>

definition read_bytes :: "bytes \<Rightarrow> nat \<Rightarrow> (bytes \<times> bytes) option" where
  "read_bytes stream n = (if length stream < n then None else Some (take n stream, drop n stream))"

definition read_size :: "bytes \<Rightarrow> (nat \<times> bytes) option" where
  "read_size stream =
     (case stream of low # high # rest \<Rightarrow> Some (unat low + 256 * unat high, rest) | _ \<Rightarrow> None)"

definition load_pairing_record :: "(string \<rightharpoonup> bytes) \<Rightarrow> string \<Rightarrow> pairing_record option" where
  "load_pairing_record files path =
     do {
       stream \<leftarrow> files path;
       (magic, stream) \<leftarrow> read_bytes stream (length kPairingMagic);
       _ \<leftarrow> (if magic \<noteq> kPairingMagic then None else Some ());
       (identifier_size, stream) \<leftarrow> read_size stream;
       _ \<leftarrow> (if identifier_size = 0 \<or> identifier_size > 1024 then None else Some ());
       (ident, stream) \<leftarrow> read_bytes stream identifier_size;
       (private, stream) \<leftarrow> read_bytes stream 32;
       (public, stream) \<leftarrow> read_bytes stream 32;
       (accessory, stream) \<leftarrow> read_bytes stream 32;
       Some \<lparr>controller_id = text_of ident, controller = \<lparr>private_key = private, public_key = public\<rparr>,
         accessory_public_key = accessory\<rparr>
     }"

section \<open>Saving\<close>

text \<open>
  A turn is what \<open>write\<close> returned and whether \<open>errno\<close> is \<open>EINTR\<close>; the end of the list is a failed
  write.  \<open>write_all\<close> tries an interrupted write again, \<open>write_u16\<close> does not.  The result says
  whether all was written, what was, and the turns left.
\<close>

fun write_out :: "bool \<Rightarrow> (int \<times> bool) list \<Rightarrow> bytes \<Rightarrow> bool \<times> bytes \<times> (int \<times> bool) list" where
  "write_out again turns [] = (True, [], turns)"
| "write_out again [] (b # bs) = (False, [], [])"
| "write_out again ((n, eintr) # turns) (b # bs) =
     (if n < 0 then (if eintr \<and> again then write_out again turns (b # bs) else (False, [], turns))
      else if n = 0 then (False, [], turns)
      else (case write_out again turns (drop (nat n) (b # bs)) of
              (ok, out, turns) \<Rightarrow> (ok, take (nat n) (b # bs) @ out, turns)))"

text \<open>Pieces joined by \<open>&&\<close>.\<close>

fun write_pieces :: "(int \<times> bool) list \<Rightarrow> (bool \<times> bytes) list \<Rightarrow> bool \<times> bytes" where
  "write_pieces turns [] = (True, [])"
| "write_pieces turns ((again, bs) # pieces) =
     (case write_out again turns bs of
        (True, out, turns) \<Rightarrow> (case write_pieces turns pieces of (ok, rest) \<Rightarrow> (ok, out @ rest))
      | (False, out, turns) \<Rightarrow> (False, out))"

definition record_pieces :: "pairing_record \<Rightarrow> (bool \<times> bytes) list" where
  "record_pieces r =
     [(True, kPairingMagic),
      (False, [of_nat (length (controller_id r)), of_nat (length (controller_id r) div 256)]),
      (True, bytes_of (controller_id r)),
      (True, take 32 (private_key (controller r))),
      (True, take 32 (public_key (controller r))),
      (True, take 32 (accessory_public_key r))]"

text \<open>\<open>mkstemp\<close> reports success and the name it chose, which no other file has.\<close>

record store_os =
  store_directories :: bool
  store_mkstemp :: "bool \<times> string"
  store_fchmod :: bool
  store_writes :: "(int \<times> bool) list"
  store_fsync :: bool
  store_rename :: bool

definition save_pairing_record ::
    "store_os \<Rightarrow> string \<Rightarrow> pairing_record \<Rightarrow> (string \<rightharpoonup> bytes) \<Rightarrow> bool \<times> (string \<rightharpoonup> bytes)" where
  "save_pairing_record os path r files =
     (if controller_id r = [] \<or> length (controller_id r) > 1024 \<or> length (private_key (controller r)) \<noteq> 32 \<or>
         length (public_key (controller r)) \<noteq> 32 \<or> length (accessory_public_key r) \<noteq> 32
      then (False, files)
      else if \<not> store_directories os then (False, files)
      else (case store_mkstemp os of
          (created, temporary) \<Rightarrow>
            if \<not> created \<or> \<not> store_fchmod os then (False, files(temporary := None))
            else (case write_pieces (store_writes os) (record_pieces r) of
                (ok, out) \<Rightarrow>
                  (let files = files(temporary \<mapsto> out) in
                   if \<not> (ok \<and> store_fsync os) then (False, files(temporary := None))
                   else if \<not> store_rename os then (False, files(temporary := None))
                   else (True, (files(path \<mapsto> out))(temporary := None))))))"

section \<open>Round trip\<close>

definition pairing_content :: "pairing_record \<Rightarrow> bytes" where
  "pairing_content r = concat (map snd (record_pieces r))"

lemma write_out_whole: "write_out again turns bs = (True, out, rest) \<Longrightarrow> out = bs"
proof (induction again turns bs arbitrary: out rest rule: write_out.induct)
  case (3 again n eintr turns b bs)
  show ?case
  proof (cases "0 < n")
    case True
    with 3(3) obtain out' where w: "write_out again turns (drop (nat n) (b # bs)) = (True, out', rest)"
      and out: "out = take (nat n) (b # bs) @ out'"
      by (auto simp del: drop_Cons' take_Cons' split: prod.splits)
    from 3(2) [OF _ _ w] True out show ?thesis by (simp only: append_take_drop_id)
  next
    case False
    with 3 show ?thesis by (auto split: if_splits)
  qed
qed auto

lemma write_pieces_whole: "write_pieces turns pieces = (True, out) \<Longrightarrow> out = concat (map snd pieces)"
proof (induction turns pieces arbitrary: out rule: write_pieces.induct)
  case (2 turns again bs pieces)
  then show ?case by (auto split: prod.splits bool.splits dest: write_out_whole)
qed simp

lemma read_bytes_append [simp]: "length a = n \<Longrightarrow> read_bytes (a @ b) n = Some (a, b)"
  by (simp add: read_bytes_def)

lemma read_bytes_all [simp]: "length a = n \<Longrightarrow> read_bytes a n = Some (a, [])"
  by (simp add: read_bytes_def)

lemma read_size_split:
  "n < 65536 \<Longrightarrow> read_size (of_nat n # of_nat (n div 256) # rest) = Some (n, rest)"
  by (simp add: read_size_def unat_of_nat)

lemma load_pairing_content:
  assumes "controller_id r \<noteq> []" "length (controller_id r) \<le> 1024" "length (private_key (controller r)) = 32"
    "length (public_key (controller r)) = 32" "length (accessory_public_key r) = 32"
  shows "load_pairing_record [path \<mapsto> pairing_content r] path = Some r"
  using assms
  by (cases r; cases "controller r")
     (simp add: load_pairing_record_def pairing_content_def record_pieces_def read_size_split comp_def)

lemma write_out_once:
  "bs \<noteq> [] \<Longrightarrow> int (length bs) = n \<Longrightarrow> write_out again ((n, eintr) # turns) bs = (True, bs, turns)"
  by (cases bs) auto

text \<open>
  Saving a pairing is all or nothing: either it reports success and the path holds a file from which
  exactly that pairing is loaded, or it reports failure and no file has changed; the temporary file, which
  holds a private key, is gone in both cases.
\<close>

theorem pairing_store_atomic:
  assumes "save_pairing_record os path r files = (ok, files')"
    and "files (snd (store_mkstemp os)) = None" "snd (store_mkstemp os) \<noteq> path"
  shows "(ok \<longrightarrow> load_pairing_record files' path = Some r \<and> files' = files(path \<mapsto> pairing_content r)) \<and>
         (\<not> ok \<longrightarrow> files' = files)"
proof -
  let ?t = "snd (store_mkstemp os)"
  have undo: "files(?t := None) = files" using assms(2) by auto
  have twist: "(files(path \<mapsto> pairing_content r))(?t := None) = files(path \<mapsto> pairing_content r)"
    using assms(2,3) by (auto simp: fun_eq_iff)
  obtain w out where w: "write_pieces (store_writes os) (record_pieces r) = (w, out)" by fastforce
  have whole: "w \<Longrightarrow> out = pairing_content r"
    using write_pieces_whole [of "store_writes os" "record_pieces r" out] by (simp add: w pairing_content_def)
  show ?thesis
  proof (cases ok)
    case True
    then have r: "controller_id r \<noteq> []" "length (controller_id r) \<le> 1024" "length (private_key (controller r)) = 32"
      "length (public_key (controller r)) = 32" "length (accessory_public_key r) = 32"
      and w: w and files': "files' = (files(path \<mapsto> out))(?t := None)"
      using assms(1) w by (auto simp: save_pairing_record_def Let_def split: if_splits prod.splits)
    have "files' = files(path \<mapsto> pairing_content r)" using files' whole [OF w] twist by simp
    moreover have "load_pairing_record (files(path \<mapsto> pairing_content r)) path = load_pairing_record [path \<mapsto> pairing_content r] path"
      by (simp add: load_pairing_record_def)
    ultimately show ?thesis using True load_pairing_content [OF r] by simp
  next
    case False
    then have "files' = files \<or> files' = files(?t := None)"
      using assms(1) by (auto simp: save_pairing_record_def Let_def split: if_splits prod.splits)
    with False undo show ?thesis by auto
  qed
qed

definition example_record :: pairing_record where
  "example_record = \<lparr>controller_id = ''id'', controller = \<lparr>private_key = replicate 32 1, public_key = replicate 32 2\<rparr>,
     accessory_public_key = replicate 32 3\<rparr>"

theorem pairing_store_atomic_witness:
  "\<exists>files. load_pairing_record files ''store'' = Some example_record"
proof -
  let ?os = "\<lparr>store_directories = True, store_mkstemp = (True, ''t''), store_fchmod = True,
    store_writes = [(3, False), (-1, True), (5, False), (2, False), (9, False), (32, False), (32, False), (32, False)],
    store_fsync = True, store_rename = True\<rparr>"
  obtain ok files' where run: "save_pairing_record ?os ''store'' example_record Map.empty = (ok, files')" by fastforce
  have ok
    using run by (simp add: save_pairing_record_def example_record_def record_pieces_def kPairingMagic_def write_out_once)
  with pairing_store_atomic [OF run] show ?thesis by auto
qed

end
