(* ===== verification/Iap2_Network.thy ===== *)
theory Iap2_Network
  imports Text_Prelude Iap2_Control Airplay_Pairing_Store
begin

text \<open>
  \<open>src/src/iap2/network_manager.cpp\<close>: the client of NetworkManager, which runs \<open>nmcli\<close> to join the
  access point of the head unit and to start and stop the hotspot of the management page, and the
  look-up of the address of the head unit in the routing table.  A run of \<open>nmcli\<close> is a function of
  what the operating system answers; the operations run over a world that answers each command.
\<close>

section \<open>Fields of the terse output\<close>

fun unescape_loop :: "bool \<Rightarrow> string \<Rightarrow> string" where
  "unescape_loop escaped [] = (if escaped then [CHR 0x5C] else [])"
| "unescape_loop escaped (c # cs) =
     (if escaped then c # unescape_loop False cs
      else if c = CHR 0x5C then unescape_loop True cs
      else c # unescape_loop False cs)"

definition unescape_nmcli_field :: "string \<Rightarrow> string" where
  "unescape_nmcli_field s = unescape_loop False s"

fun split_loop :: "bool \<Rightarrow> string \<Rightarrow> string \<Rightarrow> string list" where
  "split_loop escaped field [] = [field]"
| "split_loop escaped field (c # cs) =
     (if c = CHR '':'' \<and> \<not> escaped then field # split_loop escaped [] cs
      else split_loop (c = CHR 0x5C \<and> \<not> escaped) (field @ [c]) cs)"

definition split_nmcli_fields :: "string \<Rightarrow> string list" where
  "split_nmcli_fields line = split_loop False [] line"

section \<open>One run of nmcli\<close>

record nmcli_call =
  nc_arguments :: "string list"
  nc_allow_inactive :: bool
  nc_quiet :: bool
  nc_stdin :: string

text \<open>What \<open>waitpid\<close> says: \<open>Running\<close> is its 0, or a blocking call that has not returned yet.\<close>

datatype child_state = Running | Exited nat | Signalled | Wait_interrupted | Wait_failed

text \<open>
  A round of a waiting loop: the output that is read, the child, whether the deadline has passed, and
  whether \<open>poll\<close> fails other than by \<open>EINTR\<close>.
\<close>

record nmcli_round =
  rd_output :: string
  rd_child :: child_state
  rd_late :: bool
  rd_poll_failed :: bool

datatype descriptor = Output_read | Output_write | Secret

datatype nmcli_event =
    Opened descriptor
  | Closed descriptor
  | Started nmcli_call
  | Sent_term
  | Sent_kill
  | Reaped

text \<open>
  The answers of the operating system: the pipe, the anonymous file with the turns of \<open>write\<close> (as
  in the pairing store) and the rewind, \<open>posix_spawnp\<close>, the rounds of the waiting loop, of the loop
  after \<open>SIGTERM\<close> (its end is the deadline of two seconds), the blocking \<open>waitpid\<close>, and the output
  that is left at the end.
\<close>

record nmcli_os =
  os_pipe :: bool
  os_memfd :: bool
  os_writes :: "(int \<times> bool) list"
  os_rewound :: bool
  os_spawned :: bool
  os_rounds :: "nmcli_round list"
  os_terminating :: "nmcli_round list"
  os_reaping :: "child_state list"
  os_last_output :: string

definition secret_memfd :: "nmcli_os \<Rightarrow> string \<Rightarrow> bool \<times> nmcli_event list" where
  "secret_memfd os contents =
     (if \<not> os_memfd os then (False, [])
      else (case write_out True (os_writes os) (bytes_of contents) of
              (ok, _, _) \<Rightarrow> if ok \<and> os_rewound os then (True, [Opened Secret])
                           else (False, [Opened Secret, Closed Secret])))"

fun terminate_rounds :: "bool \<Rightarrow> nmcli_round list \<Rightarrow> string \<Rightarrow> child_state option \<times> string" where
  "terminate_rounds quiet [] diagnostics = (None, diagnostics)"
| "terminate_rounds quiet (r # rs) diagnostics =
     (if rd_late r then (None, diagnostics)
      else (case rd_child r of
              Exited status \<Rightarrow> (Some (Exited status), diagnostics)
            | Signalled \<Rightarrow> (Some Signalled, diagnostics)
            | Wait_failed \<Rightarrow> (None, diagnostics)
            | _ \<Rightarrow> terminate_rounds quiet rs (if quiet then diagnostics @ rd_output r else diagnostics)))"

fun reap_blocking :: "child_state list \<Rightarrow> child_state option" where
  "reap_blocking [] = None"
| "reap_blocking (c # cs) = (if c = Running \<or> c = Wait_interrupted then reap_blocking cs else Some c)"

text \<open>The outcome: the child as \<open>waitpid\<close> last saw it, a timeout, the diagnostics and the events.\<close>

type_synonym nmcli_outcome = "child_state \<times> bool \<times> string \<times> nmcli_event list"

definition terminate_and_reap :: "bool \<Rightarrow> nmcli_os \<Rightarrow> bool \<Rightarrow> string \<Rightarrow> nmcli_outcome option" where
  "terminate_and_reap quiet os timed_out diagnostics =
     (case terminate_rounds quiet (os_terminating os) diagnostics of
        (Some c, diagnostics) \<Rightarrow> Some (c, timed_out, diagnostics, [Sent_term, Reaped])
      | (None, diagnostics) \<Rightarrow>
          (case reap_blocking (os_reaping os) of
             None \<Rightarrow> None
           | Some c \<Rightarrow> Some (c, timed_out, diagnostics,
               [Sent_term, Sent_kill] @ (if c = Wait_failed then [] else [Reaped]))))"

fun nmcli_rounds :: "bool \<Rightarrow> nmcli_os \<Rightarrow> nmcli_round list \<Rightarrow> string \<Rightarrow> nmcli_outcome option" where
  "nmcli_rounds quiet os [] diagnostics = None"
| "nmcli_rounds quiet os (r # rs) diagnostics =
     (let diagnostics = (if quiet then diagnostics @ rd_output r else diagnostics) in
      case rd_child r of
        Wait_interrupted \<Rightarrow> nmcli_rounds quiet os rs diagnostics
      | Wait_failed \<Rightarrow> terminate_and_reap quiet os False diagnostics
      | Running \<Rightarrow>
          if rd_late r then terminate_and_reap quiet os True diagnostics
          else if quiet \<and> rd_poll_failed r then terminate_and_reap quiet os False diagnostics
          else nmcli_rounds quiet os rs diagnostics
      | c \<Rightarrow> Some (c, False, diagnostics, [Reaped]))"

definition nmcli_success :: "bool \<Rightarrow> child_state \<Rightarrow> bool" where
  "nmcli_success allow_inactive c =
     (case c of Exited status \<Rightarrow> status = 0 \<or> (allow_inactive \<and> status = 6) | _ \<Rightarrow> False)"

text \<open>The result, the captured output and the events; \<open>None\<close> stands for a run that does not return.\<close>

definition run_nmcli :: "nmcli_call \<Rightarrow> nmcli_os \<Rightarrow> (bool \<times> string \<times> nmcli_event list) option" where
  "run_nmcli call os =
     (let quiet = nc_quiet call; has_stdin = (nc_stdin call \<noteq> []) in
      if quiet \<and> \<not> os_pipe os then Some (False, [], [])
      else
        let pipe = (if quiet then [Opened Output_read, Opened Output_write] else []);
            (secret_ok, secret) = (if has_stdin then secret_memfd os (nc_stdin call) else (True, []))
        in if \<not> secret_ok
           then Some (False, [], pipe @ secret @ (if quiet then [Closed Output_read, Closed Output_write] else []))
           else
             let closing = (if quiet then [Closed Output_write] else []) @ (if has_stdin then [Closed Secret] else []);
                 final = (if quiet then [Closed Output_read] else [])
             in if \<not> os_spawned os then Some (False, [], pipe @ secret @ closing @ final)
                else (case nmcli_rounds quiet os (os_rounds os) [] of
                        None \<Rightarrow> None
                      | Some (c, timed_out, diagnostics, waiting) \<Rightarrow>
                          Some (nmcli_success (nc_allow_inactive call) c,
                            (if quiet then diagnostics @ os_last_output os else diagnostics),
                            pipe @ secret @ [Started call] @ closing @ waiting @ final)))"

section \<open>The operations\<close>

text \<open>
  The state keeps the commands that were run with their results, for the properties, and the
  environment that the world changes.
\<close>

record 'e network =
  nm_calls :: "(nmcli_call \<times> bool) list"
  nm_env :: 'e

type_synonym 'e nmcli_world = "nmcli_call \<Rightarrow> 'e \<Rightarrow> nmcli_os \<times> 'e"

definition issue :: "'e nmcli_world \<Rightarrow> nmcli_call \<Rightarrow> 'e network \<Rightarrow> (bool \<times> string \<times> 'e network) option" where
  "issue world call s =
     (case world call (nm_env s) of
        (os, e) \<Rightarrow>
          (case run_nmcli call os of
             None \<Rightarrow> None
           | Some (ok, captured, _) \<Rightarrow>
               Some (ok, captured, s\<lparr>nm_calls := nm_calls s @ [(call, ok)], nm_env := e\<rparr>)))"

definition quiet_call :: "string list \<Rightarrow> nmcli_call" where
  "quiet_call arguments =
     \<lparr>nc_arguments = arguments, nc_allow_inactive = False, nc_quiet = True, nc_stdin = []\<rparr>"

definition strip_cr :: "string \<Rightarrow> string" where
  "strip_cr line = (if line \<noteq> [] \<and> last line = CHR 0x0D then butlast line else line)"

fun find_profile :: "string \<Rightarrow> string \<Rightarrow> string list \<Rightarrow> string option" where
  "find_profile ssid interface_name [] = None"
| "find_profile ssid interface_name (line # rest) =
     (let columns = split_nmcli_fields (strip_cr line) in
      if length columns < 3 \<or> columns ! 1 \<noteq> ''802-11-wireless'' \<or> unescape_nmcli_field (columns ! 2) \<noteq> ssid
      then find_profile ssid interface_name rest
      else
        let profile_interface = (if length columns < 4 then [] else unescape_nmcli_field (columns ! 3)) in
        if profile_interface = [] \<or> profile_interface = ''--'' \<or> profile_interface = interface_name
        then Some (columns ! 0)
        else find_profile ssid interface_name rest)"

definition kShowProfiles :: "string list" where
  "kShowProfiles =
     [''nmcli'', ''-t'', ''-f'', ''UUID,TYPE,802-11-wireless.ssid,connection.interface-name'', ''connection'', ''show'']"

definition saved_connection_uuid ::
  "'e nmcli_world \<Rightarrow> string \<Rightarrow> string \<Rightarrow> 'e network \<Rightarrow> (string option \<times> 'e network) option" where
  "saved_connection_uuid world ssid interface_name s =
     do {
       (ok, output, s) \<leftarrow> issue world (quiet_call kShowProfiles) s;
       Some (if ok then find_profile ssid interface_name (getlines output) else None, s)
     }"

definition key_management :: "byte \<Rightarrow> string option" where
  "key_management security_type =
     (if security_type = 0 then Some ''none''
      else if security_type = 1 then Some ''wep''
      else if security_type = 2 \<or> security_type = 3 then Some ''wpa-psk''
      else if security_type = 4 then Some ''sae''
      else None)"

definition rsn_arguments :: "byte \<Rightarrow> string list" where
  "rsn_arguments security_type =
     (if security_type = 2 \<or> security_type = 3 then [''802-11-wireless-security.proto'', ''rsn''] else [])"

definition modify_arguments :: "wifi_configuration \<Rightarrow> string option \<Rightarrow> string \<Rightarrow> string list" where
  "modify_arguments configuration saved key =
     [''nmcli'', ''connection'', ''modify''] @
     (case saved of Some uuid \<Rightarrow> [''uuid'', uuid] | None \<Rightarrow> [wifi_ssid configuration]) @
     [''802-11-wireless-security.key-mgmt'', key] @ rsn_arguments (wifi_security_type configuration)"

definition add_arguments :: "wifi_configuration \<Rightarrow> string \<Rightarrow> string \<Rightarrow> string list" where
  "add_arguments configuration interface_name key =
     [''nmcli'', ''connection'', ''add'', ''type'', ''wifi'', ''ifname'', interface_name,
      ''con-name'', wifi_ssid configuration, ''ssid'', wifi_ssid configuration,
      ''wifi-sec.key-mgmt'', key] @ rsn_arguments (wifi_security_type configuration)"

definition secret_arguments :: "string \<Rightarrow> string list" where
  "secret_arguments passphrase = (if passphrase = [] then [] else [''passwd-file'', ''/proc/self/fd/0''])"

definition password_file :: "string \<Rightarrow> string" where
  "password_file passphrase = ''802-11-wireless-security.psk:'' @ passphrase @ [CHR 0x0A]"

definition up_arguments :: "wifi_configuration \<Rightarrow> string option \<Rightarrow> string \<Rightarrow> string list" where
  "up_arguments configuration saved interface_name =
     [''nmcli'', ''--wait'', ''30'', ''connection'', ''up''] @
     (case saved of Some uuid \<Rightarrow> [''uuid'', uuid] | None \<Rightarrow> [''id'', wifi_ssid configuration]) @
     [''ifname'', interface_name] @ secret_arguments (wifi_passphrase configuration)"

definition up_call :: "wifi_configuration \<Rightarrow> string option \<Rightarrow> string \<Rightarrow> nmcli_call" where
  "up_call configuration saved interface_name =
     (quiet_call (up_arguments configuration saved interface_name))
       \<lparr>nc_stdin := (if wifi_passphrase configuration = [] then [] else password_file (wifi_passphrase configuration))\<rparr>"

definition reuse_arguments :: "string \<Rightarrow> string \<Rightarrow> string list" where
  "reuse_arguments uuid interface_name =
     [''nmcli'', ''--wait'', ''30'', ''connection'', ''up'', ''uuid'', uuid, ''ifname'', interface_name]"

definition rescan_arguments :: "string \<Rightarrow> string list" where
  "rescan_arguments interface_name =
     [''nmcli'', ''--wait'', ''10'', ''device'', ''wifi'', ''rescan'', ''ifname'', interface_name]"

text \<open>The fresh profile, from the choice of the key management on.\<close>

definition join_fresh ::
  "'e nmcli_world \<Rightarrow> wifi_configuration \<Rightarrow> string \<Rightarrow> string option \<Rightarrow> 'e network \<Rightarrow> (bool \<times> 'e network) option" where
  "join_fresh world configuration interface_name saved s =
     (case key_management (wifi_security_type configuration) of
        None \<Rightarrow> Some (False, s)
      | Some key \<Rightarrow>
          do {
            (modified, _, s) \<leftarrow> issue world (quiet_call (modify_arguments configuration saved key)) s;
            (ready, s) \<leftarrow>
              (if modified then Some (True, s)
               else do {
                 (added, _, s) \<leftarrow> issue world (quiet_call (add_arguments configuration interface_name key)) s;
                 Some (added, s)
               });
            if \<not> ready then Some (False, s)
            else do {
              (ok, _, s) \<leftarrow> issue world (up_call configuration saved interface_name) s;
              Some (ok, s)
            }
          })"

definition join_with_networkmanager ::
  "'e nmcli_world \<Rightarrow> wifi_configuration \<Rightarrow> string \<Rightarrow> 'e network \<Rightarrow> (bool \<times> 'e network) option" where
  "join_with_networkmanager world configuration interface_name s =
     (if wifi_ssid configuration = [] then Some (False, s)
      else do {
        (saved, s) \<leftarrow> saved_connection_uuid world (wifi_ssid configuration) interface_name s;
        (joined, s) \<leftarrow>
          (case saved of
             None \<Rightarrow> Some (False, s)
           | Some uuid \<Rightarrow> do {
               (ok, _, s) \<leftarrow> issue world (quiet_call (reuse_arguments uuid interface_name)) s;
               Some (ok, s)
             });
        if joined then Some (True, s)
        else do {
          (_, _, s) \<leftarrow> issue world (quiet_call (rescan_arguments interface_name)) s;
          join_fresh world configuration interface_name saved s
        }
      })"

definition leave_with_networkmanager :: "'e nmcli_world \<Rightarrow> string \<Rightarrow> 'e network \<Rightarrow> (bool \<times> 'e network) option" where
  "leave_with_networkmanager world interface_name s =
     do {
       (ok, _, s) \<leftarrow> issue world
         ((quiet_call [''nmcli'', ''device'', ''disconnect'', interface_name])\<lparr>nc_allow_inactive := True\<rparr>) s;
       Some (ok, s)
     }"

definition kManagementProfile :: string where
  "kManagementProfile = ''aa2acp-management''"

definition hotspot_modify_arguments :: "string \<Rightarrow> string \<Rightarrow> string list" where
  "hotspot_modify_arguments interface_name ssid =
     [''nmcli'', ''connection'', ''modify'', kManagementProfile, ''connection.interface-name'', interface_name,
      ''connection.autoconnect'', ''yes'', ''connection.autoconnect-priority'', ''100'',
      ''802-11-wireless.mode'', ''ap'', ''802-11-wireless.ssid'', ssid, ''ipv4.method'', ''shared'',
      ''ipv6.method'', ''disabled'', ''802-11-wireless-security.key-mgmt'', ''wpa-psk'']"

definition hotspot_add_arguments :: "string \<Rightarrow> string \<Rightarrow> string list" where
  "hotspot_add_arguments interface_name ssid =
     [''nmcli'', ''connection'', ''add'', ''type'', ''wifi'', ''ifname'', interface_name,
      ''con-name'', kManagementProfile, ''ssid'', ssid, ''802-11-wireless.mode'', ''ap'',
      ''ipv4.method'', ''shared'', ''ipv6.method'', ''disabled'', ''wifi-sec.key-mgmt'', ''wpa-psk'']"

definition hotspot_up_call :: "string \<Rightarrow> string \<Rightarrow> nmcli_call" where
  "hotspot_up_call interface_name passphrase =
     (quiet_call [''nmcli'', ''--wait'', ''30'', ''connection'', ''up'', ''id'', kManagementProfile,
        ''ifname'', interface_name, ''passwd-file'', ''/proc/self/fd/0''])
       \<lparr>nc_stdin := password_file passphrase\<rparr>"

definition start_management_hotspot ::
  "'e nmcli_world \<Rightarrow> string \<Rightarrow> string \<Rightarrow> string \<Rightarrow> 'e network \<Rightarrow> (bool \<times> 'e network) option" where
  "start_management_hotspot world interface_name ssid passphrase s =
     (if interface_name = [] \<or> ssid = [] \<or> length passphrase < 8 then Some (False, s)
      else do {
        (modified, _, s) \<leftarrow> issue world (quiet_call (hotspot_modify_arguments interface_name ssid)) s;
        (ready, s) \<leftarrow>
          (if modified then Some (True, s)
           else do {
             (added, _, s) \<leftarrow> issue world (quiet_call (hotspot_add_arguments interface_name ssid)) s;
             Some (added, s)
           });
        if \<not> ready then Some (False, s)
        else do {
          (ok, _, s) \<leftarrow> issue world (hotspot_up_call interface_name passphrase) s;
          Some (ok, s)
        }
      })"

definition stop_management_hotspot :: "'e nmcli_world \<Rightarrow> string \<Rightarrow> 'e network \<Rightarrow> (bool \<times> 'e network) option" where
  "stop_management_hotspot world interface_name s =
     do {
       (ok, _, s) \<leftarrow> issue world
         ((quiet_call [''nmcli'', ''connection'', ''down'', ''id'', kManagementProfile, ''ifname'', interface_name])
            \<lparr>nc_allow_inactive := True\<rparr>) s;
       Some (ok, s)
     }"

section \<open>The address of the head unit\<close>

definition is_space :: "char \<Rightarrow> bool" where
  "is_space c = (c = CHR '' '' \<or> (0x09 \<le> (of_char c :: nat) \<and> (of_char c :: nat) \<le> 0x0D))"

text \<open>The words that \<open>operator>>\<close> takes from a line.\<close>

function stream_words :: "string \<Rightarrow> string list" where
  "stream_words s =
     (let rest = dropWhile is_space s in
      if rest = [] then []
      else takeWhile (\<lambda>c. \<not> is_space c) rest # stream_words (dropWhile (\<lambda>c. \<not> is_space c) rest))"
  by pat_completeness auto

lemma dropWhile_shorter: "xs \<noteq> [] \<Longrightarrow> P (hd xs) \<Longrightarrow> length (dropWhile P xs) < length xs"
  by (cases xs) (auto simp: le_imp_less_Suc length_dropWhile_le)

termination stream_words
proof (relation "measure length")
  fix s rest :: string
  assume "rest = dropWhile is_space s" and "rest \<noteq> []"
  moreover from this have "\<not> is_space (hd rest)" by (metis hd_dropWhile)
  ultimately show "(dropWhile (\<lambda>c. \<not> is_space c) rest, s) \<in> measure length"
    by (simp add: less_le_trans [OF dropWhile_shorter length_dropWhile_le])
qed simp

declare stream_words.simps [simp del]

definition hex_value :: "char \<Rightarrow> nat option" where
  "hex_value c =
     (let n = (of_char c :: nat) in
      if 48 \<le> n \<and> n \<le> 57 then Some (n - 48)
      else if 65 \<le> n \<and> n \<le> 70 then Some (n - 55)
      else if 97 \<le> n \<and> n \<le> 102 then Some (n - 87)
      else None)"

fun hex_prefix :: "string \<Rightarrow> nat list" where
  "hex_prefix [] = []"
| "hex_prefix (c # cs) = (case hex_value c of None \<Rightarrow> [] | Some d \<Rightarrow> d # hex_prefix cs)"

definition hex_number :: "nat list \<Rightarrow> nat" where
  "hex_number ds = foldl (\<lambda>n d. 16 * n + d) 0 ds"

text \<open>\<open>std::stoul\<close> with base 16 on a word; \<open>None\<close> stands for the exception.\<close>

definition stoul_hex :: "string \<Rightarrow> nat option" where
  "stoul_hex s =
     (let negative = (s \<noteq> [] \<and> hd s = CHR ''-'');
          s = (if s \<noteq> [] \<and> (hd s = CHR ''-'' \<or> hd s = CHR ''+'') then tl s else s);
          s = (if (take 2 s = ''0x'' \<or> take 2 s = ''0X'') \<and> hex_prefix (drop 2 s) \<noteq> [] then drop 2 s else s);
          n = hex_number (hex_prefix s)
      in if hex_prefix s = [] \<or> n \<ge> 2 ^ 64 then None
         else Some (if negative then nat (- int n mod 2 ^ 64) else n))"

text \<open>
  \<open>inet_ntop\<close> of an address in network order, held in a word of a little-endian machine: the first
  byte in memory is the lowest one.
\<close>

definition address_byte :: "u32 \<Rightarrow> nat \<Rightarrow> string" where
  "address_byte address i = nat_to_string (unat (ucast (drop_bit (8 * i) address) :: byte))"

definition inet_ntop :: "u32 \<Rightarrow> string" where
  "inet_ntop address =
     address_byte address 0 @ CHR ''.'' # address_byte address 1 @ CHR ''.'' #
     address_byte address 2 @ CHR ''.'' # address_byte address 3"

text \<open>
  The lines of the routing table after the first one: an exception is \<open>None\<close>, no default route
  \<open>Some None\<close>.
\<close>

fun route_gateway :: "string \<Rightarrow> string list \<Rightarrow> string option option" where
  "route_gateway interface_name [] = Some None"
| "route_gateway interface_name (line # rest) =
     (case stream_words line of
        name # destination # gateway # flags # _ \<Rightarrow>
          if name \<noteq> interface_name \<or> destination \<noteq> ''00000000'' then route_gateway interface_name rest
          else (case stoul_hex flags of
                  None \<Rightarrow> None
                | Some route_flags \<Rightarrow>
                    if route_flags AND 2 = 0 then route_gateway interface_name rest
                    else (case stoul_hex gateway of
                            None \<Rightarrow> None
                          | Some address \<Rightarrow> Some (Some (inet_ntop (word_of_nat address)))))
      | _ \<Rightarrow> route_gateway interface_name rest)"

text \<open>An entry of \<open>getifaddrs\<close>; \<open>None\<close> stands for no address, or one that is not IPv4, and no mask.\<close>

record interface_address =
  ifa_name :: string
  ifa_ipv4 :: "u32 option"
  ifa_netmask :: "u32 option"

fun first_host :: "string \<Rightarrow> interface_address list \<Rightarrow> string option" where
  "first_host interface_name [] = None"
| "first_host interface_name (entry # rest) =
     (case (ifa_ipv4 entry, ifa_netmask entry) of
        (Some address, Some netmask) \<Rightarrow>
          if interface_name \<noteq> ifa_name entry then first_host interface_name rest
          else Some (inet_ntop ((address AND netmask) OR 0x01000000))
      | _ \<Rightarrow> first_host interface_name rest)"

definition accessory_ipv4_endpoint_for_interface ::
  "string \<Rightarrow> interface_address list option \<Rightarrow> string \<Rightarrow> string option option" where
  "accessory_ipv4_endpoint_for_interface routes addresses interface_name =
     (case route_gateway interface_name (tl (getlines routes)) of
        None \<Rightarrow> None
      | Some (Some gateway) \<Rightarrow> Some (Some gateway)
      | Some None \<Rightarrow>
          Some (case addresses of None \<Rightarrow> None | Some entries \<Rightarrow> first_host interface_name entries))"

end
