(* ===== verification/Iap2_Network_Props.thy ===== *)
theory Iap2_Network_Props
  imports Iap2_Network
begin

text \<open>
  The properties of the NetworkManager client: the terse output of \<open>nmcli\<close> is read back exactly, a
  run of \<open>nmcli\<close> returns and leaves neither descriptors nor a child, pass phrases stay off the
  command line, and the address of the head unit is the gateway of its network.
\<close>

section \<open>The terse output\<close>

text \<open>What \<open>nmcli --terse\<close> documents: a colon separates fields, colons and backslashes are escaped.\<close>

definition nmcli_escape :: "string \<Rightarrow> string" where
  "nmcli_escape s = concat (map (\<lambda>c. if c = CHR '':'' \<or> c = CHR 0x5C then [CHR 0x5C, c] else [c]) s)"

fun nmcli_row :: "string list \<Rightarrow> string" where
  "nmcli_row [] = []"
| "nmcli_row [f] = nmcli_escape f"
| "nmcli_row (f # g # fs) = nmcli_escape f @ CHR '':'' # nmcli_row (g # fs)"

lemma nmcli_escape_simps [simp]:
  "nmcli_escape [] = []"
  "nmcli_escape (c # s) = (if c = CHR '':'' \<or> c = CHR 0x5C then [CHR 0x5C, c] else [c]) @ nmcli_escape s"
  by (simp_all add: nmcli_escape_def)

lemma unescape_escape [simp]: "unescape_nmcli_field (nmcli_escape f) = f"
  unfolding unescape_nmcli_field_def by (induction f) auto

lemma escape_plain: "CHR '':'' \<notin> set f \<Longrightarrow> CHR 0x5C \<notin> set f \<Longrightarrow> nmcli_escape f = f"
  by (induction f) auto

lemma escape_eq_iff [simp]: "nmcli_escape f = nmcli_escape g \<longleftrightarrow> f = g"
  by (metis unescape_escape)

lemma split_escaped: "split_loop False acc (nmcli_escape f @ r) = split_loop False (acc @ nmcli_escape f) r"
  by (induction f arbitrary: acc) auto

lemma split_row: "fs \<noteq> [] \<Longrightarrow> split_nmcli_fields (nmcli_row fs) = map nmcli_escape fs"
proof (induction fs rule: nmcli_row.induct)
  case (2 f)
  then show ?case using split_escaped [of "[]" f "[]"] by (simp add: split_nmcli_fields_def)
next
  case (3 f g fs)
  then show ?case by (simp add: split_nmcli_fields_def split_escaped)
qed simp

lemma set_escape: "set (nmcli_escape f) \<subseteq> insert (CHR 0x5C) (set f)"
  by (induction f) auto

lemma set_row: "set (nmcli_row fs) \<subseteq> {CHR 0x5C, CHR '':''} \<union> (\<Union>f\<in>set fs. set f)"
proof (induction fs rule: nmcli_row.induct)
  case (2 f)
  then show ?case using set_escape [of f] by auto
next
  case (3 f g fs)
  then show ?case using set_escape [of f] by auto
qed simp

lemma strip_cr_same: "strip_cr s = s \<longleftrightarrow> s = [] \<or> last s \<noteq> CHR 0x0D"
  by (cases s rule: rev_cases) (simp_all add: strip_cr_def)

lemma row_last: "CHR 0x0D \<notin> set (last fs) \<Longrightarrow> fs \<noteq> [] \<Longrightarrow> strip_cr (nmcli_row fs) = nmcli_row fs"
proof (induction fs rule: nmcli_row.induct)
  case (2 f)
  then have "CHR 0x0D \<notin> set (nmcli_escape f)" using set_escape [of f] by auto
  then show ?case by (auto simp: strip_cr_same dest: last_in_set)
next
  case (3 f g fs)
  then have "strip_cr (nmcli_row (g # fs)) = nmcli_row (g # fs)" by simp
  then show ?case by (auto simp: strip_cr_same split: if_splits)
qed simp

lemma getlines_rows:
  assumes "\<forall>line\<in>set ls. CHR 0x0A \<notin> set line"
  shows "getlines (concat (map (\<lambda>line. line @ [CHR 0x0A]) ls)) = ls"
  using assms by (induction ls) (simp_all add: getlines_line)

text \<open>A profile is listed with its UUID, type, SSID and interface.\<close>

type_synonym profile = "string \<times> string \<times> string \<times> string"

definition profile_row :: "profile \<Rightarrow> string" where
  "profile_row p = (case p of (uuid, type, ssid, interface) \<Rightarrow> nmcli_row [uuid, type, ssid, interface])"

definition listing :: "profile list \<Rightarrow> string" where
  "listing ps = concat (map (\<lambda>p. profile_row p @ [CHR 0x0A]) ps)"

definition usable_profile :: "string \<Rightarrow> string \<Rightarrow> profile \<Rightarrow> bool" where
  "usable_profile ssid interface_name p =
     (case p of (uuid, type, name, interface) \<Rightarrow>
        type = ''802-11-wireless'' \<and> name = ssid \<and> (interface = [] \<or> interface = ''--'' \<or> interface = interface_name))"

definition listable :: "profile \<Rightarrow> bool" where
  "listable p =
     (case p of (uuid, type, ssid, interface) \<Rightarrow>
        CHR '':'' \<notin> set uuid \<and> CHR 0x5C \<notin> set uuid \<and>
        CHR 0x0A \<notin> set uuid \<union> set type \<union> set ssid \<union> set interface \<and> CHR 0x0D \<notin> set interface)"

lemma find_profile_rows:
  "list_all listable ps \<Longrightarrow>
   find_profile ssid interface_name (map profile_row ps) = map_option fst (find (usable_profile ssid interface_name) ps)"
proof (induction ps)
  case (Cons p ps)
  obtain uuid type name interface where p: "p = (uuid, type, name, interface)" by (cases p)
  have wireless: "nmcli_escape ''802-11-wireless'' = ''802-11-wireless''" by (simp add: escape_plain)
  have "nmcli_escape type = ''802-11-wireless'' \<longleftrightarrow> type = ''802-11-wireless''"
    by (metis wireless escape_eq_iff)
  moreover have "split_nmcli_fields (strip_cr (profile_row p)) =
      [uuid, nmcli_escape type, nmcli_escape name, nmcli_escape interface]"
    using Cons.prems row_last [of "[uuid, type, name, interface]"] split_row [of "[uuid, type, name, interface]"]
    by (simp add: p profile_row_def listable_def escape_plain del: nmcli_row.simps)
  ultimately show ?case using Cons by (simp add: p usable_profile_def Let_def)
qed simp

lemma listing_lines: "list_all listable ps \<Longrightarrow> getlines (listing ps) = map profile_row ps"
proof -
  assume ok: "list_all listable ps"
  have "CHR 0x0A \<notin> set (profile_row p)" if "p \<in> set ps" for p
  proof -
    obtain uuid type ssid interface where p: "p = (uuid, type, ssid, interface)" by (cases p)
    show ?thesis
      using ok that set_row [of "[uuid, type, ssid, interface]"]
      by (auto simp: list_all_iff listable_def p profile_row_def)
  qed
  then show ?thesis
    using getlines_rows [of "map profile_row ps"] by (simp add: listing_def comp_def)
qed

section \<open>A run of nmcli\<close>

lemma terminate_and_reap_events:
  assumes "terminate_and_reap quiet os timed d = Some (c, t, d', ev)"
  shows "count_list ev (Opened x) = 0" "count_list ev (Closed x) = 0"
    "Reaped \<in> set ev \<or> Wait_failed \<in> set (os_reaping os)"
    "nmcli_success allow c \<Longrightarrow> Reaped \<in> set ev"
proof -
  have reap: "c = Wait_failed \<Longrightarrow> reap_blocking cs = Some c \<Longrightarrow> c \<in> set cs" for cs c
    by (induction cs) (auto split: if_splits)
  show "count_list ev (Opened x) = 0" "count_list ev (Closed x) = 0"
    "Reaped \<in> set ev \<or> Wait_failed \<in> set (os_reaping os)"
    using assms reap by (auto simp: terminate_and_reap_def split: prod.splits option.splits if_splits)
  show "nmcli_success allow c \<Longrightarrow> Reaped \<in> set ev"
    using assms by (auto simp: terminate_and_reap_def nmcli_success_def split: prod.splits option.splits if_splits)
qed

lemma nmcli_rounds_events:
  "nmcli_rounds quiet os rs d = Some (c, t, d', ev) \<Longrightarrow>
   count_list ev (Opened x) = 0 \<and> count_list ev (Closed x) = 0 \<and>
   (Reaped \<in> set ev \<or> Wait_failed \<in> set (os_reaping os)) \<and> (nmcli_success allow c \<longrightarrow> Reaped \<in> set ev)"
proof (induction rs arbitrary: d)
  case (Cons r rs)
  then show ?case
    using terminate_and_reap_events [of quiet os _ _ c t d' ev]
    by (cases "rd_child r") (auto simp: Let_def nmcli_success_def split: if_splits; blast)+
qed simp

text \<open>A round that ends the waiting loop, and a blocking \<open>waitpid\<close> that returns.\<close>

definition ends_waiting :: "nmcli_round \<Rightarrow> bool" where
  "ends_waiting r = (rd_child r \<noteq> Wait_interrupted \<and> (rd_late r \<or> rd_child r \<noteq> Running))"

lemma reap_blocking_returns:
  "\<exists>c\<in>set cs. c \<noteq> Running \<and> c \<noteq> Wait_interrupted \<Longrightarrow> reap_blocking cs \<noteq> None"
  by (induction cs) auto

lemma terminate_and_reap_returns:
  "\<exists>c\<in>set (os_reaping os). c \<noteq> Running \<and> c \<noteq> Wait_interrupted \<Longrightarrow> terminate_and_reap quiet os t d \<noteq> None"
  using reap_blocking_returns [of "os_reaping os"]
  by (auto simp: terminate_and_reap_def split: prod.splits option.splits)

lemma nmcli_rounds_return:
  assumes "\<exists>c\<in>set (os_reaping os). c \<noteq> Running \<and> c \<noteq> Wait_interrupted"
  shows "\<exists>r\<in>set rs. ends_waiting r \<Longrightarrow> nmcli_rounds quiet os rs d \<noteq> None"
proof (induction rs arbitrary: d)
  case (Cons r rs)
  show ?case
  proof (cases "ends_waiting r")
    case True
    then show ?thesis
      using terminate_and_reap_returns [OF assms] by (cases "rd_child r") (auto simp: Let_def ends_waiting_def)
  next
    case False
    then have "\<exists>r\<in>set rs. ends_waiting r" using Cons.prems by simp
    with False show ?thesis
      using Cons.IH terminate_and_reap_returns [OF assms]
      by (cases "rd_child r") (auto simp del: not_None_eq simp: Let_def ends_waiting_def [of r])
  qed
qed simp

lemma secret_memfd_events:
  "secret_memfd os contents = (ok, ev) \<Longrightarrow>
   count_list ev (Opened x) = (if ok \<and> x = Secret then 1 else count_list ev (Closed x)) \<and>
   (ok \<longrightarrow> ev = [Opened Secret]) \<and> (\<forall>call. Started call \<notin> set ev)"
  by (auto simp: secret_memfd_def split: if_splits prod.splits)

lemma run_nmcli_closes:
  assumes "run_nmcli call os = Some (ok, out, ev)"
  shows "count_list ev (Opened x) = count_list ev (Closed x)"
proof (cases "nc_quiet call \<and> \<not> os_pipe os")
  case True
  then show ?thesis using assms by (simp add: run_nmcli_def Let_def)
next
  case False
  obtain secret_ok secret where
    s: "(if nc_stdin call \<noteq> [] then secret_memfd os (nc_stdin call) else (True, [])) = (secret_ok, secret)"
    by (cases "if nc_stdin call \<noteq> [] then secret_memfd os (nc_stdin call) else (True, [])")
  then have counts: "nc_stdin call \<noteq> [] \<and> secret_ok \<Longrightarrow> secret = [Opened Secret]"
    "nc_stdin call = [] \<Longrightarrow> secret_ok \<and> secret = []"
    "\<not> secret_ok \<Longrightarrow> count_list secret (Opened x) = count_list secret (Closed x)"
    using secret_memfd_events [of os "nc_stdin call" secret_ok secret x] by (auto split: if_splits)
  show ?thesis
  proof (cases "secret_ok \<and> os_spawned os")
    case True
    then obtain c t d waiting where w: "nmcli_rounds (nc_quiet call) os (os_rounds os) [] = Some (c, t, d, waiting)"
      using assms False s by (auto simp: run_nmcli_def Let_def split: if_splits option.splits)
    then show ?thesis
      using assms False s True counts nmcli_rounds_events [OF w, of x]
      by (cases "nc_stdin call = []") (auto simp: run_nmcli_def Let_def split: if_splits)
  next
    case not_started: False
    then show ?thesis
      using assms False s counts
      by (cases "nc_stdin call = []"; cases secret_ok) (auto simp: run_nmcli_def Let_def split: if_splits)
  qed
qed

lemma run_nmcli_reaps:
  assumes "run_nmcli call os = Some (ok, out, ev)" and "Started call \<in> set ev"
  shows "Reaped \<in> set ev \<or> Wait_failed \<in> set (os_reaping os)"
  using assms nmcli_rounds_events secret_memfd_events
  by (fastforce simp: run_nmcli_def Let_def split: if_splits option.splits prod.splits)

lemma run_nmcli_ok:
  assumes "run_nmcli call os = Some (True, out, ev)"
  shows "Started call \<in> set ev \<and> Reaped \<in> set ev"
  using assms nmcli_rounds_events
  by (fastforce simp: run_nmcli_def Let_def split: if_splits option.splits prod.splits)

lemma run_nmcli_returns:
  assumes "\<exists>r\<in>set (os_rounds os). ends_waiting r"
    and "\<exists>c\<in>set (os_reaping os). c \<noteq> Running \<and> c \<noteq> Wait_interrupted"
  shows "\<exists>ok out ev. run_nmcli call os = Some (ok, out, ev)"
  using nmcli_rounds_return [OF assms(2,1), of "nc_quiet call" "[]"]
  by (auto simp: run_nmcli_def Let_def split: prod.splits option.splits)

text \<open>
  C33: A run of \<open>nmcli\<close> returns once a round finds the deadline passed or the child gone; then every
  descriptor it opened is closed again, a child it started has been waited for unless \<open>waitpid\<close>
  itself fails, and it reports success only for a child that ran and was waited for.
\<close>

theorem nmcli_run_returns_clean:
  assumes "\<exists>r\<in>set (os_rounds os). ends_waiting r"
    and "\<exists>c\<in>set (os_reaping os). c \<noteq> Running \<and> c \<noteq> Wait_interrupted"
  shows "\<exists>ok out ev. run_nmcli call os = Some (ok, out, ev) \<and>
           (\<forall>d. count_list ev (Opened d) = count_list ev (Closed d)) \<and>
           (Started call \<in> set ev \<longrightarrow> Reaped \<in> set ev \<or> Wait_failed \<in> set (os_reaping os)) \<and>
           (ok \<longrightarrow> Started call \<in> set ev \<and> Reaped \<in> set ev)"
proof -
  obtain ok out ev where run: "run_nmcli call os = Some (ok, out, ev)"
    using run_nmcli_returns [OF assms] by blast
  then show ?thesis
    using run_nmcli_closes [OF run] run_nmcli_reaps [OF run] run_nmcli_ok [of call os out ev] by (cases ok) auto
qed

section \<open>Pass phrases\<close>

lemma issue_calls:
  "issue world call s = Some (ok, out, s') \<Longrightarrow> nm_calls s' = nm_calls s @ [(call, ok)]"
  by (auto simp: issue_def split: prod.splits option.splits)

lemma quiet_call_stdin [simp]: "nc_stdin (quiet_call a) = []" "nc_arguments (quiet_call a) = a"
  by (simp_all add: quiet_call_def)

text \<open>What the commands of two runs have in common when only the pass phrase differs.\<close>

definition same_commands :: "(nmcli_call \<times> bool) list \<Rightarrow> (nmcli_call \<times> bool) list \<Rightarrow> bool" where
  "same_commands cs cs' = (map (nc_arguments \<circ> fst) cs = map (nc_arguments \<circ> fst) cs')"

lemma up_call_arguments:
  "(p = [] \<longleftrightarrow> wifi_passphrase c = []) \<Longrightarrow>
   nc_arguments (up_call (c\<lparr>wifi_passphrase := p\<rparr>) saved i) = nc_arguments (up_call c saved i)"
  by (simp add: up_call_def quiet_call_def up_arguments_def secret_arguments_def cong: option.case_cong)

text \<open>The commands that were run from \<open>s\<close> to \<open>s'\<close>; all but the last one have no standard input.\<close>

definition plain_calls :: "'e network \<Rightarrow> 'e network \<Rightarrow> bool" where
  "plain_calls s s' = (\<exists>cs. nm_calls s' = nm_calls s @ cs \<and> (\<forall>call\<in>set cs. nc_stdin (fst call) = []))"

lemma plain_calls_refl: "plain_calls s s"
  by (simp add: plain_calls_def)

lemma plain_calls_issue:
  "issue world (quiet_call a) s' = Some (ok, out, s'') \<Longrightarrow> plain_calls s s' \<Longrightarrow> plain_calls s s''"
  by (auto simp: plain_calls_def dest: issue_calls)

definition nearly_plain :: "'e network \<Rightarrow> 'e network \<Rightarrow> bool" where
  "nearly_plain s s' =
     (\<forall>call\<in>set (drop (length (nm_calls s)) (butlast (nm_calls s'))). nc_stdin (fst call) = [])"

lemma nearly_plain_plain: "plain_calls s s' \<Longrightarrow> nearly_plain s s'"
  unfolding plain_calls_def nearly_plain_def
  by (metis append_eq_conv_conj drop_butlast in_set_butlastD)

lemma nearly_plain_last:
  "plain_calls s s' \<Longrightarrow> issue world call s' = Some (ok, out, s'') \<Longrightarrow> nearly_plain s s''"
  using issue_calls [of world call s' ok out s''] by (auto simp: plain_calls_def nearly_plain_def)

lemma join_fresh_secret:
  assumes "join_fresh world c i saved s = Some (ok, s1)"
    and "join_fresh world (c\<lparr>wifi_passphrase := p\<rparr>) i saved s = Some (ok', s2)"
    and "p = [] \<longleftrightarrow> wifi_passphrase c = []"
  shows "same_commands (nm_calls s1) (nm_calls s2)"
  using assms up_call_arguments [OF assms(3)]
  by (auto simp: join_fresh_def same_commands_def modify_arguments_def add_arguments_def
      split: option.splits Option.bind_splits if_splits dest!: issue_calls)

lemma join_secret:
  assumes "join_with_networkmanager world c i s = Some (ok, s1)"
    and "join_with_networkmanager world (c\<lparr>wifi_passphrase := p\<rparr>) i s = Some (ok', s2)"
    and "p = [] \<longleftrightarrow> wifi_passphrase c = []"
  shows "same_commands (nm_calls s1) (nm_calls s2)"
  using assms join_fresh_secret [OF _ _ assms(3)]
  by (auto simp: join_with_networkmanager_def same_commands_def
      split: option.splits Option.bind_splits if_splits)

lemma join_fresh_plain:
  "join_fresh world c i saved s = Some (ok, s1) \<Longrightarrow> plain_calls s0 s \<Longrightarrow> nearly_plain s0 s1"
  by (auto simp: join_fresh_def split: option.splits Option.bind_splits if_splits)
    (blast intro: plain_calls_issue nearly_plain_plain nearly_plain_last)+

lemma join_plain:
  "join_with_networkmanager world c i s = Some (ok, s1) \<Longrightarrow> nearly_plain s s1"
  using plain_calls_refl [of s]
  by (auto simp: join_with_networkmanager_def saved_connection_uuid_def
      split: option.splits Option.bind_splits if_splits)
    (blast intro: plain_calls_issue join_fresh_plain nearly_plain_plain)+

lemma hotspot_secret:
  assumes "start_management_hotspot world i ssid q s = Some (up, h1)"
    and "start_management_hotspot world i ssid q' s = Some (up', h2)"
    and "length q \<ge> 8" "length q' \<ge> 8"
  shows "same_commands (nm_calls h1) (nm_calls h2)"
  using assms
  by (auto simp: start_management_hotspot_def same_commands_def hotspot_up_call_def
      split: Option.bind_splits if_splits dest!: issue_calls)


section \<open>The routing table\<close>

text \<open>The lines as the kernel prints them: hexadecimal numbers of fixed width, separated by tabs.\<close>

definition hex_char :: "nat \<Rightarrow> char" where
  "hex_char d = ''0123456789ABCDEF'' ! d"

fun hex_text :: "nat \<Rightarrow> nat \<Rightarrow> string" where
  "hex_text 0 v = []"
| "hex_text (Suc n) v = hex_text n (v div 16) @ [hex_char (v mod 16)]"

type_synonym route = "string \<times> u32 \<times> u32 \<times> u16 \<times> string"

definition route_line :: "route \<Rightarrow> string" where
  "route_line r =
     (case r of (name, destination, gateway, flags, rest) \<Rightarrow>
        name @ CHR 0x09 # hex_text 8 (unat destination) @ CHR 0x09 # hex_text 8 (unat gateway) @ CHR 0x09 #
        hex_text 4 (unat flags) @ CHR 0x09 # rest)"

definition printable_route :: "route \<Rightarrow> bool" where
  "printable_route r =
     (case r of (name, _, _, _, rest) \<Rightarrow>
        name \<noteq> [] \<and> list_all (\<lambda>c. \<not> is_space c) name \<and> CHR 0x0A \<notin> set name \<union> set rest)"

definition default_route :: "string \<Rightarrow> route \<Rightarrow> bool" where
  "default_route interface_name r =
     (case r of (name, destination, gateway, flags, _) \<Rightarrow>
        name = interface_name \<and> destination = 0 \<and> flags AND 2 \<noteq> 0)"

definition gateway_of :: "route \<Rightarrow> u32" where
  "gateway_of r = fst (snd (snd r))"

lemma less_16: "d < 16 \<Longrightarrow> d \<in> {0, 1, 2, 3, 4, 5, 6, 7, 8, 9, 10, 11, 12, 13, 14, 15 :: nat}"
  unfolding insert_iff empty_iff by presburger

lemma hex_char_facts:
  assumes "d < 16"
  shows "hex_value (hex_char d) = Some d" "\<not> is_space (hex_char d)"
    "hex_char d \<notin> {CHR ''x'', CHR ''X'', CHR ''-'', CHR ''+'', CHR 0x0A}"
  using less_16 [OF assms] by (auto simp: hex_char_def hex_value_def is_space_def)

lemma length_hex_text [simp]: "length (hex_text n v) = n"
  by (induction n arbitrary: v) simp_all

lemma hex_text_chars: "c \<in> set (hex_text n v) \<Longrightarrow> \<exists>d<16. c = hex_char d"
proof (induction n arbitrary: v)
  case (Suc n)
  have "v mod 16 < 16" by simp
  then show ?case using Suc.prems Suc.IH [of "v div 16"] by (auto simp del: mod_less_divisor)
qed simp

lemma hex_prefix_append:
  "list_all (\<lambda>c. hex_value c \<noteq> None) s \<Longrightarrow> hex_prefix (s @ r) = hex_prefix s @ hex_prefix r"
  by (induction s) auto

lemma hex_text_values: "list_all (\<lambda>c. hex_value c \<noteq> None) (hex_text n v)"
  using hex_text_chars [of _ n v] hex_char_facts(1) by (fastforce simp: list_all_iff)

lemma hex_prefix_text:
  "length (hex_prefix (hex_text n v)) = n \<and> hex_number (hex_prefix (hex_text n v)) = v mod 16 ^ n"
proof (induction n arbitrary: v)
  case (Suc n)
  have "16 * (v div 16 mod 16 ^ n) + v mod 16 = v mod 16 ^ Suc n" by (simp add: mod_mult2_eq)
  with Suc.IH [of "v div 16"] show ?case
    by (simp add: hex_prefix_append [OF hex_text_values] hex_char_facts hex_number_def)
qed (simp add: hex_number_def)

lemma stoul_hex_text:
  assumes "0 < n" "n \<le> 8" "v < 16 ^ n"
  shows "stoul_hex (hex_text n v) = Some v"
proof -
  have chars: "c \<in> set (hex_text n v) \<Longrightarrow> c \<notin> {CHR ''x'', CHR ''X'', CHR ''-'', CHR ''+''}" for c
    using hex_text_chars [of c n v] hex_char_facts(3) by fastforce
  have ne: "hex_text n v \<noteq> []" using assms(1) by (cases n) simp_all
  have head: "hd (hex_text n v) \<noteq> CHR ''-''" "hd (hex_text n v) \<noteq> CHR ''+''"
    using chars [of "hd (hex_text n v)"] ne by simp_all
  have "take 2 (hex_text n v) \<noteq> [CHR ''0'', x]" if "x = CHR ''x'' \<or> x = CHR ''X''" for x
  proof
    assume "take 2 (hex_text n v) = [CHR ''0'', x]"
    then have "x \<in> set (take 2 (hex_text n v))" by simp
    then have "x \<in> set (hex_text n v)" by (rule in_set_takeD)
    then show False using chars [of x] that by blast
  qed
  then have "take 2 (hex_text n v) \<noteq> ''0x'' \<and> take 2 (hex_text n v) \<noteq> ''0X''" by simp
  moreover have "hex_prefix (hex_text n v) \<noteq> []" "hex_number (hex_prefix (hex_text n v)) = v"
    using hex_prefix_text [of n v] assms by (auto simp del: length_greater_0_conv)
  moreover have "v < 2 ^ 64"
  proof -
    have "(16 :: nat) ^ n \<le> 16 ^ 8" using assms(2) by (intro power_increasing) simp_all
    with assms(3) show ?thesis by (simp add: less_le_trans)
  qed
  ultimately show ?thesis using ne head by (simp add: stoul_hex_def Let_def)
qed

lemma hex_text_inject: "v < 16 ^ n \<Longrightarrow> w < 16 ^ n \<Longrightarrow> hex_text n v = hex_text n w \<longleftrightarrow> v = w"
  using hex_prefix_text [of n v] hex_prefix_text [of n w] by (metis mod_less)

lemma stream_words_tab:
  assumes "w \<noteq> []" "list_all (\<lambda>c. \<not> is_space c) w"
  shows "stream_words (w @ CHR 0x09 # rest) = w # stream_words (CHR 0x09 # rest)"
    "stream_words (CHR 0x09 # w @ CHR 0x09 # rest) = w # stream_words (CHR 0x09 # rest)"
proof -
  have tab: "is_space (CHR 0x09)" by (simp add: is_space_def)
  have "dropWhile is_space (w @ CHR 0x09 # rest) = w @ CHR 0x09 # rest"
    using assms by (cases w) simp_all
  moreover have "takeWhile (\<lambda>c. \<not> is_space c) (w @ CHR 0x09 # rest) = w"
    "dropWhile (\<lambda>c. \<not> is_space c) (w @ CHR 0x09 # rest) = CHR 0x09 # rest"
    using assms(2) tab by (induction w) auto
  ultimately show "stream_words (w @ CHR 0x09 # rest) = w # stream_words (CHR 0x09 # rest)"
    "stream_words (CHR 0x09 # w @ CHR 0x09 # rest) = w # stream_words (CHR 0x09 # rest)"
    using tab by (subst stream_words.simps; simp add: Let_def)+
qed

lemma hex_text_word: "0 < n \<Longrightarrow> hex_text n v \<noteq> [] \<and> list_all (\<lambda>c. \<not> is_space c) (hex_text n v)"
  using hex_text_chars [of _ n v] hex_char_facts(2) by (cases n) (fastforce simp: list_all_iff)+

lemma route_line_words:
  assumes "printable_route (name, destination, gateway, flags, rest)"
  shows "stream_words (route_line (name, destination, gateway, flags, rest)) =
           name # hex_text 8 (unat destination) # hex_text 8 (unat gateway) # hex_text 4 (unat flags) #
           stream_words (CHR 0x09 # rest)"
  using assms hex_text_word [of 8] hex_text_word [of 4]
  by (simp add: route_line_def printable_route_def stream_words_tab del: hex_text.simps)

lemma flag_test: "unat (flags :: u16) AND 2 = 0 \<longleftrightarrow> flags AND 2 = 0"
proof -
  have "unat (flags AND 2) = unat flags AND 2" by (simp add: unsigned_and_eq)
  then show ?thesis by (metis unsigned_0 unsigned_eq_0_iff)
qed

lemma route_gateway_lines:
  "list_all printable_route rs \<Longrightarrow>
   route_gateway interface_name (map route_line rs) =
     Some (map_option (\<lambda>r. inet_ntop (gateway_of r)) (find (default_route interface_name) rs))"
proof (induction rs)
  case (Cons r rs)
  obtain name destination gateway flags rest where r: "r = (name, destination, gateway, flags, rest)" by (cases r)
  have zero: "hex_text 8 (unat destination) = ''00000000'' \<longleftrightarrow> destination = 0"
  proof -
    have "''00000000'' = hex_text 8 0" by code_simp
    then show ?thesis
      using hex_text_inject [of "unat destination" 8 0] unat_u32_lt [of destination]
      by (simp add: unsigned_eq_0_iff)
  qed
  have numbers: "stoul_hex (hex_text 4 (unat flags)) = Some (unat flags)"
    "stoul_hex (hex_text 8 (unat gateway)) = Some (unat gateway)"
    using stoul_hex_text [of 4 "unat flags"] stoul_hex_text [of 8 "unat gateway"]
      unat_u16_lt [of flags] unat_u32_lt [of gateway] by simp_all
  have "printable_route (name, destination, gateway, flags, rest)" using Cons.prems r by simp
  note words = route_line_words [OF this]
  have flag: "unat flags AND 2 = 0 \<longleftrightarrow> flags AND 2 = 0" by (rule flag_test)
  have same: "(word_of_nat (unat gateway) :: u32) = gateway" by simp
  have step: "route_gateway interface_name (route_line r # ls) =
      (if name \<noteq> interface_name \<or> destination \<noteq> 0 then route_gateway interface_name ls
       else if flags AND 2 = 0 then route_gateway interface_name ls
       else Some (Some (inet_ntop gateway)))" for ls
    unfolding r route_gateway.simps words list.case zero numbers option.case flag same by (rule refl)
  have "gateway_of r = gateway" "default_route interface_name r \<longleftrightarrow>
      name = interface_name \<and> destination = 0 \<and> flags AND 2 \<noteq> 0"
    by (simp_all add: r gateway_of_def default_route_def)
  with step [of "map route_line rs"] Cons show ?case by (simp del: route_gateway.simps)
qed simp

lemma route_line_no_newline: "printable_route r \<Longrightarrow> CHR 0x0A \<notin> set (route_line r)"
proof -
  obtain name destination gateway flags rest where r: "r = (name, destination, gateway, flags, rest)" by (cases r)
  assume "printable_route r"
  moreover have "CHR 0x0A \<notin> set (hex_text n v)" for n v
    using hex_text_chars [of _ n v] hex_char_facts(3) by fastforce
  ultimately show ?thesis by (auto simp: r route_line_def printable_route_def)
qed

definition routing_table :: "string \<Rightarrow> route list \<Rightarrow> string" where
  "routing_table header rs = concat (map (\<lambda>line. line @ [CHR 0x0A]) (header # map route_line rs))"

text \<open>
  C34: From the routing table as the kernel prints it the address of the head unit is the gateway of
  the first default route of the interface; without one it is the first host of the network of the
  interface.
\<close>

theorem head_unit_address_found:
  assumes "CHR 0x0A \<notin> set header" and "list_all printable_route rs"
  shows "accessory_ipv4_endpoint_for_interface (routing_table header rs) addresses interface_name =
           Some (case find (default_route interface_name) rs of
                   Some r \<Rightarrow> Some (inet_ntop (gateway_of r))
                 | None \<Rightarrow> Option.bind addresses (first_host interface_name))"
proof -
  have "getlines (routing_table header rs) = header # map route_line rs"
    using assms route_line_no_newline unfolding routing_table_def
    by (intro getlines_rows) (auto simp: list_all_iff)
  then show ?thesis
    using route_gateway_lines [OF assms(2)]
    by (simp add: accessory_ipv4_endpoint_for_interface_def split: option.splits)
qed

text \<open>A table with the default route 192.168.1.1 on \<open>wlan0\<close>, and a fallback to the first host.\<close>

lemma head_unit_address_found_witness:
  "accessory_ipv4_endpoint_for_interface
     (routing_table ''Iface'' [(''eth0'', 0, 1, 3, []), (''wlan0'', 0, 0x0101A8C0, 3, ''0'')]) None ''wlan0'' =
   Some (Some ''192.168.1.1'') \<and>
   accessory_ipv4_endpoint_for_interface (routing_table ''Iface'' [])
     (Some [\<lparr>ifa_name = ''wlan0'', ifa_ipv4 = Some 0x0500000A, ifa_netmask = Some 0x00FFFFFF\<rparr>]) ''wlan0'' =
   Some (Some ''10.0.0.1'')"
proof -
  have first: "inet_ntop 0x0101A8C0 = ''192.168.1.1''" by code_simp
  have host: "inet_ntop (0x0500000A AND 0x00FFFFFF OR 0x01000000) = ''10.0.0.1''" by code_simp
  have route: "find (default_route ''wlan0'') [(''eth0'', 0, 1, 3, []), (''wlan0'', 0, 0x0101A8C0, 3, ''0'')] =
      Some (''wlan0'', 0, 0x0101A8C0, 3, ''0'')"
    by (simp add: default_route_def)
  show ?thesis
    using head_unit_address_found [of "''Iface''" "[(''eth0'', 0, 1, 3, []), (''wlan0'', 0, 0x0101A8C0, 3, ''0'')]"
        None "''wlan0''"]
      head_unit_address_found [of "''Iface''" "[]"
        "Some [\<lparr>ifa_name = ''wlan0'', ifa_ipv4 = Some 0x0500000A, ifa_netmask = Some 0x00FFFFFF\<rparr>]" "''wlan0''"]
      route first host
    by (simp add: printable_route_def is_space_def gateway_of_def)
qed

section \<open>Runs\<close>

text \<open>An operating system on which \<open>nmcli\<close> prints a text and exits with a status.\<close>

definition answering :: "string \<Rightarrow> nat \<Rightarrow> nmcli_os" where
  "answering out status =
     \<lparr>os_pipe = True, os_memfd = True, os_writes = [(1000, False)], os_rewound = True, os_spawned = True,
      os_rounds = [\<lparr>rd_output = out, rd_child = Exited status, rd_late = False, rd_poll_failed = False\<rparr>],
      os_terminating = [], os_reaping = [Exited status], os_last_output = []\<rparr>"

definition example_profiles :: "profile list" where
  "example_profiles =
     [(''u1'', ''802-3-ethernet'', [], ''eth0''), (''u2'', ''802-11-wireless'', ''a:b'', ''wlan1''),
      (''u3'', ''802-11-wireless'', ''a:b'', [])]"


text \<open>A child that hangs, is killed after the deadline, and is waited for.\<close>

definition hanging :: nmcli_os where
  "hanging =
     (answering [] 0)\<lparr>os_rounds := [\<lparr>rd_output = [], rd_child = Running, rd_late = True, rd_poll_failed = False\<rparr>],
        os_reaping := [Wait_interrupted, Signalled]\<rparr>"

lemma nmcli_run_returns_clean_witness:
  "run_nmcli (quiet_call []) hanging \<noteq> None \<and>
   (\<exists>ok out ev. run_nmcli (quiet_call []) hanging = Some (ok, out, ev) \<and> Reaped \<in> set ev \<and> Sent_kill \<in> set ev \<and> \<not> ok)"
proof -
  have "\<exists>r\<in>set (os_rounds hanging). ends_waiting r"
    "\<exists>c\<in>set (os_reaping hanging). c \<noteq> Running \<and> c \<noteq> Wait_interrupted"
    by (simp_all add: hanging_def ends_waiting_def)
  from nmcli_run_returns_clean [OF this, of "quiet_call []"] show ?thesis
    by (auto simp: run_nmcli_def hanging_def answering_def quiet_call_def terminate_and_reap_def
        nmcli_success_def Let_def)
qed

text \<open>Two pass phrases, a world that knows no profile, and the hotspot.\<close>

definition example_wifi :: wifi_configuration where
  "example_wifi = \<lparr>wifi_ssid = ''car'', wifi_passphrase = ''secret12'', wifi_security_type = 2, wifi_channel = 36\<rparr>"


text \<open>
  When a saved profile can be neither used nor modified, a new profile is added, but it is the saved
  one that is brought up again.
\<close>

lemma added_profile_not_used:
  assumes "join_fresh world c i (Some uuid) s = Some (True, s1)"
  shows "fst (last (nm_calls s1)) = up_call c (Some uuid) i"
  using assms
  by (auto simp: join_fresh_def split: option.splits Option.bind_splits if_splits dest!: issue_calls)

end
