(* ===== verification/Airplay_Rtsp.thy ===== *)
theory Airplay_Rtsp
  imports Text_Prelude
begin

text \<open>
  RTSP messages and TLV8 (\<open>src/src/airplay/rtsp.cpp\<close>): the encoder of a request, the
  test that a response has arrived completely, the parser of a response, and the
  type-length-value format of the pairing exchange.
\<close>

section \<open>Requests\<close>

definition encode_request_headers ::
    "string \<Rightarrow> string \<Rightarrow> int \<Rightarrow> nat \<Rightarrow> string \<Rightarrow> (string \<times> string) list \<Rightarrow> string" where
  "encode_request_headers rmethod path cseq body_size content_type additional_headers =
     rmethod @ '' '' @ path @ '' RTSP/1.0'' @ crlf @ ''CSeq: '' @ int_to_string cseq @ crlf
     @ (if list_ex (\<lambda>header. lower (fst header) = ''user-agent'') additional_headers then []
        else ''User-Agent: AA2ACP/0.1'' @ crlf)
     @ concat (map (\<lambda>(name, value). name @ '': '' @ value @ crlf) additional_headers)
     @ (if content_type \<noteq> [] then ''Content-Type: '' @ content_type @ crlf else [])
     @ ''Content-Length: '' @ nat_to_string body_size @ crlf2"

definition encode_request ::
    "string \<Rightarrow> string \<Rightarrow> int \<Rightarrow> bytes \<Rightarrow> string \<Rightarrow> (string \<times> string) list \<Rightarrow> bytes" where
  "encode_request rmethod path cseq body content_type additional_headers =
     bytes_of (encode_request_headers rmethod path cseq (length body) content_type additional_headers) @ body"

section \<open>Has a response arrived?\<close>

definition kContentLengthNotSet :: nat where "kContentLengthNotSet = 2 ^ 64 - 1"
definition kMaxContentLength :: nat where "kMaxContentLength = 1024 * 1024"

text \<open>One header line: the content length so far, or the rejection of the response.\<close>

definition content_length_line :: "string \<Rightarrow> nat \<Rightarrow> nat option" where
  "content_length_line line content_length =
     (case find_sub [CHR '':''] line of
        None \<Rightarrow> Some content_length
      | Some colon \<Rightarrow>
          if lower (take colon line) = ''content-length'' then
            if content_length \<noteq> kContentLengthNotSet then None
            else parse_unsigned (2 ^ 64 - 1) (trim (drop (colon + 1) line))
          else Some content_length)"

function content_length_scan :: "string \<Rightarrow> nat \<Rightarrow> nat \<Rightarrow> nat \<Rightarrow> nat option" where
  "content_length_scan txt header_end cursor content_length =
     (if cursor < header_end then
        case find_from crlf txt cursor of
          None \<Rightarrow> content_length_line (take (header_end - cursor) (drop cursor txt)) content_length
        | Some line_end \<Rightarrow>
            (case content_length_line (take (line_end - cursor) (drop cursor txt)) content_length of
               None \<Rightarrow> None
             | Some content_length' \<Rightarrow> content_length_scan txt header_end (line_end + 2) content_length')
      else Some content_length)"
  by pat_completeness auto
termination
  by (relation "measure (\<lambda>(txt, header_end, cursor, cl). header_end - cursor)")
     (auto dest!: find_from_SomeD)

declare content_length_scan.simps [simp del]

definition complete_response_size :: "bytes \<Rightarrow> nat option" where
  "complete_response_size bs =
     (let txt = text_of bs in
      case find_sub crlf2 txt of
        None \<Rightarrow> None
      | Some header_end \<Rightarrow>
          (case content_length_scan txt header_end 0 kContentLengthNotSet of
             None \<Rightarrow> None
           | Some found \<Rightarrow>
               let content_length = (if found = kContentLengthNotSet then 0 else found);
                   body_start = header_end + 4
               in if content_length > kMaxContentLength then None
                  else if length bs - body_start < content_length then None
                  else Some (body_start + content_length)))"

section \<open>Parsing a response\<close>

record response =
  rsp_status :: int
  rsp_headers :: "string \<rightharpoonup> string"
  rsp_body :: bytes

text \<open>\<open>std::map::emplace\<close> keeps the first value of a key.\<close>

definition emplace :: "'k \<Rightarrow> 'v \<Rightarrow> ('k \<rightharpoonup> 'v) \<Rightarrow> ('k \<rightharpoonup> 'v)" where
  "emplace k v m = (case m k of None \<Rightarrow> m(k \<mapsto> v) | Some _ \<Rightarrow> m)"

definition response_header_line :: "string \<Rightarrow> (string \<rightharpoonup> string) \<Rightarrow> (string \<rightharpoonup> string)" where
  "response_header_line line headers =
     (case find_sub [CHR '':''] line of
        None \<Rightarrow> headers
      | Some colon \<Rightarrow> emplace (lower (trim (take colon line))) (trim (drop (colon + 1) line)) headers)"

text \<open>Before the end of the header there is always another CR LF, so the scan never misses it.\<close>

function response_headers_scan ::
    "string \<Rightarrow> nat \<Rightarrow> nat \<Rightarrow> (string \<rightharpoonup> string) \<Rightarrow> (string \<rightharpoonup> string)" where
  "response_headers_scan txt header_end cursor headers =
     (if cursor < header_end then
        case find_from crlf txt cursor of
          None \<Rightarrow> headers
        | Some nxt \<Rightarrow>
            response_headers_scan txt header_end (nxt + 2)
              (response_header_line (take (nxt - cursor) (drop cursor txt)) headers)
      else headers)"
  by pat_completeness auto
termination
  by (relation "measure (\<lambda>(txt, header_end, cursor, headers). header_end - cursor)")
     (auto dest!: find_from_SomeD)

declare response_headers_scan.simps [simp del]

definition parse_status :: "string \<Rightarrow> int option" where
  "parse_status status_text =
     parse_int (case find_sub '' '' status_text of None \<Rightarrow> status_text | Some space \<Rightarrow> take space status_text)"

definition parse_response :: "bytes \<Rightarrow> response option" where
  "parse_response bs =
     (case complete_response_size bs of
        None \<Rightarrow> None
      | Some full_size \<Rightarrow>
          let txt = take full_size (text_of bs) in
          (case (find_sub crlf2 txt, find_sub crlf txt) of
             (Some header_end, Some line_end) \<Rightarrow>
               if \<not> prefix ''RTSP/1.0 '' txt then None
               else
                 (case parse_status (take (line_end - 9) (drop 9 txt)) of
                    None \<Rightarrow> None
                  | Some status \<Rightarrow>
                      Some \<lparr>rsp_status = status,
                            rsp_headers = response_headers_scan txt header_end (line_end + 2) Map.empty,
                            rsp_body = drop (header_end + 4) (take full_size bs)\<rparr>)
           | _ \<Rightarrow> None))"

section \<open>TLV8\<close>

function encode_tlv8_value :: "byte \<Rightarrow> bytes \<Rightarrow> bytes" where
  "encode_tlv8_value type value =
     (if value = [] then []
      else let size = min 255 (length value) in
           [type, of_nat size] @ take size value @ encode_tlv8_value type (drop size value))"
  by pat_completeness auto
termination
  by (relation "measure (\<lambda>(type, value). length value)") auto

declare encode_tlv8_value.simps [simp del]

definition encode_tlv8 :: "(byte \<times> bytes) list \<Rightarrow> bytes" where
  "encode_tlv8 entries = concat (map (\<lambda>(type, value). encode_tlv8_value type value) entries)"

text \<open>\<open>result[type]\<close> default-constructs an empty value.\<close>

definition tlv8_insert :: "byte \<Rightarrow> bytes \<Rightarrow> (byte \<rightharpoonup> bytes) \<Rightarrow> (byte \<rightharpoonup> bytes)" where
  "tlv8_insert type part m =
     m(type \<mapsto> (case m type of None \<Rightarrow> part | Some value \<Rightarrow> value @ part))"

function decode_tlv8_from :: "bytes \<Rightarrow> nat \<Rightarrow> (byte \<rightharpoonup> bytes) \<Rightarrow> (byte \<rightharpoonup> bytes)" where
  "decode_tlv8_from bs offset result =
     (if offset + 2 \<le> length bs then
        let type = bs ! offset; size = unat (bs ! (offset + 1)); start = offset + 2 in
        if start + size > length bs then Map.empty
        else decode_tlv8_from bs (start + size) (tlv8_insert type (take size (drop start bs)) result)
      else result)"
  by pat_completeness auto
termination
  by (relation "measure (\<lambda>(bs, offset, result). length bs - offset)") auto

declare decode_tlv8_from.simps [simp del]

definition decode_tlv8 :: "bytes \<Rightarrow> (byte \<rightharpoonup> bytes)" where
  "decode_tlv8 bs = decode_tlv8_from bs 0 Map.empty"

section \<open>TLV8 round trip\<close>

lemma tlv8_insert_insert: "tlv8_insert type b (tlv8_insert type a m) = tlv8_insert type (a @ b) m"
  by (auto simp: tlv8_insert_def split: option.split)

lemma decode_tlv8_step:
  assumes "length part \<le> 255"
  shows "decode_tlv8_from (pre @ [type, of_nat (length part)] @ part @ rest) (length pre) m =
    decode_tlv8_from (pre @ [type, of_nat (length part)] @ part @ rest)
      (length (pre @ [type, of_nat (length part)] @ part)) (tlv8_insert type part m)"
proof -
  let ?bs = "pre @ [type, of_nat (length part)] @ part @ rest"
  have "unat (of_nat (length part) :: byte) = length part"
    using assms by (simp add: unat_of_nat)
  then have size: "unat (?bs ! (length pre + 1)) = length part" by (simp add: nth_append)
  have "drop (length pre + 2) ?bs = part @ rest" "?bs ! length pre = type" by simp_all
  with size show ?thesis
    by (subst decode_tlv8_from.simps) (simp add: Let_def del: append_Cons)
qed

lemma decode_tlv8_value:
  "decode_tlv8_from (pre @ encode_tlv8_value type v @ rest) (length pre) m =
   decode_tlv8_from (pre @ encode_tlv8_value type v @ rest) (length (pre @ encode_tlv8_value type v))
     (if v = [] then m else tlv8_insert type v m)"
proof (induction type v arbitrary: pre m rule: encode_tlv8_value.induct)
  case (1 type v)
  show ?case
  proof (cases "v = []")
    case True
    then show ?thesis by (simp add: encode_tlv8_value.simps)
  next
    case False
    let ?n = "min 255 (length v)"
    let ?part = "take ?n v" and ?tail = "drop ?n v"
    let ?head = "[type, of_nat (length ?part)] @ ?part"
    have enc: "encode_tlv8_value type v = ?head @ encode_tlv8_value type ?tail"
      using False by (subst encode_tlv8_value.simps) (simp add: Let_def min_def)
    have ins: "(if ?tail = [] then tlv8_insert type ?part m else tlv8_insert type ?tail (tlv8_insert type ?part m))
        = tlv8_insert type v m"
      by (auto simp: tlv8_insert_insert)
    have "decode_tlv8_from (pre @ ?head @ encode_tlv8_value type ?tail @ rest) (length pre) m =
        decode_tlv8_from (pre @ ?head @ encode_tlv8_value type ?tail @ rest) (length (pre @ ?head)) (tlv8_insert type ?part m)"
      using decode_tlv8_step [of ?part pre type "encode_tlv8_value type ?tail @ rest" m] by simp
    with "1.IH" [OF False refl, of "pre @ ?head" "tlv8_insert type ?part m"] False ins show ?thesis
      by (simp add: enc)
  qed
qed

definition tlv8_spec :: "(byte \<times> bytes) list \<Rightarrow> byte \<Rightarrow> bytes" where
  "tlv8_spec entries type = concat (map snd (filter (\<lambda>(k, v). k = type) entries))"

lemma decode_tlv8_entries:
  "decode_tlv8_from (pre @ encode_tlv8 entries) (length pre) m =
     (\<lambda>type. case m type of
        None \<Rightarrow> if tlv8_spec entries type = [] then None else Some (tlv8_spec entries type)
      | Some v \<Rightarrow> Some (v @ tlv8_spec entries type))"
proof (induction entries arbitrary: pre m)
  case Nil
  then show ?case
    by (subst decode_tlv8_from.simps) (auto simp: encode_tlv8_def tlv8_spec_def split: option.split)
next
  case (Cons e entries)
  obtain k v where e: "e = (k, v)" by force
  have "decode_tlv8_from (pre @ encode_tlv8 (e # entries)) (length pre) m =
      decode_tlv8_from ((pre @ encode_tlv8_value k v) @ encode_tlv8 entries) (length (pre @ encode_tlv8_value k v))
        (if v = [] then m else tlv8_insert k v m)"
    using decode_tlv8_value [of pre k v "encode_tlv8 entries" m] by (simp add: e encode_tlv8_def)
  also have "\<dots> = (\<lambda>type. case (if v = [] then m else tlv8_insert k v m) type of
        None \<Rightarrow> if tlv8_spec entries type = [] then None else Some (tlv8_spec entries type)
      | Some w \<Rightarrow> Some (w @ tlv8_spec entries type))"
    by (rule Cons.IH)
  finally show ?case
    by (auto simp: e tlv8_spec_def tlv8_insert_def fun_eq_iff split: option.split)
qed

section \<open>Framing of header blocks\<close>

fun content_length_lines :: "string list \<Rightarrow> nat \<Rightarrow> nat option" where
  "content_length_lines [] content_length = Some content_length"
| "content_length_lines (l # ls) content_length =
     (case content_length_line l content_length of
        None \<Rightarrow> None | Some content_length' \<Rightarrow> content_length_lines ls content_length')"

lemma content_length_scan_block:
  assumes "list_all header_line ls"
  shows "content_length_scan (pre @ header_block ls @ crlf @ rest)
     (length (pre @ header_block ls) - 2) (length pre) cl = content_length_lines ls cl"
  using assms
proof (induction ls arbitrary: pre cl)
  case Nil
  have "\<not> length pre < length pre - 2" by simp
  then show ?case by (subst content_length_scan.simps) (simp del: not_less)
next
  case (Cons l ls)
  let ?txt = "pre @ header_block (l # ls) @ crlf @ rest"
  from Cons.prems have l: "l \<noteq> []" "CHR 0x0D \<notin> set l" by (simp_all add: header_line_def)
  have found: "find_from crlf ?txt (length pre) = Some (length pre + length l)"
    using find_from_line [OF l(2), of pre "header_block ls @ crlf @ rest"] by simp
  have "length pre < length (pre @ header_block (l # ls)) - 2" using l(1) by simp
  moreover have "take (length pre + length l - length pre) (drop (length pre) ?txt) = l" by simp
  moreover have "content_length_scan ?txt (length (pre @ header_block (l # ls)) - 2) (length pre + length l + 2) cl'
      = content_length_lines ls cl'" for cl'
    using Cons.IH [of "pre @ l @ crlf" cl'] Cons.prems by (simp add: add.assoc)
  ultimately show ?case
    by (subst content_length_scan.simps)
       (cases "content_length_line l cl"; simp only: found if_True option.case content_length_lines.simps)
qed

lemma complete_response_size_block:
  assumes "list_all header_line ls" "ls \<noteq> []"
  shows "complete_response_size (bytes_of (header_block ls @ crlf) @ body) =
    (case content_length_lines ls kContentLengthNotSet of
       None \<Rightarrow> None
     | Some found \<Rightarrow>
         let content_length = (if found = kContentLengthNotSet then 0 else found) in
         if content_length > kMaxContentLength \<or> length body < content_length then None
         else Some (length (header_block ls) + 2 + content_length))"
proof -
  have len: "2 \<le> length (header_block ls)" using assms(2) by (cases ls) auto
  have as_text: "text_of (bytes_of (header_block ls @ crlf) @ body) = header_block ls @ crlf @ text_of body"
    by (simp add: comp_def)
  show ?thesis
    using content_length_scan_block [OF assms(1), of "[]" "text_of body"] len
    unfolding complete_response_size_def as_text find_block_end [OF assms] Let_def
    by (simp split: option.split)
qed

lemma content_length_line_other:
  "CHR '':'' \<notin> set name \<Longrightarrow> lower name \<noteq> ''content-length'' \<Longrightarrow>
     content_length_line (name @ CHR '':'' # rest) cl = Some cl"
  by (simp add: content_length_line_def find_colon)

lemma content_length_line_value:
  assumes "n < 2 ^ 64"
  shows "content_length_line (''Content-Length: '' @ nat_to_string n) kContentLengthNotSet = Some n"
proof -
  have "find_sub '':'' (''Content-Length: '' @ nat_to_string n) = Some 14"
    using find_colon [of "''Content-Length''" "'' '' @ nat_to_string n"] by simp
  moreover have "lower ''Content-Length'' = ''content-length''" by code_simp
  moreover have "trim (CHR '' '' # nat_to_string n) = nat_to_string n"
    by (simp add: trim_blank is_blank_def)
  ultimately show ?thesis
    using assms by (simp add: content_length_line_def)
qed

text \<open>The lines of a request before its content length.\<close>

definition request_lines :: "string \<Rightarrow> string \<Rightarrow> int \<Rightarrow> string \<Rightarrow> (string \<times> string) list \<Rightarrow> string list" where
  "request_lines rmethod path cseq content_type additional_headers =
     [rmethod @ '' '' @ path @ '' RTSP/1.0'', ''CSeq: '' @ int_to_string cseq]
     @ (if list_ex (\<lambda>header. lower (fst header) = ''user-agent'') additional_headers then []
        else [''User-Agent: AA2ACP/0.1''])
     @ map (\<lambda>(name, value). name @ '': '' @ value) additional_headers
     @ (if content_type \<noteq> [] then [''Content-Type: '' @ content_type] else [])"

lemma encode_request_headers_block:
  "encode_request_headers rmethod path cseq n content_type additional_headers =
     header_block (request_lines rmethod path cseq content_type additional_headers
       @ [''Content-Length: '' @ nat_to_string n]) @ crlf"
proof -
  have "header_block (map (\<lambda>(name, value). name @ '': '' @ value) hs) =
      concat (map (\<lambda>(name, value). name @ '': '' @ value @ crlf) hs)" for hs :: "(string \<times> string) list"
    by (induction hs) auto
  then show ?thesis by (simp add: encode_request_headers_def request_lines_def)
qed

lemma content_length_lines_append:
  "content_length_lines (ls @ ls') cl =
     (case content_length_lines ls cl of None \<Rightarrow> None | Some cl' \<Rightarrow> content_length_lines ls' cl')"
  by (induction ls arbitrary: cl) (auto split: option.split)

lemma content_length_lines_other:
  "list_all (\<lambda>l. content_length_line l cl = Some cl) ls \<Longrightarrow> content_length_lines ls cl = Some cl"
  by (induction ls) auto

text \<open>What a caller has to keep out of a request: line breaks, and a second content length.\<close>

definition no_cr :: "string \<Rightarrow> bool" where
  "no_cr s = (CHR 0x0D \<notin> set s)"

definition request_header_ok :: "string \<times> string \<Rightarrow> bool" where
  "request_header_ok h = (no_cr (fst h) \<and> no_cr (snd h) \<and> CHR '':'' \<notin> set (fst h)
     \<and> lower (fst h) \<noteq> ''content-length'')"

definition request_ok :: "string \<Rightarrow> string \<Rightarrow> string \<Rightarrow> (string \<times> string) list \<Rightarrow> bool" where
  "request_ok rmethod path content_type additional_headers =
     (no_cr rmethod \<and> no_cr path \<and> no_cr content_type \<and> CHR '':'' \<notin> set rmethod
      \<and> list_all request_header_ok additional_headers)"

lemma int_to_string_plain [simp]: "CHR 0x0D \<notin> set (int_to_string i)"
  by (simp add: int_to_string_def digit_not_in_nat_to_string)

lemma request_lines_ok:
  assumes "request_ok rmethod path content_type additional_headers"
  shows "list_all header_line (request_lines rmethod path cseq content_type additional_headers)"
  using assms
  by (auto simp: request_lines_def request_ok_def request_header_ok_def no_cr_def header_line_def list_all_iff)

lemma content_length_line_no_colon: "CHR '':'' \<notin> set l \<Longrightarrow> content_length_line l cl = Some cl"
  by (simp add: content_length_line_def find_sub_not_in)

text \<open>A colon in the request line comes after the blank behind the method.\<close>

lemma request_line_no_length:
  assumes "CHR '':'' \<notin> set rmethod"
  shows "content_length_line (rmethod @ '' '' @ rest) cl = Some cl"
proof (cases "CHR '':'' \<in> set rest")
  case True
  then obtain r1 r2 where rest: "rest = r1 @ CHR '':'' # r2" "CHR '':'' \<notin> set r1"
    by (meson split_list_first)
  have "lower_char (CHR '' '') = CHR '' ''" by code_simp
  then have "CHR '' '' \<in> set (lower (rmethod @ '' '' @ r1))"
    by (force simp: lower_def)
  then have "lower (rmethod @ '' '' @ r1) \<noteq> ''content-length''" by auto
  with content_length_line_other [of "rmethod @ '' '' @ r1" r2 cl] assms rest show ?thesis by simp
qed (use assms in \<open>auto intro: content_length_line_no_colon\<close>)

lemma request_lines_no_length:
  assumes "request_ok rmethod path content_type additional_headers"
  shows "content_length_lines (request_lines rmethod path cseq content_type additional_headers) cl = Some cl"
proof (rule content_length_lines_other)
  have known: "content_length_line (''CSeq: '' @ v) cl = Some cl"
    "content_length_line (''User-Agent: AA2ACP/0.1'') cl = Some cl"
    "content_length_line (''Content-Type: '' @ v) cl = Some cl" for v
    using content_length_line_other [of "''CSeq''" "'' '' @ v"] content_length_line_other [of "''User-Agent''" "'' AA2ACP/0.1''"]
      content_length_line_other [of "''Content-Type''" "'' '' @ v"]
    by (simp_all add: lower_def lower_char_def char_of_def)
  have "content_length_line (fst h @ '': '' @ snd h) cl = Some cl" if "request_header_ok h" for h
    using content_length_line_other [of "fst h" "'' '' @ snd h"] that by (simp add: request_header_ok_def)
  then have "\<forall>h \<in> set additional_headers. content_length_line (fst h @ '': '' @ snd h) cl = Some cl"
    using assms by (simp add: request_ok_def list_all_iff)
  with known assms request_line_no_length [of rmethod "path @ '' RTSP/1.0''" cl]
  show "list_all (\<lambda>l. content_length_line l cl = Some cl)
      (request_lines rmethod path cseq content_type additional_headers)"
    by (auto simp: request_lines_def list_all_iff request_ok_def)
qed

lemma request_self_delimiting:
  assumes "request_ok rmethod path content_type additional_headers" "length body \<le> kMaxContentLength"
  shows "complete_response_size (encode_request rmethod path cseq body content_type additional_headers @ rest)
    = Some (length (encode_request rmethod path cseq body content_type additional_headers))"
proof -
  let ?ls = "request_lines rmethod path cseq content_type additional_headers @ [''Content-Length: '' @ nat_to_string (length body)]"
  have "list_all header_line ?ls"
    using request_lines_ok [OF assms(1), of cseq] by (simp add: header_line_def digit_not_in_nat_to_string)
  moreover have "content_length_lines ?ls kContentLengthNotSet = Some (length body)"
    using content_length_line_value [of "length body"] assms(2)
    by (simp add: content_length_lines_append request_lines_no_length [OF assms(1)] kMaxContentLength_def)
  moreover have "length body \<noteq> kContentLengthNotSet"
    using assms(2) by (simp add: kMaxContentLength_def kContentLengthNotSet_def)
  ultimately show ?thesis
    using assms(2) complete_response_size_block [of ?ls "body @ rest"]
    by (simp add: encode_request_def encode_request_headers_block Let_def)
qed

section \<open>More bytes do not change the answer\<close>

lemma find_from_append_Some:
  assumes "find_from pat s pos = Some i"
  shows "find_from pat (s @ tl_bytes) pos = Some i"
  using assms find_sub_append [of pat "drop pos s" _ tl_bytes]
  by (auto simp: find_from_def split: if_splits)

lemma find_from_exists:
  assumes "prefix pat (drop i s)" "pos \<le> i" "i \<le> length s"
  shows "\<exists>j. find_from pat s pos = Some j"
proof -
  have "drop (i - pos) (drop pos s) = drop i s" using assms(2) by simp
  with assms have "find_sub pat (drop pos s) \<noteq> None"
    unfolding find_sub_None_iff by (auto intro!: exI [of _ "i - pos"])
  with assms show ?thesis by (auto simp: find_from_def)
qed

lemma content_length_scan_append:
  assumes "prefix crlf (drop header_end txt)" "header_end \<le> length txt"
  shows "content_length_scan (txt @ tl_bytes) header_end cursor cl = content_length_scan txt header_end cursor cl"
proof (induction "header_end - cursor" arbitrary: cursor cl rule: less_induct)
  case less
  show ?case
  proof (cases "cursor < header_end")
    case True
    with find_from_exists [OF assms(1), of cursor] assms(2) obtain le
      where le: "find_from crlf txt cursor = Some le" by auto
    from find_from_SomeD [OF this] have bounds: "cursor \<le> le" "le + 2 \<le> length txt" by simp_all
    then have "take (le - cursor) (drop cursor (txt @ tl_bytes)) = take (le - cursor) (drop cursor txt)" by simp
    moreover have "content_length_scan (txt @ tl_bytes) header_end (le + 2) cl' = content_length_scan txt header_end (le + 2) cl'" for cl'
      by (rule less) (use True bounds in auto)
    ultimately show ?thesis
      using True le find_from_append_Some [OF le, of tl_bytes]
      by (subst (1 2) content_length_scan.simps)
         (cases "content_length_line (take (le - cursor) (drop cursor txt)) cl"; simp only: if_True option.case)
  next
    case False
    then show ?thesis by (subst (1 2) content_length_scan.simps) simp
  qed
qed

lemma complete_response_size_bounds:
  assumes "complete_response_size bs = Some n"
  shows "n \<le> length bs" "complete_response_size (bs @ tl_bytes) = Some n"
proof -
  from assms obtain he where he: "find_sub crlf2 (text_of bs) = Some he"
    by (auto simp: complete_response_size_def Let_def split: option.splits)
  from find_sub_SomeD [OF he] have end4: "he + 4 \<le> length bs" "prefix crlf2 (drop he (text_of bs))"
    by simp_all
  show "n \<le> length bs"
    using assms he end4 by (auto simp: complete_response_size_def Let_def split: option.splits if_splits)
  have "prefix crlf (drop he (text_of bs))" using end4(2) by (auto simp: prefix_def)
  then have "content_length_scan (text_of bs @ text_of tl_bytes) he 0 cl = content_length_scan (text_of bs) he 0 cl" for cl
    using end4(1) by (intro content_length_scan_append) simp_all
  with assms he find_sub_append [OF he, of "text_of tl_bytes"] end4(1)
  show "complete_response_size (bs @ tl_bytes) = Some n"
    by (auto simp: complete_response_size_def Let_def split: option.splits if_splits)
qed

section \<open>Responses as a peer writes them\<close>

definition render_response :: "nat \<Rightarrow> string \<Rightarrow> (string \<times> string) list \<Rightarrow> bytes \<Rightarrow> bytes" where
  "render_response status reason headers body =
     bytes_of (header_block ((''RTSP/1.0 '' @ nat_to_string status @ '' '' @ reason)
       # map (\<lambda>(name, value). name @ '': '' @ value) headers
       @ [''Content-Length: '' @ nat_to_string (length body)]) @ crlf) @ body"

definition trimmed :: "string \<Rightarrow> bool" where
  "trimmed s = (s = [] \<or> (\<not> is_blank (hd s) \<and> \<not> is_blank (last s)))"

definition response_ok :: "nat \<Rightarrow> string \<Rightarrow> (string \<times> string) list \<Rightarrow> bytes \<Rightarrow> bool" where
  "response_ok status reason headers body =
     (status < 2 ^ 31 \<and> no_cr reason \<and> CHR '':'' \<notin> set reason \<and> length body \<le> kMaxContentLength
      \<and> list_all (\<lambda>h. request_header_ok h \<and> trimmed (fst h) \<and> trimmed (snd h)) headers)"

fun response_header_lines :: "string list \<Rightarrow> (string \<rightharpoonup> string) \<Rightarrow> (string \<rightharpoonup> string)" where
  "response_header_lines [] headers = headers"
| "response_header_lines (l # ls) headers = response_header_lines ls (response_header_line l headers)"

lemma response_headers_scan_block:
  assumes "list_all header_line ls"
  shows "response_headers_scan (pre @ header_block ls @ crlf @ rest)
     (length (pre @ header_block ls) - 2) (length pre) hs = response_header_lines ls hs"
  using assms
proof (induction ls arbitrary: pre hs)
  case Nil
  have "\<not> length pre < length pre - 2" by simp
  then show ?case by (subst response_headers_scan.simps) (simp del: not_less)
next
  case (Cons l ls)
  let ?txt = "pre @ header_block (l # ls) @ crlf @ rest"
  from Cons.prems have l: "l \<noteq> []" "CHR 0x0D \<notin> set l" by (simp_all add: header_line_def)
  have found: "find_from crlf ?txt (length pre) = Some (length pre + length l)"
    using find_from_line [OF l(2), of pre "header_block ls @ crlf @ rest"] by simp
  have "length pre < length (pre @ header_block (l # ls)) - 2" using l(1) by simp
  moreover have "take (length pre + length l - length pre) (drop (length pre) ?txt) = l" by simp
  moreover have "response_headers_scan ?txt (length (pre @ header_block (l # ls)) - 2) (length pre + length l + 2) hs'
      = response_header_lines ls hs'" for hs'
    using Cons.IH [of "pre @ l @ crlf" hs'] Cons.prems by (simp add: add.assoc)
  ultimately show ?case
    by (subst response_headers_scan.simps) (simp only: found if_True option.case response_header_lines.simps)
qed

lemma response_header_lines_map_of:
  assumes "list_all (\<lambda>h. CHR '':'' \<notin> set (fst h) \<and> trimmed (fst h) \<and> trimmed (snd h)) hs"
  shows "response_header_lines (map (\<lambda>(name, value). name @ '': '' @ value) hs) m =
    m ++ (map_of (map (\<lambda>(name, value). (lower name, value)) hs) |` (- dom m))"
  using assms
proof (induction hs arbitrary: m)
  case (Cons h hs)
  obtain name v where h: "h = (name, v)" by force
  with Cons.prems have "response_header_line (name @ '': '' @ v) m = emplace (lower name) v m"
    using find_colon [of name "'' '' @ v"]
    by (simp add: response_header_line_def trim_id trimmed_def trim_blank is_blank_def)
  with Cons h show ?case
    by (auto simp: emplace_def fun_eq_iff map_add_def restrict_map_def dom_def split: option.split)
qed (simp add: map_add_def)

lemma trimmed_nat_to_string: "trimmed (nat_to_string n)"
  by (simp add: trimmed_def nat_to_string_ends)

lemma trimmed_content_length: "trimmed ''Content-Length''"
  by (simp add: trimmed_def is_blank_def)

lemma restrict_map_UNIV [simp]: "m |` UNIV = m"
  by (simp add: restrict_map_def)

lemma message_parts:
  "take (length b + 2 + length body) (text_of (bytes_of (b @ crlf) @ body @ rest)) = b @ crlf @ text_of body"
  "2 \<le> length b \<Longrightarrow>
     drop (length b - 2 + 4) (take (length b + 2 + length body) (bytes_of (b @ crlf) @ body @ rest)) = body"
  by (simp_all add: comp_def)

lemma parse_response_intro:
  assumes "complete_response_size bs = Some full" "take full (text_of bs) = t"
    "find_sub crlf2 t = Some header_end" "find_sub crlf t = Some line_end" "prefix ''RTSP/1.0 '' t"
    "parse_status (take (line_end - 9) (drop 9 t)) = Some status"
    "response_headers_scan t header_end (line_end + 2) Map.empty = hs"
    "drop (header_end + 4) (take full bs) = body"
  shows "parse_response bs = Some \<lparr>rsp_status = status, rsp_headers = hs, rsp_body = body\<rparr>"
  using assms by (simp add: parse_response_def)

definition status_line :: "nat \<Rightarrow> string \<Rightarrow> string" where
  "status_line status reason = ''RTSP/1.0 '' @ nat_to_string status @ '' '' @ reason"

definition response_headers :: "(string \<times> string) list \<Rightarrow> bytes \<Rightarrow> (string \<times> string) list" where
  "response_headers headers body = headers @ [(''Content-Length'', nat_to_string (length body))]"

definition response_lines :: "nat \<Rightarrow> string \<Rightarrow> (string \<times> string) list \<Rightarrow> bytes \<Rightarrow> string list" where
  "response_lines status reason headers body =
     status_line status reason # map (\<lambda>(name, value). name @ '': '' @ value) (response_headers headers body)"

lemma render_response_block:
  "render_response status reason headers body =
     bytes_of (header_block (response_lines status reason headers body) @ crlf) @ body"
  by (simp add: render_response_def response_lines_def response_headers_def status_line_def)

lemma response_lines_ok:
  "response_ok status reason headers body \<Longrightarrow> list_all header_line (response_lines status reason headers body)"
  by (auto simp: response_ok_def request_header_ok_def no_cr_def header_line_def list_all_iff response_lines_def
      response_headers_def status_line_def digit_not_in_nat_to_string)

lemma response_lines_length:
  assumes "response_ok status reason headers body"
  shows "content_length_lines (response_lines status reason headers body) kContentLengthNotSet = Some (length body)"
proof -
  have "content_length_line (fst h @ '': '' @ snd h) cl = Some cl" if "request_header_ok h" for h cl
    using content_length_line_other [of "fst h" "'' '' @ snd h"] that by (simp add: request_header_ok_def)
  then have "content_length_lines (map (\<lambda>(name, value). name @ '': '' @ value) headers) cl = Some cl" for cl
    using assms by (intro content_length_lines_other) (auto simp: response_ok_def list_all_iff)
  moreover have "CHR '':'' \<notin> set (status_line status reason)"
    using assms by (auto simp: response_ok_def status_line_def digit_not_in_nat_to_string)
  then have "content_length_line (status_line status reason) cl = Some cl" for cl
    by (rule content_length_line_no_colon)
  moreover have "length body < 2 ^ 64"
    using assms by (simp add: response_ok_def kMaxContentLength_def)
  ultimately show ?thesis
    using content_length_line_value [of "length body"]
    by (simp add: response_lines_def response_headers_def content_length_lines_append)
qed

lemma render_response_size:
  assumes "response_ok status reason headers body"
  shows "complete_response_size (render_response status reason headers body @ rest) =
    Some (length (header_block (response_lines status reason headers body)) + 2 + length body)"
proof -
  have "length body \<le> kMaxContentLength" "length body \<noteq> kContentLengthNotSet"
    using assms by (simp_all add: response_ok_def kMaxContentLength_def kContentLengthNotSet_def)
  then show ?thesis
    using complete_response_size_block [OF response_lines_ok [OF assms], of "body @ rest"]
      response_lines_length [OF assms]
    by (simp add: render_response_block Let_def response_lines_def)
qed

lemma parse_status_line:
  assumes "status < 2 ^ 31"
  shows "parse_status (take (length (status_line status reason) - 9) (drop 9 (status_line status reason @ rest)))
    = Some (int status)"
proof -
  have number: "take (length (status_line status reason) - 9) (drop 9 (status_line status reason @ rest))
      = nat_to_string status @ '' '' @ reason" by (simp add: status_line_def)
  have "find_sub '' '' (nat_to_string status @ '' '' @ reason) = Some (length (nat_to_string status))"
    by (simp add: find_char digit_not_in_nat_to_string)
  then show ?thesis
    unfolding number using parse_int_to_string [OF assms] by (simp add: parse_status_def)
qed

lemma response_headers_parsed:
  assumes "response_ok status reason headers body"
  shows "response_headers_scan (header_block (response_lines status reason headers body) @ crlf @ rest)
     (length (header_block (response_lines status reason headers body)) - 2)
     (length (status_line status reason) + 2) Map.empty =
    map_of (map (\<lambda>(name, value). (lower name, value)) (response_headers headers body))"
proof -
  let ?hl = "map (\<lambda>(name, value). name @ '': '' @ value) (response_headers headers body)"
  have "list_all (\<lambda>h. CHR '':'' \<notin> set (fst h) \<and> trimmed (fst h) \<and> trimmed (snd h)) (response_headers headers body)"
    using assms by (auto simp: response_ok_def request_header_ok_def list_all_iff response_headers_def
        trimmed_nat_to_string trimmed_content_length)
  from response_header_lines_map_of [OF this, of Map.empty]
  have "response_header_lines ?hl Map.empty =
      map_of (map (\<lambda>(name, value). (lower name, value)) (response_headers headers body))" by simp
  moreover have "list_all header_line ?hl"
    using response_lines_ok [OF assms] by (simp add: response_lines_def)
  ultimately show ?thesis
    using response_headers_scan_block [of ?hl "status_line status reason @ crlf" rest Map.empty]
    by (simp add: response_lines_def)
qed

lemma render_response_parsed:
  assumes "response_ok status reason headers body"
  shows "parse_response (render_response status reason headers body @ rest) =
    Some \<lparr>rsp_status = int status,
          rsp_headers = map_of (map (\<lambda>(name, value). (lower name, value)) (response_headers headers body)),
          rsp_body = body\<rparr>"
proof (rule parse_response_intro)
  let ?block = "header_block (response_lines status reason headers body)"
  let ?t = "?block @ crlf @ text_of body"
  have cr: "CHR 0x0D \<notin> set (status_line status reason)"
    using response_lines_ok [OF assms] by (simp add: response_lines_def header_line_def)
  show "complete_response_size (render_response status reason headers body @ rest) = Some (length ?block + 2 + length body)"
    by (rule render_response_size [OF assms])
  show "take (length ?block + 2 + length body) (text_of (render_response status reason headers body @ rest)) = ?t"
    unfolding render_response_block append_assoc by (rule message_parts(1))
  show "find_sub crlf2 ?t = Some (length ?block - 2)"
    by (rule find_block_end [OF response_lines_ok [OF assms]]) (simp add: response_lines_def)
  show "find_sub crlf ?t = Some (length (status_line status reason))"
    using find_crlf [OF cr] by (simp add: response_lines_def)
  show "prefix ''RTSP/1.0 '' ?t" by (simp add: response_lines_def status_line_def)
  show "parse_status (take (length (status_line status reason) - 9) (drop 9 ?t)) = Some (int status)"
    using parse_status_line [of status reason] assms by (simp add: response_lines_def response_ok_def)
  show "response_headers_scan ?t (length ?block - 2) (length (status_line status reason) + 2) Map.empty =
      map_of (map (\<lambda>(name, value). (lower name, value)) (response_headers headers body))"
    by (rule response_headers_parsed [OF assms])
  show "drop (length ?block - 2 + 4) (take (length ?block + 2 + length body)
      (render_response status reason headers body @ rest)) = body"
    unfolding render_response_block append_assoc
    by (rule message_parts(2)) (simp add: response_lines_def)
qed

section \<open>Properties\<close>

text \<open>
  Requests delimit themselves: whatever follows a request on the stream, the
  framing rule finds its end exactly, for any body up to a megabyte and any
  headers without line breaks and without a second content length.
\<close>

theorem rtsp_request_self_delimiting:
  assumes "request_ok rmethod path content_type additional_headers" "length body \<le> kMaxContentLength"
  shows "complete_response_size (encode_request rmethod path cseq body content_type additional_headers @ rest)
    = Some (length (encode_request rmethod path cseq body content_type additional_headers))"
  using assms by (rule request_self_delimiting)

theorem rtsp_request_self_delimiting_witness:
  "complete_response_size (encode_request ''POST'' ''/pair-setup'' 1 [1, 2] ''application/pairing+tlv8''
      [(''X-Apple-HKP'', ''3'')] @ [3])
   = Some (length (encode_request ''POST'' ''/pair-setup'' 1 [1, 2] ''application/pairing+tlv8'' [(''X-Apple-HKP'', ''3'')]))"
proof (rule rtsp_request_self_delimiting)
  show "request_ok ''POST'' ''/pair-setup'' ''application/pairing+tlv8'' [(''X-Apple-HKP'', ''3'')]"
    by (simp add: request_ok_def request_header_ok_def no_cr_def lower_def)
qed (simp add: kMaxContentLength_def)

text \<open>
  A response is parsed to the status, the headers (by lower-case name, the first
  of equal names) and exactly the body its sender wrote, whatever follows it.
\<close>

theorem rtsp_response_parsed:
  assumes "response_ok status reason headers body"
  shows "parse_response (render_response status reason headers body @ rest) =
    Some \<lparr>rsp_status = int status,
          rsp_headers = map_of (map (\<lambda>(name, value). (lower name, value))
            (headers @ [(''Content-Length'', nat_to_string (length body))])),
          rsp_body = body\<rparr>"
  using render_response_parsed [OF assms] by (simp add: response_headers_def)

theorem rtsp_response_parsed_witness:
  "\<exists>r. parse_response (render_response 200 ''OK'' [(''CSeq'', ''1'')] [7, 8] @ [9]) = Some r
     \<and> rsp_status r = 200 \<and> rsp_body r = [7, 8]"
  using rtsp_response_parsed [of 200 "''OK''" "[(''CSeq'', ''1'')]" "[7, 8]" "[9]"]
  by (simp add: response_ok_def request_header_ok_def no_cr_def trimmed_def is_blank_def kMaxContentLength_def lower_def)

text \<open>
  The size of a complete response stays within the bytes received and does not
  change when more bytes arrive, so reading ahead never moves a response's end.
\<close>

theorem rtsp_response_size_stable:
  assumes "complete_response_size bs = Some n"
  shows "n \<le> length bs \<and> complete_response_size (bs @ later) = Some n"
  using complete_response_size_bounds [OF assms] by simp

theorem rtsp_response_size_stable_witness:
  "complete_response_size (encode_request ''GET'' ''/info'' 1 [] [] [] @ [1, 2]) \<noteq> None"
proof -
  have "complete_response_size (encode_request ''GET'' ''/info'' 1 [] [] []) =
      Some (length (encode_request ''GET'' ''/info'' 1 [] [] []))"
    using request_self_delimiting [of "''GET''" "''/info''" "[]" "[]" "[]" 1 "[]"]
    by (simp add: request_ok_def no_cr_def)
  from rtsp_response_size_stable [OF this, of "[1, 2]"] show ?thesis by simp
qed

text \<open>
  TLV8 round trip: decoding returns for every type the concatenation of the
  values encoded for it, values longer than 255 bytes included; a type whose
  values are all empty is absent.
\<close>

theorem tlv8_roundtrip:
  "decode_tlv8 (encode_tlv8 entries) =
     (\<lambda>type. if tlv8_spec entries type = [] then None else Some (tlv8_spec entries type))"
  using decode_tlv8_entries [of "[]" entries Map.empty] by (simp add: decode_tlv8_def)

end
