(* ===== verification/Airplay_Cipher.thy ===== *)
theory Airplay_Cipher
  imports Airplay_Rtsp Framing
begin

text \<open>
  The cryptographic layer of the AirPlay control channel: the wrappers of
  \<open>src/src/airplay/crypto.cpp\<close> around OpenSSL (whose primitives are the fields of
  \<open>evp\<close>), the framing cipher of \<open>src/src/airplay/control_cipher.cpp\<close> and the request and
  response exchange \<open>send_encrypted\<close> of \<open>src/src/airplay/session.cpp\<close>.
\<close>

section \<open>Wrappers around OpenSSL\<close>

text \<open>Each field is one EVP computation; \<open>None\<close> is a call that did not return 1.\<close>

record evp =
  evp_chacha20_poly1305_seal :: "bytes \<Rightarrow> bytes \<Rightarrow> bytes \<Rightarrow> bytes \<Rightarrow> bytes option"
  evp_chacha20_poly1305_open :: "bytes \<Rightarrow> bytes \<Rightarrow> bytes \<Rightarrow> bytes \<Rightarrow> bytes option"
  evp_hkdf_sha512 :: "bytes \<Rightarrow> bytes \<Rightarrow> bytes \<Rightarrow> nat \<Rightarrow> bytes option"
  evp_ed25519_sign :: "bytes \<Rightarrow> bytes \<Rightarrow> bytes option"
  evp_ed25519_verify :: "bytes \<Rightarrow> bytes \<Rightarrow> bytes \<Rightarrow> bool"
  evp_x25519_derive :: "bytes \<Rightarrow> bytes \<Rightarrow> bytes option"

definition nonce_for_label :: "string \<Rightarrow> bytes" where
  "nonce_for_label label =
     (let used = take 8 (bytes_of label) in replicate 4 0 @ used @ replicate (8 - length used) 0)"

definition hkdf_sha512 :: "evp \<Rightarrow> bytes \<Rightarrow> string \<Rightarrow> string \<Rightarrow> nat \<Rightarrow> bytes" where
  "hkdf_sha512 evp ikm salt info len =
     (case evp_hkdf_sha512 evp ikm (bytes_of salt) (bytes_of info) len of None \<Rightarrow> [] | Some out \<Rightarrow> out)"

definition seal_with_nonce :: "evp \<Rightarrow> bytes \<Rightarrow> bytes \<Rightarrow> bytes \<Rightarrow> bytes \<Rightarrow> bytes option" where
  "seal_with_nonce evp key nonce plaintext aad =
     (if length key \<noteq> 32 \<or> length nonce \<noteq> 12 then None
      else evp_chacha20_poly1305_seal evp key nonce aad plaintext)"

definition open_with_nonce :: "evp \<Rightarrow> bytes \<Rightarrow> bytes \<Rightarrow> bytes \<Rightarrow> bytes \<Rightarrow> bytes option" where
  "open_with_nonce evp key nonce ciphertext aad =
     (if length key \<noteq> 32 \<or> length nonce \<noteq> 12 \<or> length ciphertext < 16 then None
      else evp_chacha20_poly1305_open evp key nonce aad ciphertext)"

definition seal :: "evp \<Rightarrow> bytes \<Rightarrow> string \<Rightarrow> bytes \<Rightarrow> bytes option" where
  "seal evp key label plaintext = seal_with_nonce evp key (nonce_for_label label) plaintext []"

definition open_label :: "evp \<Rightarrow> bytes \<Rightarrow> string \<Rightarrow> bytes \<Rightarrow> bytes option" where
  "open_label evp key label ciphertext = open_with_nonce evp key (nonce_for_label label) ciphertext []"

definition ed25519_sign :: "evp \<Rightarrow> bytes \<Rightarrow> bytes \<Rightarrow> bytes option" where
  "ed25519_sign evp private_key data = evp_ed25519_sign evp private_key data"

definition ed25519_verify :: "evp \<Rightarrow> bytes \<Rightarrow> bytes \<Rightarrow> bytes \<Rightarrow> bool" where
  "ed25519_verify evp public_key data signature = evp_ed25519_verify evp public_key data signature"

definition x25519_shared :: "evp \<Rightarrow> bytes \<Rightarrow> bytes \<Rightarrow> bytes option" where
  "x25519_shared evp private_key public_key =
     (case evp_x25519_derive evp private_key public_key of
        None \<Rightarrow> None
      | Some shared \<Rightarrow> if list_all (\<lambda>b. b = 0) shared then None else Some shared)"

text \<open>
  What the code relies on of ChaCha20-Poly1305 (RFC 8439): with a key and a nonce
  of the right sizes sealing succeeds, adds a tag of sixteen bytes, and opening
  with the same inputs returns the plaintext.
\<close>

definition aead_correct :: "evp \<Rightarrow> bool" where
  "aead_correct evp \<longleftrightarrow>
     (\<forall>key nonce aad plaintext. length key = 32 \<and> length nonce = 12 \<longrightarrow>
        (\<exists>sealed. evp_chacha20_poly1305_seal evp key nonce aad plaintext = Some sealed
           \<and> length sealed = length plaintext + 16
           \<and> evp_chacha20_poly1305_open evp key nonce aad sealed = Some plaintext))"

section \<open>The framing cipher\<close>

record cipher =
  cc_read_key :: bytes
  cc_write_key :: bytes
  cc_read_counter :: u64
  cc_write_counter :: u64

definition new_cipher :: "bytes \<Rightarrow> bytes \<Rightarrow> cipher" where
  "new_cipher read_key write_key =
     \<lparr>cc_read_key = read_key, cc_write_key = write_key, cc_read_counter = 0, cc_write_counter = 0\<rparr>"

definition nonce_for_counter :: "u64 \<Rightarrow> bytes" where
  "nonce_for_counter counter = replicate 4 0 @ le_bytes 8 counter"

definition frame_header :: "nat \<Rightarrow> bytes" where
  "frame_header n = [of_nat n, of_nat (n div 256)]"

definition encrypt :: "evp \<Rightarrow> bytes \<Rightarrow> cipher \<Rightarrow> bytes option \<times> cipher" where
  "encrypt evp plaintext c =
     (if length plaintext > 65535 then (None, c)
      else
        let header = frame_header (length plaintext) in
        case seal_with_nonce evp (cc_write_key c) (nonce_for_counter (cc_write_counter c)) plaintext header of
          None \<Rightarrow> (None, c)
        | Some sealed \<Rightarrow> (Some (header @ sealed), c\<lparr>cc_write_counter := cc_write_counter c + 1\<rparr>))"

definition frame_length :: "bytes \<Rightarrow> nat" where
  "frame_length frame = unat (frame ! 0) + unat (frame ! 1) * 256"

definition decrypt :: "evp \<Rightarrow> bytes \<Rightarrow> cipher \<Rightarrow> bytes option \<times> cipher" where
  "decrypt evp frame c =
     (if length frame < 18 then (None, c)
      else if length frame \<noteq> frame_length frame + 18 then (None, c)
      else
        case open_with_nonce evp (cc_read_key c) (nonce_for_counter (cc_read_counter c))
               (drop 2 frame) (take 2 frame) of
          None \<Rightarrow> (None, c)
        | Some plaintext \<Rightarrow> (Some plaintext, c\<lparr>cc_read_counter := cc_read_counter c + 1\<rparr>))"

text \<open>The empty result stands for \<open>more bytes are needed\<close>.\<close>

definition decrypt_one :: "evp \<Rightarrow> cipher \<Rightarrow> bytes \<Rightarrow> bytes option \<times> cipher \<times> bytes" where
  "decrypt_one evp c buffer =
     (if length buffer < 2 then (Some [], c, buffer)
      else
        let frame_size = frame_length buffer + 18 in
        if length buffer < frame_size then (Some [], c, buffer)
        else
          case decrypt evp (take frame_size buffer) c of
            (None, c') \<Rightarrow> (None, c', buffer)
          | (Some plaintext, c') \<Rightarrow> (Some plaintext, c', drop frame_size buffer))"

section \<open>Waiting for a response\<close>

datatype rx_outcome = RxFail | RxWait | RxResponse response

definition kMaxResponseBytes :: nat where "kMaxResponseBytes = 1024 * 1024"

text \<open>What one decrypted frame does to the bytes of the response so far.\<close>

definition rx_frame :: "int option \<Rightarrow> bytes \<Rightarrow> rx_outcome option \<times> bytes" where
  "rx_frame expected_cseq plain =
     (if length plain > kMaxResponseBytes then (Some RxFail, plain)
      else
        case complete_response_size plain of
          None \<Rightarrow>
            if length plain > 64 * 1024 \<and> find_sub (bytes_of crlf2) plain = None
            then (Some RxFail, plain) else (None, plain)
        | Some complete \<Rightarrow>
            (case parse_response plain of
               None \<Rightarrow> (Some RxFail, plain)
             | Some parsed \<Rightarrow>
                 (case expected_cseq of
                    None \<Rightarrow> (Some (RxResponse parsed), plain)
                  | Some cseq \<Rightarrow>
                      if rsp_headers parsed ''cseq'' \<noteq> Some (int_to_string cseq)
                      then (Some RxWait, drop complete plain)
                      else (Some (RxResponse parsed), plain))))"

lemma decrypt_one_shorter:
  "decrypt_one evp c buffer = (Some (b # bs), c', buffer') \<Longrightarrow> length buffer' < length buffer"
  by (auto simp: decrypt_one_def Let_def split: if_splits prod.splits option.splits)

text \<open>The inner loop over the frames that have arrived.\<close>

function rx_frames ::
    "evp \<Rightarrow> int option \<Rightarrow> cipher \<Rightarrow> bytes \<Rightarrow> bytes \<Rightarrow> rx_outcome \<times> cipher \<times> bytes \<times> bytes" where
  "rx_frames evp expected_cseq c buffer plain =
     (case decrypt_one evp c buffer of
        (None, c', buffer') \<Rightarrow> (RxFail, c', buffer', plain)
      | (Some [], c', buffer') \<Rightarrow> (RxWait, c', buffer', plain)
      | (Some (b # bs), c', buffer') \<Rightarrow>
          (case rx_frame expected_cseq (plain @ b # bs) of
             (Some outcome, plain') \<Rightarrow> (outcome, c', buffer', plain')
           | (None, plain') \<Rightarrow> rx_frames evp expected_cseq c' buffer' plain'))"
  by pat_completeness auto
termination
  by (relation "measure (\<lambda>(evp, expected, c, buffer, plain). length buffer)")
     (auto dest: decrypt_one_shorter [OF sym])

declare rx_frames.simps [simp del]

text \<open>
  The outer loop: what \<open>poll\<close> and \<open>recv\<close> bring.  The end of the list is the
  deadline or a requested stop.
\<close>

datatype rx_event = RxChunk bytes | RxIdle | RxBroken

fun await_response ::
    "evp \<Rightarrow> int option \<Rightarrow> cipher \<Rightarrow> bytes \<Rightarrow> bytes \<Rightarrow> rx_event list \<Rightarrow> response option \<times> cipher \<times> bytes" where
  "await_response evp expected_cseq c buffer plain [] = (None, c, buffer)"
| "await_response evp expected_cseq c buffer plain (event # events) =
     (case rx_frames evp expected_cseq c buffer plain of
        (RxFail, c', buffer', _) \<Rightarrow> (None, c', buffer')
      | (RxResponse r, c', buffer', _) \<Rightarrow> (Some r, c', buffer')
      | (RxWait, c', buffer', plain') \<Rightarrow>
          (case event of
             RxBroken \<Rightarrow> (None, c', buffer')
           | RxIdle \<Rightarrow> await_response evp expected_cseq c' buffer' plain' events
           | RxChunk chunk \<Rightarrow> await_response evp expected_cseq c' (buffer' @ chunk) plain' events))"

text \<open>The transport reports whether the whole frame was sent.\<close>

definition send_encrypted ::
    "evp \<Rightarrow> cipher \<Rightarrow> bytes \<Rightarrow> bytes \<Rightarrow> int option \<Rightarrow> (bytes \<Rightarrow> bool) \<Rightarrow> rx_event list
     \<Rightarrow> response option \<times> cipher \<times> bytes" where
  "send_encrypted evp c encrypted_buffer plaintext expected_cseq send_all events =
     (case encrypt evp plaintext c of
        (None, c') \<Rightarrow> (None, c', encrypted_buffer)
      | (Some frame, c') \<Rightarrow>
          if \<not> send_all frame then (None, c', encrypted_buffer)
          else await_response evp expected_cseq c' encrypted_buffer [] events)"

section \<open>Frames\<close>

lemma length_nonce [simp]: "length (nonce_for_counter n) = 12"
  by (simp add: nonce_for_counter_def)

lemma nonce_for_counter_inject [simp]: "nonce_for_counter m = nonce_for_counter n \<longleftrightarrow> m = n"
  by (simp add: nonce_for_counter_def)

lemma frame_length_header:
  assumes "n \<le> 65535"
  shows "frame_length (frame_header n @ rest) = n"
proof -
  have "unat (of_nat n :: byte) = n mod 256" "unat (of_nat (n div 256) :: byte) = n div 256"
    using assms by (simp_all add: unat_of_nat)
  then show ?thesis by (simp add: frame_length_def frame_header_def)
qed

lemma length_frame_header [simp]: "length (frame_header n) = 2"
  by (simp add: frame_header_def)

text \<open>The frame of a plaintext under a key and a counter.\<close>

definition frame_of :: "evp \<Rightarrow> bytes \<Rightarrow> u64 \<times> bytes \<Rightarrow> bytes" where
  "frame_of evp key cp =
     frame_header (length (snd cp)) @
     the (seal_with_nonce evp key (nonce_for_counter (fst cp)) (snd cp) (frame_header (length (snd cp))))"

definition frame_ok :: "bytes \<Rightarrow> bool" where
  "frame_ok plaintext = (plaintext \<noteq> [] \<and> length plaintext \<le> 65535)"

lemma seal_frame:
  assumes "aead_correct evp" "length key = 32"
  obtains sealed where "seal_with_nonce evp key (nonce_for_counter n) p aad = Some sealed"
    "length sealed = length p + 16" "open_with_nonce evp key (nonce_for_counter n) sealed aad = Some p"
proof -
  from assms obtain sealed where "evp_chacha20_poly1305_seal evp key (nonce_for_counter n) aad p = Some sealed"
    "length sealed = length p + 16"
    "evp_chacha20_poly1305_open evp key (nonce_for_counter n) aad sealed = Some p"
    unfolding aead_correct_def by (metis length_nonce)
  with assms(2) show thesis by (intro that [of sealed]) (auto simp: seal_with_nonce_def open_with_nonce_def)
qed

lemma encrypt_frame:
  assumes "aead_correct evp" "length (cc_write_key c) = 32" "length p \<le> 65535"
  shows "encrypt evp p c = (Some (frame_of evp (cc_write_key c) (cc_write_counter c, p)),
    c\<lparr>cc_write_counter := cc_write_counter c + 1\<rparr>)"
  by (rule seal_frame [OF assms(1,2), of "cc_write_counter c" p "frame_header (length p)"])
     (use assms(3) in \<open>simp add: encrypt_def frame_of_def Let_def\<close>)

lemma length_frame_of:
  assumes "aead_correct evp" "length key = 32"
  shows "length (frame_of evp key (n, p)) = length p + 18"
  by (rule seal_frame [OF assms, of n p "frame_header (length p)"]) (simp add: frame_of_def)

lemma decrypt_one_frame:
  assumes "aead_correct evp" "length (cc_read_key c) = 32" "length p \<le> 65535"
  shows "decrypt_one evp c (frame_of evp (cc_read_key c) (cc_read_counter c, p) @ rest) =
    (Some p, c\<lparr>cc_read_counter := cc_read_counter c + 1\<rparr>, rest)"
proof -
  obtain sealed where s: "seal_with_nonce evp (cc_read_key c) (nonce_for_counter (cc_read_counter c)) p (frame_header (length p)) = Some sealed"
    "length sealed = length p + 16"
    "open_with_nonce evp (cc_read_key c) (nonce_for_counter (cc_read_counter c)) sealed (frame_header (length p)) = Some p"
    using seal_frame [OF assms(1,2)] by metis
  let ?f = "frame_header (length p) @ sealed"
  have "frame_of evp (cc_read_key c) (cc_read_counter c, p) = ?f" by (simp add: frame_of_def s)
  moreover have "frame_length (?f @ rest) = length p" "frame_length ?f = length p"
    using frame_length_header [OF assms(3), of "sealed @ rest"] frame_length_header [OF assms(3), of sealed] by simp_all
  ultimately show ?thesis
    by (simp add: decrypt_one_def decrypt_def Let_def s)
qed

lemma decrypt_one_partial:
  assumes "aead_correct evp" "length (cc_read_key c) = 32" "length p \<le> 65535"
    "strict_prefix buf (frame_of evp (cc_read_key c) (n, p))"
  shows "decrypt_one evp c buf = (Some [], c, buf)"
proof (cases "length buf < 2")
  case False
  from assms(4) obtain tail where tail: "frame_of evp (cc_read_key c) (n, p) = buf @ tail"
    by (auto simp: strict_prefix_def prefix_def)
  from False obtain a b buf' where buf: "buf = a # b # buf'"
    by (cases buf; cases "tl buf") auto
  have "frame_length buf = length p"
    using frame_length_header [OF assms(3), of "[]"] tail
    by (simp add: buf frame_of_def frame_header_def frame_length_def)
  moreover have "length buf < length p + 18"
    using prefix_length_less [OF assms(4)] by (simp add: length_frame_of [OF assms(1,2)])
  ultimately show ?thesis by (simp add: decrypt_one_def Let_def)
qed (simp add: decrypt_one_def)

section \<open>The exchange as a handler of frames\<close>

type_synonym rx_state = "rx_outcome option \<times> cipher \<times> bytes"

definition rx_valid :: "evp \<Rightarrow> bytes \<Rightarrow> int option \<Rightarrow> rx_state \<Rightarrow> u64 \<times> bytes \<Rightarrow> bool" where
  "rx_valid evp key expected s m =
     (case s of (out, c, plain) \<Rightarrow>
        out = None \<and> aead_correct evp \<and> length key = 32 \<and> cc_read_key c = key
        \<and> fst m = cc_read_counter c \<and> frame_ok (snd m)
        \<and> fst (rx_frame expected (plain @ snd m)) \<noteq> Some RxWait)"

definition rx_step :: "int option \<Rightarrow> u64 \<times> bytes \<Rightarrow> rx_state \<Rightarrow> rx_state" where
  "rx_step expected m s =
     (case s of (out, c, plain) \<Rightarrow>
        (fst (rx_frame expected (plain @ snd m)), c\<lparr>cc_read_counter := cc_read_counter c + 1\<rparr>,
         snd (rx_frame expected (plain @ snd m))))"

definition rx_run :: "evp \<Rightarrow> int option \<Rightarrow> rx_state \<times> bytes \<Rightarrow> rx_state \<times> bytes" where
  "rx_run evp expected sb =
     (case sb of
        ((Some out, c, plain), buffer) \<Rightarrow> sb
      | ((None, c, plain), buffer) \<Rightarrow>
          (case rx_frames evp expected c buffer plain of
             (RxWait, c', buffer', plain') \<Rightarrow> ((None, c', plain'), buffer')
           | (out, c', buffer', plain') \<Rightarrow> ((Some out, c', plain'), buffer')))"

lemma rx_frames_frame:
  assumes "aead_correct evp" "length (cc_read_key c) = 32" "frame_ok p"
  shows "rx_frames evp expected c (frame_of evp (cc_read_key c) (cc_read_counter c, p) @ rest) plain =
    (case rx_frame expected (plain @ p) of
       (Some out, plain') \<Rightarrow> (out, c\<lparr>cc_read_counter := cc_read_counter c + 1\<rparr>, rest, plain')
     | (None, plain') \<Rightarrow> rx_frames evp expected (c\<lparr>cc_read_counter := cc_read_counter c + 1\<rparr>) rest plain')"
proof -
  obtain b bs where p: "p = b # bs" "length p \<le> 65535" using assms(3) by (cases p) (auto simp: frame_ok_def)
  show ?thesis
    by (subst rx_frames.simps) (simp add: decrypt_one_frame [OF assms(1,2) p(2)], simp add: p(1))
qed

lemma rx_run_empty: "rx_run evp expected (s, []) = (s, [])"
  by (auto simp: rx_run_def rx_frames.simps [of _ _ _ "[]"] decrypt_one_def split: prod.split option.split)

interpretation exchange: stream_handler "frame_of evp key" "rx_valid evp key expected" "rx_step expected"
  "rx_run evp expected" for evp key expected
proof unfold_locales
  fix s m rest
  assume v: "rx_valid evp key expected s m"
  obtain c plain n p where s: "s = (None, c, plain)" "m = (n, p)"
    using v by (cases s; cases m) (auto simp: rx_valid_def)
  from v have ok: "aead_correct evp" "length (cc_read_key c) = 32" "frame_ok p" "n = cc_read_counter c" "key = cc_read_key c"
    "fst (rx_frame expected (plain @ p)) \<noteq> Some RxWait"
    by (auto simp: rx_valid_def s)
  then show "rx_run evp expected (s, frame_of evp key m @ rest) = rx_run evp expected (rx_step expected m s, rest)"
    by (auto simp: rx_run_def rx_step_def s rx_frames_frame split: prod.splits option.splits rx_outcome.splits)
  show "frame_of evp key m \<noteq> []"
    using length_frame_of [of evp key n p] ok by (auto simp: s)
next
  fix s m buf
  assume v: "rx_valid evp key expected s m" and pre: "strict_prefix buf (frame_of evp key m)"
  obtain c plain n p where s: "s = (None, c, plain)" "m = (n, p)"
    using v by (cases s; cases m) (auto simp: rx_valid_def)
  from v have ok: "aead_correct evp" "length (cc_read_key c) = 32" "length p \<le> 65535" "key = cc_read_key c"
    by (auto simp: rx_valid_def s frame_ok_def)
  from decrypt_one_partial [OF ok(1-3)] pre ok(4)
  have "decrypt_one evp c buf = (Some [], c, buf)" by (simp add: s)
  then show "rx_run evp expected (s, buf) = (s, buf)"
    by (simp add: rx_run_def s rx_frames.simps [of _ _ _ buf])
qed (rule rx_run_empty)

definition rx_result :: "rx_state \<times> bytes \<Rightarrow> response option" where
  "rx_result sb = (case fst sb of (Some (RxResponse r), _) \<Rightarrow> Some r | _ \<Rightarrow> None)"

definition rx_receive :: "evp \<Rightarrow> int option \<Rightarrow> rx_state \<times> bytes \<Rightarrow> bytes \<Rightarrow> rx_state \<times> bytes" where
  "rx_receive evp expected sb chunk = rx_run evp expected (fst sb, snd sb @ chunk)"

lemma rx_receive_settled:
  "fst (fst sb) = Some out \<Longrightarrow> fst (foldl (rx_receive evp expected) sb chunks) = fst sb"
proof (induction chunks arbitrary: sb)
  case (Cons chunk chunks)
  obtain c plain buf where sb: "sb = ((Some out, c, plain), buf)"
    using Cons.prems by (cases sb) (metis fst_conv prod.collapse)
  with Cons.IH [of "((Some out, c, plain), buf @ chunk)"] show ?case
    by (simp add: rx_receive_def rx_run_def)
qed simp

lemma await_response_chunks:
  "fst (await_response evp expected c buffer plain (map RxChunk chunks @ [RxIdle])) =
     rx_result (foldl (rx_receive evp expected) (rx_run evp expected ((None, c, plain), buffer)) chunks)"
proof (induction chunks arbitrary: c buffer plain)
  case Nil
  obtain out c' b' p' where "rx_frames evp expected c buffer plain = (out, c', b', p')" by (metis prod.collapse)
  then show ?case by (cases out) (simp_all add: rx_run_def rx_result_def)
next
  case (Cons chunk chunks)
  obtain out c' b' p' where r: "rx_frames evp expected c buffer plain = (out, c', b', p')" by (metis prod.collapse)
  show ?case
  proof (cases out)
    case RxWait
    with r Cons.IH [of c' "b' @ chunk" p'] show ?thesis
      by (simp add: rx_run_def [of evp expected "((None, c, plain), buffer)"] rx_receive_def)
  next
    case RxFail
    with r rx_receive_settled [of "((Some RxFail, c', p'), b')" RxFail evp expected "chunk # chunks"] show ?thesis
      by (simp add: rx_run_def [of evp expected "((None, c, plain), buffer)"] rx_result_def)
  next
    case (RxResponse x)
    with r rx_receive_settled [of "((Some out, c', p'), b')" out evp expected "chunk # chunks"] show ?thesis
      by (simp add: rx_run_def [of evp expected "((None, c, plain), buffer)"] rx_result_def)
  qed
qed

section \<open>A response arrives\<close>

fun numbered :: "u64 \<Rightarrow> bytes list \<Rightarrow> (u64 \<times> bytes) list" where
  "numbered n [] = []"
| "numbered n (p # ps) = (n, p) # numbered (n + 1) ps"

text \<open>A sender that encrypts one part after the other.\<close>

fun encrypt_all :: "evp \<Rightarrow> cipher \<Rightarrow> bytes list \<Rightarrow> bytes list option" where
  "encrypt_all evp c [] = Some []"
| "encrypt_all evp c (p # ps) =
     (case encrypt evp p c of
        (None, c') \<Rightarrow> None
      | (Some frame, c') \<Rightarrow> map_option ((#) frame) (encrypt_all evp c' ps))"

lemma encrypt_all_frames:
  assumes "aead_correct evp" "length (cc_write_key c) = 32" "list_all frame_ok ps"
  shows "encrypt_all evp c ps = Some (map (frame_of evp (cc_write_key c)) (numbered (cc_write_counter c) ps))"
  using assms(2,3)
proof (induction ps arbitrary: c)
  case (Cons p ps)
  then show ?case
    using encrypt_frame [OF assms(1), of c p] Cons.IH [of "c\<lparr>cc_write_counter := cc_write_counter c + 1\<rparr>"]
    by (simp add: frame_ok_def)
qed simp

lemma numbered_run:
  assumes "aead_correct evp" "length key = 32"
    and prefixes: "\<And>pl. strict_prefix pl full \<Longrightarrow> rx_frame expected pl = (None, pl)"
    and final: "rx_frame expected full = (Some (RxResponse r), full)"
  shows "plain @ concat ps = full \<Longrightarrow> ps \<noteq> [] \<Longrightarrow> list_all frame_ok ps \<Longrightarrow> cc_read_key c = key \<Longrightarrow>
    valid_run (rx_valid evp key expected) (rx_step expected) (None, c, plain) (numbered (cc_read_counter c) ps)
    \<and> fst (fold (rx_step expected) (numbered (cc_read_counter c) ps) (None, c, plain)) = Some (RxResponse r)"
proof (induction ps arbitrary: plain c)
  case (Cons p ps)
  let ?c = "c\<lparr>cc_read_counter := cc_read_counter c + 1\<rparr>"
  show ?case
  proof (cases "ps = []")
    case True
    with Cons.prems final assms(1,2) show ?thesis by (simp add: rx_valid_def rx_step_def)
  next
    case False
    then obtain q qs where "ps = q # qs" "q \<noteq> []" using Cons.prems(3) by (cases ps) (auto simp: frame_ok_def)
    with Cons.prems(1) have "strict_prefix (plain @ p) full" by (auto simp: strict_prefix_def prefix_def)
    then have "rx_frame expected (plain @ p) = (None, plain @ p)" by (rule prefixes)
    with Cons.IH [of "plain @ p" ?c] Cons.prems False assms(1,2) show ?thesis
      by (simp add: rx_valid_def rx_step_def)
  qed
qed simp

lemma numbered_small: "m \<in> set (numbered n ps) \<Longrightarrow> snd m \<in> set ps"
  by (induction ps arbitrary: n) auto

text \<open>
  The response as its sender renders it: its header fits 64 KiB, the whole fits a megabyte and it
  repeats the sequence number of the request.
\<close>

definition answer_ok :: "int option \<Rightarrow> nat \<Rightarrow> string \<Rightarrow> (string \<times> string) list \<Rightarrow> bytes \<Rightarrow> bool" where
  "answer_ok expected status reason headers body =
     (response_ok status reason headers body
      \<and> length (render_response status reason headers body) \<le> kMaxResponseBytes
      \<and> length (render_response status reason headers body) - length body \<le> 64 * 1024
      \<and> (case expected of None \<Rightarrow> True
         | Some cseq \<Rightarrow> map_of (map (\<lambda>(name, value). (lower name, value)) headers) ''cseq'' = Some (int_to_string cseq)))"

definition answer :: "nat \<Rightarrow> string \<Rightarrow> (string \<times> string) list \<Rightarrow> bytes \<Rightarrow> response" where
  "answer status reason headers body =
     \<lparr>rsp_status = int status,
      rsp_headers = map_of (map (\<lambda>(name, value). (lower name, value)) (response_headers headers body)),
      rsp_body = body\<rparr>"

lemma render_response_complete:
  assumes "response_ok status reason headers body"
  shows "complete_response_size (render_response status reason headers body) =
    Some (length (render_response status reason headers body))"
  using render_response_size [OF assms, of "[]"] by (simp add: render_response_block)

lemma answer_final:
  assumes "answer_ok expected status reason headers body"
  shows "rx_frame expected (render_response status reason headers body) =
    (Some (RxResponse (answer status reason headers body)), render_response status reason headers body)"
proof -
  have ok: "response_ok status reason headers body" using assms by (simp add: answer_ok_def)
  then have "parse_response (render_response status reason headers body) = Some (answer status reason headers body)"
    using render_response_parsed [of status reason headers body "[]"] by (simp add: answer_def)
  moreover have "rsp_headers (answer status reason headers body) ''cseq'' = Some (int_to_string cseq)"
    if "expected = Some cseq" for cseq
    using assms that by (auto simp: answer_ok_def answer_def response_headers_def map_add_def split: option.split)
  ultimately show ?thesis
    using assms by (auto simp: rx_frame_def answer_ok_def render_response_complete [OF ok] split: option.split)
qed

lemma render_response_prefix:
  assumes ok: "response_ok status reason headers body"
    and pre: "strict_prefix pl (render_response status reason headers body)"
  shows "complete_response_size pl = None"
proof (rule ccontr)
  let ?full = "render_response status reason headers body"
  from pre obtain tail where tail: "?full = pl @ tail" by (auto simp: strict_prefix_def prefix_def)
  assume "complete_response_size pl \<noteq> None"
  then obtain n where n: "complete_response_size pl = Some n" by auto
  have "n \<le> length pl" "complete_response_size (pl @ tail) = Some n"
    by (rule complete_response_size_bounds [OF n])+
  moreover have "complete_response_size (pl @ tail) = Some (length ?full)"
    using render_response_complete [OF ok] by (simp only: tail)
  moreover have "length pl < length ?full" using prefix_length_less [OF pre] .
  ultimately have "length ?full \<le> length pl" by (metis option.inject)
  with \<open>length pl < length ?full\<close> show False by simp
qed

lemma answer_prefix:
  assumes "answer_ok expected status reason headers body"
    and pre: "strict_prefix pl (render_response status reason headers body)"
  shows "rx_frame expected pl = (None, pl)"
proof -
  let ?full = "render_response status reason headers body"
  let ?block = "header_block (response_lines status reason headers body)"
  from pre obtain tail where tail: "?full = pl @ tail" "tail \<noteq> []"
    by (auto simp: strict_prefix_def prefix_def)
  have ok: "response_ok status reason headers body" using assms(1) by (simp add: answer_ok_def)
  have none: "complete_response_size pl = None" by (rule render_response_prefix [OF ok pre])
  have "find_sub (bytes_of crlf2) pl \<noteq> None" if long: "length pl > 64 * 1024"
  proof -
    have len: "length ?full = length ?block + 2 + length body" by (simp add: render_response_block)
    then have "length ?block + 2 < length pl" using assms(1) long by (simp add: answer_ok_def)
    moreover have "prefix (bytes_of (?block @ crlf)) (pl @ tail)"
      unfolding tail(1) [symmetric] render_response_block by simp
    ultimately have "prefix (bytes_of (?block @ crlf)) pl"
      by - (rule prefix_append_shorter [where bs = tail], simp_all)
    then obtain rest where pl: "pl = bytes_of (?block @ crlf) @ rest" by (auto simp: prefix_def)
    have "response_lines status reason headers body \<noteq> []" by (simp add: response_lines_def)
    then obtain ls l where "response_lines status reason headers body = ls @ [l]"
      by (meson rev_exhaust)
    then obtain b where b: "?block = b @ crlf" by (metis append_assoc header_block_simps append_Nil2)
    have "drop (length b) pl = bytes_of crlf2 @ rest" by (simp add: pl b)
    then have "prefix (bytes_of crlf2) (drop (length b) pl)" by simp
    moreover have "length b \<le> length pl" by (simp add: pl b)
    ultimately show ?thesis unfolding find_sub_None_iff by blast
  qed
  moreover have "length pl \<le> kMaxResponseBytes"
    using assms(1) tail by (simp add: answer_ok_def)
  ultimately show ?thesis using none by (auto simp: rx_frame_def)
qed

lemma exchange_delivers:
  assumes "aead_correct evp" "length (cc_read_key c) = 32"
    and "cc_write_key peer = cc_read_key c" "cc_write_counter peer = cc_read_counter c"
    and "answer_ok expected status reason headers body"
    and "concat parts = render_response status reason headers body" "list_all frame_ok parts"
    and "encrypt_all evp peer parts = Some frames" "concat chunks = concat frames"
  shows "fst (await_response evp expected c [] [] (map RxChunk chunks @ [RxIdle])) =
    Some (answer status reason headers body)"
proof -
  let ?ms = "numbered (cc_read_counter c) parts" and ?key = "cc_read_key c"
  have frames: "frames = map (frame_of evp ?key) ?ms"
    using encrypt_all_frames [of evp peer parts] assms by simp
  have "length (render_response status reason headers body) \<noteq> 0" by (simp add: render_response_def)
  then have "parts \<noteq> []" using assms(6) by fastforce
  have "[] @ concat parts = render_response status reason headers body" using assms(6) by simp
  note both = numbered_run [OF assms(1,2) answer_prefix [OF assms(5)] answer_final [OF assms(5)] this
      \<open>parts \<noteq> []\<close> assms(7) refl]
  note run = both [THEN conjunct1] and out = both [THEN conjunct2]
  have "foldl (rx_receive evp expected) ((None, c, []), []) chunks = (fold (rx_step expected) ?ms (None, c, []), [])"
  proof (rule exchange.run_chunks [OF run, where P = "\<lambda>_. True" and k = 65553])
    show "concat chunks = concat (map (frame_of evp ?key) ?ms)" using assms(9) frames by simp
  next
    fix m assume "m \<in> set ?ms"
    then have "snd m \<in> set parts" by (rule numbered_small)
    then have "length (snd m) \<le> 65535" using assms(7) by (simp add: list_all_iff frame_ok_def)
    then show "length (frame_of evp ?key m) \<le> 65553"
      using length_frame_of [OF assms(1,2), of "fst m" "snd m"] by simp
  qed (simp_all add: rx_receive_def)
  moreover obtain s where "fold (rx_step expected) ?ms (None, c, []) = (Some (RxResponse (answer status reason headers body)), s)"
    using out by (metis prod.collapse)
  ultimately show ?thesis
    unfolding await_response_chunks rx_run_empty by (simp only: rx_result_def fst_conv prod.case option.case rx_outcome.case)
qed

lemma encrypt_SomeD:
  assumes "encrypt evp p c = (Some frame, c')"
  shows "frame = frame_of evp (cc_write_key c) (cc_write_counter c, p)"
    "c' = c\<lparr>cc_write_counter := cc_write_counter c + 1\<rparr>"
  using assms by (auto simp: encrypt_def frame_of_def Let_def split: option.splits if_splits)

lemma encrypt_all_SomeD:
  "encrypt_all evp c ps = Some frames \<Longrightarrow>
     frames = map (frame_of evp (cc_write_key c)) (numbered (cc_write_counter c) ps)"
proof (induction ps arbitrary: c frames)
  case (Cons p ps)
  obtain f c' where e: "encrypt evp p c = (Some f, c')"
    using Cons.prems by (cases "encrypt evp p c") (auto split: option.splits)
  with Cons.prems Cons.IH [of c'] encrypt_SomeD [OF e] show ?case by auto
qed simp

lemma numbered_index: "numbered n ps = map (\<lambda>i. (n + of_nat i, ps ! i)) [0..<length ps]"
proof (induction ps arbitrary: n)
  case (Cons p ps)
  show ?case
    by (simp add: Cons.IH upt_rec [of 0] map_Suc_upt [symmetric] add.assoc del: upt_Suc)
qed simp

lemma distinct_counters:
  assumes "k \<le> 2 ^ 64"
  shows "distinct (map (\<lambda>i. nonce_for_counter (n + of_nat i)) [0..<k])"
proof -
  have "unat (of_nat i :: u64) = i" if "i < k" for i
    using that assms by (simp add: unat_of_nat)
  then show ?thesis by (auto simp: distinct_map inj_on_def) metis
qed

section \<open>Properties\<close>

text \<open>A cipher that hides nothing but has the right shape.\<close>

definition example_evp :: evp where
  "example_evp = \<lparr>evp_chacha20_poly1305_seal = \<lambda>key nonce aad p. Some (p @ replicate 16 0),
     evp_chacha20_poly1305_open = \<lambda>key nonce aad ct. Some (take (length ct - 16) ct),
     evp_hkdf_sha512 = \<lambda>ikm salt info n. Some (replicate n 0),
     evp_ed25519_sign = \<lambda>k d. Some (replicate 64 0), evp_ed25519_verify = \<lambda>k d s. s = replicate 64 0,
     evp_x25519_derive = \<lambda>a b. Some (replicate 32 1)\<rparr>"

lemma example_evp_correct: "aead_correct example_evp"
  by (simp add: aead_correct_def example_evp_def)

text \<open>
  C9: the encrypted control channel delivers: when the receiver renders a response
  with the sequence number asked for, encrypts it in any parts with a cipher
  whose counter agrees, and the bytes arrive in any chunks, waiting for the response
  returns exactly it.
\<close>

theorem encrypted_response_delivered:
  assumes "aead_correct evp" "length (cc_read_key c) = 32"
    and "cc_write_key peer = cc_read_key c" "cc_write_counter peer = cc_read_counter c"
    and "answer_ok expected status reason headers body"
    and "concat parts = render_response status reason headers body" "list_all frame_ok parts"
    and "encrypt_all evp peer parts = Some frames" "concat chunks = concat frames"
  shows "fst (await_response evp expected c [] [] (map RxChunk chunks @ [RxIdle])) =
    Some (answer status reason headers body)"
  using assms by (rule exchange_delivers)

theorem encrypted_response_delivered_witness:
  "let key = replicate 32 7; c = new_cipher key key;
       parts = [render_response 200 ''OK'' [(''CSeq'', ''3'')] [1]];
       frames = map (frame_of example_evp key) (numbered 0 parts)
   in fst (await_response example_evp (Some 3) c [] [] (map RxChunk frames @ [RxIdle])) =
      Some (answer 200 ''OK'' [(''CSeq'', ''3'')] [1])"
proof -
  let ?key = "replicate 32 7" and ?parts = "[render_response 200 ''OK'' [(''CSeq'', ''3'')] [1]]"
  let ?c = "new_cipher ?key ?key"
  have len: "length (render_response 200 ''OK'' [(''CSeq'', ''3'')] [1]) \<le> 100"
    by (simp add: render_response_def nat_to_string.simps)
  have cseq: "lower ''CSeq'' = ''cseq''" "int_to_string 3 = ''3''" by code_simp+
  have "answer_ok (Some 3) 200 ''OK'' [(''CSeq'', ''3'')] [1]"
    using len cseq by (simp add: answer_ok_def response_ok_def request_header_ok_def no_cr_def trimmed_def
        is_blank_def kMaxContentLength_def kMaxResponseBytes_def)
  moreover have parts: "list_all frame_ok ?parts"
    using len by (simp add: frame_ok_def) (simp add: render_response_def)
  moreover have "encrypt_all example_evp ?c ?parts = Some (map (frame_of example_evp ?key) (numbered 0 ?parts))"
    using encrypt_all_frames [OF example_evp_correct, of ?c ?parts] parts by (simp add: new_cipher_def)
  ultimately have "fst (await_response example_evp (Some 3) ?c [] []
      (map RxChunk (map (frame_of example_evp ?key) (numbered 0 ?parts)) @ [RxIdle])) =
      Some (answer 200 ''OK'' [(''CSeq'', ''3'')] [1])"
    by (intro encrypted_response_delivered [OF example_evp_correct, where peer = ?c and parts = ?parts
          and frames = "map (frame_of example_evp ?key) (numbered 0 ?parts)"])
       (simp_all add: new_cipher_def)
  then show ?thesis unfolding Let_def .
qed

text \<open>
  No nonce is used twice under a key: the messages a cipher encrypts one after
  the other are sealed under counters that differ, for up to \<open>2 ^ 64\<close> messages.
\<close>

theorem cipher_nonces_distinct:
  assumes "encrypt_all evp c ps = Some frames" "length ps \<le> 2 ^ 64"
  shows "frames = map (\<lambda>i. frame_of evp (cc_write_key c) (cc_write_counter c + of_nat i, ps ! i)) [0..<length ps]
    \<and> distinct (map (\<lambda>i. nonce_for_counter (cc_write_counter c + of_nat i)) [0..<length ps])"
  using encrypt_all_SomeD [OF assms(1)] distinct_counters [OF assms(2)]
  by (simp add: numbered_index comp_def)

theorem cipher_nonces_distinct_witness:
  "distinct (map (\<lambda>i. nonce_for_counter (5 + of_nat i)) [0..<2])"
proof -
  let ?c = "(new_cipher (replicate 32 7) (replicate 32 7))\<lparr>cc_write_counter := 5\<rparr>"
  have "encrypt_all example_evp ?c [[1], [2]] =
      Some (map (frame_of example_evp (replicate 32 7)) (numbered 5 [[1], [2]]))"
    using encrypt_all_frames [OF example_evp_correct, of ?c "[[1], [2]]"] by (simp add: new_cipher_def frame_ok_def)
  from cipher_nonces_distinct [OF this] show ?thesis by (simp add: new_cipher_def numeral_2_eq_2)
qed

end
