(* ===== verification/Media_Nalu.thy ===== *)
theory Media_Nalu
  imports Bytes_Prelude
begin

text \<open>
  The H.264 Annex B splitter of the video forwarder
  (\<open>VideoSocketForwarder::nalus\<close>, \<open>src/src/bridge/media_forwarders.cpp\<close>).  The code walks an
  offset through its input; the model walks the remaining suffix.  The lemmas show that
  the splitter inverts the concatenation of start codes and NAL units and that no unit it
  returns holds a start code.
\<close>

section \<open>Start codes\<close>

definition three :: "bytes \<Rightarrow> bool" where
  "three xs = (3 \<le> length xs \<and> xs ! 0 = 0 \<and> xs ! 1 = 0 \<and> xs ! 2 = 1)"

definition four :: "bytes \<Rightarrow> bool" where
  "four xs = (4 \<le> length xs \<and> xs ! 0 = 0 \<and> xs ! 1 = 0 \<and> xs ! 2 = 0 \<and> xs ! 3 = 1)"

text \<open>The inner loop: how far the next start code is, or the whole rest.\<close>

fun nalu_end :: "bytes \<Rightarrow> nat" where
  "nalu_end [] = 0"
| "nalu_end (x # xs) =
     (if length (x # xs) < 3 then length (x # xs)
      else if four (x # xs) \<or> three (x # xs) then 0
      else Suc (nalu_end xs))"

lemma nalu_end_le: "nalu_end xs \<le> length xs"
  by (induction xs) auto

function nalus :: "bytes \<Rightarrow> bytes list" where
  "nalus xs =
     (if length xs < 3 then []
      else if \<not> three xs \<and> \<not> four xs then nalus (tl xs)
      else (let rest = drop (if four xs then 4 else 3) xs; n = nalu_end rest
            in (if 0 < n then [take n rest] else []) @ nalus (drop n rest)))"
  by pat_completeness auto
termination
  by (relation "measure length") auto

declare nalus.simps [simp del]

lemma nalus_short: "length xs < 3 \<Longrightarrow> nalus xs = []"
  by (subst nalus.simps) simp

section \<open>What a unit may hold\<close>

text \<open>A NAL unit: not empty, no three-byte start code inside.\<close>

fun no_start_code :: "bytes \<Rightarrow> bool" where
  "no_start_code [] = True"
| "no_start_code (x # xs) = (\<not> three (x # xs) \<and> no_start_code xs)"

definition nal_unit :: "bytes \<Rightarrow> bool" where
  "nal_unit n = (n \<noteq> [] \<and> no_start_code n)"

definition nal_type :: "bytes \<Rightarrow> byte" where
  "nal_type n = (hd n AND 0x1f)"

definition annexb :: "bytes list \<Rightarrow> bytes" where
  "annexb ns = concat (map (\<lambda>n. [0, 0, 0, 1] @ n) ns)"

lemma three_Nil [simp]: "\<not> three []"
  by (simp add: three_def)

lemma four_Nil [simp]: "\<not> four []"
  by (simp add: four_def)

lemma three_short: "length xs < 3 \<Longrightarrow> \<not> three xs"
  by (simp add: three_def)

lemma four_tl_three: "four xs \<Longrightarrow> three (tl xs)"
  by (cases xs) (auto simp: four_def three_def numeral_eq_Suc nth_Cons')

lemma no_start_code_short: "length xs < 3 \<Longrightarrow> no_start_code xs"
  by (induction xs) (auto simp: three_short)

lemma three_append: "three (xs @ ys) \<Longrightarrow> 3 \<le> length xs \<Longrightarrow> three xs"
  by (auto simp: three_def nth_append split: if_splits)

lemma four_append: "four (xs @ ys) \<Longrightarrow> 4 \<le> length xs \<Longrightarrow> four xs"
  by (auto simp: four_def nth_append split: if_splits)

lemma three_take: "three (take n xs) \<Longrightarrow> three xs"
  by (auto simp: three_def)

lemma no_start_code_take_nalu_end: "no_start_code (take (nalu_end xs) xs)"
proof (induction xs)
  case Nil
  then show ?case by simp
next
  case (Cons x xs)
  show ?case
  proof (cases "length (x # xs) < 3")
    case True
    then show ?thesis by (simp add: no_start_code_short three_short)
  next
    case False
    with Cons.IH show ?thesis
      using three_take [of "Suc (nalu_end xs)" "x # xs"] by auto
  qed
qed

lemma nalus_units: "n \<in> set (nalus xs) \<Longrightarrow> nal_unit n"
proof (induction xs rule: nalus.induct)
  case (1 xs)
  show ?case
  proof (cases "length xs < 3 \<or> (\<not> three xs \<and> \<not> four xs)")
    case True
    with 1 show ?thesis
      by (subst (asm) (2) nalus.simps) (auto split: if_splits)
  next
    case False
    define rest where "rest = drop (if four xs then 4 else 3) xs"
    from False 1(3) have "n \<in> set (nalus (drop (nalu_end rest) rest)) \<or>
        (0 < nalu_end rest \<and> n = take (nalu_end rest) rest)"
      by (subst (asm) nalus.simps) (auto simp: rest_def Let_def split: if_splits)
    moreover have "n \<in> set (nalus (drop (nalu_end rest) rest)) \<Longrightarrow> nal_unit n"
      using 1(2) False by (auto simp: rest_def)
    moreover have "0 < nalu_end rest \<Longrightarrow> nal_unit (take (nalu_end rest) rest)"
      using nalu_end_le [of rest] by (auto simp: nal_unit_def no_start_code_take_nalu_end)
    ultimately show ?thesis by blast
  qed
qed

section \<open>The splitter inverts the concatenation\<close>

lemma annexb_simps [simp]:
  "annexb [] = []"
  "annexb (n # ns) = 0 # 0 # 0 # 1 # n @ annexb ns"
  by (simp_all add: annexb_def)

lemma four_annexb [simp]: "four (0 # 0 # 0 # 1 # xs)" "\<not> three (0 # 0 # 0 # 1 # xs)"
  by (simp_all add: four_def three_def)

lemma no_code_before_annexb:
  assumes "no_start_code n" "n \<noteq> []" "ns \<noteq> []"
  shows "\<not> three (n @ annexb ns) \<and> \<not> four (n @ annexb ns)"
proof -
  obtain m ms where ns: "ns = m # ms" using assms(3) by (cases ns) auto
  have three: "\<not> three n" using assms(1,2) by (cases n) auto
  have tail: "no_start_code (tl n)" using assms(1,2) by (cases n) auto
  consider a where "n = [a]" | a b where "n = [a, b]" | a b c where "n = [a, b, c]"
    | a b c d l where "n = a # b # c # d # l"
    using assms(2) by (metis neq_Nil_conv)
  then show ?thesis
  proof cases
    case 4
    with three tail show ?thesis
      using four_tl_three [of n] four_append [of n "annexb ns"] three_append [of n "annexb ns"]
      by auto
  qed (use three ns in \<open>auto simp: three_def four_def nth_Cons'\<close>)
qed

lemma nalu_end_annexb:
  assumes "no_start_code n"
  shows "nalu_end (n @ annexb ns) = length n"
  using assms
proof (induction n)
  case Nil
  show ?case by (cases ns) auto
next
  case (Cons x n)
  show ?case
  proof (cases "ns = []")
    case True
    with Cons show ?thesis
      using four_tl_three [of "x # n"] by (cases n) auto
  next
    case False
    then have "\<not> length ((x # n) @ annexb ns) < 3" by (cases ns) auto
    with Cons no_code_before_annexb [of "x # n" ns] False show ?thesis by auto
  qed
qed

lemma nalus_annexb: "list_all nal_unit ns \<Longrightarrow> nalus (annexb ns) = ns"
proof (induction ns)
  case Nil
  then show ?case by (subst nalus.simps) simp
next
  case (Cons n ns)
  then have "nalu_end (n @ annexb ns) = length n" "n \<noteq> []"
    by (auto simp: nal_unit_def nalu_end_annexb)
  with Cons show ?case
    by (subst nalus.simps) (simp add: Let_def)
qed

end
