(* ===== verification/Media_Forwarder.thy ===== *)
theory Media_Forwarder
  imports Media_Nalu
begin

text \<open>
  The media forwarders of the bridge (\<open>src/src/bridge/media_forwarders.cpp\<close>): the bounded frame
  queue that the Android Auto callbacks fill and one worker thread empties into a UNIX
  socket, in its video and audio variants, with the cached decoder configuration of the
  video variant; and the two readers at the other end of the sockets
  (\<open>VideoSocketReader\<close> and \<open>AudioSocketReader\<close> of \<open>src/src/iap2_bt_main.cpp\<close>).

  The class hierarchy is a record with two extensions.  System calls answer with values
  that the model takes as arguments: one \<open>send_turn\<close> per round of a sending loop, one
  \<open>recv_turn\<close> per round of a receiving loop.  The two threads are the relation
  \<open>media_step\<close>: producers act between any two critical sections of the worker.
  Logging is left out.
\<close>

section \<open>State\<close>

definition kMaximumQueuedFrames :: nat where
  "kMaximumQueuedFrames = 600"

definition kMaximumQueuedBytes :: nat where
  "kMaximumQueuedBytes = 16 * 1024 * 1024"

record media_forwarder =
  listener :: int
  maximum_queued_frames :: nat
  frames :: "bytes list"
  queued_bytes :: nat
  keyframe :: bytes

record video_forwarder = media_forwarder +
  received_video_count :: nat
  dump_bytes :: nat
  dump_fd :: int
  sps :: bytes
  pps :: bytes

record audio_forwarder = media_forwarder +
  received_packets :: nat

section \<open>Construction\<close>

record listen_os =
  socket_result :: int
  bind_result :: int
  chmod_result :: int
  listen_result :: int

text \<open>\<open>sizeof(sockaddr_un::sun_path)\<close> is 108 on Linux.\<close>

definition open_listener :: "listen_os \<Rightarrow> string \<Rightarrow> int" where
  "open_listener os path =
     (if socket_result os < 0 \<or> 108 \<le> length path then -1
      else if bind_result os \<noteq> 0 \<or> chmod_result os \<noteq> 0 \<or> listen_result os \<noteq> 0 then -1
      else socket_result os)"

record dump_os =
  open_result :: int
  fstat_result :: int
  S_ISREG :: bool
  st_nlink :: nat
  st_uid :: nat
  geteuid :: nat
  fchmod_result :: int
  ftruncate_result :: int

text \<open>\<open>AA2ACP_DUMP_H264\<close> and the checks on the file it names.\<close>

definition open_dump :: "dump_os \<Rightarrow> string option \<Rightarrow> int" where
  "open_dump os dump_path =
     (case dump_path of
        None \<Rightarrow> -1
      | Some path \<Rightarrow>
          if path = [] then -1
          else if 0 \<le> open_result os \<and>
                  (fstat_result os \<noteq> 0 \<or> \<not> S_ISREG os \<or> st_nlink os \<noteq> 1 \<or> st_uid os \<noteq> geteuid os \<or>
                   fchmod_result os \<noteq> 0 \<or> ftruncate_result os \<noteq> 0)
          then -1
          else open_result os)"

definition new_video :: "listen_os \<Rightarrow> string \<Rightarrow> dump_os \<Rightarrow> string option \<Rightarrow> video_forwarder" where
  "new_video os path dos dump_path =
     \<lparr>listener = open_listener os path, maximum_queued_frames = kMaximumQueuedFrames, frames = [],
      queued_bytes = 0, keyframe = [], received_video_count = 0, dump_bytes = 0,
      dump_fd = open_dump dos dump_path, sps = [], pps = []\<rparr>"

definition new_audio :: "listen_os \<Rightarrow> string \<Rightarrow> audio_forwarder" where
  "new_audio os path =
     \<lparr>listener = open_listener os path, maximum_queued_frames = 100, frames = [],
      queued_bytes = 0, keyframe = [], received_packets = 0\<rparr>"

section \<open>The queue\<close>

text \<open>The eviction loop of \<open>enqueue\<close> on the queue and its byte count.\<close>

fun evict :: "nat \<Rightarrow> nat \<Rightarrow> bytes list \<Rightarrow> nat \<Rightarrow> bytes list \<times> nat" where
  "evict most sz [] queued = ([], queued)"
| "evict most sz (f # fs) queued =
     (if most \<le> length (f # fs) \<or> kMaximumQueuedBytes < queued + sz
      then evict most sz fs (queued - length f)
      else (f # fs, queued))"

definition enqueue :: "bytes \<Rightarrow> 'a media_forwarder_scheme \<Rightarrow> 'a media_forwarder_scheme" where
  "enqueue frame q =
     (if frame = [] \<or> kMaximumQueuedBytes < length frame then q
      else (case evict (maximum_queued_frames q) (length frame) (frames q) (queued_bytes q) of
              (fs, queued) \<Rightarrow> q\<lparr>frames := fs @ [frame], queued_bytes := queued + length frame\<rparr>))"

text \<open>The critical section of the sending loop, for a queue that is not empty.\<close>

definition take_frame :: "'a media_forwarder_scheme \<Rightarrow> 'a media_forwarder_scheme" where
  "take_frame q = q\<lparr>frames := tl (frames q), queued_bytes := queued_bytes q - length (hd (frames q))\<rparr>"

definition audio_push :: "bytes \<Rightarrow> audio_forwarder \<Rightarrow> audio_forwarder" where
  "audio_push pcm q =
     (if pcm = [] then q else enqueue pcm (q\<lparr>received_packets := Suc (received_packets q)\<rparr>))"

text \<open>
  The NAL loop of \<open>push\<close>: the parameter sets are cached, an IDR slice (type 5) makes the
  access unit a keyframe.
\<close>

definition note_nalu :: "bytes \<Rightarrow> video_forwarder \<times> bool \<Rightarrow> video_forwarder \<times> bool" where
  "note_nalu nalu = (\<lambda>(q, key).
     if nalu = [] then (q, key)
     else if nal_type nalu = 7 then (q\<lparr>sps := nalu\<rparr>, key)
     else if nal_type nalu = 8 then (q\<lparr>pps := nalu\<rparr>, key)
     else if nal_type nalu = 5 then (q, True)
     else (q, key))"

text \<open>
  \<open>write_dump\<close>: a turn is the return value of \<open>write\<close> and whether \<open>errno\<close> is
  \<open>EINTR\<close>; a list that ends early stands for a write that failed.
\<close>

fun write_dump :: "(int \<times> bool) list \<Rightarrow> nat \<Rightarrow> bool" where
  "write_dump turns 0 = True"
| "write_dump [] (Suc n) = False"
| "write_dump ((count, eintr) # turns) (Suc n) =
     (if 0 < count then write_dump turns (Suc n - nat count)
      else if count < 0 \<and> eintr then write_dump turns (Suc n)
      else False)"

definition kMaximumDumpBytes :: nat where
  "kMaximumDumpBytes = 64 * 1024 * 1024"

definition dump_frame :: "(int \<times> bool) list \<Rightarrow> bytes \<Rightarrow> video_forwarder \<Rightarrow> video_forwarder" where
  "dump_frame turns frame q =
     (if 0 \<le> dump_fd q \<and> dump_bytes q < kMaximumDumpBytes
      then (let count = min (length frame) (kMaximumDumpBytes - dump_bytes q)
            in if write_dump turns count then q\<lparr>dump_bytes := dump_bytes q + count\<rparr> else q\<lparr>dump_fd := -1\<rparr>)
      else q)"

definition video_push :: "(int \<times> bool) list \<times> bytes \<Rightarrow> video_forwarder \<Rightarrow> video_forwarder" where
  "video_push = (\<lambda>(turns, frame) q.
     if frame = [] \<or> kMaximumQueuedBytes < length frame then q
     else
       (case fold note_nalu (nalus frame) (q, False) of
          (q, key) \<Rightarrow>
            (let q = dump_frame turns frame (q\<lparr>received_video_count := Suc (received_video_count q)\<rparr>)
             in if \<not> key then
                  (if length (frames q) < maximum_queued_frames q \<and>
                      queued_bytes q + length frame \<le> kMaximumQueuedBytes
                   then q\<lparr>queued_bytes := queued_bytes q + length frame, frames := frames q @ [frame]\<rparr>
                   else q)
                else q\<lparr>keyframe := frame, queued_bytes := length frame, frames := [frame]\<rparr>)))"

text \<open>
  The critical section of \<open>on_client_connected\<close>: the configuration to send, whether a
  keyframe is cached, and the queue from which the client is served.
\<close>

definition video_greet :: "video_forwarder \<Rightarrow> bytes \<times> bool \<times> video_forwarder" where
  "video_greet q =
     (if sps q \<noteq> [] \<and> pps q \<noteq> [] then [0, 0, 0, 1] @ sps q @ [0, 0, 0, 1] @ pps q else [],
      keyframe q \<noteq> [],
      if keyframe q = [] then q\<lparr>frames := [], queued_bytes := 0\<rparr>
      else if frames q = [] \<or> hd (frames q) \<noteq> keyframe q
      then q\<lparr>frames := [keyframe q], queued_bytes := length (keyframe q)\<rparr>
      else q)"

definition audio_greet :: "audio_forwarder \<Rightarrow> bytes \<times> bool \<times> audio_forwarder" where
  "audio_greet q = ([], False, q)"

section \<open>Sending\<close>

text \<open>
  One round of the loop in \<open>send_all\<close>: the milliseconds left until the deadline, the result
  of \<open>poll\<close>, whether a failure was \<open>EINTR\<close>, whether an error event is set, the
  result of \<open>send\<close> and whether its failure may be retried.
\<close>

record send_turn =
  remaining :: int
  poll_ready :: int
  poll_eintr :: bool
  poll_error :: bool
  send_count :: int
  send_again :: bool

text \<open>The result says whether everything was sent, what was sent and which turns are left.\<close>

fun send_all :: "send_turn list \<Rightarrow> bytes \<Rightarrow> (bool \<times> bytes \<times> send_turn list) option" where
  "send_all turns [] = Some (True, [], turns)"
| "send_all [] (b # bs) = None"
| "send_all (t # turns) (b # bs) =
     (if remaining t \<le> 0 then Some (False, [], turns)
      else if poll_ready t < 0 then
        (if poll_eintr t then send_all turns (b # bs) else Some (False, [], turns))
      else if poll_ready t = 0 then send_all turns (b # bs)
      else if poll_error t then Some (False, [], turns)
      else if 0 < send_count t then
        (case send_all turns (drop (nat (send_count t)) (b # bs)) of
           None \<Rightarrow> None
         | Some (ok, out, rest) \<Rightarrow> Some (ok, take (nat (send_count t)) (b # bs) @ out, rest))
      else if send_count t < 0 \<and> send_again t then send_all turns (b # bs)
      else Some (False, [], turns))"

definition media_header :: "bytes \<Rightarrow> bytes" where
  "media_header frame = be_bytes 4 (of_nat (length frame))"

text \<open>\<open>stop1\<close> and \<open>stop2\<close> are the two readings of the stop token.\<close>

definition send_frame ::
  "bool \<Rightarrow> bool \<Rightarrow> send_turn list \<Rightarrow> bytes \<Rightarrow> (bool \<times> bytes \<times> send_turn list) option" where
  "send_frame stop1 stop2 turns frame =
     (if stop1 then Some (False, [], turns)
      else (case send_all turns (media_header frame) of
              None \<Rightarrow> None
            | Some (False, out, turns) \<Rightarrow> Some (False, out, turns)
            | Some (True, out, turns) \<Rightarrow>
                if stop2 then Some (False, out, turns)
                else (case send_all turns frame of
                        None \<Rightarrow> None
                      | Some (ok, out', turns) \<Rightarrow> Some (ok, out @ out', turns))))"

section \<open>The worker thread\<close>

text \<open>
  Where \<open>forward\<close> stands, with its local variables: the accepted descriptor, the
  configuration, \<open>has_keyframe\<close> and the frame being sent.
\<close>

datatype worker_phase =
    Listening
  | Accepted int
  | Greeting int bytes bool
  | Serving int bool
  | Sending int bool bytes

record 'q media_world =
  shared :: 'q
  worker :: worker_phase
  client :: int
  stop_requested :: bool
  sent :: bytes

text \<open>
  One step of the forwarder's threads; \<open>sent\<close> is what has been written to the current
  client.  \<open>push\<close> is the producer's operation and \<open>greet\<close> the critical section of
  \<open>on_client_connected\<close>.
\<close>

inductive media_step ::
  "('p \<Rightarrow> 'a media_forwarder_scheme \<Rightarrow> 'a media_forwarder_scheme) \<Rightarrow>
   ('a media_forwarder_scheme \<Rightarrow> bytes \<times> bool \<times> 'a media_forwarder_scheme) \<Rightarrow>
   'a media_forwarder_scheme media_world \<Rightarrow> 'a media_forwarder_scheme media_world \<Rightarrow> bool"
  for push greet
where
  push: "media_step push greet s (s\<lparr>shared := push p (shared s)\<rparr>)"
| request_stop: "media_step push greet s (s\<lparr>stop_requested := True\<rparr>)"
| accept: "worker s = Listening \<Longrightarrow> \<not> stop_requested s \<Longrightarrow> 0 \<le> fd \<Longrightarrow>
     media_step push greet s (s\<lparr>worker := Accepted fd, client := fd, sent := []\<rparr>)"
| connect: "worker s = Accepted fd \<Longrightarrow> greet (shared s) = (config, has_keyframe, q) \<Longrightarrow>
     media_step push greet s (s\<lparr>worker := Greeting fd config has_keyframe, shared := q\<rparr>)"
| greet_none: "worker s = Greeting fd [] has_keyframe \<Longrightarrow>
     media_step push greet s (s\<lparr>worker := Serving fd has_keyframe\<rparr>)"
| greet_sent: "worker s = Greeting fd config has_keyframe \<Longrightarrow> config \<noteq> [] \<Longrightarrow>
     send_frame False False turns config = Some (True, out, rest) \<Longrightarrow>
     media_step push greet s (s\<lparr>worker := Serving fd has_keyframe, sent := sent s @ out\<rparr>)"
| greet_failed: "worker s = Greeting fd config has_keyframe \<Longrightarrow> config \<noteq> [] \<Longrightarrow>
     send_frame False False turns config = Some (False, out, rest) \<Longrightarrow>
     media_step push greet s (s\<lparr>worker := Listening, client := -1, sent := sent s @ out\<rparr>)"
| take: "worker s = Serving fd has_keyframe \<Longrightarrow> \<not> stop_requested s \<Longrightarrow> frames (shared s) = f # fs \<Longrightarrow>
     media_step push greet s (s\<lparr>worker := Sending fd has_keyframe f, shared := take_frame (shared s)\<rparr>)"
| send_sent: "worker s = Sending fd has_keyframe f \<Longrightarrow> (stop1 \<or> stop2 \<longrightarrow> stop_requested s) \<Longrightarrow>
     send_frame stop1 stop2 turns f = Some (True, out, rest) \<Longrightarrow>
     media_step push greet s (s\<lparr>worker := Serving fd has_keyframe, sent := sent s @ out\<rparr>)"
| send_failed: "worker s = Sending fd has_keyframe f \<Longrightarrow> (stop1 \<or> stop2 \<longrightarrow> stop_requested s) \<Longrightarrow>
     send_frame stop1 stop2 turns f = Some (False, out, rest) \<Longrightarrow>
     media_step push greet s (s\<lparr>worker := Listening, client := -1, sent := sent s @ out\<rparr>)"
| leave: "worker s = Serving fd has_keyframe \<Longrightarrow> stop_requested s \<Longrightarrow>
     media_step push greet s (s\<lparr>worker := Listening, client := -1\<rparr>)"

definition start_world :: "'q \<Rightarrow> 'q media_world" where
  "start_world q = \<lparr>shared = q, worker = Listening, client = -1, stop_requested = False, sent = []\<rparr>"

section \<open>The readers\<close>

text \<open>One round of \<open>receive_all\<close>: told to stop, nothing to read, or the result of \<open>recv\<close>.\<close>

datatype recv_turn = Stop | Idle | Recv int

text \<open>
  \<open>input\<close> is what the peer sends from here on; the result is the success flag, what was
  read, the input and the turns left.
\<close>

fun receive_all :: "recv_turn list \<Rightarrow> bytes \<Rightarrow> nat \<Rightarrow> (bool \<times> bytes \<times> bytes \<times> recv_turn list) option" where
  "receive_all turns input 0 = Some (True, [], input, turns)"
| "receive_all [] input (Suc n) = None"
| "receive_all (Stop # turns) input (Suc n) = Some (False, [], input, turns)"
| "receive_all (Idle # turns) input (Suc n) = receive_all turns input (Suc n)"
| "receive_all (Recv count # turns) input (Suc n) =
     (if count \<le> 0 then Some (False, [], input, turns)
      else (let k = min (nat count) (Suc n)
            in case receive_all turns (drop k input) (Suc n - k) of
                 None \<Rightarrow> None
               | Some (ok, got, rest) \<Rightarrow> Some (ok, take k input @ got, rest)))"

definition kMaximumVideoFrame :: nat where
  "kMaximumVideoFrame = 4 * 1024 * 1024"

definition kMaximumAudioFrame :: nat where
  "kMaximumAudioFrame = 64 * 1024"

text \<open>\<open>next\<close> of a connected reader; the inner \<open>None\<close> is \<open>std::nullopt\<close>.\<close>

definition reader_next ::
  "nat \<Rightarrow> recv_turn list \<Rightarrow> bytes \<Rightarrow> (bytes option \<times> bytes \<times> recv_turn list) option" where
  "reader_next limit turns input =
     (case receive_all turns input 4 of
        None \<Rightarrow> None
      | Some (False, got, input, turns) \<Rightarrow> Some (None, input, turns)
      | Some (True, header, input, turns) \<Rightarrow>
          (let sz = unat (be_value header)
           in if sz = 0 \<or> limit < sz then Some (None, input, turns)
              else (case receive_all turns input sz of
                      None \<Rightarrow> None
                    | Some (ok, frame, input, turns) \<Rightarrow>
                        Some (if ok then Some frame else None, input, turns))))"

definition video_next :: "recv_turn list \<Rightarrow> bytes \<Rightarrow> (bytes option \<times> bytes \<times> recv_turn list) option" where
  "video_next = reader_next kMaximumVideoFrame"

definition audio_next :: "recv_turn list \<Rightarrow> bytes \<Rightarrow> (bytes option \<times> bytes \<times> recv_turn list) option" where
  "audio_next = reader_next kMaximumAudioFrame"

end
