(* ===== verification/Media_Props.thy ===== *)
theory Media_Props
  imports Media_Forwarder
begin

text \<open>
  What the media forwarders promise: a bounded queue whatever the interleaving of the
  threads, delivery in order and without duplicates, the newest audio, a video client that
  starts at a decoder entry point, and a framing its readers undo.
  The locale \<open>frame_queue\<close> is the contract the worker thread relies on; it is interpreted on
  the video and on the audio operations.
\<close>

section \<open>The contract of a queue\<close>

definition queue_ok :: "'a media_forwarder_scheme \<Rightarrow> bool" where
  "queue_ok q =
     (queued_bytes q = sum_list (map length (frames q)) \<and> queued_bytes q \<le> kMaximumQueuedBytes \<and>
      0 < maximum_queued_frames q \<and> length (frames q) \<le> maximum_queued_frames q \<and>
      [] \<notin> set (frames q) \<and> length (keyframe q) \<le> kMaximumQueuedBytes)"

datatype 'p queue_op = Push 'p | Take

text \<open>A sequence of critical sections of the producer and of the sending loop: what was taken.\<close>

fun queue_run ::
  "('p \<Rightarrow> 'a media_forwarder_scheme \<Rightarrow> 'a media_forwarder_scheme) \<Rightarrow> 'p queue_op list \<Rightarrow>
   'a media_forwarder_scheme \<Rightarrow> bytes list \<times> 'a media_forwarder_scheme" where
  "queue_run push [] q = ([], q)"
| "queue_run push (Push p # ops) q = queue_run push ops (push p q)"
| "queue_run push (Take # ops) q =
     (if frames q = [] then queue_run push ops q
      else (case queue_run push ops (take_frame q) of (taken, q') \<Rightarrow> (hd (frames q) # taken, q')))"

fun pushed :: "'p queue_op list \<Rightarrow> 'p list" where
  "pushed [] = []"
| "pushed (Push p # ops) = p # pushed ops"
| "pushed (Take # ops) = pushed ops"

lemma queue_ok_take_frame: "queue_ok q \<Longrightarrow> frames q \<noteq> [] \<Longrightarrow> queue_ok (take_frame q)"
  by (cases "frames q") (auto simp: queue_ok_def take_frame_def)

locale frame_queue =
  fixes push :: "'p \<Rightarrow> 'a media_forwarder_scheme \<Rightarrow> 'a media_forwarder_scheme"
    and greet :: "'a media_forwarder_scheme \<Rightarrow> bytes \<times> bool \<times> 'a media_forwarder_scheme"
    and unit_of :: "'p \<Rightarrow> bytes"
  assumes push_ok: "queue_ok q \<Longrightarrow> queue_ok (push p q)"
    and push_most: "maximum_queued_frames (push p q) = maximum_queued_frames q"
    and push_subseq: "subseq (frames (push p q)) (frames q @ [unit_of p])"
    and greet_ok: "queue_ok q \<Longrightarrow> greet q = (config, has, q') \<Longrightarrow> queue_ok q'"
    and greet_most: "greet q = (config, has, q') \<Longrightarrow> maximum_queued_frames q' = maximum_queued_frames q"
begin

lemma step_ok:
  "media_step push greet s s' \<Longrightarrow> queue_ok (shared s) \<Longrightarrow>
     queue_ok (shared s') \<and> maximum_queued_frames (shared s') = maximum_queued_frames (shared s)"
  by (induction rule: media_step.induct)
     (auto simp: push_ok push_most greet_most queue_ok_take_frame take_frame_def [of "shared _"]
       intro: greet_ok dest: queue_ok_take_frame)

lemma reachable_ok:
  assumes "(media_step push greet)\<^sup>*\<^sup>* s s'" "queue_ok (shared s)"
  shows "queue_ok (shared s') \<and> maximum_queued_frames (shared s') = maximum_queued_frames (shared s)"
  using assms by (induction rule: rtranclp_induct) (use step_ok in auto)

lemma run_subseq:
  "queue_run push ops q = (taken, q') \<Longrightarrow>
     subseq (taken @ frames q') (frames q @ map unit_of (pushed ops))"
proof (induction ops arbitrary: q taken)
  case Nil
  then show ?case by simp
next
  case (Cons x ops)
  show ?case
  proof (cases x)
    case (Push p)
    with Cons have "subseq (taken @ frames q') (frames (push p q) @ map unit_of (pushed ops))" by simp
    also have "subseq \<dots> ((frames q @ [unit_of p]) @ map unit_of (pushed ops))"
      by (intro list_emb_append_mono push_subseq) simp
    finally show ?thesis by (simp add: Push)
  next
    case Take
    show ?thesis
    proof (cases "frames q")
      case Nil
      with Cons.IH [of q taken] Cons.prems Take show ?thesis by simp
    next
      case (Cons f fs)
      from Cons.prems Take Cons obtain taken'
        where r: "queue_run push ops (take_frame q) = (taken', q')" "taken = f # taken'"
        by (auto split: prod.splits)
      from Cons.IH [OF r(1)] r(2) Take Cons show ?thesis by (simp add: take_frame_def)
    qed
  qed
qed

end

section \<open>The two queues satisfy the contract\<close>

lemma evict_suffix:
  assumes "evict most sz fs queued = (fs', queued')" "queued = sum_list (map length fs)"
  shows "\<exists>k \<le> length fs. fs' = drop k fs \<and> queued' = sum_list (map length fs') \<and>
           (fs' = [] \<or> (length fs' < most \<and> queued' + sz \<le> kMaximumQueuedBytes)) \<and>
           (\<forall>j < k. most \<le> length (drop j fs) \<or> kMaximumQueuedBytes < sum_list (map length (drop j fs)) + sz)"
  using assms
proof (induction most sz fs queued rule: evict.induct)
  case (1 most sz queued)
  then show ?case by auto
next
  case (2 most sz f fs queued)
  show ?case
  proof (cases "most \<le> length (f # fs) \<or> kMaximumQueuedBytes < queued + sz")
    case True
    with 2 obtain k where "k \<le> length fs" "fs' = drop k fs" "queued' = sum_list (map length fs')"
      "fs' = [] \<or> (length fs' < most \<and> queued' + sz \<le> kMaximumQueuedBytes)"
      "\<forall>j < k. most \<le> length (drop j fs) \<or> kMaximumQueuedBytes < sum_list (map length (drop j fs)) + sz"
      by auto
    with True 2(3) show ?thesis
      by (intro exI [of _ "Suc k"]) (auto simp: less_Suc_eq_0_disj)
  next
    case False
    with 2 show ?thesis by (intro exI [of _ 0]) auto
  qed
qed

lemma enqueue_frames:
  assumes "queue_ok q" "frame \<noteq> []" "length frame \<le> kMaximumQueuedBytes"
  shows "\<exists>k \<le> length (frames q). frames (enqueue frame q) = drop k (frames q) @ [frame] \<and>
           queue_ok (enqueue frame q) \<and>
           (\<forall>j < k. maximum_queued_frames q \<le> length (drop j (frames q)) \<or>
                kMaximumQueuedBytes < sum_list (map length (drop j (frames q))) + length frame)"
proof -
  obtain fs' queued' where e:
    "evict (maximum_queued_frames q) (length frame) (frames q) (queued_bytes q) = (fs', queued')"
    by fastforce
  from evict_suffix [OF this] assms(1) obtain k where "k \<le> length (frames q)" "fs' = drop k (frames q)"
    "queued' = sum_list (map length fs')"
    "fs' = [] \<or> (length fs' < maximum_queued_frames q \<and> queued' + length frame \<le> kMaximumQueuedBytes)"
    "\<forall>j < k. maximum_queued_frames q \<le> length (drop j (frames q)) \<or>
        kMaximumQueuedBytes < sum_list (map length (drop j (frames q))) + length frame"
    by (auto simp: queue_ok_def)
  with e assms show ?thesis
    by (intro exI [of _ k]) (auto simp: queue_ok_def enqueue_def Suc_le_eq dest: in_set_dropD)
qed

lemma evict_is_drop: "\<exists>k. fst (evict most sz fs queued) = drop k fs"
proof (induction most sz fs queued rule: evict.induct)
  case (2 most sz f fs queued)
  then show ?case
    by (cases "most \<le> length (f # fs) \<or> kMaximumQueuedBytes < queued + sz")
       (auto intro: exI [of _ "Suc _"] exI [of _ 0])
qed simp

lemma enqueue_subseq: "subseq (frames (enqueue frame q)) (frames q @ [frame])"
proof -
  obtain k where "fst (evict (maximum_queued_frames q) (length frame) (frames q) (queued_bytes q)) = drop k (frames q)"
    using evict_is_drop by blast
  moreover have "subseq (drop k (frames q)) (frames q)"
    by (rule suffix_imp_subseq) (rule suffix_drop)
  ultimately show ?thesis
    by (auto simp: enqueue_def split: prod.splits intro: list_emb_append_mono)
qed

lemma enqueue_most [simp]: "maximum_queued_frames (enqueue frame q) = maximum_queued_frames q"
  by (simp add: enqueue_def split: prod.splits)

lemma queue_ok_enqueue: "queue_ok q \<Longrightarrow> queue_ok (enqueue frame q)"
  using enqueue_frames [of q frame] by (cases "frame = [] \<or> kMaximumQueuedBytes < length frame")
     (auto simp: enqueue_def)

lemma queue_ok_received [simp]: "queue_ok (q\<lparr>received_packets := n\<rparr>) = queue_ok (q :: audio_forwarder)"
  by (simp add: queue_ok_def)

interpretation audio: frame_queue audio_push audio_greet id
proof unfold_locales
  fix q p
  show "subseq (frames (audio_push p q)) (frames q @ [id p])"
    using enqueue_subseq [of p "q\<lparr>received_packets := Suc (received_packets q)\<rparr>"]
    by (auto simp: audio_push_def)
qed (auto simp: audio_push_def audio_greet_def queue_ok_enqueue)

lemma fold_note_nalu:
  "fold note_nalu ns (q, key) = (q', key') \<Longrightarrow>
     frames q' = frames q \<and> queued_bytes q' = queued_bytes q \<and> keyframe q' = keyframe q \<and>
     maximum_queued_frames q' = maximum_queued_frames q \<and> dump_fd q' = dump_fd q \<and>
     dump_bytes q' = dump_bytes q \<and>
     (sps q' = sps q \<or> (sps q' \<in> set ns \<and> nal_type (sps q') = 7)) \<and>
     (pps q' = pps q \<or> (pps q' \<in> set ns \<and> nal_type (pps q') = 8)) \<and>
     (key' \<longleftrightarrow> key \<or> (\<exists>n \<in> set ns. n \<noteq> [] \<and> nal_type n = 5))"
proof (induction ns arbitrary: q key)
  case Nil
  then show ?case by auto
next
  case (Cons n ns)
  obtain q1 key1 where n: "note_nalu n (q, key) = (q1, key1)" by fastforce
  with Cons.prems have "fold note_nalu ns (q1, key1) = (q', key')" by simp
  from Cons.IH [OF this] n show ?case
    by (elim conjE) (auto simp: note_nalu_def split: if_splits)
qed

definition has_idr :: "bytes \<Rightarrow> bool" where
  "has_idr frame = (\<exists>n \<in> set (nalus frame). nal_type n = 5)"

lemma dump_frame_fields [simp]:
  "frames (dump_frame turns f q) = frames q" "queued_bytes (dump_frame turns f q) = queued_bytes q"
  "keyframe (dump_frame turns f q) = keyframe q" "sps (dump_frame turns f q) = sps q"
  "maximum_queued_frames (dump_frame turns f q) = maximum_queued_frames q" "pps (dump_frame turns f q) = pps q"
  by (simp_all add: dump_frame_def Let_def)

lemma video_push_cases:
  obtains (ignored) "frame = [] \<or> kMaximumQueuedBytes < length frame" "video_push (turns, frame) q = q"
  | (pushed) "frame \<noteq> []" "length frame \<le> kMaximumQueuedBytes"
      "maximum_queued_frames (video_push (turns, frame) q) = maximum_queued_frames q"
      "sps (video_push (turns, frame) q) = sps q \<or>
        nal_unit (sps (video_push (turns, frame) q)) \<and> nal_type (sps (video_push (turns, frame) q)) = 7"
      "pps (video_push (turns, frame) q) = pps q \<or>
        nal_unit (pps (video_push (turns, frame) q)) \<and> nal_type (pps (video_push (turns, frame) q)) = 8"
      "has_idr frame \<Longrightarrow> frames (video_push (turns, frame) q) = [frame] \<and>
         queued_bytes (video_push (turns, frame) q) = length frame \<and>
         keyframe (video_push (turns, frame) q) = frame"
      "\<not> has_idr frame \<Longrightarrow> keyframe (video_push (turns, frame) q) = keyframe q \<and>
         (if length (frames q) < maximum_queued_frames q \<and> queued_bytes q + length frame \<le> kMaximumQueuedBytes
          then frames (video_push (turns, frame) q) = frames q @ [frame] \<and>
               queued_bytes (video_push (turns, frame) q) = queued_bytes q + length frame
          else frames (video_push (turns, frame) q) = frames q \<and>
               queued_bytes (video_push (turns, frame) q) = queued_bytes q)"
proof (cases "frame = [] \<or> kMaximumQueuedBytes < length frame")
  case True
  then show thesis by (auto simp: video_push_def intro: ignored)
next
  case False
  obtain q1 key where f: "fold note_nalu (nalus frame) (q, False) = (q1, key)" by fastforce
  note facts = fold_note_nalu [OF this]
  have key: "key \<longleftrightarrow> has_idr frame"
    using facts nalus_units [of _ frame] by (auto simp: has_idr_def nal_unit_def)
  have "nal_unit (sps q1) \<or> sps q1 = sps q" "nal_unit (pps q1) \<or> pps q1 = pps q"
    using facts nalus_units [of _ frame] by blast+
  with False facts key show thesis
    by (intro pushed) (auto simp: video_push_def f Let_def)
qed

lemma video_push_fits:
  assumes "\<not> has_idr u" "u \<noteq> []" "length (frames q) < maximum_queued_frames q"
    and "queued_bytes q + length u \<le> kMaximumQueuedBytes"
  shows "frames (video_push (turns, u) q) = frames q @ [u] \<and>
         queued_bytes (video_push (turns, u) q) = queued_bytes q + length u \<and>
         maximum_queued_frames (video_push (turns, u) q) = maximum_queued_frames q"
  by (rule video_push_cases [of u turns q]) (use assms in auto)

interpretation video: frame_queue video_push video_greet snd
proof unfold_locales
  fix q :: video_forwarder and p :: "(int \<times> bool) list \<times> bytes"
  obtain turns frame where p: "p = (turns, frame)" by fastforce
  show "queue_ok (video_push p q)" if "queue_ok q"
    unfolding p by (rule video_push_cases [of frame turns q]; cases "has_idr frame")
      (use that in \<open>auto simp: queue_ok_def split: if_splits\<close>)
  show "maximum_queued_frames (video_push p q) = maximum_queued_frames q"
    unfolding p by (rule video_push_cases [of frame turns q]) auto
  show "subseq (frames (video_push p q)) (frames q @ [snd p])"
    unfolding p by (rule video_push_cases [of frame turns q]; cases "has_idr frame")
      (auto split: if_splits intro: list_emb_append2)
qed (auto simp: video_greet_def queue_ok_def)

section \<open>Framing\<close>

definition frame_wire :: "bytes \<Rightarrow> bytes" where
  "frame_wire frame = media_header frame @ frame"

lemma length_media_header [simp]: "length (media_header f) = 4"
  by (simp add: media_header_def)

lemma send_all_prefix:
  "send_all turns bs = Some (ok, out, rest) \<Longrightarrow> prefix out bs \<and> (ok \<longrightarrow> out = bs)"
proof (induction turns arbitrary: bs ok out rest)
  case Nil
  then show ?case by (cases bs) auto
next
  case (Cons t turns)
  show ?case
  proof (cases "bs \<noteq> [] \<and> 0 < remaining t \<and> 0 < poll_ready t \<and> \<not> poll_error t \<and> 0 < send_count t")
    case True
    define n where "n = nat (send_count t)"
    from True Cons.prems obtain out' where s: "send_all turns (drop n bs) = Some (ok, out', rest)"
      and out: "out = take n bs @ out'"
      by (cases bs) (auto simp: n_def split: option.splits)
    from Cons.IH [OF s] have "prefix (take n bs @ out') (take n bs @ drop n bs)"
      "ok \<longrightarrow> take n bs @ out' = take n bs @ drop n bs"
      by (simp_all only: same_prefix_prefix) auto
    then show ?thesis by (simp only: append_take_drop_id out)
  next
    case False
    with Cons show ?thesis by (cases bs) (auto split: if_splits)
  qed
qed

lemma send_frame_wire:
  assumes "send_frame stop1 stop2 turns f = Some (ok, out, rest)"
  shows "prefix out (frame_wire f) \<and> (ok \<longrightarrow> out = frame_wire f)"
  using assms send_all_prefix [of turns "media_header f"] send_all_prefix [of _ f]
  by (auto simp: send_frame_def frame_wire_def split: if_splits option.splits bool.splits prod.splits)

lemma send_all_returns:
  "t \<in> set turns \<Longrightarrow> remaining t \<le> 0 \<Longrightarrow> send_all turns bs \<noteq> None"
proof (induction turns arbitrary: bs)
  case (Cons t' turns)
  show ?case
  proof (cases "remaining t' \<le> 0")
    case True
    then show ?thesis by (cases bs) auto
  next
    case False
    with Cons have "send_all turns xs \<noteq> None" for xs by auto
    with False show ?thesis by (cases bs) (simp_all del: not_None_eq split: option.split prod.split)
  qed
qed simp

section \<open>Every video client starts at a keyframe\<close>

definition cache_ok :: "video_forwarder \<Rightarrow> bool" where
  "cache_ok q =
     ((keyframe q \<noteq> [] \<longrightarrow> has_idr (keyframe q)) \<and>
      (sps q \<noteq> [] \<longrightarrow> nal_unit (sps q) \<and> nal_type (sps q) = 7) \<and>
      (pps q \<noteq> [] \<longrightarrow> nal_unit (pps q) \<and> nal_type (pps q) = 8))"

text \<open>What is left to send begins with a keyframe.\<close>

definition entry_first :: "bytes list \<Rightarrow> bool" where
  "entry_first fs = (fs \<noteq> [] \<and> has_idr (hd fs))"

definition config_ok :: "bytes \<Rightarrow> bool" where
  "config_ok config = (map nal_type (nalus config) = [7, 8])"

definition greeted :: "bytes list \<Rightarrow> bytes list \<Rightarrow> bytes \<Rightarrow> bool" where
  "greeted greeting units out =
     (out = concat (map frame_wire (greeting @ units)) \<and> length greeting \<le> 1 \<and>
      (\<forall>g \<in> set greeting. config_ok g))"

definition client_ok :: "video_forwarder media_world \<Rightarrow> bool" where
  "client_ok s = (cache_ok (shared s) \<and>
     (case worker s of
        Listening \<Rightarrow> True
      | Accepted _ \<Rightarrow> sent s = []
      | Greeting _ config has \<Rightarrow> sent s = [] \<and> (config \<noteq> [] \<longrightarrow> config_ok config) \<and>
          (has \<longrightarrow> entry_first (frames (shared s)))
      | Serving _ has \<Rightarrow> \<exists>greeting units. greeted greeting units (sent s) \<and>
          (has \<longrightarrow> entry_first (units @ frames (shared s)))
      | Sending _ has f \<Rightarrow> \<exists>greeting units. greeted greeting units (sent s) \<and>
          (has \<longrightarrow> entry_first (units @ [f]))))"

lemma entry_first_append: "entry_first xs \<Longrightarrow> entry_first (xs @ ys)"
  by (simp add: entry_first_def)

lemma video_push_cache: "cache_ok q \<Longrightarrow> cache_ok (video_push p q)"
  by (cases p, simp, rule video_push_cases [of "snd p" "fst p" q]; cases "has_idr (snd p)")
     (auto simp: cache_ok_def)

lemma video_push_entry:
  "entry_first (units @ frames q) \<Longrightarrow> entry_first (units @ frames (video_push p q))"
  by (cases p, simp, rule video_push_cases [of "snd p" "fst p" q]; cases "has_idr (snd p)")
     (auto simp: entry_first_def hd_append split: if_splits)

lemma video_greet_ok:
  assumes "cache_ok q" "video_greet q = (config, has, q')"
  shows "cache_ok q' \<and> (config \<noteq> [] \<longrightarrow> config_ok config) \<and> (has \<longrightarrow> entry_first (frames q'))"
proof -
  have "config_ok ([0, 0, 0, 1] @ sps q @ [0, 0, 0, 1] @ pps q)" if "sps q \<noteq> []" "pps q \<noteq> []"
    using nalus_annexb [of "[sps q, pps q]"] assms(1) that by (simp add: cache_ok_def config_ok_def)
  with assms show ?thesis
    by (auto simp: video_greet_def cache_ok_def entry_first_def split: if_splits)
qed

lemma greeted_start:
  "greeted [] [] []" "config_ok config \<Longrightarrow> greeted [config] [] (frame_wire config)"
  by (simp_all add: greeted_def)

lemma greeted_send: "greeted greeting units out \<Longrightarrow> greeted greeting (units @ [f]) (out @ frame_wire f)"
  by (simp add: greeted_def)

lemma client_ok_step:
  "media_step video_push video_greet s s' \<Longrightarrow> client_ok s \<Longrightarrow> client_ok s'"
proof (induction rule: media_step.induct)
  case (push s p)
  then show ?case
    using video_push_entry [of "[]"]
    by (auto simp: client_ok_def video_push_cache split: worker_phase.splits) (blast intro: video_push_entry)+
next
  case (connect s fd config has_keyframe q)
  with video_greet_ok [OF _ connect(2)] show ?case by (simp add: client_ok_def)
next
  case (greet_none s fd has_keyframe)
  then show ?case using greeted_start(1) by (fastforce simp: client_ok_def)
next
  case (greet_sent s fd config has_keyframe turns out rest)
  from send_frame_wire [OF greet_sent(3)] have "out = frame_wire config" by simp
  with greet_sent greeted_start(2) show ?case by (fastforce simp: client_ok_def)
next
  case (take s fd has_keyframe f fs)
  then show ?case
    by (auto simp: client_ok_def take_frame_def cache_ok_def entry_first_def hd_append split: if_splits)
next
  case (send_sent s fd has_keyframe f stop1 stop2 turns out rest)
  from send_frame_wire [OF send_sent(3)] have "out = frame_wire f" by simp
  moreover from send_sent obtain greeting units where "greeted greeting units (sent s)"
    "has_keyframe \<longrightarrow> entry_first (units @ [f])" "cache_ok (shared s)" by (auto simp: client_ok_def)
  moreover from this have "greeted greeting (units @ [f]) (sent s @ frame_wire f)"
    "has_keyframe \<longrightarrow> entry_first ((units @ [f]) @ frames (shared s))"
    using greeted_send entry_first_append by blast+
  ultimately show ?case
    unfolding client_ok_def
    by (simp del: append_assoc) (intro exI [of _ greeting] exI [of _ "units @ [f]"], blast)
qed (auto simp: client_ok_def split: worker_phase.splits)

section \<open>The readers\<close>

definition smooth :: "recv_turn list \<Rightarrow> bool" where
  "smooth turns = list_all (\<lambda>t. case t of Stop \<Rightarrow> False | Idle \<Rightarrow> True | Recv n \<Rightarrow> 0 < n) turns"

fun reads :: "recv_turn list \<Rightarrow> nat" where
  "reads [] = 0"
| "reads (Recv n # turns) = Suc (reads turns)"
| "reads (_ # turns) = reads turns"

lemma reads_replicate [simp]: "reads (replicate n (Recv k)) = n"
  by (induction n) auto

lemma smooth_replicate [simp]: "0 < k \<Longrightarrow> smooth (replicate n (Recv k))"
  by (induction n) (auto simp: smooth_def)

lemma receive_all_smooth:
  assumes "smooth turns" "n \<le> reads turns" "n \<le> length input"
  shows "\<exists>ts. receive_all turns input n = Some (True, take n input, drop n input, ts) \<and>
           smooth ts \<and> reads turns \<le> reads ts + n"
  using assms
proof (induction turns input n rule: receive_all.induct)
  case (5 count turns input n)
  define k where "k = min (nat count) (Suc n)"
  from 5(2) have k: "0 < count" "1 \<le> k" "k \<le> Suc n" by (auto simp: smooth_def k_def)
  have "smooth turns" "Suc n - k \<le> reads turns" "Suc n - k \<le> length (drop k input)"
    using 5(2-4) k by (auto simp: smooth_def)
  with 5(1) [OF _ k_def] k(1) obtain ts where r:
    "receive_all turns (drop k input) (Suc n - k) =
       Some (True, take (Suc n - k) (drop k input), drop (Suc n - k) (drop k input), ts)"
    "smooth ts" "reads turns \<le> reads ts + (Suc n - k)"
    by (meson not_le)
  have "take k input @ take (Suc n - k) (drop k input) = take (Suc n) input"
    using k(3) take_add [of k "Suc n - k" input] by simp
  then have "receive_all (Recv count # turns) input (Suc n) =
      Some (True, take (Suc n) input, drop (Suc n) input, ts)"
    using r(1) k(1,3) by (simp add: Let_def k_def [symmetric])
  moreover have "reads (Recv count # turns) \<le> reads ts + Suc n" using r(3) k(2,3) by simp
  ultimately show ?case using r(2) by blast
qed (simp_all add: smooth_def)

lemma receive_all_exact:
  assumes "receive_all turns input n = Some (True, got, rest, ts)" "n \<le> length input"
  shows "got = take n input \<and> rest = drop n input"
  using assms
proof (induction turns input n arbitrary: got rest ts rule: receive_all.induct)
  case (5 count turns input n)
  define k where "k = min (nat count) (Suc n)"
  from 5(2) obtain got' where c: "0 < count" and r:
    "receive_all turns (drop k input) (Suc n - k) = Some (True, got', rest, ts)" "got = take k input @ got'"
    by (auto simp: Let_def k_def [symmetric] split: if_splits option.splits)
  have k: "k \<le> Suc n" "Suc n - k \<le> length (drop k input)" using 5(3) by (auto simp: k_def)
  have "got' = take (Suc n - k) (drop k input) \<and> rest = drop (Suc n - k) (drop k input)"
    using 5(1) [OF _ k_def, of got' rest ts] c r(1) k(2) by simp
  moreover have "take k input @ take (Suc n - k) (drop k input) = take (Suc n) input"
    using k(1) take_add [of k "Suc n - k" input] by simp
  ultimately show ?case using r(2) k(1) by simp
qed auto

lemma unat_media_header: "length f < 2 ^ 32 \<Longrightarrow> unat (be_value (media_header f)) = length f"
  using unat_be_value_of_nat [of "length f" 4] by (simp add: media_header_def)

lemma reader_next_wire:
  assumes "f \<noteq> []" "length f \<le> limit" "limit < 2 ^ 32" "smooth turns" "4 + length f \<le> reads turns"
  shows "\<exists>ts. reader_next limit turns (frame_wire f @ input) = Some (Some f, input, ts)"
proof -
  from receive_all_smooth [OF assms(4), of 4 "frame_wire f @ input"] assms(5)
  obtain ts where h: "receive_all turns (frame_wire f @ input) 4 = Some (True, media_header f, f @ input, ts)"
    "smooth ts" "length f \<le> reads ts"
    by (auto simp: frame_wire_def)
  from receive_all_smooth [OF h(2,3), of "f @ input"]
  obtain ts' where "receive_all ts (f @ input) (length f) = Some (True, f, input, ts')" by auto
  with h(1) assms(1-3) show ?thesis
    by (auto simp: reader_next_def unat_media_header Let_def)
qed

lemma reader_next_exact:
  assumes "reader_next limit turns (frame_wire f @ input) = Some (Some g, rest, ts)" "length f < 2 ^ 32"
  shows "g = f \<and> rest = input"
proof -
  from assms(1) obtain h i1 t1 where h: "receive_all turns (frame_wire f @ input) 4 = Some (True, h, i1, t1)"
    by (auto simp: reader_next_def split: option.splits bool.splits)
  from receive_all_exact [OF this] have hi: "h = media_header f" "i1 = f @ input"
    by (auto simp: frame_wire_def)
  with assms h obtain t2 where "receive_all t1 (f @ input) (length f) = Some (True, g, rest, t2)"
    by (auto simp: reader_next_def unat_media_header Let_def split: option.splits if_splits)
  from receive_all_exact [OF this] show ?thesis by simp
qed

lemma reader_next_oversized:
  assumes "limit < length f" "length f < 2 ^ 32"
    "reader_next limit turns (frame_wire f @ input) = Some (g, rest, ts)"
  shows "g = None"
proof (rule ccontr)
  assume "g \<noteq> None"
  with assms(3) obtain h i1 t1 where h: "receive_all turns (frame_wire f @ input) 4 = Some (True, h, i1, t1)"
    by (auto simp: reader_next_def split: option.splits bool.splits)
  from receive_all_exact [OF this] have "h = media_header f" by (auto simp: frame_wire_def)
  with assms h \<open>g \<noteq> None\<close> show False by (auto simp: reader_next_def unat_media_header Let_def)
qed

section \<open>Properties\<close>

lemma new_video_ok: "queue_ok (new_video os path dos dump)" "cache_ok (new_video os path dos dump)"
  "maximum_queued_frames (new_video os path dos dump) = 600"
  by (simp_all add: queue_ok_def new_video_def cache_ok_def kMaximumQueuedFrames_def)

lemma new_audio_ok: "queue_ok (new_audio os path)" "maximum_queued_frames (new_audio os path) = 100"
  by (simp_all add: queue_ok_def new_audio_def)

lemma client_ok_reachable:
  assumes "(media_step video_push video_greet)\<^sup>*\<^sup>* (start_world (new_video os path dos dump)) s"
  shows "client_ok s"
  using assms
proof (induction rule: rtranclp_induct)
  case base
  then show ?case by (simp add: client_ok_def start_world_def new_video_ok)
qed (rule client_ok_step)

text \<open>
  C11: Whatever the producers and the worker thread do, a video client that was accepted when
  a keyframe was cached is sent at most one configuration frame, which splits into exactly a
  sequence and a picture parameter set, and then complete access units of which the first
  holds an IDR slice: it can decode from its first unit.
\<close>

theorem video_client_starts_at_keyframe:
  assumes "(media_step video_push video_greet)\<^sup>*\<^sup>* (start_world (new_video os path dos dump)) s"
    and "worker s = Serving fd True"
  shows "\<exists>greeting units. sent s = concat (map frame_wire (greeting @ units)) \<and>
           length greeting \<le> 1 \<and> (\<forall>g \<in> set greeting. map nal_type (nalus g) = [7, 8]) \<and>
           (units \<noteq> [] \<longrightarrow> has_idr (hd units))"
proof -
  from client_ok_reachable [OF assms(1)] assms(2) obtain greeting units
    where "greeted greeting units (sent s)" "entry_first (units @ frames (shared s))"
    by (auto simp: client_ok_def)
  then show ?thesis
    by (intro exI [of _ greeting] exI [of _ units]) (auto simp: greeted_def config_ok_def entry_first_def)
qed

definition idr_frame :: bytes where
  "idr_frame = [0, 0, 0, 1, 0x65]"

definition open_os :: listen_os where
  "open_os = \<lparr>socket_result = 3, bind_result = 0, chmod_result = 0, listen_result = 0\<rparr>"

definition no_dump :: dump_os where
  "no_dump = \<lparr>open_result = -1, fstat_result = 0, S_ISREG = False, st_nlink = 0, st_uid = 0, geteuid = 0,
     fchmod_result = 0, ftruncate_result = 0\<rparr>"

definition idr_queue :: video_forwarder where
  "idr_queue = video_push ([], idr_frame) (new_video open_os ''v'' no_dump None)"

definition willing :: send_turn where
  "willing = \<lparr>remaining = 2000, poll_ready = 1, poll_eintr = False, poll_error = False, send_count = 100,
     send_again = False\<rparr>"

lemma nalus_idr_frame [simp]: "nalus idr_frame = [[0x65]]"
  using nalus_annexb [of "[[0x65]]"]
  by (simp add: idr_frame_def nal_unit_def three_def)

lemma has_idr_frame [simp]: "has_idr idr_frame" "idr_frame \<noteq> []" "length idr_frame = 5"
  by (simp_all add: has_idr_def nal_type_def) (simp_all add: idr_frame_def)

lemma idr_queue_simps [simp]:
  "frames idr_queue = [idr_frame]" "keyframe idr_queue = idr_frame" "sps idr_queue = []"
  by (simp_all add: idr_queue_def video_push_def note_nalu_def nal_type_def new_video_def
        kMaximumQueuedBytes_def dump_frame_def open_dump_def)

lemma send_idr_frame:
  "send_frame False False [willing, willing] idr_frame = Some (True, frame_wire idr_frame, [])"
  by (simp add: send_frame_def frame_wire_def media_header_def be_bytes_def idr_frame_def willing_def
        numeral_eq_Suc)

lemma idr_run:
  "(media_step video_push video_greet)\<^sup>*\<^sup>* (start_world (new_video open_os ''v'' no_dump None))
     \<lparr>shared = take_frame idr_queue, worker = Serving 4 True, client = 4, stop_requested = False,
      sent = frame_wire idr_frame\<rparr>"
proof -
  let ?w = "\<lambda>q p out. \<lparr>shared = q, worker = p, client = 4, stop_requested = False, sent = out\<rparr>"
  let ?start = "start_world (new_video open_os ''v'' no_dump None)"
  note step = rtranclp.rtrancl_into_rtrancl
  let ?idle = "start_world idr_queue"
  have greet: "video_greet idr_queue = ([], True, idr_queue)" by (simp add: video_greet_def)
  have "(media_step video_push video_greet)\<^sup>*\<^sup>* ?start ?idle"
    using media_step.push [of video_push video_greet ?start "([], idr_frame)"]
    by (simp add: start_world_def idr_queue_def)
  from step [OF this media_step.accept [of ?idle 4]]
  have "(media_step video_push video_greet)\<^sup>*\<^sup>* ?start (?w idr_queue (Accepted 4) [])"
    by (simp add: start_world_def)
  from step [OF this media_step.connect [of "?w idr_queue (Accepted 4) []" 4 video_greet "[]" True idr_queue]]
  have "(media_step video_push video_greet)\<^sup>*\<^sup>* ?start (?w idr_queue (Greeting 4 [] True) [])"
    using greet by simp
  from step [OF this media_step.greet_none [of "?w idr_queue (Greeting 4 [] True) []" 4 True]]
  have "(media_step video_push video_greet)\<^sup>*\<^sup>* ?start (?w idr_queue (Serving 4 True) [])" by simp
  from step [OF this media_step.take [of "?w idr_queue (Serving 4 True) []" 4 True idr_frame "[]"]]
  have "(media_step video_push video_greet)\<^sup>*\<^sup>* ?start (?w (take_frame idr_queue) (Sending 4 True idr_frame) [])"
    by simp
  from step [OF this media_step.send_sent [of _ 4 True idr_frame False False "[willing, willing]"
      "frame_wire idr_frame" "[]" video_push video_greet]] send_idr_frame
  show ?thesis by simp
qed

theorem video_client_starts_at_keyframe_witness:
  "\<exists>greeting units. frame_wire idr_frame = concat (map frame_wire (greeting @ units)) \<and>
     length greeting \<le> 1 \<and> (\<forall>g \<in> set greeting. map nal_type (nalus g) = [7, 8]) \<and>
     (units \<noteq> [] \<longrightarrow> has_idr (hd units))"
  using video_client_starts_at_keyframe [OF idr_run] by simp

text \<open>
  In every reachable state of both threads the queue holds at most 600 video frames (100
  audio packets) and 16 MiB, none of them empty, and the byte counter is exact, so its
  subtractions never wrap.
\<close>

theorem media_queue_bounded:
  assumes "(media_step video_push video_greet)\<^sup>*\<^sup>* (start_world (new_video os path dos dump)) s"
    and "(media_step audio_push audio_greet)\<^sup>*\<^sup>* (start_world (new_audio os' path')) t"
  shows "length (frames (shared s)) \<le> 600 \<and> length (frames (shared t)) \<le> 100 \<and>
         queued_bytes (shared s) = sum_list (map length (frames (shared s))) \<and>
         queued_bytes (shared t) = sum_list (map length (frames (shared t))) \<and>
         queued_bytes (shared s) \<le> 16 * 1024 * 1024 \<and> queued_bytes (shared t) \<le> 16 * 1024 * 1024 \<and>
         [] \<notin> set (frames (shared s)) \<and> [] \<notin> set (frames (shared t))"
  using video.reachable_ok [OF assms(1)] audio.reachable_ok [OF assms(2)]
  by (simp add: start_world_def new_video_ok new_audio_ok) (simp add: queue_ok_def kMaximumQueuedBytes_def)

theorem media_queue_bounded_witness:
  "queued_bytes idr_queue = sum_list (map length (frames idr_queue))"
proof -
  have "(media_step video_push video_greet)\<^sup>*\<^sup>* (start_world (new_video open_os ''v'' no_dump None))
          (start_world idr_queue)"
    using media_step.push [of video_push video_greet "start_world (new_video open_os ''v'' no_dump None)"
        "([], idr_frame)"]
    by (simp add: start_world_def idr_queue_def)
  from media_queue_bounded [OF this, of open_os "''a''" "start_world (new_audio open_os ''a'')"]
  show ?thesis by (simp add: start_world_def)
qed

text \<open>
  Frames are neither invented, duplicated nor reordered: for every sequence of pushes and
  takes, what the worker took followed by what is still queued is a subsequence of what was
  queued followed by what was pushed, for the video and for the audio queue.
\<close>

theorem media_delivered_in_order:
  "(case queue_run video_push ops q of
      (taken, q') \<Rightarrow> subseq (taken @ frames q') (frames q @ map snd (pushed ops))) \<and>
   (case queue_run audio_push aops a of
      (taken, a') \<Rightarrow> subseq (taken @ frames a') (frames a @ pushed aops))"
  using video.run_subseq [of ops q] audio.run_subseq [of aops a] by (auto split: prod.splits)

text \<open>
  A packet pushed to the audio queue is always queued, at the end; exactly the longest
  suffix of the queue that leaves room for it is kept, so audio lags behind by a bounded
  amount and never loses the newest packet.
\<close>

theorem audio_push_keeps_newest:
  assumes "queue_ok q" "pcm \<noteq> []" "length pcm \<le> kMaximumQueuedBytes"
  shows "\<exists>k \<le> length (frames q). frames (audio_push pcm q) = drop k (frames q) @ [pcm] \<and>
           queue_ok (audio_push pcm q) \<and>
           (\<forall>j < k. maximum_queued_frames q \<le> length (drop j (frames q)) \<or>
                kMaximumQueuedBytes < sum_list (map length (drop j (frames q))) + length pcm)"
  using enqueue_frames [of "q\<lparr>received_packets := Suc (received_packets q)\<rparr>" pcm] assms
  by (simp add: audio_push_def)

theorem audio_push_keeps_newest_witness:
  "queue_ok (audio_push [1] (new_audio open_os ''a''))"
  using audio_push_keeps_newest [of "new_audio open_os ''a''" "[1]"]
  by (auto simp: new_audio_ok kMaximumQueuedBytes_def)

text \<open>
  Between a keyframe and the moment a client takes frames, the video queue is exactly the
  keyframe followed by every later access unit, as long as they fit: the newest decoder
  entry point and all that depends on it.
\<close>

theorem video_keeps_keyframe_sequence:
  assumes "has_idr key" "key \<noteq> []" "\<forall>u \<in> set units. u \<noteq> [] \<and> \<not> has_idr u"
    and "maximum_queued_frames q = 600" "length units < 600"
    and "length key + sum_list (map length units) \<le> kMaximumQueuedBytes"
  shows "frames (fold (\<lambda>u. video_push (turns, u)) (key # units) q) = key # units"
proof -
  define q0 where "q0 = video_push (turns, key) q"
  have q0: "frames q0 = [key] \<and> queued_bytes q0 = length key \<and> maximum_queued_frames q0 = 600"
    unfolding q0_def by (rule video_push_cases [of key turns q]) (use assms in auto)
  have "frames (fold (\<lambda>u. video_push (turns, u)) us q0) = key # us \<and>
        queued_bytes (fold (\<lambda>u. video_push (turns, u)) us q0) = length key + sum_list (map length us) \<and>
        maximum_queued_frames (fold (\<lambda>u. video_push (turns, u)) us q0) = 600"
    if "\<forall>u \<in> set us. u \<noteq> [] \<and> \<not> has_idr u" "length us < 600"
      "length key + sum_list (map length us) \<le> kMaximumQueuedBytes" for us
    using that
  proof (induction us rule: rev_induct)
    case Nil
    then show ?case using q0 by simp
  next
    case (snoc u us)
    then show ?case
      using video_push_fits [of u "fold (\<lambda>u. video_push (turns, u)) us q0" turns] by simp
  qed
  with assms show ?thesis by (simp add: q0_def)
qed

theorem video_keeps_keyframe_sequence_witness:
  "frames (fold (\<lambda>u. video_push ([], u)) [idr_frame, [7]] idr_queue) = [idr_frame, [7]]"
proof (rule video_keeps_keyframe_sequence)
  show "\<forall>u \<in> set [[7]]. u \<noteq> [] \<and> \<not> has_idr u" by (simp add: has_idr_def nalus_short)
  show "maximum_queued_frames idr_queue = 600"
    using video.push_most new_video_ok(3) by (simp add: idr_queue_def)
qed (simp_all add: kMaximumQueuedBytes_def)

text \<open>
  The framing is undone by the reader: when \<open>send_frame\<close> reports success, the reader of
  the socket obtains exactly the frame and leaves what follows it, however the bytes are cut;
  it does so as soon as enough reads succeed.  A frame above the reader's limit makes it
  report the end of the stream.
\<close>

theorem media_frame_roundtrip:
  assumes "send_frame stop1 stop2 turns f = Some (True, out, sturns)" "f \<noteq> []" "length f < 2 ^ 32"
  shows "(video_next rturns (out @ input) = Some (Some g, rest, ts) \<longrightarrow> g = f \<and> rest = input) \<and>
         (length f \<le> kMaximumVideoFrame \<longrightarrow> smooth rturns \<longrightarrow> 4 + length f \<le> reads rturns \<longrightarrow>
            (\<exists>ts. video_next rturns (out @ input) = Some (Some f, input, ts))) \<and>
         (kMaximumVideoFrame < length f \<longrightarrow> video_next rturns (out @ input) = Some (r, rest, ts) \<longrightarrow> r = None)"
proof -
  have out: "out = frame_wire f" using send_frame_wire [OF assms(1)] by simp
  show ?thesis
    unfolding video_next_def out
    using reader_next_exact [of kMaximumVideoFrame rturns f input g rest ts]
      reader_next_wire [OF assms(2), of kMaximumVideoFrame rturns input]
      reader_next_oversized [of kMaximumVideoFrame f rturns input r rest ts] assms(3)
    by (auto simp: kMaximumVideoFrame_def)
qed

theorem media_frame_roundtrip_witness:
  "\<exists>ts. video_next (replicate 9 (Recv 1)) (frame_wire idr_frame @ [9]) = Some (Some idr_frame, [9], ts)"
  using media_frame_roundtrip [OF send_idr_frame, of "replicate 9 (Recv 1)" "[9]"]
  by (simp add: kMaximumVideoFrame_def)

section \<open>A client that connects before the first keyframe\<close>

text \<open>
  A client accepted before any keyframe is greeted with an empty queue, but a later access
  unit without an IDR slice is then queued and sent to it.
\<close>

lemma client_before_keyframe_is_sent_dependent_frames:
  "frames (video_push ([], [7]) (snd (snd (video_greet (new_video open_os ''v'' no_dump None))))) = [[7]] \<and>
   \<not> has_idr [7]"
  using video_push_fits [of "[7]" "snd (snd (video_greet (new_video open_os ''v'' no_dump None)))" "[]"]
  by (simp add: has_idr_def nalus_short video_greet_def new_video_def kMaximumQueuedBytes_def
      kMaximumQueuedFrames_def)

end
