(* ===== verification/Bplist.thy ===== *)
theory Bplist
  imports Bytes_Prelude "HOL-Library.Char_ord" "HOL-Library.List_Lexorder"
begin

text \<open>
  The binary property lists of the AirPlay session (\<open>src/src/airplay/bplist.cpp\<close>): the value type,
  the encoder with its node table and the decoder with its budgets.  A \<open>double\<close> is its 64-bit
  pattern (\<open>std::bit_cast\<close> is then the identity); a dictionary, a \<open>std::map\<close> ordered by
  key, is an association list kept in that order; \<open>nodes_\<close> is a list of pairs of the bytes
  and the references of a \<open>Node\<close>.  The two \<open>mutable\<close> counters of the decoder are
  passed from call to call.
\<close>

section \<open>Values\<close>

datatype plist =
    PBool bool
  | PInt u64
  | PReal u64
  | PText string
  | PData bytes
  | PArray "plist list"
  | PDict "(string \<times> plist) list"

section \<open>Numbers\<close>

definition magic :: bytes where
  "magic = bytes_of ''bplist00''"

definition append_be :: "bytes \<Rightarrow> u64 \<Rightarrow> nat \<Rightarrow> bytes" where
  "append_be target v sz = target @ be_bytes sz v"

definition read_be :: "bytes \<Rightarrow> nat \<Rightarrow> nat \<Rightarrow> u64 option" where
  "read_be bs offset sz =
     (if 8 < sz \<or> length bs < offset \<or> length bs - offset < sz then None
      else Some (be_value (take sz (drop offset bs))))"

definition bytes_for :: "u64 \<Rightarrow> nat" where
  "bytes_for v = (if v \<le> 0xff then 1 else if v \<le> 0xffff then 2 else if v \<le> 0xffffffff then 4 else 8)"

definition log2_bytes :: "nat \<Rightarrow> byte" where
  "log2_bytes sz = (if sz = 1 then 0 else if sz = 2 then 1 else if sz = 4 then 2 else 3)"

definition count_marker :: "byte \<Rightarrow> nat \<Rightarrow> bytes" where
  "count_marker type count =
     (if count < 15 then [push_bit 4 type OR of_nat count]
      else (let sz = bytes_for (of_nat count)
            in append_be [push_bit 4 type OR 15, 0x10 OR log2_bytes sz] (of_nat count) sz))"

definition integer :: "u64 \<Rightarrow> bytes" where
  "integer v = (let sz = bytes_for v in append_be [0x10 OR log2_bytes sz] v sz)"

section \<open>Encoder\<close>

type_synonym node = "bytes \<times> nat list"

text \<open>The loop over the keys of a dictionary: each becomes a text node.\<close>

fun add_keys :: "(string \<times> plist) list \<Rightarrow> node list \<Rightarrow> nat list \<times> node list" where
  "add_keys [] nodes = ([], nodes)"
| "add_keys ((key, v) # kvs) nodes =
     (case add_keys kvs (nodes @ [(count_marker 5 (length key) @ bytes_of key, [])]) of
        (refs, nodes') \<Rightarrow> (length nodes # refs, nodes'))"

text \<open>\<open>add\<close> reserves a node, encodes the value and its parts, and fills the node in.\<close>

fun add :: "plist \<Rightarrow> node list \<Rightarrow> node list"
  and add_items :: "plist list \<Rightarrow> node list \<Rightarrow> nat list \<times> node list"
  and add_values :: "(string \<times> plist) list \<Rightarrow> node list \<Rightarrow> nat list \<times> node list"
where
  "add (PBool b) nodes = (nodes @ [([], [])])[length nodes := ([if b then 0x09 else 0x08], [])]"
| "add (PInt v) nodes = (nodes @ [([], [])])[length nodes := (integer v, [])]"
| "add (PReal v) nodes = (nodes @ [([], [])])[length nodes := (append_be [0x23] v 8, [])]"
| "add (PText s) nodes =
     (nodes @ [([], [])])[length nodes := (count_marker 5 (length s) @ bytes_of s, [])]"
| "add (PData bs) nodes =
     (nodes @ [([], [])])[length nodes := (count_marker 4 (length bs) @ bs, [])]"
| "add (PArray vs) nodes =
     (case add_items vs (nodes @ [([], [])]) of
        (refs, nodes') \<Rightarrow> nodes'[length nodes := (count_marker 0xa (length refs), refs)])"
| "add (PDict kvs) nodes =
     (case add_keys kvs (nodes @ [([], [])]) of
        (krefs, nodes1) \<Rightarrow>
          (case add_values kvs nodes1 of
             (vrefs, nodes2) \<Rightarrow> nodes2[length nodes := (count_marker 0xd (length kvs), krefs @ vrefs)]))"
| "add_items [] nodes = ([], nodes)"
| "add_items (v # vs) nodes =
     (case add_items vs (add v nodes) of (refs, nodes') \<Rightarrow> (length nodes # refs, nodes'))"
| "add_values [] nodes = ([], nodes)"
| "add_values ((key, v) # kvs) nodes =
     (case add_values kvs (add v nodes) of (refs, nodes') \<Rightarrow> (length nodes # refs, nodes'))"

text \<open>The loop of \<open>finish\<close> that lays the nodes out and records their offsets.\<close>

fun layout :: "nat \<Rightarrow> node list \<Rightarrow> bytes \<Rightarrow> nat list \<times> bytes" where
  "layout ref_size [] result = ([], result)"
| "layout ref_size ((bs, refs) # nodes) result =
     (case layout ref_size nodes
             (fold (\<lambda>ref acc. append_be acc (of_nat ref) ref_size) refs (result @ bs)) of
        (offsets, result') \<Rightarrow> (length result # offsets, result'))"

definition finish :: "node list \<Rightarrow> nat \<Rightarrow> bytes" where
  "finish nodes root =
     (let ref_size = bytes_for (of_nat (length nodes - 1))
      in case layout ref_size nodes magic of
           (offsets, result) \<Rightarrow>
             (let offset_table = length result;
                  offset_size = bytes_for (of_nat offset_table);
                  result = fold (\<lambda>offset acc. append_be acc (of_nat offset) offset_size) offsets result;
                  result = result @ replicate 6 0 @ [of_nat offset_size] @ [of_nat ref_size];
                  result = append_be result (of_nat (length nodes)) 8;
                  result = append_be result (of_nat root) 8
              in append_be result (of_nat offset_table) 8))"

definition encode_bplist :: "plist \<Rightarrow> bytes" where
  "encode_bplist root = finish (add root []) 0"

section \<open>Decoder\<close>

definition kMaxDepth :: nat where
  "kMaxDepth = 64"

definition kMaxMaterializedNodes :: nat where
  "kMaxMaterializedNodes = 65536"

definition kMaxMaterializedBytes :: nat where
  "kMaxMaterializedBytes = 8 * 1024 * 1024"

record decoder =
  dbytes :: bytes
  ref_size :: nat
  offsets :: "nat list"

definition count :: "decoder \<Rightarrow> nat \<Rightarrow> byte \<Rightarrow> (nat \<times> nat) option" where
  "count d offset nibble =
     (if nibble \<noteq> 15 then Some (unat nibble, offset + 1)
      else if length (dbytes d) < offset + 2 \<or> drop_bit 4 (dbytes d ! (offset + 1)) \<noteq> 1 then None
      else (let sz = 2 ^ unat (dbytes d ! (offset + 1) AND 15)
            in map_option (\<lambda>v. (unat v, offset + 2 + sz)) (read_be (dbytes d) (offset + 2) sz)))"

text \<open>
  \<open>static_cast<double>(std::bit_cast<float>(bits))\<close> on the bit patterns (IEEE 754): sign, exponent
  rebased from 127 to 1023, fraction widened; subnormals are normalised, a NaN is quiet.
\<close>

fun normalise :: "nat \<Rightarrow> u64 \<Rightarrow> u64 \<Rightarrow> u64 \<times> u64" where
  "normalise 0 e f = (e, f)"
| "normalise (Suc n) e f = (if bit f 23 then (e, f) else normalise n (e - 1) (push_bit 1 f))"

definition widen_float :: "u32 \<Rightarrow> u64" where
  "widen_float v =
     (let sign = push_bit 63 (ucast (drop_bit 31 v));
          e = ucast (drop_bit 23 v AND 0xff) :: u64;
          f = ucast (v AND 0x7fffff) :: u64
      in if e = 0xff then sign OR push_bit 52 0x7ff OR
              (if f = 0 then 0 else push_bit 51 1 OR push_bit 29 f)
         else if e = 0 then
           (if f = 0 then sign
            else (case normalise 23 897 f of
                    (e, f) \<Rightarrow> sign OR push_bit 52 e OR push_bit 29 (f AND 0x7fffff)))
         else sign OR push_bit 52 (e + 896) OR push_bit 29 f)"

text \<open>The UTF-16 units of a type-6 text, each as one to three bytes.\<close>

definition utf8_unit :: "u16 \<Rightarrow> string" where
  "utf8_unit code =
     (if code < 0x80 then [char_of_byte (ucast code)]
      else if code < 0x800 then
        [char_of_byte (ucast (0xc0 OR drop_bit 6 code)), char_of_byte (ucast (0x80 OR (code AND 0x3f)))]
      else
        [char_of_byte (ucast (0xe0 OR drop_bit 12 code)),
         char_of_byte (ucast (0x80 OR (drop_bit 6 code AND 0x3f))),
         char_of_byte (ucast (0x80 OR (code AND 0x3f)))])"

definition utf16_text :: "bytes \<Rightarrow> nat \<Rightarrow> nat \<Rightarrow> string" where
  "utf16_text bs data_offset items =
     concat (map (\<lambda>item. utf8_unit (read_u16 bs (data_offset + item * 2))) [0..<items])"

text \<open>The references of a container; \<open>None\<close> where one is out of range.\<close>

fun read_refs :: "decoder \<Rightarrow> nat \<Rightarrow> nat \<Rightarrow> nat list option" where
  "read_refs d offset 0 = Some []"
| "read_refs d offset (Suc n) =
     (case read_be (dbytes d) offset (ref_size d) of
        None \<Rightarrow> None
      | Some ref \<Rightarrow>
          if length (offsets d) \<le> unat ref then None
          else map_option ((#) (unat ref)) (read_refs d (offset + ref_size d) n))"

text \<open>\<open>std::map::emplace\<close>: the first value of a key stays.\<close>

definition map_emplace :: "string \<Rightarrow> plist \<Rightarrow> (string \<times> plist) list \<Rightarrow> (string \<times> plist) list" where
  "map_emplace key v kvs = (if key \<in> fst ` set kvs then kvs else insort_key fst (key, v) kvs)"

text \<open>The values without parts; \<open>Inr\<close> carries the references of a container.\<close>

definition leaf ::
  "decoder \<Rightarrow> nat \<Rightarrow> nat \<Rightarrow> (plist option \<times> nat) + (bool \<times> nat list)" where
  "leaf d offset mbytes =
     (let bs = dbytes d; marker = bs ! offset; type = drop_bit 4 marker; nibble = marker AND 15
      in if type = 0 \<and> (nibble = 8 \<or> nibble = 9) then Inl (Some (PBool (nibble = 9)), mbytes)
         else if type = 1 then
           Inl (map_option PInt (read_be bs (offset + 1) (2 ^ unat nibble)), mbytes)
         else if type = 2 then
           (case read_be bs (offset + 1) (2 ^ unat nibble) of
              None \<Rightarrow> Inl (None, mbytes)
            | Some v \<Rightarrow>
                if (2::nat) ^ unat nibble = 8 then Inl (Some (PReal v), mbytes)
                else if (2::nat) ^ unat nibble = 4 then Inl (Some (PReal (widen_float (ucast v))), mbytes)
                else Inl (None, mbytes))
         else
           (case count d offset nibble of
              None \<Rightarrow> Inl (None, mbytes)
            | Some (items, data_offset) \<Rightarrow>
                if (type = 4 \<or> type = 5) \<and> data_offset \<le> length bs \<and> items \<le> length bs - data_offset then
                  (if kMaxMaterializedBytes < mbytes + items then Inl (None, mbytes + items)
                   else if type = 4 then Inl (Some (PData (take items (drop data_offset bs))), mbytes + items)
                   else Inl (Some (PText (text_of (take items (drop data_offset bs)))), mbytes + items))
                else if type = 6 \<and> data_offset \<le> length bs \<and> items \<le> (length bs - data_offset) div 2 then
                  (if kMaxMaterializedBytes < mbytes + items * 3 then Inl (None, mbytes + items * 3)
                   else Inl (Some (PText (utf16_text bs data_offset items)), mbytes + items * 3))
                else if (type = 0xa \<or> type = 0xd) \<and> data_offset \<le> length bs \<and>
                        items \<le> (length bs - data_offset) div ref_size d \<and>
                        (type \<noteq> 0xd \<or> items \<le> (length bs - data_offset) div (2 * ref_size d)) then
                  (case read_refs d data_offset (if type = 0xd then items * 2 else items) of
                     None \<Rightarrow> Inl (None, mbytes)
                   | Some refs \<Rightarrow> Inr (type = 0xd, refs))
                else Inl (None, mbytes)))"

text \<open>
  \<open>object\<close>: the counters \<open>nodes\<close> and \<open>mbytes\<close> come back with the result, also with a
  failed one.  The arguments of the dictionary loop are the references of the keys and of
  the values and the dictionary built so far.
\<close>

function object :: "decoder \<Rightarrow> nat \<Rightarrow> nat \<Rightarrow> nat \<times> nat \<Rightarrow> plist option \<times> nat \<times> nat"
  and object_items :: "decoder \<Rightarrow> nat list \<Rightarrow> nat \<Rightarrow> nat \<times> nat \<Rightarrow> plist list option \<times> nat \<times> nat"
  and object_pairs :: "decoder \<Rightarrow> (nat \<times> nat) list \<Rightarrow> nat \<Rightarrow> (string \<times> plist) list \<Rightarrow> nat \<times> nat \<Rightarrow>
        (string \<times> plist) list option \<times> nat \<times> nat"
where
  "object d index depth (nodes, mbytes) =
     (if length (offsets d) \<le> index \<or> kMaxDepth < depth then (None, nodes, mbytes)
      else if kMaxMaterializedNodes < Suc nodes then (None, Suc nodes, mbytes)
      else (case leaf d (offsets d ! index) mbytes of
              Inl (v, mbytes') \<Rightarrow> (v, Suc nodes, mbytes')
            | Inr (False, refs) \<Rightarrow>
                (case object_items d refs (Suc depth) (Suc nodes, mbytes) of
                   (vs, c) \<Rightarrow> (map_option PArray vs, c))
            | Inr (True, refs) \<Rightarrow>
                (let items = length refs div 2
                 in case object_pairs d (zip (take items refs) (drop items refs)) (Suc depth) []
                           (Suc nodes, mbytes) of
                      (kvs, c) \<Rightarrow> (map_option PDict kvs, c))))"
| "object_items d [] depth c = (Some [], c)"
| "object_items d (ref # refs) depth c =
     (case object d ref depth c of
        (None, c) \<Rightarrow> (None, c)
      | (Some v, c) \<Rightarrow>
          (case object_items d refs depth c of (vs, c) \<Rightarrow> (map_option ((#) v) vs, c)))"
| "object_pairs d [] depth acc c = (Some acc, c)"
| "object_pairs d ((kref, vref) # refs) depth acc c =
     (case object d kref depth c of
        (key, c) \<Rightarrow>
          (case object d vref depth c of
             (v, c) \<Rightarrow>
               (case (key, v) of
                  (Some (PText k), Some v) \<Rightarrow> object_pairs d refs depth (map_emplace k v acc) c
                | _ \<Rightarrow> (None, c))))"
  by pat_completeness auto
termination
  by (relation "measures
        [\<lambda>x. case x of Inl (d, i, depth, c) \<Rightarrow> 65 - depth
            | Inr (Inl (d, rs, depth, c)) \<Rightarrow> 65 - depth
            | Inr (Inr (d, rs, depth, acc, c)) \<Rightarrow> 65 - depth,
         \<lambda>x. case x of Inl _ \<Rightarrow> 0
            | Inr (Inl (d, rs, depth, c)) \<Rightarrow> Suc (length rs)
            | Inr (Inr (d, rs, depth, acc, c)) \<Rightarrow> Suc (length rs)]")
     (auto simp: kMaxDepth_def)

declare object.simps [simp del]

text \<open>The offset table.\<close>

fun read_offsets :: "bytes \<Rightarrow> nat \<Rightarrow> nat \<Rightarrow> nat \<Rightarrow> nat \<Rightarrow> nat list option" where
  "read_offsets bs table at offset_size 0 = Some []"
| "read_offsets bs table at offset_size (Suc n) =
     (case read_be bs at offset_size of
        None \<Rightarrow> None
      | Some offset \<Rightarrow>
          if table \<le> unat offset then None
          else map_option ((#) (unat offset)) (read_offsets bs table (at + offset_size) offset_size n))"

definition decode_bplist :: "bytes \<Rightarrow> plist option" where
  "decode_bplist bs =
     (if length bs < 40 \<or> take 8 bs \<noteq> magic then None
      else
        (let trailer = length bs - 32;
             offset_size = unat (bs ! (trailer + 6));
             rsize = unat (bs ! (trailer + 7))
         in case (read_be bs (trailer + 8) 8, read_be bs (trailer + 16) 8, read_be bs (trailer + 24) 8) of
              (Some n, Some top_index, Some table) \<Rightarrow>
                if n = 0 \<or> n \<le> top_index \<or> offset_size = 0 \<or> rsize = 0 \<or> 65536 < n \<or>
                   length bs < unat table \<or> (length bs - unat table) div offset_size < unat n
                then None
                else (case read_offsets bs (unat table) (unat table) offset_size (unat n) of
                        None \<Rightarrow> None
                      | Some offs \<Rightarrow>
                          fst (object \<lparr>dbytes = bs, ref_size = rsize, offsets = offs\<rparr> (unat top_index) 0 (0, 0)))
            | _ \<Rightarrow> None))"

end
