(* ===== verification/Bplist_Props.thy ===== *)
theory Bplist_Props
  imports Bplist
begin

text \<open>
  The binary property list codec is a round trip within the decoder's budgets, and whatever
  a file holds, a decoded value stays within those budgets.  The encoder's node table is
  first given in closed form (\<open>flat\<close>), then the decoder is run over it.
\<close>

section \<open>Measures of a value\<close>

fun nodes_of :: "plist \<Rightarrow> nat" where
  "nodes_of (PArray vs) = Suc (sum_list (map nodes_of vs))"
| "nodes_of (PDict kvs) = Suc (length kvs + sum_list (map (\<lambda>(k, v). nodes_of v) kvs))"
| "nodes_of _ = 1"

fun data_of :: "plist \<Rightarrow> nat" where
  "data_of (PText s) = length s"
| "data_of (PData bs) = length bs"
| "data_of (PArray vs) = sum_list (map data_of vs)"
| "data_of (PDict kvs) = sum_list (map (\<lambda>(k, v). length k + data_of v) kvs)"
| "data_of _ = 0"

fun height :: "plist \<Rightarrow> nat" where
  "height (PArray vs) = fold max (map (\<lambda>v. Suc (height v)) vs) 0"
| "height (PDict kvs) = fold max (map (\<lambda>(k, v). Suc (height v)) kvs) 0"
| "height _ = 0"

text \<open>Dictionaries are in the order of \<open>std::map\<close>, without duplicates.\<close>

fun ordered :: "plist \<Rightarrow> bool" where
  "ordered (PArray vs) = list_all ordered vs"
| "ordered (PDict kvs) = (sorted_wrt (<) (map fst kvs) \<and> list_all (\<lambda>(k, v). ordered v) kvs)"
| "ordered _ = True"

lemma fold_max_le: "fold max xs (a :: nat) \<le> b \<longleftrightarrow> a \<le> b \<and> (\<forall>x \<in> set xs. x \<le> b)"
  by (induction xs arbitrary: a) auto

lemma depth_fold_max:
  "d + fold max xs (a :: nat) \<le> b \<longleftrightarrow> d + a \<le> b \<and> (\<forall>x \<in> set xs. d + x \<le> b)"
  by (induction xs arbitrary: a) (auto simp: nat_add_max_right)

section \<open>The node table in closed form\<close>

fun starts :: "nat \<Rightarrow> plist list \<Rightarrow> nat list" where
  "starts n [] = []"
| "starts n (v # vs) = n # starts (n + nodes_of v) vs"

abbreviation text_node :: "string \<Rightarrow> node" where
  "text_node s \<equiv> (count_marker 5 (length s) @ bytes_of s, [])"

fun flat :: "nat \<Rightarrow> plist \<Rightarrow> node list"
  and flat_items :: "nat \<Rightarrow> plist list \<Rightarrow> node list"
  and flat_values :: "nat \<Rightarrow> (string \<times> plist) list \<Rightarrow> node list"
where
  "flat n (PBool b) = [([if b then 0x09 else 0x08], [])]"
| "flat n (PInt v) = [(integer v, [])]"
| "flat n (PReal v) = [(append_be [0x23] v 8, [])]"
| "flat n (PText s) = [text_node s]"
| "flat n (PData bs) = [(count_marker 4 (length bs) @ bs, [])]"
| "flat n (PArray vs) = (count_marker 0xa (length vs), starts (Suc n) vs) # flat_items (Suc n) vs"
| "flat n (PDict kvs) =
     (count_marker 0xd (length kvs),
      [Suc n..<Suc n + length kvs] @ starts (Suc n + length kvs) (map snd kvs)) #
     map (\<lambda>(k, v). text_node k) kvs @ flat_values (Suc n + length kvs) kvs"
| "flat_items n [] = []"
| "flat_items n (v # vs) = flat n v @ flat_items (n + nodes_of v) vs"
| "flat_values n [] = []"
| "flat_values n ((k, v) # kvs) = flat n v @ flat_values (n + nodes_of v) kvs"

lemma length_flat:
  "length (flat n v) = nodes_of v"
  "length (flat_items n vs) = sum_list (map nodes_of vs)"
  "length (flat_values n kvs) = sum_list (map (\<lambda>(k, v). nodes_of v) kvs)"
  by (induction n v and n vs and n kvs rule: flat_flat_items_flat_values.induct) auto

lemma length_starts [simp]: "length (starts n vs) = length vs"
  by (induction vs arbitrary: n) auto

lemma add_keys_eq:
  "add_keys kvs nodes =
     ([length nodes..<length nodes + length kvs], nodes @ map (\<lambda>(k, v). text_node k) kvs)"
proof (induction kvs nodes rule: add_keys.induct)
  case (2 key v kvs nodes)
  have "length nodes # [Suc (length nodes)..<Suc (length nodes) + length kvs] =
        [length nodes..<Suc (length nodes + length kvs)]"
    by (subst (2) upt_conv_Cons) auto
  with 2 show ?case by simp
qed simp

lemma add_eq:
  "add v nodes = nodes @ flat (length nodes) v"
  "add_items vs nodes = (starts (length nodes) vs, nodes @ flat_items (length nodes) vs)"
  "add_values kvs nodes =
     (starts (length nodes) (map snd kvs), nodes @ flat_values (length nodes) kvs)"
  by (induction v nodes and vs nodes and kvs nodes rule: add_add_items_add_values.induct)
     (simp_all add: add_keys_eq length_flat list_update_append)

section \<open>Numbers\<close>

lemma bytes_for_cases:
  obtains "bytes_for v = 1" "unat v < 2 ^ 8" | "bytes_for v = 2" "unat v < 2 ^ 16"
    | "bytes_for v = 4" "unat v < 2 ^ 32" | "bytes_for v = 8" "unat v < 2 ^ 64"
proof -
  have "unat v < 2 ^ 64" using unsigned_less [of v, where 'a = nat] by simp
  moreover have "v \<le> 0xff \<Longrightarrow> unat v \<le> 0xff" "v \<le> 0xffff \<Longrightarrow> unat v \<le> 0xffff"
    "v \<le> 0xffffffff \<Longrightarrow> unat v \<le> 0xffffffff"
    by (simp_all add: word_le_nat_alt)
  ultimately have "bytes_for v = 1 \<and> unat v < 2 ^ 8 \<or> bytes_for v = 2 \<and> unat v < 2 ^ 16 \<or>
      bytes_for v = 4 \<and> unat v < 2 ^ 32 \<or> bytes_for v = 8 \<and> unat v < 2 ^ 64"
    by (auto simp: bytes_for_def)
  then show thesis using that by blast
qed

lemma bytes_for_bounds [simp]: "bytes_for v \<le> 8" "0 < bytes_for v" "unat v < 2 ^ (8 * bytes_for v)"
  by (cases v rule: bytes_for_cases; simp)+

lemma be_value_bytes_for [simp]: "be_value (be_bytes (bytes_for v) v) = v"
proof -
  have "take_bit (8 * bytes_for v) (unat v) = unat v"
    by (rule take_bit_nat_eq_self) (rule bytes_for_bounds)
  then have "unat (take_bit (8 * bytes_for v) v) = unat v"
    by (simp add: unsigned_take_bit_eq)
  then show ?thesis by (simp add: be_value_be_bytes word_unat_eq_iff)
qed

lemma size_byte [simp]:
  "drop_bit 4 (0x10 OR log2_bytes (bytes_for v)) = 1"
  "2 ^ unat ((0x10 OR log2_bytes (bytes_for v)) AND 15) = bytes_for v"
  by (cases v rule: bytes_for_cases; simp add: log2_bytes_def)+

lemma marker_byte:
  assumes "type \<in> {4, 5, 0xa, 0xd}" "n < 16"
  shows "drop_bit 4 (push_bit 4 type OR of_nat n :: byte) = type"
    "(push_bit 4 type OR of_nat n :: byte) AND 15 = of_nat n"
proof -
  have "n \<in> {0, 1, 2, 3, 4, 5, 6, 7, 8, 9, 10, 11, 12, 13, 14, 15}" using assms(2) by (simp, presburger)
  with assms(1) show "drop_bit 4 (push_bit 4 type OR of_nat n :: byte) = type"
    "(push_bit 4 type OR of_nat n :: byte) AND 15 = of_nat n"
    by (auto simp: push_bit_eq_mult)
qed

lemma count_marker_not_Nil [simp]: "count_marker t n \<noteq> []"
  by (simp add: count_marker_def append_be_def Let_def)

lemma length_count_marker: "length (count_marker t n) \<le> 10"
  by (simp add: count_marker_def append_be_def Let_def)

section \<open>The file\<close>

definition node_bytes :: "nat \<Rightarrow> node \<Rightarrow> bytes" where
  "node_bytes rs n = fst n @ concat (map (\<lambda>r. be_bytes rs (of_nat r)) (snd n))"

fun node_offsets :: "nat \<Rightarrow> nat \<Rightarrow> node list \<Rightarrow> nat list" where
  "node_offsets rs k [] = []"
| "node_offsets rs k (n # ns) = k # node_offsets rs (k + length (node_bytes rs n)) ns"

lemma fold_append_be: "fold (\<lambda>r acc. append_be acc (of_nat r) n) rs acc = acc @ concat (map (\<lambda>r. be_bytes n (of_nat r)) rs)"
  by (induction rs arbitrary: acc) (auto simp: append_be_def)

lemma layout_eq:
  "layout rs nodes result =
     (node_offsets rs (length result) nodes, result @ concat (map (node_bytes rs) nodes))"
  by (induction rs nodes result rule: layout.induct) (auto simp: node_bytes_def fold_append_be)

lemma length_node_offsets [simp]: "length (node_offsets rs k ns) = length ns"
  by (induction ns arbitrary: k) auto

lemma node_offsets_append:
  "node_offsets rs k (xs @ ys) = node_offsets rs k xs @ node_offsets rs (k + length (concat (map (node_bytes rs) xs))) ys"
  by (induction xs arbitrary: k) (auto simp: add.assoc)

lemma node_offsets_nth:
  "node_offsets rs k (pre @ n # post) ! length pre = k + length (concat (map (node_bytes rs) pre))"
  by (simp add: node_offsets_append nth_append)

text \<open>A decoder that stands on the file of a node table.\<close>

definition on_table :: "decoder \<Rightarrow> node list \<Rightarrow> bool" where
  "on_table d N =
     (0 < ref_size d \<and> ref_size d \<le> 8 \<and> length N \<le> 2 ^ (8 * ref_size d) \<and> length (offsets d) = length N \<and>
      (\<forall>i < length N. \<exists>tail. offsets d ! i < length (dbytes d) \<and>
          drop (offsets d ! i) (dbytes d) = node_bytes (ref_size d) (N ! i) @ tail))"

lemma read_be_at:
  assumes "drop off bs = p @ x @ tail" "length x \<le> 8" "off \<le> length bs"
  shows "read_be bs (off + length p) (length x) = Some (be_value x)"
proof -
  have "drop (off + length p) bs = x @ tail"
    using assms(1) by (metis add.commute append_eq_conv_conj drop_drop)
  moreover from this have "length bs - (off + length p) = length x + length tail"
    by (metis length_append length_drop)
  moreover have "off + length p \<le> length bs"
    using arg_cong [OF assms(1), of length] assms(3) by simp
  ultimately show ?thesis using assms(2) by (simp add: read_be_def)
qed

lemma nth_at: "drop off bs = p @ x # tail \<Longrightarrow> off \<le> length bs \<Longrightarrow> bs ! (off + length p) = x"
  by (metis nth_append_length nth_drop)

lemma count_at:
  assumes "drop off (dbytes d) = count_marker type n @ tail" "off \<le> length (dbytes d)"
    and "type \<in> {4, 5, 0xa, 0xd}" "n < 2 ^ 64"
  shows "drop_bit 4 (dbytes d ! off) = type"
    "count d off (dbytes d ! off AND 15) = Some (n, off + length (count_marker type n))"
proof -
  let ?bs = "dbytes d"
  have "drop_bit 4 (?bs ! off) = type \<and>
        count d off (?bs ! off AND 15) = Some (n, off + length (count_marker type n))"
  proof (cases "n < 15")
    case True
    then have "?bs ! off = push_bit 4 type OR of_nat n"
      using nth_at [of off ?bs "[]"] assms(1,2) by (simp add: count_marker_def)
    moreover have "(of_nat n :: byte) \<noteq> 15" "unat (of_nat n :: byte) = n"
      using True by (auto simp: word_unat_eq_iff unat_of_nat)
    ultimately show ?thesis
      using marker_byte [of type n] assms(3) True by (simp add: count_def count_marker_def)
  next
    case False
    define sz where "sz = bytes_for (of_nat n)"
    have d: "drop off ?bs = [push_bit 4 type OR of_nat 15, 0x10 OR log2_bytes sz] @ be_bytes sz (of_nat n) @ tail"
      using assms(1) False by (simp add: count_marker_def append_be_def sz_def Let_def)
    have b0: "?bs ! off = push_bit 4 type OR of_nat 15" using nth_at [of off ?bs "[]"] assms(2) d by simp
    have b1: "?bs ! (off + 1) = 0x10 OR log2_bytes sz"
      using nth_at [of off ?bs "[push_bit 4 type OR of_nat 15]"] assms(2) d by simp
    have r: "read_be ?bs (off + 2) sz = Some (of_nat n)"
      using read_be_at [OF d _ assms(2)] by (simp add: sz_def)
    have "off + 2 \<le> length ?bs" using arg_cong [OF d, of length] assms(2) by simp
    moreover have "unat (of_nat n :: u64) = n" using assms(4) by (simp add: unat_of_nat)
    moreover have "drop_bit 4 (?bs ! (off + 1)) = 1" "2 ^ unat (?bs ! (off + 1) AND 15) = sz"
      by (simp_all only: b1 sz_def size_byte)
    moreover have "drop_bit 4 (?bs ! off) = type" "?bs ! off AND 15 = 15"
      using marker_byte [OF assms(3), of 15] by (simp_all add: b0)
    ultimately show ?thesis
      using r False by (simp add: count_def count_marker_def append_be_def sz_def [symmetric] Let_def)
  qed
  then show "drop_bit 4 (dbytes d ! off) = type"
    "count d off (dbytes d ! off AND 15) = Some (n, off + length (count_marker type n))" by auto
qed

lemma read_refs_at:
  assumes "drop off (dbytes d) = concat (map (\<lambda>r. be_bytes (ref_size d) (of_nat r)) refs) @ tail"
    and "off \<le> length (dbytes d)" "ref_size d \<le> 8" "length (offsets d) \<le> 2 ^ (8 * ref_size d)"
    and "\<forall>r \<in> set refs. r < length (offsets d)"
  shows "read_refs d off (length refs) = Some refs"
  using assms
proof (induction refs arbitrary: off)
  case Nil
  then show ?case by simp
next
  case (Cons r refs)
  let ?x = "be_bytes (ref_size d) (of_nat r)"
  have dr: "drop off (dbytes d) = [] @ ?x @ (concat (map (\<lambda>r. be_bytes (ref_size d) (of_nat r)) refs) @ tail)"
    using Cons.prems(1) by simp
  have "r < 2 ^ (8 * ref_size d)" using Cons.prems(4,5) by auto
  then have "unat (be_value ?x) = r" using Cons.prems(3) by (rule unat_be_value_of_nat)
  moreover have "read_be (dbytes d) off (ref_size d) = Some (be_value ?x)"
    using read_be_at [OF dr] Cons.prems(2,3) by simp
  moreover have "read_refs d (off + ref_size d) (length refs) = Some refs"
  proof (rule Cons.IH)
    show "drop (off + ref_size d) (dbytes d) = concat (map (\<lambda>r. be_bytes (ref_size d) (of_nat r)) refs) @ tail"
      using dr by (metis add.commute append_Nil append_eq_conv_conj drop_drop length_be_bytes)
    show "off + ref_size d \<le> length (dbytes d)"
      using arg_cong [OF dr, of length] Cons.prems(2) by simp
  qed (use Cons.prems in auto)
  ultimately show ?case using Cons.prems(5) by simp
qed

section \<open>Decoding one node\<close>

lemma leaf_bool:
  assumes "drop off (dbytes d) = (if b then 0x09 else 0x08) # tail" "off \<le> length (dbytes d)"
  shows "leaf d off m = Inl (Some (PBool b), m)"
proof -
  have "dbytes d ! off = (if b then 0x09 else 0x08)" using nth_at [of off "dbytes d" "[]"] assms by simp
  then show ?thesis by (cases b) (simp_all add: leaf_def)
qed

lemma leaf_int:
  assumes "drop off (dbytes d) = integer v @ tail" "off \<le> length (dbytes d)"
  shows "leaf d off m = Inl (Some (PInt v), m)"
proof -
  have dr: "drop off (dbytes d) = [0x10 OR log2_bytes (bytes_for v)] @ be_bytes (bytes_for v) v @ tail"
    using assms(1) by (simp add: integer_def append_be_def Let_def)
  then have b: "dbytes d ! off = 0x10 OR log2_bytes (bytes_for v)"
    using nth_at [of off "dbytes d" "[]"] assms(2) by simp
  have "drop_bit 4 (dbytes d ! off) = 1" "2 ^ unat (dbytes d ! off AND 15) = bytes_for v"
    by (simp_all only: b size_byte)
  moreover have "read_be (dbytes d) (off + 1) (bytes_for v) = Some v"
    using read_be_at [OF dr _ assms(2)] by simp
  ultimately show ?thesis by (simp add: leaf_def)
qed

lemma leaf_real:
  assumes "drop off (dbytes d) = append_be [0x23] v 8 @ tail" "off \<le> length (dbytes d)"
  shows "leaf d off m = Inl (Some (PReal v), m)"
proof -
  have dr: "drop off (dbytes d) = [0x23] @ be_bytes 8 v @ tail"
    using assms(1) by (simp add: append_be_def)
  then have b: "dbytes d ! off = 0x23" using nth_at [of off "dbytes d" "[]"] assms(2) by simp
  have "be_value (be_bytes 8 v) = v" by (simp add: be_value_be_bytes)
  then have "read_be (dbytes d) (off + 1) 8 = Some v"
    using read_be_at [OF dr _ assms(2)] by simp
  with b show ?thesis by (simp add: leaf_def)
qed

lemma leaf_blob:
  assumes dr: "drop off (dbytes d) = (count_marker type (length bs) @ bs) @ tail"
    and off: "off \<le> length (dbytes d)"
    and "type \<in> {4, 5}" and len: "length bs < 2 ^ 64" "m + length bs \<le> kMaxMaterializedBytes"
  shows "leaf d off m = Inl (Some (if type = 4 then PData bs else PText (text_of bs)), m + length bs)"
proof -
  have dr': "drop off (dbytes d) = count_marker type (length bs) @ bs @ tail" using dr by simp
  note c = count_at [OF dr' off _ len(1)]
  define o' where "o' = off + length (count_marker type (length bs))"
  have "drop o' (dbytes d) = bs @ tail"
    using dr' by (metis add.commute append_eq_conv_conj drop_drop o'_def)
  moreover have "o' + length bs \<le> length (dbytes d)"
    using arg_cong [OF dr, of length] off by (simp add: o'_def)
  ultimately show ?thesis
    using c assms(3) len(2) by (auto simp: leaf_def Let_def o'_def [symmetric])
qed

lemma concat_be_length: "length (concat (map (\<lambda>r. be_bytes n (of_nat r)) refs)) = n * length refs"
  by (induction refs) auto

lemma leaf_container:
  assumes dr: "drop off (dbytes d) = node_bytes (ref_size d) (count_marker type n, refs) @ tail"
    and off: "off \<le> length (dbytes d)" and "n < 2 ^ 64"
    and "type = 0xa \<and> length refs = n \<or> type = 0xd \<and> length refs = n * 2"
    and rs: "0 < ref_size d" "ref_size d \<le> 8" "length (offsets d) \<le> 2 ^ (8 * ref_size d)"
    and "\<forall>r \<in> set refs. r < length (offsets d)"
  shows "leaf d off m = Inr (type = 0xd, refs)"
proof -
  let ?R = "concat (map (\<lambda>r. be_bytes (ref_size d) (of_nat r)) refs)"
  have dr': "drop off (dbytes d) = count_marker type n @ ?R @ tail" using dr by (simp add: node_bytes_def)
  note c = count_at [OF dr' off _ assms(3)]
  define o' where "o' = off + length (count_marker type n)"
  have o': "drop o' (dbytes d) = ?R @ tail"
    using dr' by (metis add.commute append_eq_conv_conj drop_drop o'_def)
  have len: "o' + ref_size d * length refs \<le> length (dbytes d)"
    using arg_cong [OF dr', of length] off by (simp add: o'_def concat_be_length)
  have "length refs \<le> (length (dbytes d) - o') div ref_size d"
    using len rs(1) by (simp add: less_eq_div_iff_mult_less_eq mult.commute)
  moreover have "n \<le> (length (dbytes d) - o') div (2 * ref_size d)" if "type = 0xd"
  proof -
    have "length refs = n * 2" using assms(4) that by auto
    with len rs(1) show ?thesis by (simp add: less_eq_div_iff_mult_less_eq algebra_simps)
  qed
  moreover have "n \<le> length refs" using assms(4) by auto
  moreover have "read_refs d o' (length refs) = Some refs"
    by (rule read_refs_at [OF o']) (use len rs assms(8) in auto)
  ultimately show ?thesis
    using c assms(4) len by (auto simp: leaf_def Let_def o'_def [symmetric])
qed

section \<open>Decoding a node table\<close>

lemma nodes_of_pos [simp]: "0 < nodes_of v"
  by (cases v) auto

lemma starts_bounds: "r \<in> set (starts n vs) \<Longrightarrow> n \<le> r \<and> r < n + sum_list (map nodes_of vs)"
  by (induction vs arbitrary: n) (fastforce)+

lemma length_le_nodes: "length vs \<le> sum_list (map nodes_of vs)"
proof (induction vs)
  case (Cons v vs)
  then show ?case using nodes_of_pos [of v] by (simp del: nodes_of_pos)
qed simp

lemma at_node:
  assumes "on_table d N" "N = pre @ x # post"
  obtains tail where "drop (offsets d ! length pre) (dbytes d) = node_bytes (ref_size d) x @ tail"
    "offsets d ! length pre \<le> length (dbytes d)" "length pre < length (offsets d)"
  using assms by (fastforce simp: on_table_def nth_append dest: spec [of _ "length pre"])

lemma object_leaf:
  assumes "n < length (offsets d)" "depth \<le> 64" "c < 65536" "leaf d (offsets d ! n) m = Inl (Some v, m')"
  shows "object d n depth (c, m) = (Some v, Suc c, m')"
  using assms by (subst object.simps) (simp add: kMaxDepth_def kMaxMaterializedNodes_def)

lemma object_text:
  assumes "on_table d N" "N = pre @ text_node s # post" "depth \<le> 64" "c < 65536"
    "m + length s \<le> kMaxMaterializedBytes"
  shows "object d (length pre) depth (c, m) = (Some (PText s), Suc c, m + length s)"
proof -
  obtain tail where t: "drop (offsets d ! length pre) (dbytes d) = node_bytes (ref_size d) (text_node s) @ tail"
    "offsets d ! length pre \<le> length (dbytes d)" "length pre < length (offsets d)"
    using at_node [OF assms(1,2)] by blast
  have "leaf d (offsets d ! length pre) m = Inl (Some (PText s), m + length s)"
    using leaf_blob [of "offsets d ! length pre" d 5 "bytes_of s" tail m] t assms(5)
    by (simp add: node_bytes_def kMaxMaterializedBytes_def comp_def)
  from object_leaf [OF t(3) assms(3,4) this] show ?thesis .
qed

lemma map_emplace_end:
  assumes "\<forall>x \<in> set acc. fst x < k"
  shows "map_emplace k v acc = acc @ [(k, v)]"
proof -
  have "insort_key fst (k, v) acc = acc @ [(k, v)]"
    using assms by (induction acc) auto
  moreover have "k \<notin> fst ` set acc" using assms by auto
  ultimately show ?thesis by (simp add: map_emplace_def)
qed

lemma object_array:
  assumes "on_table d N" "N = pre @ (count_marker 0xa (length refs), refs) # post"
    "depth \<le> 64" "c < 65536" "\<forall>r \<in> set refs. r < length N" "length refs < 2 ^ 64"
  shows "object d (length pre) depth (c, m) =
     (case object_items d refs (Suc depth) (Suc c, m) of (vs, c) \<Rightarrow> (map_option PArray vs, c))"
proof -
  obtain tail where t: "drop (offsets d ! length pre) (dbytes d) =
      node_bytes (ref_size d) (count_marker 0xa (length refs), refs) @ tail"
    "offsets d ! length pre \<le> length (dbytes d)" "length pre < length (offsets d)"
    using at_node [OF assms(1,2)] by blast
  have "leaf d (offsets d ! length pre) m = Inr (False, refs)"
    using leaf_container [OF t(1,2) assms(6)] assms(1,5) by (simp add: on_table_def)
  with t(3) assms(3,4) show ?thesis
    by (subst object.simps) (simp add: kMaxDepth_def kMaxMaterializedNodes_def)
qed

lemma object_dict:
  assumes "on_table d N" "N = pre @ (count_marker 0xd n, krefs @ vrefs) # post"
    "depth \<le> 64" "c < 65536" "\<forall>r \<in> set (krefs @ vrefs). r < length N" "n < 2 ^ 64"
    "length krefs = n" "length vrefs = n"
  shows "object d (length pre) depth (c, m) =
     (case object_pairs d (zip krefs vrefs) (Suc depth) [] (Suc c, m) of (kvs, c) \<Rightarrow> (map_option PDict kvs, c))"
proof -
  obtain tail where t: "drop (offsets d ! length pre) (dbytes d) =
      node_bytes (ref_size d) (count_marker 0xd n, krefs @ vrefs) @ tail"
    "offsets d ! length pre \<le> length (dbytes d)" "length pre < length (offsets d)"
    using at_node [OF assms(1,2)] by blast
  have "leaf d (offsets d ! length pre) m = Inr (True, krefs @ vrefs)"
    using leaf_container [OF t(1,2) assms(6)] assms(1,5,7,8) by (simp add: on_table_def)
  with t(3) assms(3,4,7,8) show ?thesis
    by (subst object.simps) (simp add: kMaxDepth_def kMaxMaterializedNodes_def Let_def)
qed

abbreviation value_nodes :: "(string \<times> plist) list \<Rightarrow> nat" where
  "value_nodes kvs \<equiv> sum_list (map (\<lambda>(k, v). nodes_of v) kvs)"

abbreviation pair_data :: "(string \<times> plist) list \<Rightarrow> nat" where
  "pair_data kvs \<equiv> sum_list (map (\<lambda>(k, v). length k + data_of v) kvs)"

lemma value_nodes_eq: "sum_list (map (nodes_of \<circ> snd) kvs) = value_nodes kvs"
  by (simp add: comp_def case_prod_unfold)

lemma object_scalar:
  assumes t: "on_table d N" "N = pre @ flat n v @ post" "n = length pre" "depth \<le> 64" "c < 65536"
    and v: "v \<in> {PBool b, PInt w, PReal w}"
  shows "object d n depth (c, m) = (Some v, Suc c, m)"
proof -
  obtain h where h: "flat n v = [(h, [])]" and
    l: "\<And>off tail. drop off (dbytes d) = h @ tail \<Longrightarrow> off \<le> length (dbytes d) \<Longrightarrow> leaf d off m = Inl (Some v, m)"
    using v leaf_bool leaf_int leaf_real by fastforce
  obtain tail where "drop (offsets d ! n) (dbytes d) = node_bytes (ref_size d) (h, []) @ tail"
    "offsets d ! n \<le> length (dbytes d)" "n < length (offsets d)"
    using at_node [OF t(1), of pre "(h, [])" post] t(2,3) h by auto
  with l [of "offsets d ! n" tail] t(4,5) show ?thesis
    by (intro object_leaf) (simp_all add: node_bytes_def)
qed

lemma object_flat:
  assumes d: "on_table d N"
  shows
    "N = pre @ flat n v @ post \<Longrightarrow> n = length pre \<Longrightarrow> ordered v \<Longrightarrow> depth + height v \<le> 64 \<Longrightarrow>
     c + nodes_of v \<le> 65536 \<Longrightarrow> m + data_of v \<le> kMaxMaterializedBytes \<Longrightarrow>
     object d n depth (c, m) = (Some v, c + nodes_of v, m + data_of v)" (is "PROP ?P n v")
    "N = pre @ flat_items n vs @ post \<Longrightarrow> n = length pre \<Longrightarrow> list_all ordered vs \<Longrightarrow>
     \<forall>v \<in> set vs. depth + height v \<le> 64 \<Longrightarrow> c + sum_list (map nodes_of vs) \<le> 65536 \<Longrightarrow>
     m + sum_list (map data_of vs) \<le> kMaxMaterializedBytes \<Longrightarrow>
     object_items d (starts n vs) depth (c, m) =
       (Some vs, c + sum_list (map nodes_of vs), m + sum_list (map data_of vs))" (is "PROP ?Q n vs")
    "N = pre @ flat_values n kvs @ post \<Longrightarrow> n = length pre \<Longrightarrow>
     N = kpre @ map (\<lambda>(k, v). text_node k) kvs @ kpost \<Longrightarrow>
     list_all (\<lambda>(k, v). ordered v) kvs \<Longrightarrow> sorted_wrt (<) (map fst (acc @ kvs)) \<Longrightarrow>
     \<forall>(k, v) \<in> set kvs. depth + height v \<le> 64 \<Longrightarrow> c + length kvs + value_nodes kvs \<le> 65536 \<Longrightarrow>
     m + pair_data kvs \<le> kMaxMaterializedBytes \<Longrightarrow>
     object_pairs d (zip [length kpre..<length kpre + length kvs] (starts n (map snd kvs))) depth acc (c, m) =
       (Some (acc @ kvs), c + length kvs + value_nodes kvs, m + pair_data kvs)" (is "PROP ?R n kvs")
proof (induction n v and n vs and n kvs
    arbitrary: pre post depth c m and pre post depth c m and pre post depth c m kpre kpost acc
    rule: flat_flat_items_flat_values.induct)
  case (4 n s)
  then show ?case using object_text [OF d, of pre s post depth c m] by simp
next
  case (5 n bs)
  obtain tail where t: "drop (offsets d ! n) (dbytes d) =
      node_bytes (ref_size d) (count_marker 4 (length bs) @ bs, []) @ tail"
    "offsets d ! n \<le> length (dbytes d)" "n < length (offsets d)"
    using at_node [OF d, of pre] 5(1,2) by auto
  have "leaf d (offsets d ! n) m = Inl (Some (PData bs), m + length bs)"
    using leaf_blob [of "offsets d ! n" d 4 bs tail m] t 5(6)
    by (simp add: node_bytes_def kMaxMaterializedBytes_def)
  from object_leaf [OF t(3) _ _ this] 5 show ?case by simp
next
  case (6 n vs)
  have N: "N = pre @ (count_marker 0xa (length (starts (Suc n) vs)), starts (Suc n) vs) #
      flat_items (Suc n) vs @ post" using 6(2) by simp
  have len: "length N = length pre + Suc (sum_list (map nodes_of vs)) + length post"
    by (simp add: N length_flat)
  have "object_items d (starts (Suc n) vs) (Suc depth) (Suc c, m) =
      (Some vs, Suc c + sum_list (map nodes_of vs), m + sum_list (map data_of vs))"
    by (rule 6(1) [of "pre @ [(count_marker 0xa (length vs), starts (Suc n) vs)]" post])
       (use 6 N in \<open>auto simp: depth_fold_max\<close>)
  moreover have "length vs < 2 ^ 64" using length_le_nodes [of vs] 6(6) by simp
  moreover have "\<forall>r \<in> set (starts (Suc n) vs). r < length N"
    using starts_bounds [of _ "Suc n" vs] 6(3) len by fastforce
  ultimately show ?case
    using object_array [OF d N, of depth c m] 6(3,5,6) by simp
next
  case (7 n kvs)
  let ?k = "length kvs"
  let ?h = "(count_marker 0xd ?k, [Suc n..<Suc n + ?k] @ starts (Suc n + ?k) (map snd kvs))"
  have N: "N = pre @ ?h # map (\<lambda>(k, v). text_node k) kvs @ flat_values (Suc n + ?k) kvs @ post"
    using 7(2) by simp
  have len: "length N = length pre + Suc (?k + value_nodes kvs) + length post"
    by (simp add: N length_flat)
  have "object_pairs d (zip [length (pre @ [?h])..<length (pre @ [?h]) + ?k] (starts (Suc n + ?k) (map snd kvs)))
      (Suc depth) [] (Suc c, m) = (Some ([] @ kvs), Suc c + ?k + value_nodes kvs, m + pair_data kvs)"
    by (rule 7(1) [of "pre @ ?h # map (\<lambda>(k, v). text_node k) kvs" post "pre @ [?h]"
            "flat_values (Suc n + ?k) kvs @ post"])
       (use 7 N in \<open>auto simp: depth_fold_max\<close>)
  moreover have "\<forall>r \<in> set ([Suc n..<Suc n + ?k] @ starts (Suc n + ?k) (map snd kvs)). r < length N"
    using starts_bounds [of _ "Suc n + ?k" "map snd kvs"] 7(3) len
    by (fastforce simp: value_nodes_eq)
  ultimately show ?case
    using object_dict [OF d N, of depth c m] 7(3,5,6) by (simp del: upt_Suc add: add.assoc)
next
  case (9 n v vs)
  then have "object d n depth (c, m) = (Some v, c + nodes_of v, m + data_of v)"
    by (intro 9(1)) auto
  moreover have "object_items d (starts (n + nodes_of v) vs) depth (c + nodes_of v, m + data_of v) =
      (Some vs, c + nodes_of v + sum_list (map nodes_of vs), m + data_of v + sum_list (map data_of vs))"
    by (rule 9(2) [of "pre @ flat n v" post]) (use 9 in \<open>auto simp: length_flat\<close>)
  ultimately show ?case by simp
next
  case (11 n k v kvs)
  have "object d (length kpre) depth (c, m) = (Some (PText k), Suc c, m + length k)"
    by (rule object_text [OF d, of _ _ "map (\<lambda>(k, v). text_node k) kvs @ kpost"])
       (use 11(5-) in auto)
  moreover have "object d n depth (Suc c, m + length k) =
      (Some v, Suc c + nodes_of v, m + length k + data_of v)"
    by (rule 11(1) [of pre "flat_values (n + nodes_of v) kvs @ post"]) (use 11(3-) in auto)
  moreover have "map_emplace k v acc = acc @ [(k, v)]"
    by (rule map_emplace_end) (use 11(7) in \<open>auto simp: sorted_wrt_append\<close>)
  moreover have "object_pairs d (zip [length (kpre @ [text_node k])..<length (kpre @ [text_node k]) + length kvs]
      (starts (n + nodes_of v) (map snd kvs))) depth (acc @ [(k, v)]) (Suc c + nodes_of v, m + length k + data_of v) =
      (Some ((acc @ [(k, v)]) @ kvs), Suc c + nodes_of v + length kvs + value_nodes kvs,
       m + length k + data_of v + pair_data kvs)"
    by (rule 11(2) [of "pre @ flat n v" post "kpre @ [text_node k]" kpost])
       (use 11(3-) in \<open>auto simp: length_flat\<close>)
  ultimately show ?case by (simp add: upt_conv_Cons add.assoc del: upt_Suc)
qed (use d object_scalar [of d N] in auto)

section \<open>The whole file\<close>

abbreviation body :: "nat \<Rightarrow> node list \<Rightarrow> bytes" where
  "body rs N \<equiv> concat (map (node_bytes rs) N)"

lemma integer_length: "length (integer v) \<le> 9"
  using bytes_for_bounds(1) [of v] by (simp add: integer_def append_be_def Let_def)

lemma length_node_bytes: "length (node_bytes rs n) = length (fst n) + rs * length (snd n)"
  by (simp add: node_bytes_def concat_be_length)

lemma body_length:
  assumes "rs \<le> 8"
  shows "length (body rs (flat n v)) + 8 \<le> 18 * nodes_of v + data_of v"
    "length (body rs (flat_items n vs)) + 8 * length vs \<le>
       18 * sum_list (map nodes_of vs) + sum_list (map data_of vs)"
    "length (body rs (flat_values n kvs)) + 8 * length kvs \<le>
       18 * value_nodes kvs + sum_list (map (\<lambda>(k, v). data_of v) kvs)"
proof (induction n v and n vs and n kvs rule: flat_flat_items_flat_values.induct)
  case (6 n vs)
  define R where "R = rs * length vs"
  have "length (body rs (flat n (PArray vs))) =
      length (count_marker 0xa (length vs)) + R + length (body rs (flat_items (Suc n) vs))"
    by (simp add: length_node_bytes R_def)
  moreover have "R \<le> 8 * length vs" using assms by (simp add: R_def)
  ultimately show ?case
    using 6 length_count_marker [of "0xa" "length vs"] unfolding nodes_of.simps data_of.simps mult_Suc_right by linarith
next
  case (7 n kvs)
  have "length (body rs (map (\<lambda>(k, v). text_node k) kvs)) \<le> 10 * length kvs + sum_list (map (\<lambda>(k, v). length k) kvs)"
  proof (induction kvs)
    case (Cons kv kvs)
    then show ?case
      using length_count_marker [of 5 "length (fst kv)"] by (cases kv) (simp add: node_bytes_def)
  qed simp
  moreover define R where "R = rs * length kvs"
  moreover have "R \<le> 8 * length kvs" using assms by (simp add: R_def)
  moreover have "pair_data kvs = sum_list (map (\<lambda>(k, v). length k) kvs) + sum_list (map (\<lambda>(k, v). data_of v) kvs)"
    by (induction kvs) auto
  moreover have "length (body rs (flat n (PDict kvs))) =
      length (count_marker 0xd (length kvs)) + 2 * R +
      length (body rs (map (\<lambda>(k, v). text_node k) kvs)) + length (body rs (flat_values (Suc n + length kvs) kvs))"
    by (simp add: length_node_bytes R_def del: upt_Suc)
  moreover have "length (body rs (flat_values (Suc n + length kvs) kvs)) + 8 * length kvs \<le>
      18 * value_nodes kvs + sum_list (map (\<lambda>(k, v). data_of v) kvs)"
    using 7 by simp
  ultimately show ?case
    using length_count_marker [of "0xd" "length kvs"]
    unfolding nodes_of.simps data_of.simps mult_Suc_right distrib_left by linarith
next
  case (2 n v)
  then show ?case using integer_length [of v] by (simp add: node_bytes_def)
next
  case (4 n s)
  then show ?case using length_count_marker [of 5 "length s"] by (simp add: node_bytes_def)
next
  case (5 n bs)
  then show ?case using length_count_marker [of 4 "length bs"] by (simp add: node_bytes_def)
qed (auto simp: node_bytes_def append_be_def)

lemma node_offsets_bound:
  assumes "list_all (\<lambda>n. node_bytes rs n \<noteq> []) N" "r \<in> set (node_offsets rs k N)"
  shows "r < k + length (body rs N)"
  using assms
proof (induction N arbitrary: k)
  case (Cons n N)
  show ?case
  proof (cases "r = k")
    case False
    with Cons.prems Cons.IH [of "k + length (node_bytes rs n)"] show ?thesis by simp
  qed (use Cons.prems in simp)
qed simp

lemma node_bytes_not_Nil:
  "list_all (\<lambda>n. node_bytes rs n \<noteq> []) (flat n v)"
  "list_all (\<lambda>n. node_bytes rs n \<noteq> []) (flat_items n vs)"
  "list_all (\<lambda>n. node_bytes rs n \<noteq> []) (flat_values n kvs)"
  by (induction n v and n vs and n kvs rule: flat_flat_items_flat_values.induct)
     (auto simp: node_bytes_def integer_def append_be_def Let_def list_all_iff)

lemma read_offsets_at:
  assumes "drop at bs = concat (map (\<lambda>r. be_bytes sz (of_nat r)) offs) @ tail"
    and "at \<le> length bs" "sz \<le> 8" "table \<le> 2 ^ (8 * sz)" "\<forall>r \<in> set offs. r < table"
  shows "read_offsets bs table at sz (length offs) = Some offs"
  using assms
proof (induction offs arbitrary: at)
  case Nil
  then show ?case by simp
next
  case (Cons r offs)
  let ?x = "be_bytes sz (of_nat r)"
  have dr: "drop at bs = [] @ ?x @ (concat (map (\<lambda>r. be_bytes sz (of_nat r)) offs) @ tail)"
    using Cons.prems(1) by simp
  have "r < 2 ^ (8 * sz)" using Cons.prems(4,5) by auto
  then have "unat (be_value ?x) = r" using Cons.prems(3) by (rule unat_be_value_of_nat)
  moreover have "read_be bs at sz = Some (be_value ?x)"
    using read_be_at [OF dr] Cons.prems(2,3) by simp
  moreover have "read_offsets bs table (at + sz) sz (length offs) = Some offs"
  proof (rule Cons.IH)
    show "drop (at + sz) bs = concat (map (\<lambda>r. be_bytes sz (of_nat r)) offs) @ tail"
      using dr by (metis add.commute append_Nil append_eq_conv_conj drop_drop length_be_bytes)
    show "at + sz \<le> length bs" using arg_cong [OF dr, of length] Cons.prems(2) by simp
  qed (use Cons.prems in auto)
  ultimately show ?case using Cons.prems(5) by simp
qed

definition table_bytes :: "nat \<Rightarrow> nat list \<Rightarrow> bytes" where
  "table_bytes sz offs = concat (map (\<lambda>r. be_bytes sz (of_nat r)) offs)"

definition trailer_bytes :: "nat \<Rightarrow> nat \<Rightarrow> nat \<Rightarrow> nat \<Rightarrow> bytes" where
  "trailer_bytes sz rs n table =
     replicate 6 0 @ [of_nat sz, of_nat rs] @ be_bytes 8 (of_nat n) @ be_bytes 8 0 @ be_bytes 8 (of_nat table)"

lemma length_magic [simp]: "length magic = 8"
  by (simp add: magic_def)

lemma finish_eq:
  assumes "rs = bytes_for (of_nat (length N - 1))" "table = 8 + length (body rs N)"
    "sz = bytes_for (of_nat table)"
  shows "finish N 0 = magic @ body rs N @ table_bytes sz (node_offsets rs 8 N) @
     trailer_bytes sz rs (length N) table"
proof -
  have "layout rs N magic = (node_offsets rs 8 N, magic @ body rs N)" by (simp add: layout_eq)
  then show ?thesis
    by (simp add: finish_def assms(1,3) [symmetric] fold_append_be Let_def del: One_nat_def)
       (simp add: assms append_be_def table_bytes_def trailer_bytes_def)
qed

lemma unat_of_nat_byte: "n \<le> 8 \<Longrightarrow> unat (of_nat n :: byte) = n"
  by (simp add: unat_of_nat)

lemma read_trailer:
  assumes "n < 2 ^ 64" "table < 2 ^ 64" "sz \<le> 8" "rs \<le> 8"
    and F: "F = front @ trailer_bytes sz rs n table"
  shows "length F - 32 = length front" "unat (F ! (length front + 6)) = sz" "unat (F ! (length front + 7)) = rs"
    "read_be F (length front + 8) 8 = Some (of_nat n)" "read_be F (length front + 16) 8 = Some 0"
    "read_be F (length front + 24) 8 = Some (of_nat table)"
proof -
  have d: "drop (length front) F = trailer_bytes sz rs n table" "length front \<le> length F" by (auto simp: F)
  have be8: "be_value (be_bytes 8 w) = w" for w by (simp add: be_value_be_bytes)
  show "length F - 32 = length front" by (simp add: F trailer_bytes_def)
  show "unat (F ! (length front + 6)) = sz" "unat (F ! (length front + 7)) = rs"
    using assms(3,4) by (simp_all add: F trailer_bytes_def nth_append unat_of_nat_byte)
  show "read_be F (length front + 8) 8 = Some (of_nat n)"
    using read_be_at [of "length front" F "replicate 6 0 @ [of_nat sz, of_nat rs]" "be_bytes 8 (of_nat n)"] d
    by (simp add: trailer_bytes_def be8)
  show "read_be F (length front + 16) 8 = Some 0"
    using read_be_at [of "length front" F "replicate 6 0 @ [of_nat sz, of_nat rs] @ be_bytes 8 (of_nat n)"
        "be_bytes 8 0"] d
    by (simp add: trailer_bytes_def be8)
  show "read_be F (length front + 24) 8 = Some (of_nat table)"
    using read_be_at [of "length front" F
        "replicate 6 0 @ [of_nat sz, of_nat rs] @ be_bytes 8 (of_nat n) @ be_bytes 8 0"
        "be_bytes 8 (of_nat table)" "[]"] d
    by (simp add: trailer_bytes_def be8)
qed

lemma on_table_file:
  assumes "0 < rs" "rs \<le> 8" "length N \<le> 2 ^ (8 * rs)" "list_all (\<lambda>n. node_bytes rs n \<noteq> []) N"
  shows "on_table \<lparr>dbytes = magic @ body rs N @ rest, ref_size = rs, offsets = node_offsets rs 8 N\<rparr> N"
proof -
  have "\<exists>tail. node_offsets rs 8 N ! i < length (magic @ body rs N @ rest) \<and>
      drop (node_offsets rs 8 N ! i) (magic @ body rs N @ rest) = node_bytes rs (N ! i) @ tail"
    if i: "i < length N" for i
  proof -
    have N: "N = take i N @ N ! i # drop (Suc i) N" using i by (rule id_take_nth_drop)
    have o: "node_offsets rs 8 N ! i = 8 + length (body rs (take i N))"
      using node_offsets_nth [of rs 8 "take i N" "N ! i" "drop (Suc i) N"] i N by simp
    have b: "body rs N = body rs (take i N) @ node_bytes rs (N ! i) @ body rs (drop (Suc i) N)"
      by (subst N) simp
    have "node_bytes rs (N ! i) \<noteq> []" using assms(4) i by (simp add: list_all_length)
    then show ?thesis by (simp add: o b)
  qed
  with assms show ?thesis by (simp add: on_table_def)
qed

lemma decode_encode:
  assumes "ordered v" "height v \<le> 64" "nodes_of v \<le> 65536" "data_of v \<le> kMaxMaterializedBytes"
  shows "decode_bplist (encode_bplist v) = Some v"
proof -
  define N where "N = flat 0 v"
  define rs where "rs = bytes_for (of_nat (length N - 1))"
  define table where "table = 8 + length (body rs N)"
  define sz where "sz = bytes_for (of_nat table)"
  define offs where "offs = node_offsets rs 8 N"
  define front where "front = magic @ body rs N @ table_bytes sz offs"
  define F where "F = encode_bplist v"
  have len: "length N = nodes_of v" by (simp add: N_def length_flat)
  have rs: "0 < rs" "rs \<le> 8" "0 < sz" "sz \<le> 8" by (simp_all add: rs_def sz_def)
  have "length (body rs N) + 8 \<le> 18 * nodes_of v + data_of v"
    using body_length(1) [OF rs(2)] by (simp add: N_def)
  with assms(3,4) have table: "table < 2 ^ 64" by (simp add: table_def kMaxMaterializedBytes_def)
  have F: "F = front @ trailer_bytes sz rs (length N) table"
    using finish_eq [OF rs_def table_def sz_def]
    by (simp add: F_def encode_bplist_def add_eq N_def [symmetric] front_def offs_def)
  have n: "length N < 2 ^ 64" using len assms(3) by simp
  note tr = read_trailer [OF n table rs(4,2) F]
  have unats: "unat (of_nat (length N) :: u64) = length N" "unat (of_nat table :: u64) = table"
    using n table by (simp_all add: unat_of_nat)
  have ne: "list_all (\<lambda>n. node_bytes rs n \<noteq> []) N" by (simp add: N_def node_bytes_not_Nil)
  have "unat (of_nat (length N - 1) :: u64) < 2 ^ (8 * rs)" unfolding rs_def by (rule bytes_for_bounds)
  then have "length N \<le> 2 ^ (8 * rs)" using n by (simp add: unat_of_nat)
  from on_table_file [OF rs(1,2) this ne]
  have on: "on_table \<lparr>dbytes = F, ref_size = rs, offsets = offs\<rparr> N"
    by (simp add: F front_def offs_def)
  have obj: "object \<lparr>dbytes = F, ref_size = rs, offsets = offs\<rparr> 0 0 (0, 0) = (Some v, nodes_of v, data_of v)"
    using object_flat(1) [OF on, of "[]" 0 v "[]" 0 0 0] assms by (simp add: N_def)
  have tb: "drop table F = concat (map (\<lambda>r. be_bytes sz (of_nat r)) offs) @ trailer_bytes sz rs (length N) table"
    by (simp add: F front_def table_def table_bytes_def)
  have "\<forall>r \<in> set offs. r < table"
    using node_offsets_bound [OF ne] by (simp add: offs_def table_def)
  moreover have "unat (of_nat table :: u64) < 2 ^ (8 * sz)" unfolding sz_def by (rule bytes_for_bounds)
  moreover have "table \<le> length F" by (simp add: F front_def table_def)
  ultimately have ro: "read_offsets F table table sz (length N) = Some offs"
    using read_offsets_at [OF tb _ rs(4), of table] unats by (simp add: offs_def)
  have "length F - table = sz * length N + 32"
    by (simp add: F front_def table_def table_bytes_def concat_be_length offs_def trailer_bytes_def)
  then have q: "\<not> (length F - table) div sz < length N"
    using rs(3) by (simp add: not_less less_eq_div_iff_mult_less_eq mult.commute)
  have pos: "(of_nat (length N) :: u64) \<noteq> 0" "\<not> 65536 < (of_nat (length N) :: u64)"
    using unats(1) len assms(3) nodes_of_pos [of v]
    by (auto simp: word_unat_eq_iff word_less_nat_alt simp del: nodes_of_pos)
  have "\<not> (of_nat (length N) :: u64) \<le> 0" using pos(1) by simp
  moreover have "\<not> length F < 40" "take 8 F = magic" by (simp_all add: F front_def trailer_bytes_def)
  ultimately have "decode_bplist F = fst (object \<lparr>dbytes = F, ref_size = rs, offsets = offs\<rparr> 0 0 (0, 0))"
    using tr rs ro q pos unats \<open>table \<le> length F\<close> by (simp add: decode_bplist_def)
  with obj show ?thesis unfolding F_def by simp
qed

section \<open>Budgets\<close>

text \<open>What a decoded value may cost: \<open>c\<close> and \<open>m\<close> are the counters before, \<open>c'\<close> and \<open>m'\<close> after.\<close>

definition within :: "nat \<Rightarrow> nat \<Rightarrow> nat \<Rightarrow> nat \<Rightarrow> nat \<Rightarrow> nat \<Rightarrow> bool" where
  "within c m c' m' n k =
     (c + n \<le> c' \<and> (c \<le> kMaxMaterializedNodes \<longrightarrow> c' \<le> kMaxMaterializedNodes) \<and>
      m + k \<le> m' \<and> (m \<le> kMaxMaterializedBytes \<longrightarrow> m' \<le> kMaxMaterializedBytes))"

lemma utf16_text_length: "length (utf16_text bs off n) \<le> n * 3"
proof -
  have "length (utf8_unit u) \<le> 3" for u by (simp add: utf8_unit_def)
  then have "length (concat (map (\<lambda>i. utf8_unit (f i)) xs)) \<le> length xs * 3" for f :: "nat \<Rightarrow> u16" and xs
    by (induction xs) (auto intro: add_mono)
  from this [of "\<lambda>i. read_u16 bs (off + i * 2)" "[0..<n]"] show ?thesis by (simp add: utf16_text_def)
qed

lemma leaf_budget:
  assumes "leaf d off m = Inl (Some v, m')"
  shows "nodes_of v = 1 \<and> height v = 0 \<and> ordered v \<and> m + data_of v \<le> m' \<and>
    (m \<le> kMaxMaterializedBytes \<longrightarrow> m' \<le> kMaxMaterializedBytes)"
  using assms utf16_text_length
  by (auto simp: leaf_def Let_def split: if_splits option.splits)

lemma insort_key_mset_sum: "sum_list (map f (insort_key g x xs)) = (f x + sum_list (map f xs) :: nat)"
  by (induction xs) auto

lemma map_emplace_budget:
  "length (map_emplace k v acc) + value_nodes (map_emplace k v acc) \<le> Suc (nodes_of v) + (length acc + value_nodes acc)"
  "pair_data (map_emplace k v acc) \<le> length k + data_of v + pair_data acc"
  "set (map_emplace k v acc) \<subseteq> insert (k, v) (set acc)"
  by (auto simp: map_emplace_def insort_key_mset_sum set_insort_key)

lemma map_emplace_ordered:
  assumes "sorted_wrt (<) (map fst acc)"
  shows "sorted_wrt (<) (map fst (map_emplace k v acc))"
proof (cases "k \<in> fst ` set acc")
  case False
  have "sorted (map fst (insort_key fst (k, v) acc))"
    using assms by (simp add: sorted_insort_key strict_sorted_iff)
  moreover have "distinct (map fst (insort_key fst (k, v) acc))"
    using assms False by (induction acc) (auto simp: strict_sorted_iff set_insort_key)
  ultimately show ?thesis using False by (simp add: map_emplace_def strict_sorted_iff)
qed (simp add: map_emplace_def assms)

lemma object_budget:
  "object d i depth (c, m) = (Some v, c', m') \<Longrightarrow>
     within c m c' m' (nodes_of v) (data_of v) \<and> depth + height v \<le> 64 \<and> ordered v"
  "object_items d refs depth (c, m) = (Some vs, c', m') \<Longrightarrow>
     within c m c' m' (sum_list (map nodes_of vs)) (sum_list (map data_of vs)) \<and>
     (\<forall>v \<in> set vs. depth + height v \<le> 64) \<and> list_all ordered vs"
  "object_pairs d prs depth acc (c, m) = (Some kvs, c', m') \<Longrightarrow>
     sorted_wrt (<) (map fst acc) \<Longrightarrow> \<forall>(k, v) \<in> set acc. depth + height v \<le> 64 \<and> ordered v \<Longrightarrow>
     (c \<le> kMaxMaterializedNodes \<longrightarrow> c' \<le> kMaxMaterializedNodes) \<and>
     (m \<le> kMaxMaterializedBytes \<longrightarrow> m' \<le> kMaxMaterializedBytes) \<and>
     c + (length kvs + value_nodes kvs) \<le> c' + (length acc + value_nodes acc) \<and>
     m + pair_data kvs \<le> m' + pair_data acc \<and>
     sorted_wrt (<) (map fst kvs) \<and> (\<forall>(k, v) \<in> set kvs. depth + height v \<le> 64 \<and> ordered v)"
proof (induction d i depth "(c, m)" and d refs depth "(c, m)" and d prs depth acc "(c, m)"
    arbitrary: v c m c' m' and vs c m c' m' and kvs c m c' m'
    rule: object_object_items_object_pairs.induct)
  case (1 d i depth c m)
  have g: "\<not> length (offsets d) \<le> i" "depth \<le> 64" "Suc c \<le> kMaxMaterializedNodes"
    using 1(3) by (subst (asm) object.simps, simp add: kMaxDepth_def split: if_splits)+
  show ?case
  proof (cases "leaf d (offsets d ! i) m")
    case (Inl a)
    with g 1(3) have "leaf d (offsets d ! i) m = Inl (Some v, m')" "c' = Suc c"
      by (subst (asm) object.simps, auto simp: kMaxDepth_def split: prod.splits)+
    with leaf_budget [of d _ m v m'] g show ?thesis by (auto simp: within_def)
  next
    case (Inr a)
    obtain dict refs where a: "a = (dict, refs)" by fastforce
    show ?thesis
    proof (cases dict)
      case False
      with g 1(3) Inr a obtain vs where r: "object_items d refs (Suc depth) (Suc c, m) = (Some vs, c', m')" "v = PArray vs"
        by (subst (asm) object.simps) (auto simp: kMaxDepth_def split: prod.splits)
      have "within (Suc c) m c' m' (sum_list (map nodes_of vs)) (sum_list (map data_of vs)) \<and>
          (\<forall>v \<in> set vs. Suc depth + height v \<le> 64) \<and> list_all ordered vs"
        using 1(2) [OF _ _ Inr a [symmetric] _ r(1)] g False by (simp add: kMaxDepth_def)
      with g r(2) show ?thesis by (auto simp: within_def depth_fold_max)
    next
      case True
      define prs where "prs = zip (take (length refs div 2) refs) (drop (length refs div 2) refs)"
      from True g 1(3) Inr a obtain kvs
        where r: "object_pairs d prs (Suc depth) [] (Suc c, m) = (Some kvs, c', m')" "v = PDict kvs"
        by (subst (asm) object.simps) (auto simp: kMaxDepth_def prs_def Let_def split: prod.splits)
      have "(Suc c \<le> kMaxMaterializedNodes \<longrightarrow> c' \<le> kMaxMaterializedNodes) \<and>
         (m \<le> kMaxMaterializedBytes \<longrightarrow> m' \<le> kMaxMaterializedBytes) \<and>
         Suc c + (length kvs + value_nodes kvs) \<le> c' + (length [] + value_nodes []) \<and>
         m + pair_data kvs \<le> m' + pair_data [] \<and>
         sorted_wrt (<) (map fst kvs) \<and> (\<forall>(k, v) \<in> set kvs. Suc depth + height v \<le> 64 \<and> ordered v)"
        using 1(1) [OF _ _ Inr a [symmetric] _ refl] r(1) g True by (simp add: kMaxDepth_def prs_def)
      with g r(2) show ?thesis by (auto simp: within_def depth_fold_max list_all_iff)
    qed
  qed
next
  case (2 d depth c m)
  then show ?case by (auto simp: within_def)
next
  case (3 d ref refs depth c m)
  then obtain v c1 m1 vs' where r: "object d ref depth (c, m) = (Some v, c1, m1)"
    "object_items d refs depth (c1, m1) = (Some vs', c', m')" "vs = v # vs'"
    by (auto split: prod.splits option.splits)
  from 3(1) [OF r(1)] 3(2) [OF r(1) [symmetric] refl r(2)] r(3) show ?case by (auto simp: within_def)
next
  case (4 d depth acc c m)
  then show ?case by auto
next
  case (5 d kref vref refs depth acc c m)
  then obtain k c1 m1 v c2 m2 where r: "object d kref depth (c, m) = (Some (PText k), c1, m1)"
    "object d vref depth (c1, m1) = (Some v, c2, m2)"
    "object_pairs d refs depth (map_emplace k v acc) (c2, m2) = (Some kvs, c', m')"
    by (auto split: prod.splits option.splits plist.splits)
  have k: "within c m c1 m1 1 (length k)" using 5(1) [OF r(1)] by simp
  have v: "within c1 m1 c2 m2 (nodes_of v) (data_of v)" "depth + height v \<le> 64" "ordered v"
    using 5(2) [OF r(1) [symmetric] r(2)] by auto
  note e = map_emplace_budget [of k v acc]
  have "\<forall>(k, v) \<in> set (map_emplace k v acc). depth + height v \<le> 64 \<and> ordered v"
    using e(3) v(2,3) 5(6) by fastforce
  from 5(3) [OF r(1) [symmetric] r(2) [symmetric] refl refl refl refl r(3) map_emplace_ordered [OF 5(5)] this]
  show ?case using k v(1) e(1,2) by (auto simp: within_def)
qed

section \<open>Properties\<close>

text \<open>
  C12: Decoding an encoded property list gives it back, for every value whose dictionaries are
  in map order and that stays within the decoder's depth, node and data budgets; the widths
  of counts, references and offsets the encoder chooses are the ones the decoder reads.
\<close>

theorem bplist_roundtrip:
  assumes "ordered v" "height v \<le> 64" "nodes_of v \<le> 65536" "data_of v \<le> kMaxMaterializedBytes"
  shows "decode_bplist (encode_bplist v) = Some v"
  using assms by (rule decode_encode)

definition sample :: plist where
  "sample = PDict [(''a'', PArray [PBool True, PInt 300, PData [1, 2]])]"

theorem bplist_roundtrip_witness: "decode_bplist (encode_bplist sample) = Some sample"
  by (rule bplist_roundtrip) (simp_all add: sample_def kMaxMaterializedBytes_def)

text \<open>
  C13: Whatever the file, a decoded value has at most 65536 nodes, 8 MiB of text and data and
  a nesting depth of 64, although references may be shared or cyclic, and its dictionaries
  are in map order without duplicate keys.
\<close>

theorem bplist_decode_within_budget:
  assumes "decode_bplist bs = Some v"
  shows "nodes_of v \<le> 65536 \<and> data_of v \<le> 8 * 1024 * 1024 \<and> height v \<le> 64 \<and> ordered v"
proof -
  from assms obtain d i where "fst (object d i 0 (0, 0)) = Some v"
    by (auto simp: decode_bplist_def Let_def split: if_splits option.splits)
  then obtain c m where "object d i 0 (0, 0) = (Some v, c, m)" by (metis prod.collapse)
  from object_budget(1) [OF this] show ?thesis
    by (auto simp: within_def kMaxMaterializedNodes_def kMaxMaterializedBytes_def)
qed

theorem bplist_decode_within_budget_witness: "nodes_of sample \<le> 65536 \<and> ordered sample"
proof -
  have "decode_bplist (encode_bplist sample) = Some sample"
    by (rule decode_encode) (simp_all add: sample_def kMaxMaterializedBytes_def)
  from bplist_decode_within_budget [OF this] show ?thesis by simp
qed

end
