(* ===== verification/Airplay_Video.thy ===== *)
theory Airplay_Video
  imports Media_Nalu
begin

text \<open>
  The H.264 helpers of the AirPlay session (\<open>src/src/airplay/session.cpp\<close>): splitting a stream into
  NAL units, the first macroblock of a slice (an Exp-Golomb number), grouping units into
  access units, and the decoder configuration record.  The session splits a file or a span
  with a second copy of the forwarder's splitter; the two are shown to agree.
\<close>

section \<open>Splitting\<close>

definition start_code :: "bytes \<Rightarrow> nat" where
  "start_code xs =
     (if 4 \<le> length xs \<and> xs ! 0 = 0 \<and> xs ! 1 = 0 \<and> xs ! 2 = 0 \<and> xs ! 3 = 1 then 4
      else if xs ! 0 = 0 \<and> xs ! 1 = 0 \<and> xs ! 2 = 1 then 3 else 0)"

function h264_nalus :: "bytes \<Rightarrow> bytes list" where
  "h264_nalus xs =
     (if length xs < 3 then []
      else if start_code xs = 0 then h264_nalus (tl xs)
      else (let rest = drop (start_code xs) xs; n = nalu_end rest
            in (if 0 < n then [take n rest] else []) @ h264_nalus (drop n rest)))"
  by pat_completeness auto
termination
  by (relation "measure length") (auto simp: start_code_def)

declare h264_nalus.simps [simp del]

text \<open>The variant that reads a file; \<open>None\<close> is a file that cannot be opened.\<close>

definition h264_nalus_file :: "bytes option \<Rightarrow> bytes list" where
  "h264_nalus_file file = (case file of None \<Rightarrow> [] | Some input \<Rightarrow> h264_nalus input)"

section \<open>The first macroblock of a slice\<close>

text \<open>The loop over the payload: a 0, 0, 3 sequence is copied and the index moves to the 3.\<close>

fun rbsp_of :: "bytes \<Rightarrow> bytes" where
  "rbsp_of (a # b # c # xs) =
     (if a = 0 \<and> b = 0 \<and> c = 3 then 0 # 0 # rbsp_of (c # xs) else a # rbsp_of (b # c # xs))"
| "rbsp_of xs = xs"

definition rbsp_bit :: "bytes \<Rightarrow> nat \<Rightarrow> bool" where
  "rbsp_bit rbsp off = (drop_bit (7 - off mod 8) (rbsp ! (off div 8)) AND 1 = 1)"

text \<open>The loop over the leading zero bits: the offset it stops at and how many there were.\<close>

function zero_bits :: "bytes \<Rightarrow> nat \<Rightarrow> nat \<Rightarrow> (nat \<times> nat) option" where
  "zero_bits rbsp off zeros =
     (if off < length rbsp * 8 \<and> \<not> rbsp_bit rbsp off
      then (if 31 < Suc zeros then None else zero_bits rbsp (Suc off) (Suc zeros))
      else Some (off, zeros))"
  by pat_completeness auto
termination
  by (relation "measure (\<lambda>(rbsp, off, zeros). length rbsp * 8 - off)") auto

declare zero_bits.simps [simp del]

fun suffix_bits :: "bytes \<Rightarrow> nat \<Rightarrow> nat \<Rightarrow> u32 \<Rightarrow> u32 option" where
  "suffix_bits rbsp off 0 acc = Some acc"
| "suffix_bits rbsp off (Suc n) acc =
     (if length rbsp * 8 \<le> off then None
      else suffix_bits rbsp (Suc off) n (push_bit 1 acc OR (if rbsp_bit rbsp off then 1 else 0)))"

definition first_mb_in_slice :: "bytes \<Rightarrow> u32 option" where
  "first_mb_in_slice nalu =
     (if length nalu < 2 then None
      else (let rbsp = rbsp_of (tl nalu)
            in case zero_bits rbsp 0 0 of
                 None \<Rightarrow> None
               | Some (off, zeros) \<Rightarrow>
                   if length rbsp * 8 \<le> off then None
                   else map_option (\<lambda>low. push_bit zeros 1 - 1 + low)
                          (suffix_bits rbsp (Suc off) zeros 0)))"

section \<open>Access units\<close>

record grouping =
  result :: "bytes list list"
  current :: "bytes list"
  has_vcl :: bool

definition flush :: "grouping \<Rightarrow> grouping" where
  "flush g = \<lparr>result = (if current g = [] then result g else result g @ [current g]), current = [],
              has_vcl = False\<rparr>"

definition is_vcl :: "bytes \<Rightarrow> bool" where
  "is_vcl nalu = (1 \<le> nal_type nalu \<and> nal_type nalu \<le> 5)"

text \<open>Whether a slice begins a new picture for the grouping.\<close>

definition starts_picture :: "bytes \<Rightarrow> bool" where
  "starts_picture nalu = (case first_mb_in_slice nalu of None \<Rightarrow> True | Some mb \<Rightarrow> mb = 0)"

definition group_nalu :: "bytes \<Rightarrow> grouping \<Rightarrow> grouping" where
  "group_nalu nalu g =
     (if nalu = [] then g
      else
        (let g = (if nal_type nalu = 9 \<or> ((nal_type nalu = 7 \<or> nal_type nalu = 8) \<and> has_vcl g)
                  then flush g else g);
             g = (if is_vcl nalu
                  then (if has_vcl g \<and> starts_picture nalu then flush g else g)\<lparr>has_vcl := True\<rparr>
                  else g)
         in g\<lparr>current := current g @ [nalu]\<rparr>))"

definition h264_access_units :: "bytes list \<Rightarrow> bytes list list" where
  "h264_access_units ns =
     result (flush (fold group_nalu ns \<lparr>result = [], current = [], has_vcl = False\<rparr>))"

section \<open>Decoder configuration\<close>

definition avcc_config :: "bytes list \<Rightarrow> bytes option" where
  "avcc_config ns =
     (case (find (\<lambda>n. n \<noteq> [] \<and> nal_type n = 7) ns, find (\<lambda>n. n \<noteq> [] \<and> nal_type n = 8) ns) of
        (Some sps, Some pps) \<Rightarrow>
          if length sps < 4 \<or> 65535 < length sps \<or> 65535 < length pps then None
          else Some ([1, sps ! 1, sps ! 2, sps ! 3, 0xff, 0xe1,
                      of_nat (length sps div 256), of_nat (length sps)] @ sps @
                     [1, of_nat (length pps div 256), of_nat (length pps)] @ pps)
      | _ \<Rightarrow> None)"

definition store_le32 :: "u32 \<Rightarrow> bytes" where
  "store_le32 v = le_bytes 4 (ucast v)"

definition store_le64 :: "u64 \<Rightarrow> bytes" where
  "store_le64 v = le_bytes 8 v"

section \<open>The two splitters agree\<close>

lemma start_code_cases:
  assumes "\<not> length xs < 3"
  shows "start_code xs = (if four xs then 4 else if three xs then 3 else 0)"
  using assms by (auto simp: start_code_def four_def three_def)

lemma h264_nalus_eq: "h264_nalus xs = nalus xs"
proof (induction xs rule: nalus.induct)
  case (1 xs)
  show ?case
  proof (cases "length xs < 3")
    case True
    then show ?thesis by (simp add: nalus_short h264_nalus.simps)
  next
    case False
    note sc = start_code_cases [OF False]
    show ?thesis
      by (subst nalus.simps, subst h264_nalus.simps)
         (use 1 False in \<open>auto simp: sc Let_def split: if_splits\<close>)
  qed
qed

section \<open>Exp-Golomb numbers\<close>

text \<open>The payload is read as it is: no emulation-prevention byte is ever removed.\<close>

lemma rbsp_of_id: "rbsp_of xs = xs"
  by (induction xs rule: rbsp_of.induct) auto

definition byte_bits :: "byte \<Rightarrow> bool list" where
  "byte_bits b = map (\<lambda>i. bit b (7 - i)) [0..<8]"

definition bits_of :: "bytes \<Rightarrow> bool list" where
  "bits_of bs = concat (map byte_bits bs)"

lemma length_bits_of [simp]: "length (bits_of bs) = length bs * 8"
  by (induction bs) (auto simp: bits_of_def byte_bits_def)

lemma nth_bits_of: "off < length bs * 8 \<Longrightarrow> bits_of bs ! off = bit (bs ! (off div 8)) (7 - off mod 8)"
proof (induction bs arbitrary: off)
  case (Cons b bs)
  show ?case
  proof (cases "off < 8")
    case True
    then show ?thesis by (simp add: bits_of_def byte_bits_def nth_append)
  next
    case False
    with Cons.prems Cons.IH [of "off - 8"] show ?thesis
      by (simp add: bits_of_def byte_bits_def nth_append le_div_geq le_mod_geq)
  qed
qed simp

lemma rbsp_bit_eq: "off < length bs * 8 \<Longrightarrow> rbsp_bit bs off = bits_of bs ! off"
proof -
  have "drop_bit n b AND 1 = 1 \<longleftrightarrow> bit b n" for n and b :: byte
    by (simp add: and_one_eq odd_iff_mod_2_eq_one [symmetric] bit_iff_odd_drop_bit)
  then show "off < length bs * 8 \<Longrightarrow> rbsp_bit bs off = bits_of bs ! off"
    by (simp add: rbsp_bit_def nth_bits_of)
qed

lemma zero_bits_prefix:
  assumes "bits_of rbsp = replicate z False @ True # rest" "z \<le> 31" "k \<le> z"
  shows "zero_bits rbsp k k = Some (z, z)"
proof -
  have len: "z < length rbsp * 8" using arg_cong [OF assms(1), of length] by simp
  have bit: "rbsp_bit rbsp i \<longleftrightarrow> i = z" if "i \<le> z" for i
    using that len assms(1) by (auto simp: rbsp_bit_eq nth_append)
  show ?thesis
    using assms(3)
  proof (induction k rule: inc_induct)
    case base
    then show ?case by (subst zero_bits.simps) (simp add: bit)
  next
    case (step k)
    with len assms(2) show ?case by (subst zero_bits.simps) (simp add: bit)
  qed
qed

definition number :: "bool list \<Rightarrow> u32" where
  "number bs = foldl (\<lambda>acc b. push_bit 1 acc OR (if b then 1 else 0)) 0 bs"

lemma suffix_bits_eq:
  "off + n \<le> length rbsp * 8 \<Longrightarrow>
     suffix_bits rbsp off n acc =
       Some (foldl (\<lambda>acc b. push_bit 1 acc OR (if b then 1 else 0)) acc (take n (drop off (bits_of rbsp))))"
proof (induction n arbitrary: off acc)
  case (Suc n)
  then have "take (Suc n) (drop off (bits_of rbsp)) = rbsp_bit rbsp off # take n (drop (Suc off) (bits_of rbsp))"
    by (simp add: rbsp_bit_eq Cons_nth_drop_Suc [symmetric])
  with Suc show ?case by simp
qed simp

lemma first_mb_golomb:
  assumes "bits_of (tl nalu) = replicate z False @ True # low @ rest" "length low = z" "z \<le> 31" "tl nalu \<noteq> []"
  shows "first_mb_in_slice nalu = Some (push_bit z 1 - 1 + number low)"
proof -
  have len: "Suc z + z \<le> length (tl nalu) * 8"
    using arg_cong [OF assms(1), of length] assms(2) by simp
  have "take z (drop (Suc z) (bits_of (tl nalu))) = low" using assms(1,2) by simp
  with len have "suffix_bits (tl nalu) (Suc z) z 0 = Some (number low)"
    by (simp add: suffix_bits_eq number_def)
  moreover have "\<not> length nalu < 2" using assms(4) by (cases nalu) (auto simp: Suc_le_eq)
  ultimately show ?thesis
    using zero_bits_prefix [OF assms(1,3), of 0] len by (simp add: first_mb_in_slice_def rbsp_of_id)
qed

section \<open>Grouping loses nothing\<close>

text \<open>The units emitted so far, in order.\<close>

definition grouped :: "grouping \<Rightarrow> bytes list" where
  "grouped g = concat (result g) @ current g"

lemma grouped_flush [simp]: "grouped (flush g) = grouped g"
  by (simp add: grouped_def flush_def)

lemma grouped_vcl [simp]: "grouped (g\<lparr>has_vcl := b\<rparr>) = grouped g"
  by (simp add: grouped_def)

lemma grouped_current: "grouped (g\<lparr>current := current g @ [n]\<rparr>) = grouped g @ [n]"
  by (simp add: grouped_def)

lemma grouped_group_nalu: "grouped (group_nalu n g) = grouped g @ (if n = [] then [] else [n])"
  by (simp add: group_nalu_def Let_def grouped_current)

lemma grouped_fold: "grouped (fold group_nalu ns g) = grouped g @ filter (\<lambda>n. n \<noteq> []) ns"
  by (induction ns arbitrary: g) (auto simp: grouped_group_nalu)

text \<open>
  One picture per access unit: a delimiter only at the front, and after the first slice
  neither parameter sets nor a slice that starts a picture.
\<close>

fun after_slice :: "bytes list \<Rightarrow> bool" where
  "after_slice [] = True"
| "after_slice (n # ns) =
     (nal_type n \<notin> {7, 8, 9} \<and> (is_vcl n \<longrightarrow> \<not> starts_picture n) \<and> after_slice ns)"

fun one_picture :: "bytes list \<Rightarrow> bool" where
  "one_picture [] = True"
| "one_picture (n # ns) = (nal_type n \<noteq> 9 \<and> (if is_vcl n then after_slice ns else one_picture ns))"

definition access_unit :: "bytes list \<Rightarrow> bool" where
  "access_unit u =
     (u \<noteq> [] \<and> [] \<notin> set u \<and>
      (case u of [] \<Rightarrow> True | n # ns \<Rightarrow> if nal_type n = 9 then one_picture ns else one_picture u))"

lemma after_slice_snoc:
  "after_slice (ns @ [n]) = (after_slice ns \<and> nal_type n \<notin> {7, 8, 9} \<and> (is_vcl n \<longrightarrow> \<not> starts_picture n))"
  by (induction ns) auto

lemma one_picture_snoc:
  "one_picture (ns @ [n]) =
     (one_picture ns \<and> nal_type n \<noteq> 9 \<and>
      ((\<exists>m \<in> set ns. is_vcl m) \<longrightarrow> nal_type n \<notin> {7, 8, 9} \<and> (is_vcl n \<longrightarrow> \<not> starts_picture n)))"
  by (induction ns) (auto simp: after_slice_snoc)

definition grouping_ok :: "grouping \<Rightarrow> bool" where
  "grouping_ok g =
     (list_all access_unit (result g) \<and> (current g \<noteq> [] \<longrightarrow> access_unit (current g)) \<and>
      (has_vcl g \<longleftrightarrow> (\<exists>m \<in> set (current g). is_vcl m)))"

lemma grouping_ok_flush: "grouping_ok g \<Longrightarrow> grouping_ok (flush g) \<and> current (flush g) = [] \<and> \<not> has_vcl (flush g)"
  by (auto simp: grouping_ok_def flush_def)

lemma aud_not_vcl: "is_vcl n \<Longrightarrow> nal_type n \<noteq> 9 \<and> nal_type n \<noteq> 7 \<and> nal_type n \<noteq> 8"
  by (auto simp: is_vcl_def)

lemma grouping_ok_append:
  assumes "grouping_ok g" "n \<noteq> []" "nal_type n = 9 \<longrightarrow> current g = []"
    "has_vcl g \<longrightarrow> nal_type n \<notin> {7, 8} \<and> (is_vcl n \<longrightarrow> \<not> starts_picture n)"
  shows "grouping_ok (g\<lparr>has_vcl := has_vcl g \<or> is_vcl n, current := current g @ [n]\<rparr>)"
proof (cases "current g")
  case Nil
  with assms aud_not_vcl [of n] show ?thesis by (auto simp: grouping_ok_def access_unit_def)
next
  case (Cons m ms)
  with assms aud_not_vcl [of m] show ?thesis
    by (auto simp: grouping_ok_def access_unit_def one_picture_snoc after_slice_snoc split: if_splits)
qed

lemma grouping_ok_step: "grouping_ok g \<Longrightarrow> grouping_ok (group_nalu n g)"
proof (cases "n = []")
  case False
  assume g: "grouping_ok g"
  define g1 where "g1 = (if nal_type n = 9 \<or> ((nal_type n = 7 \<or> nal_type n = 8) \<and> has_vcl g) then flush g else g)"
  define g2 where "g2 = (if is_vcl n \<and> has_vcl g1 \<and> starts_picture n then flush g1 else g1)"
  have "grouping_ok g1" using g grouping_ok_flush by (simp add: g1_def)
  then have g2: "grouping_ok g2" using grouping_ok_flush by (simp add: g2_def)
  have "nal_type n = 9 \<longrightarrow> current g2 = []" "has_vcl g2 \<longrightarrow> nal_type n \<notin> {7, 8} \<and> (is_vcl n \<longrightarrow> \<not> starts_picture n)"
    using aud_not_vcl [of n] grouping_ok_flush [OF g] by (auto simp: g1_def g2_def flush_def)
  from grouping_ok_append [OF g2 False this]
  have "grouping_ok (g2\<lparr>has_vcl := has_vcl g2 \<or> is_vcl n, current := current g2 @ [n]\<rparr>)" .
  moreover have "group_nalu n g = g2\<lparr>has_vcl := has_vcl g2 \<or> is_vcl n, current := current g2 @ [n]\<rparr>"
    using False by (auto simp: group_nalu_def Let_def g1_def g2_def)
  ultimately show ?thesis by simp
qed (simp add: group_nalu_def)

lemma grouping_ok_fold: "grouping_ok g \<Longrightarrow> grouping_ok (fold group_nalu ns g)"
  by (induction ns arbitrary: g) (auto simp: grouping_ok_step)

section \<open>Configuration record\<close>

text \<open>A reader of the record, field by field.\<close>

definition avcc_parse :: "bytes \<Rightarrow> (bytes \<times> bytes) option" where
  "avcc_parse bs =
     (let n = unat (read_u16 bs 6); sps = take n (drop 8 bs); rest = drop n (drop 8 bs);
          m = unat (read_u16 rest 1)
      in if length bs < 11 \<or> bs ! 0 \<noteq> 1 \<or> length sps \<noteq> n \<or> length rest < 3 \<or> rest ! 0 \<noteq> 1 \<or> length rest \<noteq> 3 + m
         then None else Some (sps, drop 3 rest))"

lemma u16_be_length:
  assumes "n \<le> 65535"
  shows "u16_be (of_nat n) = [of_nat (n div 256), of_nat n]"
proof -
  have "(ucast (of_nat n AND 0xff :: u16) :: byte) = of_nat n"
    unfolding mask_8 by (rule bit_word_eqI) (auto simp: bit_simps)
  moreover have "(drop_bit 8 (of_nat n) :: u16) = of_nat (n div 256)"
    using assms by (simp add: word_unat_eq_iff drop_bit_eq_div unat_div_distrib unat_of_nat)
  moreover have "(ucast (of_nat (n div 256) :: u16) :: byte) = of_nat (n div 256)"
    by (rule bit_word_eqI) (auto simp: bit_simps)
  ultimately show ?thesis by (simp add: u16_be_def)
qed

lemma read_u16_at:
  assumes "n \<le> 65535"
  shows "unat (read_u16 (xs @ of_nat (n div 256) # of_nat n # ys) (length xs)) = n"
  using u16_be_length [OF assms] read_u16_shift [of "length xs" xs] read_u16_be [of "of_nat n" ys] assms
  by (simp add: unat_of_nat)

lemma avcc_parse_config:
  assumes "avcc_config ns = Some config"
  shows "\<exists>sps pps. avcc_parse config = Some (sps, pps) \<and> sps \<in> set ns \<and> pps \<in> set ns \<and>
           nal_type sps = 7 \<and> nal_type pps = 8"
proof -
  from assms obtain sps pps where
    f: "find (\<lambda>n. n \<noteq> [] \<and> nal_type n = 7) ns = Some sps" "find (\<lambda>n. n \<noteq> [] \<and> nal_type n = 8) ns = Some pps"
    and len: "length sps \<le> 65535" "length pps \<le> 65535"
    and c: "config = [1, sps ! 1, sps ! 2, sps ! 3, 0xff, 0xe1] @ of_nat (length sps div 256) #
        of_nat (length sps) # sps @ [1] @ of_nat (length pps div 256) # of_nat (length pps) # pps"
    by (auto simp: avcc_config_def split: option.splits if_splits)
  have six: "length [1, sps ! 1, sps ! 2, sps ! 3, 0xff, 0xe1] = 6" by simp
  have "unat (read_u16 config 6) = length sps"
    unfolding c six [symmetric] by (rule read_u16_at [OF len(1)])
  moreover have "unat (read_u16 ([1] @ of_nat (length pps div 256) # of_nat (length pps) # pps) 1) = length pps"
    using read_u16_at [OF len(2), of "[1]" pps] by simp
  ultimately have "avcc_parse config = Some (sps, pps)" by (simp add: avcc_parse_def c Let_def del: drop_drop)
  with f show ?thesis by (auto simp: find_Some_iff)
qed

section \<open>Properties\<close>

text \<open>
  The session's splitter and the forwarder's are the same function.
\<close>

theorem session_splitter_agrees: "h264_nalus xs = nalus xs"
  by (rule h264_nalus_eq)

text \<open>
  Grouping into access units loses, adds and reorders nothing: the units concatenated are
  the non-empty NAL units; each is not empty, has a delimiter at most at its front and holds
  the slices of one picture, with no parameter set between them.
\<close>

theorem h264_access_units_partition:
  "concat (h264_access_units ns) = filter (\<lambda>n. n \<noteq> []) ns \<and> list_all access_unit (h264_access_units ns)"
proof -
  let ?g0 = "\<lparr>result = [], current = [], has_vcl = False\<rparr>"
  define g where "g = fold group_nalu ns ?g0"
  have "grouped (flush g) = filter (\<lambda>n. n \<noteq> []) ns" by (simp add: g_def grouped_fold grouped_def [of ?g0])
  moreover have "grouping_ok g" unfolding g_def by (rule grouping_ok_fold) (simp add: grouping_ok_def)
  ultimately show ?thesis
    using grouping_ok_flush [of g]
    by (simp add: h264_access_units_def g_def [symmetric] grouped_def grouping_ok_def)
qed

text \<open>
  A slice header that begins with the Exp-Golomb code of a number (\<open>z\<close> zeros, a one and
  \<open>z\<close> low bits, \<open>z\<close> at most 31) is read as that number.
\<close>

theorem first_mb_reads_exp_golomb:
  assumes "bits_of (tl nalu) = replicate z False @ True # low @ rest" "length low = z" "z \<le> 31" "tl nalu \<noteq> []"
  shows "first_mb_in_slice nalu = Some (2 ^ z - 1 + number low)"
  using first_mb_golomb [OF assms] by (simp add: push_bit_eq_mult)

theorem first_mb_reads_exp_golomb_witness: "first_mb_in_slice [0x65, 0x60] = Some 2"
proof -
  have "bits_of (tl [0x65, 0x60]) = replicate 1 False @ True # [True] @ [False, False, False, False, False]"
    by (simp add: bits_of_def byte_bits_def upt_rec)
  from first_mb_reads_exp_golomb [OF this] show ?thesis by (simp add: number_def)
qed

end
