(* ===== verification/Airplay_Events.thy ===== *)
theory Airplay_Events
  imports Airplay_Cipher
begin

text \<open>
  The side channels of the AirPlay session (\<open>src/src/airplay/session.cpp\<close>): the event channel, on
  which the head unit sends encrypted requests that are handed to the bridge and answered,
  and the timing channel, on which it asks for NTP timestamps; with the identifiers and
  headers the session makes up.  Sockets answer with values the model takes as arguments;
  logging is left out.
\<close>

section \<open>Identifiers and headers\<close>

definition append_limited :: "bytes \<Rightarrow> bytes \<Rightarrow> nat \<Rightarrow> bytes option" where
  "append_limited target bs limit =
     (if limit < length target \<or> limit - length target < length bs then None else Some (target @ bs))"

text \<open>\<open>now\<close> is the Unix time in seconds.\<close>

definition pairing_headers :: "int \<Rightarrow> int \<Rightarrow> (string \<times> string) list" where
  "pairing_headers now hkp =
     [(''X-Apple-AbsoluteTime'', int_to_string (now - 978307200)),
      (''X-Apple-HKP'', int_to_string hkp),
      (''X-Apple-Client-Name'', ''User''),
      (''User-Agent'', ''AirPlay/950.7.1'')] @
     (if hkp = 2 then [(''X-Apple-PD'', ''1'')] else [])"

text \<open>\<open>RAND_bytes\<close> gives eight bytes or fails.\<close>

definition random_stream_connection_id :: "bytes option \<Rightarrow> u64 option" where
  "random_stream_connection_id rand =
     (case rand of None \<Rightarrow> None | Some bs \<Rightarrow> if be_value bs = 0 then None else Some (be_value bs))"

definition hex_digit :: "nat \<Rightarrow> char" where
  "hex_digit n = ''0123456789ABCDEF'' ! n"

fun controller_id_from :: "nat \<Rightarrow> bytes \<Rightarrow> string" where
  "controller_id_from index [] = []"
| "controller_id_from index (b # bs) =
     (if index = 4 \<or> index = 6 \<or> index = 8 \<or> index = 10 then ''-'' else []) @
     [hex_digit (unat (drop_bit 4 b)), hex_digit (unat (b AND 0x0f))] @ controller_id_from (Suc index) bs"

definition random_controller_id :: "bytes option \<Rightarrow> string option" where
  "random_controller_id rand =
     map_option (\<lambda>bs. controller_id_from 0 (bs[6 := (bs ! 6 AND 0x0f) OR 0x40, 8 := (bs ! 8 AND 0x3f) OR 0x80])) rand"

section \<open>Timing channel\<close>

text \<open>
  \<open>system_clock\<close> as seconds and nanoseconds since the epoch, the latter below \<open>10 ^ 9\<close>.
\<close>

definition ntp_timestamp :: "u64 \<Rightarrow> u64 \<Rightarrow> u64" where
  "ntp_timestamp seconds nanoseconds =
     (push_bit 32 (seconds + 2208988800) OR (push_bit 32 nanoseconds div 1000000000))"

definition write_ntp_timestamp :: "u64 \<Rightarrow> bytes" where
  "write_ntp_timestamp v = be_bytes 8 v"

text \<open>The reply to one datagram: \<open>None\<close> where it is ignored.\<close>

definition timing_reply :: "bytes \<Rightarrow> u64 \<Rightarrow> u64 \<Rightarrow> bytes option" where
  "timing_reply request received transmitted =
     (if length request < 32 \<or> request ! 1 \<noteq> 210 then None
      else Some ([0x80, 211, 0, 7, 0, 0, 0, 0] @ take 8 (drop 24 request) @
                 write_ntp_timestamp received @ write_ntp_timestamp transmitted))"

section \<open>Event requests\<close>

definition kMaximumEncryptedEventBuffer :: nat where
  "kMaximumEncryptedEventBuffer = 2 * 1024 * 1024"

definition kMaximumEventBytes :: nat where
  "kMaximumEventBytes = 1024 * 1024"

definition kMaximumEventHeaders :: nat where
  "kMaximumEventHeaders = 64 * 1024"

text \<open>The header loop: \<open>None\<close> is \<open>malformed\<close>; the state is the sequence, the length and whether it was seen.\<close>

fun event_headers :: "string list \<Rightarrow> string \<times> nat \<times> bool \<Rightarrow> (string \<times> nat \<times> bool) option" where
  "event_headers [] s = Some s"
| "event_headers (line # rest) (cseq, body_size, seen) =
     (let line = (if line \<noteq> [] \<and> last line = CHR 0x0D then butlast line else line)
      in case find_sub '':'' line of
           None \<Rightarrow> event_headers rest (cseq, body_size, seen)
         | Some separator \<Rightarrow>
             (let name = lower (take separator line); v = trim (drop (Suc separator) line)
              in if name = ''cseq'' then event_headers rest (v, body_size, seen)
                 else if name = ''content-length'' then
                   (if seen then None
                    else (case parse_unsigned (2 ^ 64 - 1) v of
                            None \<Rightarrow> None
                          | Some n \<Rightarrow>
                              if kMaximumEventBytes < n then None else event_headers rest (cseq, n, True)))
                 else event_headers rest (cseq, body_size, seen)))"

datatype event_outcome = EventClose | EventMore | EventRequest nat string

text \<open>What the plaintext so far holds: the size of the first request and its sequence.\<close>

definition parse_event :: "bytes \<Rightarrow> event_outcome" where
  "parse_event plaintext =
     (let request = text_of plaintext
      in case find_sub crlf2 request of
           None \<Rightarrow> if kMaximumEventHeaders < length plaintext then EventClose else EventMore
         | Some header_end \<Rightarrow>
             if kMaximumEventHeaders < header_end then EventClose
             else (case event_headers (getlines (take header_end request)) ([], 0, False) of
                     None \<Rightarrow> EventClose
                   | Some (cseq, body_size, seen) \<Rightarrow>
                       if \<not> seen \<or> kMaximumEventBytes < body_size \<or>
                          kMaximumEventBytes - body_size < header_end + 4 then EventClose
                       else if length plaintext < header_end + 4 + body_size then EventMore
                       else EventRequest (header_end + 4 + body_size) cseq))"

definition event_response :: "string \<Rightarrow> bytes" where
  "event_response cseq =
     bytes_of (''HTTP/1.1 200 OK'' @ crlf @ ''Content-Length: 0'' @ crlf @ ''Audio-Latency: 0'' @ crlf @
               (if cseq = [] then [] else ''CSeq:'' @ cseq @ crlf) @ crlf)"

section \<open>The event channel\<close>

record event_channel =
  ec_cipher :: cipher
  ec_plain :: bytes
  ec_received :: "bytes list"
  ec_sent :: "bytes list"
  ec_closed :: bool

definition new_event_channel :: "bytes \<Rightarrow> bytes \<Rightarrow> event_channel" where
  "new_event_channel read_key write_key =
     \<lparr>ec_cipher = new_cipher read_key write_key, ec_plain = [], ec_received = [], ec_sent = [],
      ec_closed = False\<rparr>"

text \<open>
  One decrypted frame.  \<open>send\<close> says whether a frame can be sent; the request is handed to
  \<open>event_received\<close> (here: \<open>ec_received\<close>) before it is answered.
\<close>

definition event_frame :: "evp \<Rightarrow> (bytes \<Rightarrow> bool) \<Rightarrow> bytes \<Rightarrow> event_channel \<Rightarrow> event_channel" where
  "event_frame evp send frame s =
     (if kMaximumEventBytes - min (length (ec_plain s)) kMaximumEventBytes < length frame
      then s\<lparr>ec_closed := True\<rparr>
      else
        (let s = s\<lparr>ec_plain := ec_plain s @ frame\<rparr>
         in case parse_event (ec_plain s) of
              EventClose \<Rightarrow> s\<lparr>ec_closed := True\<rparr>
            | EventMore \<Rightarrow> s
            | EventRequest n cseq \<Rightarrow>
                (let s = s\<lparr>ec_received := ec_received s @ [take n (ec_plain s)]\<rparr>
                 in case encrypt evp (event_response cseq) (ec_cipher s) of
                      (None, c) \<Rightarrow> s\<lparr>ec_cipher := c, ec_closed := True\<rparr>
                    | (Some out, c) \<Rightarrow>
                        if send out
                        then s\<lparr>ec_cipher := c, ec_sent := ec_sent s @ [out], ec_plain := drop n (ec_plain s)\<rparr>
                        else s\<lparr>ec_cipher := c, ec_closed := True\<rparr>)))"

function event_frames ::
    "evp \<Rightarrow> (bytes \<Rightarrow> bool) \<Rightarrow> event_channel \<times> bytes \<Rightarrow> event_channel \<times> bytes" where
  "event_frames evp send (s, buffer) =
     (if ec_closed s then (s, buffer)
      else (case decrypt_one evp (ec_cipher s) buffer of
              (None, c, buffer') \<Rightarrow> (s\<lparr>ec_cipher := c, ec_closed := True\<rparr>, buffer')
            | (Some [], c, buffer') \<Rightarrow> (s\<lparr>ec_cipher := c\<rparr>, buffer')
            | (Some (b # bs), c, buffer') \<Rightarrow>
                event_frames evp send (event_frame evp send (b # bs) (s\<lparr>ec_cipher := c\<rparr>), buffer')))"
  by pat_completeness auto
termination
  by (relation "measure (\<lambda>(evp, send, s, buffer). length buffer)") (auto dest: decrypt_one_shorter [OF sym])

declare event_frames.simps [simp del]

text \<open>What \<open>recv\<close> brings; a closed channel handles nothing any more.\<close>

definition event_receive ::
    "evp \<Rightarrow> (bytes \<Rightarrow> bool) \<Rightarrow> event_channel \<times> bytes \<Rightarrow> bytes \<Rightarrow> event_channel \<times> bytes" where
  "event_receive evp send sb chunk =
     (if \<not> ec_closed (fst sb) \<and>
         kMaximumEncryptedEventBuffer - min (length (snd sb)) kMaximumEncryptedEventBuffer < length chunk
      then ((fst sb)\<lparr>ec_closed := True\<rparr>, snd sb)
      else event_frames evp send (fst sb, snd sb @ chunk))"

text \<open>The whole service: the end of the events is a requested stop, after which the socket is closed.\<close>

fun service_event_channel ::
    "evp \<Rightarrow> (bytes \<Rightarrow> bool) \<Rightarrow> rx_event list \<Rightarrow> event_channel \<times> bytes \<Rightarrow> event_channel" where
  "service_event_channel evp send [] sb = (fst sb)\<lparr>ec_closed := True\<rparr>"
| "service_event_channel evp send (e # es) sb =
     (if ec_closed (fst sb) then fst sb
      else (case e of
              RxIdle \<Rightarrow> service_event_channel evp send es sb
            | RxBroken \<Rightarrow> (fst sb)\<lparr>ec_closed := True\<rparr>
            | RxChunk chunk \<Rightarrow> service_event_channel evp send es (event_receive evp send sb chunk)))"

section \<open>The channel as a handler of frames\<close>

definition event_valid :: "evp \<Rightarrow> bytes \<Rightarrow> event_channel \<Rightarrow> u64 \<times> bytes \<Rightarrow> bool" where
  "event_valid evp key s m =
     (\<not> ec_closed s \<and> aead_correct evp \<and> length key = 32 \<and> cc_read_key (ec_cipher s) = key \<and>
      fst m = cc_read_counter (ec_cipher s) \<and> frame_ok (snd m))"

definition event_step :: "evp \<Rightarrow> (bytes \<Rightarrow> bool) \<Rightarrow> u64 \<times> bytes \<Rightarrow> event_channel \<Rightarrow> event_channel" where
  "event_step evp send m s =
     event_frame evp send (snd m)
       (s\<lparr>ec_cipher := (ec_cipher s)\<lparr>cc_read_counter := cc_read_counter (ec_cipher s) + 1\<rparr>\<rparr>)"

interpretation event: stream_handler "frame_of evp key" "event_valid evp key" "event_step evp send"
  "event_frames evp send" for evp key send
proof unfold_locales
  fix s m rest
  assume v: "event_valid evp key s m"
  then obtain b bs where m: "m = (cc_read_counter (ec_cipher s), b # bs)" "length (b # bs) \<le> 65535"
    by (cases m; cases "snd m") (auto simp: event_valid_def frame_ok_def)
  have k: "aead_correct evp" "length (cc_read_key (ec_cipher s)) = 32" "key = cc_read_key (ec_cipher s)"
    using v by (auto simp: event_valid_def)
  show "event_frames evp send (s, frame_of evp key m @ rest) =
      event_frames evp send (event_step evp send m s, rest)"
    using decrypt_one_frame [OF k(1,2) m(2)] v
    by (subst event_frames.simps) (simp add: k(3) m(1) event_valid_def event_step_def)
  show "frame_of evp key m \<noteq> []" using length_frame_of [OF k(1,2), of "fst m" "b # bs"] by (auto simp: m(1) k(3))
next
  fix s m buf
  assume v: "event_valid evp key s m" and pre: "strict_prefix buf (frame_of evp key m)"
  then have "decrypt_one evp (ec_cipher s) buf = (Some [], ec_cipher s, buf)"
    by (cases m) (auto simp: event_valid_def frame_ok_def intro: decrypt_one_partial)
  with v show "event_frames evp send (s, buf) = (s, buf)"
    by (subst event_frames.simps) (simp add: event_valid_def)
next
  fix s :: event_channel
  show "event_frames evp send (s, []) = (s, [])"
    by (subst event_frames.simps) (simp add: decrypt_one_def)
qed

section \<open>Complete requests are delivered and answered\<close>

text \<open>A request as one frame: complete, with nothing behind it.\<close>

definition event_request :: "bytes \<Rightarrow> string \<Rightarrow> bool" where
  "event_request r cseq = (frame_ok r \<and> parse_event r = EventRequest (length r) cseq)"

lemma parse_event_size:
  "parse_event r = EventRequest n cseq \<Longrightarrow> n \<le> length r \<and> n \<le> kMaximumEventBytes \<and> 4 \<le> n"
  by (auto simp: parse_event_def Let_def split: option.splits if_splits prod.splits)

text \<open>More bytes behind a complete request do not change how it is read.\<close>

lemma parse_event_append:
  assumes "parse_event r = EventRequest n cseq"
  shows "parse_event (r @ rest) = EventRequest n cseq"
proof -
  from assms obtain h where h: "find_sub crlf2 (text_of r) = Some h"
    by (auto simp: parse_event_def Let_def split: option.splits if_splits)
  have "h \<le> length r" using find_sub_SomeD [OF h] by simp
  with h find_sub_append [OF h, of "text_of rest"] assms show ?thesis
    by (auto simp: parse_event_def Let_def split: option.splits if_splits prod.splits)
qed

lemma event_response_small: "length cseq \<le> 65000 \<Longrightarrow> length (event_response cseq) \<le> 65535"
  by (simp add: event_response_def)

lemma event_step_request:
  assumes "aead_correct evp" "length (cc_write_key (ec_cipher s)) = 32" "ec_plain s = []" "\<And>out. send out"
    and "event_request r cseq" "length cseq \<le> 65000"
  shows "event_step evp send (n, r) s =
     s\<lparr>ec_cipher := (ec_cipher s)\<lparr>cc_read_counter := cc_read_counter (ec_cipher s) + 1,
          cc_write_counter := cc_write_counter (ec_cipher s) + 1\<rparr>,
       ec_received := ec_received s @ [r],
       ec_sent := ec_sent s @ [frame_of evp (cc_write_key (ec_cipher s))
          (cc_write_counter (ec_cipher s), event_response cseq)]\<rparr>"
proof -
  have "length r \<le> kMaximumEventBytes"
    using assms(5) parse_event_size [of r "length r" cseq] by (auto simp: event_request_def)
  moreover have "parse_event r = EventRequest (length r) cseq" using assms(5) by (simp add: event_request_def)
  ultimately show ?thesis
    using encrypt_frame [OF assms(1) _ event_response_small [OF assms(6)],
        of "(ec_cipher s)\<lparr>cc_read_counter := cc_read_counter (ec_cipher s) + 1\<rparr>"] assms(2,3,4)
    by (simp add: event_step_def event_frame_def Let_def)
qed

lemma event_requests_run:
  assumes "aead_correct evp" "length key = 32" "length wkey = 32" "\<And>out. send out"
  shows "list_all (\<lambda>(r, cseq). event_request r cseq \<and> length cseq \<le> 65000) rcs \<Longrightarrow>
    ec_plain s = [] \<Longrightarrow> \<not> ec_closed s \<Longrightarrow> cc_read_key (ec_cipher s) = key \<Longrightarrow>
    cc_write_key (ec_cipher s) = wkey \<Longrightarrow>
    valid_run (event_valid evp key) (event_step evp send) s (numbered (cc_read_counter (ec_cipher s)) (map fst rcs)) \<and>
    (let s' = fold (event_step evp send) (numbered (cc_read_counter (ec_cipher s)) (map fst rcs)) s
     in ec_received s' = ec_received s @ map fst rcs \<and> \<not> ec_closed s' \<and> ec_plain s' = [] \<and>
        ec_sent s' = ec_sent s @
          map (frame_of evp wkey) (numbered (cc_write_counter (ec_cipher s)) (map (event_response \<circ> snd) rcs)))"
proof (induction rcs arbitrary: s)
  case (Cons rc rcs)
  obtain r cseq where rc: "rc = (r, cseq)" by fastforce
  define s1 where "s1 = event_step evp send (cc_read_counter (ec_cipher s), r) s"
  have s1: "s1 = s\<lparr>ec_cipher := (ec_cipher s)\<lparr>cc_read_counter := cc_read_counter (ec_cipher s) + 1,
          cc_write_counter := cc_write_counter (ec_cipher s) + 1\<rparr>,
       ec_received := ec_received s @ [r],
       ec_sent := ec_sent s @ [frame_of evp wkey (cc_write_counter (ec_cipher s), event_response cseq)]\<rparr>"
    unfolding s1_def using event_step_request [of evp s send r cseq] assms(1,3,4) Cons.prems rc by simp
  have "event_valid evp key s (cc_read_counter (ec_cipher s), r)"
    using Cons.prems assms(1,2) rc by (simp add: event_valid_def event_request_def)
  moreover have "cc_read_counter (ec_cipher s1) = cc_read_counter (ec_cipher s) + 1" by (simp add: s1)
  ultimately show ?case
    using Cons.IH [of s1] Cons.prems rc by (simp add: s1_def [symmetric]) (simp add: s1 Let_def)
qed simp

section \<open>Bounds\<close>

lemma event_frame_plain:
  "length (ec_plain s) \<le> kMaximumEventBytes \<Longrightarrow> length (ec_plain (event_frame evp send f s)) \<le> kMaximumEventBytes"
  by (auto simp: event_frame_def Let_def split: event_outcome.splits prod.splits option.splits if_splits)

lemma event_frames_bounds:
  "length (ec_plain s) \<le> kMaximumEventBytes \<Longrightarrow>
     length (ec_plain (fst (event_frames evp send (s, b)))) \<le> kMaximumEventBytes \<and>
     length (snd (event_frames evp send (s, b))) \<le> length b"
proof (induction evp send "(s, b)" arbitrary: s b rule: event_frames.induct)
  case (1 evp send s b)
  show ?case
  proof (cases "\<not> ec_closed s \<and> (\<exists>x xs. fst (decrypt_one evp (ec_cipher s) b) = Some (x # xs))")
    case True
    then obtain x xs c b' where d: "decrypt_one evp (ec_cipher s) b = (Some (x # xs), c, b')"
      by (metis prod.collapse)
    have "length b' < length b" by (rule decrypt_one_shorter [OF d])
    moreover have "length (ec_plain (event_frame evp send (x # xs) (s\<lparr>ec_cipher := c\<rparr>))) \<le> kMaximumEventBytes"
      using 1(2) by (intro event_frame_plain) simp
    ultimately show ?thesis
      using 1(1) [OF _ d [symmetric] refl refl refl] d True
      by (subst (1 2) event_frames.simps) auto
  next
    case False
    then show ?thesis
      using 1(2) by (subst (1 2) event_frames.simps)
        (auto simp: decrypt_one_def Let_def split: prod.splits option.splits list.splits if_splits)
  qed
qed

lemma event_frame_answers:
  "length (ec_sent s) = length (ec_received s) \<Longrightarrow>
     length (ec_sent (event_frame evp send f s)) = length (ec_received (event_frame evp send f s)) \<or>
     ec_closed (event_frame evp send f s) \<and>
       Suc (length (ec_sent (event_frame evp send f s))) = length (ec_received (event_frame evp send f s))"
  by (auto simp: event_frame_def Let_def split: event_outcome.splits prod.splits option.splits if_splits)

definition event_ok :: "event_channel \<times> bytes \<Rightarrow> bool" where
  "event_ok sb =
     (length (ec_plain (fst sb)) \<le> kMaximumEventBytes \<and>
      (\<not> ec_closed (fst sb) \<longrightarrow> length (snd sb) \<le> kMaximumEncryptedEventBuffer) \<and>
      (length (ec_sent (fst sb)) = length (ec_received (fst sb)) \<or>
       ec_closed (fst sb) \<and> Suc (length (ec_sent (fst sb))) = length (ec_received (fst sb))))"

lemma event_frames_answers:
  "length (ec_sent s) = length (ec_received s) \<or> ec_closed s \<and> Suc (length (ec_sent s)) = length (ec_received s) \<Longrightarrow>
     let s' = fst (event_frames evp send (s, b))
     in length (ec_sent s') = length (ec_received s') \<or> ec_closed s' \<and> Suc (length (ec_sent s')) = length (ec_received s')"
proof (induction evp send "(s, b)" arbitrary: s b rule: event_frames.induct)
  case (1 evp send s b)
  show ?case
  proof (cases "\<not> ec_closed s \<and> (\<exists>x xs. fst (decrypt_one evp (ec_cipher s) b) = Some (x # xs))")
    case True
    then obtain x xs c b' where d: "decrypt_one evp (ec_cipher s) b = (Some (x # xs), c, b')"
      by (metis prod.collapse)
    from 1(1) [OF _ d [symmetric] refl refl refl] d True 1(2)
      event_frame_answers [of "s\<lparr>ec_cipher := c\<rparr>" evp send "x # xs"]
    show ?thesis by (subst event_frames.simps) auto
  next
    case False
    then show ?thesis
      using 1(2) by (subst event_frames.simps)
        (auto simp: Let_def split: prod.splits option.splits list.splits)
  qed
qed

lemma event_ok_receive: "event_ok sb \<Longrightarrow> event_ok (event_receive evp send sb chunk)"
  using event_frames_bounds [of "fst sb" evp send "snd sb @ chunk"]
    event_frames_answers [of "fst sb" evp send "snd sb @ chunk"]
  by (cases "ec_closed (fst sb)")
     (auto simp: event_ok_def event_receive_def Let_def event_frames.simps [of _ _ "fst sb" "snd sb @ chunk"])

lemma event_receive_closed:
  "ec_closed (fst sb) \<Longrightarrow> fst (foldl (event_receive evp send) sb cs) = fst sb"
proof (induction cs arbitrary: sb)
  case (Cons c cs)
  have "event_receive evp send sb c = (fst sb, snd sb @ c)"
    using Cons.prems by (simp add: event_receive_def event_frames.simps)
  with Cons show ?case by simp
qed simp

lemma service_chunks:
  "service_event_channel evp send (map RxChunk chunks) sb =
     (fst (foldl (event_receive evp send) sb chunks))\<lparr>ec_closed := True\<rparr>"
proof (induction chunks arbitrary: sb)
  case (Cons chunk chunks)
  show ?case
  proof (cases "ec_closed (fst sb)")
    case True
    then have "(fst sb)\<lparr>ec_closed := True\<rparr> = fst sb" by (cases "fst sb") simp
    with True event_receive_closed [OF True, of evp send "chunk # chunks"] show ?thesis by simp
  qed (use Cons.IH [of "event_receive evp send sb chunk"] in simp)
qed simp

section \<open>Properties\<close>

text \<open>
  C14: Requests sent on the event channel, each as one frame of a cipher with the channel's key,
  are handed on exactly once, complete and in order, however the bytes of the stream are cut
  into chunks of up to 4096 bytes, and each is answered under the channel's own counter with
  its sequence number.
\<close>

theorem event_requests_delivered:
  assumes "aead_correct evp" "length read_key = 32" "length write_key = 32" "\<forall>out. send out"
    and "list_all (\<lambda>(r, cseq). event_request r cseq \<and> length cseq \<le> 65000) rcs"
    and "concat chunks = concat (map (frame_of evp read_key) (numbered 0 (map fst rcs)))"
    and "list_all (\<lambda>c. length c \<le> 4096) chunks"
  shows "let s = service_event_channel evp send (map RxChunk chunks) (new_event_channel read_key write_key, [])
         in ec_received s = map fst rcs \<and>
            ec_sent s = map (frame_of evp write_key) (numbered 0 (map (event_response \<circ> snd) rcs))"
proof -
  let ?s0 = "new_event_channel read_key write_key"
  let ?ms = "numbered 0 (map fst rcs)"
  have run: "valid_run (event_valid evp read_key) (event_step evp send) ?s0 ?ms"
    "ec_received (fold (event_step evp send) ?ms ?s0) = map fst rcs"
    "ec_sent (fold (event_step evp send) ?ms ?s0) =
       map (frame_of evp write_key) (numbered 0 (map (event_response \<circ> snd) rcs))"
    using event_requests_run [of evp read_key write_key send rcs ?s0] assms(1-5)
    by (simp_all add: new_event_channel_def new_cipher_def Let_def)
  have small: "length (frame_of evp read_key m) \<le> 65553" if "m \<in> set ?ms" for m
  proof -
    have "snd m \<in> set (map fst rcs)" by (rule numbered_small [OF that])
    then have "length (snd m) \<le> 65535" using assms(5)
      by (auto simp: list_all_iff event_request_def frame_ok_def)
    then show ?thesis using length_frame_of [OF assms(1,2), of "fst m" "snd m"] by simp
  qed
  have "foldl (event_receive evp send) (?s0, []) chunks = (fold (event_step evp send) ?ms ?s0, [])"
    by (rule event.run_chunks [OF run(1) assms(6), where P = "\<lambda>_. True" and k = 65553])
       (use small assms(7) in \<open>auto simp: event_receive_def kMaximumEncryptedEventBuffer_def list_all_iff\<close>)
  with run show ?thesis by (simp add: service_chunks Let_def)
qed

definition event_example :: bytes where
  "event_example = bytes_of (''POST /command RTSP/1.0'' @ crlf @ ''CSeq: 7'' @ crlf @ ''Content-Length: 0'' @ crlf2)"

lemma event_example_ok: "event_request event_example ''7''"
proof -
  have names: "lower ''CSeq'' = ''cseq''" "lower ''Content-Length'' = ''content-length''" by code_simp+
  have zero: "parse_unsigned (2 ^ 64 - 1) ''0'' = Some 0"
    by (simp add: parse_unsigned_def is_digit_def digits_value_def digit_value_def)
  have "getlines (''POST /command RTSP/1.0'' @ crlf @ ''CSeq: 7'' @ crlf @ ''Content-Length: 0'') =
      [''POST /command RTSP/1.0'' @ [CHR 0x0D], ''CSeq: 7'' @ [CHR 0x0D], ''Content-Length: 0'']"
    by (simp add: getlines.simps)
  then have h: "event_headers (getlines (''POST /command RTSP/1.0'' @ crlf @ ''CSeq: 7'' @ crlf @ ''Content-Length: 0''))
      ([], 0, False) = Some (''7'', 0, True)"
    using zero by (simp add: names trim_def is_blank_def kMaximumEventBytes_def)
  have "find_sub crlf2 (text_of event_example) = Some 50"
    by (simp add: event_example_def)
  moreover have "take 50 (text_of event_example) =
      ''POST /command RTSP/1.0'' @ crlf @ ''CSeq: 7'' @ crlf @ ''Content-Length: 0''"
    by (simp add: event_example_def)
  ultimately have "parse_event event_example = EventRequest (length event_example) ''7''"
    using h by (simp add: parse_event_def kMaximumEventHeaders_def kMaximumEventBytes_def event_example_def)
  moreover have "frame_ok event_example" by (simp add: frame_ok_def event_example_def)
  ultimately show ?thesis by (simp add: event_request_def)
qed

theorem event_requests_delivered_witness:
  "let key = replicate 32 1; f = frame_of example_evp key (0, event_example);
       s = service_event_channel example_evp (\<lambda>_. True) [RxChunk (take 5 f), RxChunk (drop 5 f)]
             (new_event_channel key key, [])
   in ec_received s = [event_example] \<and> length (ec_sent s) = 1"
proof -
  let ?key = "replicate 32 1"
  let ?f = "frame_of example_evp ?key (0, event_example)"
  have "length ?f = length event_example + 18" by (rule length_frame_of [OF example_evp_correct]) simp
  then have "length (take 5 ?f) \<le> 4096" "length (drop 5 ?f) \<le> 4096" by (simp_all add: event_example_def)
  with event_requests_delivered [OF example_evp_correct, of ?key ?key "\<lambda>_. True" "[(event_example, ''7'')]"
      "[take 5 ?f, drop 5 ?f]"] event_example_ok
  show ?thesis by (simp add: Let_def del: service_event_channel.simps length_take length_drop)
qed

text \<open>
  Whatever arrives on the event channel, at most 1 MiB of plaintext and 2 MiB of ciphertext
  are kept, and every request that is handed on is answered exactly once, unless the answer
  cannot be sent and the channel is closed.
\<close>

theorem event_channel_invariant:
  "case foldl (event_receive evp send) (new_event_channel read_key write_key, []) chunks of
     (s, buffer) \<Rightarrow>
       length (ec_plain s) \<le> 1024 * 1024 \<and>
       (ec_closed s \<or> length buffer \<le> 2 * 1024 * 1024) \<and>
       (length (ec_sent s) = length (ec_received s) \<or>
        ec_closed s \<and> length (ec_received s) = Suc (length (ec_sent s)))"
proof -
  have "event_ok (foldl (event_receive evp send) (new_event_channel read_key write_key, []) chunks)"
    by (induction chunks rule: rev_induct)
       (auto simp: event_ok_receive, simp add: event_ok_def new_event_channel_def)
  then show ?thesis
    by (auto simp: event_ok_def kMaximumEventBytes_def kMaximumEncryptedEventBuffer_def)
qed

section \<open>A second request in the same frame\<close>

text \<open>
  When one frame ends a request and holds the next one completely, only the first is handled;
  the second stays in the plaintext until another frame arrives.
\<close>

lemma second_request_waits:
  assumes "aead_correct evp" "length (cc_write_key (ec_cipher s)) = 32" "ec_plain s = []" "\<And>out. send out"
    and "event_request r1 cseq" "length cseq \<le> 65000" "event_request r2 cseq2" "length (r1 @ r2) \<le> kMaximumEventBytes"
  shows "let s' = event_frame evp send (r1 @ r2) s
         in ec_received s' = ec_received s @ [r1] \<and> ec_plain s' = r2 \<and> parse_event r2 = EventRequest (length r2) cseq2"
proof -
  have "parse_event (r1 @ r2) = EventRequest (length r1) cseq" "parse_event r2 = EventRequest (length r2) cseq2"
    using assms(5,7) parse_event_append by (auto simp: event_request_def)
  then show ?thesis
    using encrypt_frame [OF assms(1,2) event_response_small [OF assms(6)]] assms(3,4,8)
    by (simp add: event_frame_def Let_def)
qed

end
