(* ===== verification/Airplay_Srp.thy ===== *)
theory Airplay_Srp
  imports Bytes_Prelude "HOL-Library.Monad_Syntax"
begin

text \<open>
  The SRP-6a client of \<open>src/src/airplay/srp.cpp\<close>: the group of 3072 bits, the answer to the
  challenge of the head unit, and the check of its proof.  A \<open>BIGNUM\<close> is the natural number it
  stands for.  OpenSSL's arithmetic and SHA-512 are the fields of \<open>libcrypto\<close>; \<open>libcrypto_ok\<close>
  states what their documentation promises.
\<close>

section \<open>OpenSSL\<close>

text \<open>\<open>None\<close> is a call that did not return 1; \<open>lc_sha512\<close> takes the concatenation of the parts.\<close>

record libcrypto =
  bn_mod :: "nat \<Rightarrow> nat \<Rightarrow> nat option"
  bn_mod_exp :: "nat \<Rightarrow> nat \<Rightarrow> nat \<Rightarrow> nat option"
  bn_mod_mul :: "nat \<Rightarrow> nat \<Rightarrow> nat \<Rightarrow> nat option"
  bn_mod_add :: "nat \<Rightarrow> nat \<Rightarrow> nat \<Rightarrow> nat option"
  bn_mod_sub :: "nat \<Rightarrow> nat \<Rightarrow> nat \<Rightarrow> nat option"
  lc_sha512 :: "bytes \<Rightarrow> bytes option"

definition libcrypto_ok :: "libcrypto \<Rightarrow> bool" where
  "libcrypto_ok lc \<longleftrightarrow>
     (\<forall>a m. 0 < m \<longrightarrow> bn_mod lc a m = Some (a mod m)) \<and>
     (\<forall>a p m. 0 < m \<longrightarrow> bn_mod_exp lc a p m = Some (a ^ p mod m)) \<and>
     (\<forall>a b m. 0 < m \<longrightarrow> bn_mod_mul lc a b m = Some (a * b mod m)) \<and>
     (\<forall>a b m. 0 < m \<longrightarrow> bn_mod_add lc a b m = Some ((a + b) mod m)) \<and>
     (\<forall>a b m. 0 < m \<longrightarrow> bn_mod_sub lc a b m = Some (nat ((int a - int b) mod int m))) \<and>
     (\<forall>bs. \<exists>digest. lc_sha512 lc bs = Some digest \<and> length digest = 64)"

section \<open>Numbers and bytes\<close>

definition kGroupBytes :: nat where "kGroupBytes = 384"

definition kPrimeHex :: string where
  "kPrimeHex =
     ''FFFFFFFFFFFFFFFFC90FDAA22168C234C4C6628B80DC1CD129024E088A67CC74'' @
     ''020BBEA63B139B22514A08798E3404DDEF9519B3CD3A431B302B0A6DF25F1437'' @
     ''4FE1356D6D51C245E485B576625E7EC6F44C42E9A637ED6B0BFF5CB6F406B7ED'' @
     ''EE386BFB5A899FA5AE9F24117C4B1FE649286651ECE45B3DC2007CB8A163BF05'' @
     ''98DA48361C55D39A69163FA8FD24CF5F83655D23DCA3AD961C62F356208552BB'' @
     ''9ED529077096966D670C354E4ABC9804F1746C08CA18217C32905E462E36CE3B'' @
     ''E39E772C180E86039B2783A2EC07A28FB5C55DF06F4C52C9DE2BCBF6955817183'' @
     ''995497CEA956AE515D2261898FA051015728E5A8AAAC42DAD33170D04507A33A'' @
     ''85521ABDF1CBA64ECFB850458DBEF0A8AEA71575D060C7DB3970F85A6E1E4C7AB'' @
     ''F5AE8CDB0933D71E8C94E04A25619DCEE3D2261AD2EE6BF12FFA06D98A0864D8'' @
     ''7602733EC86A64521F2B18177B200CBBE117577A615D6C770988C0BAD946E208'' @
     ''E24FA074E5AB3143DB5BFCE0FD108E4B82D120A93AD2CAFFFFFFFFFFFFFFFF''"

definition hex_value :: "char \<Rightarrow> nat" where
  "hex_value c = (let n = of_char c :: nat in if 48 \<le> n \<and> n \<le> 57 then n - 48 else n - 55)"

definition bn_hex2bn :: "string \<Rightarrow> nat" where
  "bn_hex2bn s = foldl (\<lambda>r c. 16 * r + hex_value c) 0 s"

definition prime :: nat where "prime = bn_hex2bn kPrimeHex"

definition bn_from :: "bytes \<Rightarrow> nat" where
  "bn_from bs = foldl (\<lambda>r b. 256 * r + unat b) 0 bs"

text \<open>The bytes of a number, most significant first, in a field of \<open>n\<close> bytes.\<close>

fun binpad :: "nat \<Rightarrow> nat \<Rightarrow> bytes" where
  "binpad 0 v = []"
| "binpad (Suc n) v = binpad n (v div 256) @ [of_nat v]"

definition padded :: "nat \<Rightarrow> bytes" where
  "padded v = (if v < 256 ^ kGroupBytes then binpad kGroupBytes v else [])"

definition sha512 :: "libcrypto \<Rightarrow> bytes list \<Rightarrow> bytes" where
  "sha512 lc parts = (case lc_sha512 lc (concat parts) of None \<Rightarrow> [] | Some digest \<Rightarrow> digest)"

section \<open>The client\<close>

record srp_client =
  srp_public_key :: bytes
  srp_client_proof :: bytes
  srp_session_key :: bytes

definition new_srp_client :: srp_client where
  "new_srp_client = \<lparr>srp_public_key = [], srp_client_proof = [], srp_session_key = []\<rparr>"

definition username :: bytes where "username = bytes_of ''Pair-Setup''"
definition password :: bytes where "password = bytes_of ''3939''"

definition multiplier_of :: "libcrypto \<Rightarrow> nat" where
  "multiplier_of lc = bn_from (sha512 lc [padded prime, padded 5])"

definition private_value :: "libcrypto \<Rightarrow> bytes \<Rightarrow> nat" where
  "private_value lc salt = bn_from (sha512 lc [salt, sha512 lc [username, bytes_of '':'', password]])"

definition scramble :: "libcrypto \<Rightarrow> bytes \<Rightarrow> bytes \<Rightarrow> nat" where
  "scramble lc client_key server_key = bn_from (sha512 lc [client_key, server_key])"

text \<open>
  The premaster secret, from the server key, \<open>u\<close> and \<open>x\<close>; \<open>None\<close> where the function gives up.
  The exponent is reduced modulo the prime, as the source does.
\<close>

definition premaster :: "libcrypto \<Rightarrow> nat \<Rightarrow> nat \<Rightarrow> nat \<Rightarrow> nat \<Rightarrow> nat option" where
  "premaster lc server private_key x u =
     do {
       verifier \<leftarrow> bn_mod_exp lc 5 x prime;
       _ \<leftarrow> (if u = 0 then None else Some ());
       multiplier_verifier \<leftarrow> bn_mod_mul lc (multiplier_of lc) verifier prime;
       base \<leftarrow> bn_mod_sub lc server multiplier_verifier prime;
       _ \<leftarrow> (if base = 0 then None else Some ());
       ux \<leftarrow> bn_mod_mul lc u x prime;
       exponent \<leftarrow> bn_mod_add lc private_key ux prime;
       bn_mod_exp lc base exponent prime
     }"

definition proof_of :: "libcrypto \<Rightarrow> bytes \<Rightarrow> bytes \<Rightarrow> bytes \<Rightarrow> bytes \<Rightarrow> bytes" where
  "proof_of lc salt client_key server_key session_key =
     (let h_prime = sha512 lc [padded prime];
          h_generator = sha512 lc [[5]];
          xor_hash = map2 (XOR) h_prime h_generator
      in sha512 lc [xor_hash, sha512 lc [username], salt, client_key, server_key, session_key])"

text \<open>
  \<open>SrpClient::process_challenge\<close>; \<open>private_random\<close> is what \<open>RAND_bytes\<close> stored, \<open>None\<close> if it
  failed.
\<close>

definition process_challenge ::
    "libcrypto \<Rightarrow> bytes option \<Rightarrow> bytes \<Rightarrow> bytes \<Rightarrow> srp_client \<Rightarrow> bool \<times> srp_client" where
  "process_challenge lc private_random salt server_public_key s =
     (let s = s\<lparr>srp_public_key := [], srp_client_proof := [], srp_session_key := []\<rparr>;
          server = bn_from server_public_key
      in if salt = [] \<or> length server_public_key \<noteq> kGroupBytes then (False, s)
         else if server \<ge> prime then (False, s)
         else if bn_mod lc server prime \<in> {None, Some 0} then (False, s)
         else (case private_random of
             None \<Rightarrow> (False, s)
           | Some random \<Rightarrow>
               (let private_key = bn_from random in
                case bn_mod_exp lc 5 private_key prime of
                  None \<Rightarrow> (False, s)
                | Some client \<Rightarrow>
                    (let s = s\<lparr>srp_public_key := padded client\<rparr>;
                         x = private_value lc salt;
                         u = scramble lc (srp_public_key s) server_public_key
                     in case premaster lc server private_key x u of
                          None \<Rightarrow> (False, s)
                        | Some shared \<Rightarrow>
                            (let s = s\<lparr>srp_session_key := sha512 lc [padded shared]\<rparr>;
                                 s = s\<lparr>srp_client_proof := proof_of lc salt (srp_public_key s) server_public_key
                                       (srp_session_key s)\<rparr>
                             in (length (srp_client_proof s) = 64, s))))))"

definition verify_server :: "libcrypto \<Rightarrow> bytes \<Rightarrow> srp_client \<Rightarrow> bool" where
  "verify_server lc server_proof s =
     (if srp_public_key s = [] \<or> srp_client_proof s = [] \<or> srp_session_key s = [] then False
      else server_proof = sha512 lc [srp_public_key s, srp_client_proof s, srp_session_key s])"

section \<open>The group\<close>

lemma foldl_hex_bounds:
  "foldl (\<lambda>r c. 16 * r + hex_value c) v s \<ge> v * 16 ^ length s"
proof (induction s arbitrary: v)
  case (Cons c s)
  have "v * 16 ^ length (c # s) \<le> (16 * v + hex_value c) * 16 ^ length s"
    by (simp add: algebra_simps)
  also have "\<dots> \<le> foldl (\<lambda>r c. 16 * r + hex_value c) (16 * v + hex_value c) s" by (rule Cons.IH)
  finally show ?case by simp
qed simp

lemma foldl_hex_upper:
  "\<forall>c \<in> set s. hex_value c < 16 \<Longrightarrow> foldl (\<lambda>r c. 16 * r + hex_value c) v s < (v + 1) * 16 ^ length s"
proof (induction s arbitrary: v)
  case (Cons c s)
  then have "foldl (\<lambda>r c. 16 * r + hex_value c) (16 * v + hex_value c) s < (16 * v + hex_value c + 1) * 16 ^ length s"
    by simp
  also have "\<dots> \<le> (16 * v + 16) * 16 ^ length s" using Cons.prems by (intro mult_right_mono) auto
  finally show ?case by (simp add: algebra_simps)
qed simp

lemma kPrimeHex_digits: "\<forall>c \<in> set kPrimeHex. hex_value c < 16"
proof -
  have "list_all (\<lambda>c. hex_value c < 16) kPrimeHex"
    by (simp add: kPrimeHex_def hex_value_def)
  then show ?thesis by (simp add: list_all_iff)
qed

lemma kPrimeHex_length: "length kPrimeHex = 768"
  by (simp add: kPrimeHex_def)

lemma kPrimeHex_first: "kPrimeHex = CHR ''F'' # tl kPrimeHex"
  by (simp add: kPrimeHex_def)

lemma prime_bounds: "2 ^ 2048 < prime" "prime < 256 ^ kGroupBytes"
proof -
  have "15 * 16 ^ length (tl kPrimeHex) \<le> foldl (\<lambda>r c. 16 * r + hex_value c) 15 (tl kPrimeHex)"
    by (rule foldl_hex_bounds)
  also have "\<dots> = prime"
    unfolding prime_def bn_hex2bn_def by (subst (2) kPrimeHex_first) (simp add: hex_value_def)
  finally have "15 * 16 ^ 767 \<le> prime" by (simp add: kPrimeHex_length)
  moreover have "(2::nat) ^ 2048 < 15 * 16 ^ 767"
  proof -
    have "(2::nat) ^ 2048 \<le> (2 ^ 4) ^ 767" unfolding power_mult [symmetric] by (rule power_increasing) simp_all
    also have "\<dots> < 15 * (2 ^ 4) ^ 767" by simp
    finally show ?thesis by simp
  qed
  ultimately show "2 ^ 2048 < prime" by (rule order.strict_trans2 [rotated])
  have "prime < (0 + 1) * 16 ^ length kPrimeHex"
    unfolding prime_def bn_hex2bn_def by (rule foldl_hex_upper [OF kPrimeHex_digits])
  also have "\<dots> = 256 ^ kGroupBytes"
  proof -
    have "(16::nat) ^ 768 = (16 ^ 2) ^ 384" unfolding power_mult [symmetric] by (rule arg_cong [where f = "(^) 16"]) simp
    then show ?thesis by (simp add: kPrimeHex_length kGroupBytes_def)
  qed
  finally show "prime < 256 ^ kGroupBytes" .
qed

lemma bn_from_less: "bn_from bs < 256 ^ length bs"
proof (induction bs rule: rev_induct)
  case (snoc b bs)
  have "256 * bn_from bs + unat b < 256 * (bn_from bs + 1)" using unat_byte_lt [of b] by simp
  also have "\<dots> \<le> 256 * 256 ^ length bs" using snoc by (intro mult_left_mono) auto
  finally show ?case by (simp add: bn_from_def)
qed (simp add: bn_from_def)

lemma length_binpad [simp]: "length (binpad n v) = n"
  by (induction n v rule: binpad.induct) auto

lemma bn_from_binpad: "v < 256 ^ n \<Longrightarrow> bn_from (binpad n v) = v"
proof (induction n v rule: binpad.induct)
  case (2 n v)
  then have "bn_from (binpad n (v div 256)) = v div 256"
    by (simp add: less_mult_imp_div_less mult.commute)
  moreover have "unat (of_nat v :: byte) = v mod 256" by (simp add: unat_of_nat)
  ultimately show ?case by (simp add: bn_from_def)
qed (simp add: bn_from_def)

lemma padded_below_prime:
  assumes "v < prime"
  shows "bn_from (padded v) = v" "length (padded v) = kGroupBytes"
  using order.strict_trans [OF assms prime_bounds(2)] by (simp_all add: padded_def bn_from_binpad)

section \<open>Both sides agree\<close>

text \<open>The accessory's side of SRP-6a (RFC 5054): \<open>b\<close> is its private value.\<close>

definition server_verifier :: "libcrypto \<Rightarrow> bytes \<Rightarrow> nat" where
  "server_verifier lc salt = 5 ^ private_value lc salt mod prime"

definition server_public :: "libcrypto \<Rightarrow> bytes \<Rightarrow> nat \<Rightarrow> nat" where
  "server_public lc salt b = (multiplier_of lc * server_verifier lc salt + 5 ^ b) mod prime"

definition server_session :: "libcrypto \<Rightarrow> bytes \<Rightarrow> nat \<Rightarrow> bytes \<Rightarrow> bytes" where
  "server_session lc salt b client_key =
     (let u = scramble lc client_key (padded (server_public lc salt b))
      in sha512 lc [padded ((bn_from client_key * server_verifier lc salt ^ u) ^ b mod prime)])"

lemma prime_pos: "0 < prime"
  using prime_bounds(1) by simp

lemma foldl_hex_mod_5:
  "foldl (\<lambda>r c. 16 * r + hex_value c) v s mod 5 = foldl (\<lambda>r c. (r + hex_value c) mod 5) (v mod 5) s"
proof (induction s arbitrary: v)
  case (Cons c s)
  have "(16 * v + hex_value c) mod 5 = (v + hex_value c + 5 * (3 * v)) mod 5" by (simp add: algebra_simps)
  also have "\<dots> = (v mod 5 + hex_value c) mod 5" by (simp only: mod_mult_self2 mod_add_left_eq)
  finally show ?case by (simp add: Cons.IH)
qed simp

lemma coprime_prime_5: "coprime prime 5"
proof -
  have "foldl (\<lambda>r c. (r + hex_value c) mod 5) 0 kPrimeHex = 2"
    by (simp add: kPrimeHex_def hex_value_def)
  then have "prime mod 5 = 2" by (simp only: prime_def bn_hex2bn_def foldl_hex_mod_5 mod_0)
  then have "gcd prime 5 = gcd 5 2" by (simp only: gcd_red_nat [of prime 5])
  also have "gcd 5 (2::nat) = 1" by (simp add: gcd_non_0_nat)
  finally show ?thesis by (simp add: coprime_iff_gcd_eq_1)
qed

lemma five_power_nonzero: "5 ^ b mod prime \<noteq> 0"
proof
  assume "5 ^ b mod prime = 0"
  then have "prime dvd 5 ^ b" by (simp add: mod_eq_0_iff_dvd)
  moreover have "coprime prime (5 ^ b)" using coprime_prime_5 by simp
  ultimately have "prime dvd 1" using coprime_common_divisor [of prime "5 ^ b" prime] by simp
  then show False using prime_bounds(1) by simp
qed

text \<open>What subtracting \<open>k v\<close> from the server key leaves.\<close>

lemma base_of_server_key:
  "nat ((int ((k * v + g) mod p) - int (k * v mod p)) mod int p) = g mod p"
proof -
  have "(int ((k * v + g) mod p) - int (k * v mod p)) mod int p = (int (k * v + g) - int (k * v)) mod int p"
    by (simp only: zmod_int mod_diff_eq)
  also have "\<dots> = int (g mod p)" by (simp add: zmod_int)
  finally show ?thesis by simp
qed

text \<open>Both premaster secrets are \<open>g\<close> to the power \<open>b (a + u x)\<close>.\<close>

lemma premaster_equal:
  fixes g :: nat
  shows "(g ^ b mod p) ^ (a + u * x) mod p = ((g ^ a mod p) * (g ^ x mod p) ^ u) ^ b mod p"
proof -
  let ?X = "(g ^ a mod p) * (g ^ x mod p) ^ u"
  have "?X mod p = g ^ a * (g ^ x mod p) ^ u mod p" by (rule mod_mult_left_eq)
  also have "\<dots> = g ^ a * ((g ^ x mod p) ^ u mod p) mod p" by (rule mod_mult_right_eq [symmetric])
  also have "\<dots> = g ^ a * ((g ^ x) ^ u mod p) mod p" by (simp only: power_mod)
  also have "\<dots> = g ^ a * (g ^ x) ^ u mod p" by (rule mod_mult_right_eq)
  finally have "(?X mod p) ^ b mod p = (g ^ a * (g ^ x) ^ u) ^ b mod p" by (simp only: power_mod)
  moreover have "(g ^ a * (g ^ x) ^ u) ^ b = (g ^ b) ^ (a + u * x)"
    by (simp add: power_mult_distrib power_add power_mult [symmetric] mult.commute mult.left_commute)
  ultimately show ?thesis by (simp only: power_mod)
qed

lemma sha512_length: "libcrypto_ok lc \<Longrightarrow> length (sha512 lc parts) = 64"
  unfolding libcrypto_ok_def sha512_def by (metis option.simps(5))

text \<open>The exponent never reaches the prime, so that reducing it changes nothing.\<close>

lemma exponent_not_reduced:
  assumes lc: "libcrypto_ok lc" and r: "length random = 32"
  shows "bn_from random + scramble lc A B * private_value lc salt < prime"
proof -
  have "bn_from random < 256 ^ 32" using bn_from_less [of random] r by simp
  moreover have u: "scramble lc A B < 256 ^ 64" and x: "private_value lc salt < 256 ^ 64"
    unfolding scramble_def private_value_def
    using bn_from_less [of "sha512 lc _"] sha512_length [OF lc] by metis+
  have "scramble lc A B * private_value lc salt \<le> 256 ^ 64 * 256 ^ 64"
    using u x by (intro mult_mono) simp_all
  ultimately have "bn_from random + scramble lc A B * private_value lc salt < 256 ^ 32 + 256 ^ 64 * 256 ^ 64"
    by simp
  also have "\<dots> < (2::nat) ^ 2048" by simp
  finally show ?thesis using prime_bounds(1) by simp
qed

lemma libcrypto_eqs:
  assumes "libcrypto_ok lc"
  shows "bn_mod lc n prime = Some (n mod prime)" "bn_mod_exp lc n e prime = Some (n ^ e mod prime)"
    "bn_mod_mul lc n m prime = Some (n * m mod prime)" "bn_mod_add lc n m prime = Some ((n + m) mod prime)"
    "bn_mod_sub lc n m prime = Some (nat ((int n - int m) mod int prime))"
  using assms prime_pos by (simp_all add: libcrypto_ok_def)

lemma premaster_value:
  assumes lc: "libcrypto_ok lc" and small: "a + u * private_value lc salt < prime"
  shows "premaster lc (server_public lc salt b) a (private_value lc salt) u =
    (if u = 0 then None else Some ((5 ^ b mod prime) ^ (a + u * private_value lc salt) mod prime))"
proof -
  let ?x = "private_value lc salt" and ?v = "server_verifier lc salt"
  have "bn_mod_sub lc (server_public lc salt b) (multiplier_of lc * ?v mod prime) prime = Some (5 ^ b mod prime)"
    by (simp add: libcrypto_eqs [OF lc] server_public_def base_of_server_key)
  moreover have "bn_mod_mul lc u ?x prime = Some (u * ?x)" "bn_mod_add lc a (u * ?x) prime = Some (a + u * ?x)"
    using small by (simp_all add: libcrypto_eqs [OF lc])
  moreover have "bn_mod_exp lc 5 ?x prime = Some ?v"
    by (simp add: libcrypto_eqs [OF lc] server_verifier_def)
  ultimately show ?thesis
    using five_power_nonzero [of b]
    by (simp add: premaster_def libcrypto_eqs(3) [OF lc, of "multiplier_of lc"]
        libcrypto_eqs(2) [OF lc, of "5 ^ b mod prime"])
qed

lemma server_public_less: "server_public lc salt b < prime"
  using prime_pos by (simp add: server_public_def)

lemma srp_agrees:
  assumes lc: "libcrypto_ok lc" and random: "length random = 32" and salt: "salt \<noteq> []"
    and A: "A = padded (5 ^ bn_from random mod prime)" and B: "B = padded (server_public lc salt b)"
    and run: "process_challenge lc (Some random) salt B s = (ok, s')"
  shows "(ok \<longleftrightarrow> server_public lc salt b \<noteq> 0 \<and> scramble lc A B \<noteq> 0) \<and>
    (ok \<longrightarrow> srp_public_key s' = A \<and>
      srp_session_key s' = server_session lc salt b A \<and>
      srp_client_proof s' = proof_of lc salt A B (server_session lc salt b A) \<and>
      (\<forall>p. verify_server lc p s' \<longleftrightarrow> p = sha512 lc [A, srp_client_proof s', server_session lc salt b A]))"
proof -
  let ?a = "bn_from random" and ?x = "private_value lc salt" and ?u = "scramble lc A B"
  have exp: "bn_mod_exp lc 5 ?a prime = Some (5 ^ ?a mod prime)" "bn_mod lc n prime = Some (n mod prime)" for n
    by (simp_all add: libcrypto_eqs [OF lc])
  have B': "bn_from B = server_public lc salt b" "length B = kGroupBytes"
    using padded_below_prime [OF server_public_less] B by simp_all
  have A': "bn_from A = 5 ^ ?a mod prime" "length A = kGroupBytes"
    using padded_below_prime [of "5 ^ ?a mod prime"] prime_pos A by simp_all
  have session: "sha512 lc [padded ((5 ^ b mod prime) ^ (?a + ?u * ?x) mod prime)] = server_session lc salt b A"
    by (simp add: server_session_def Let_def A' B server_verifier_def premaster_equal)
  have run': "process_challenge lc (Some random) salt B s =
     (if server_public lc salt b = 0 then (False, s\<lparr>srp_public_key := [], srp_client_proof := [], srp_session_key := []\<rparr>)
      else if ?u = 0 then (False, s\<lparr>srp_public_key := A, srp_client_proof := [], srp_session_key := []\<rparr>)
      else (True, s\<lparr>srp_public_key := A, srp_session_key := server_session lc salt b A,
              srp_client_proof := proof_of lc salt A B (server_session lc salt b A)\<rparr>))"
    using server_public_less [of lc salt b] salt
      premaster_value [OF lc exponent_not_reduced [OF lc random]]
    by (simp add: process_challenge_def B' exp A [symmetric] session Let_def sha512_length [OF lc] proof_of_def)
  have "A \<noteq> []" "server_session lc salt b A \<noteq> []" "proof_of lc salt A B (server_session lc salt b A) \<noteq> []"
    using A'(2) sha512_length [OF lc]
    by (auto simp: kGroupBytes_def server_session_def proof_of_def Let_def dest: arg_cong [where f = length])
  then show ?thesis using run unfolding run' by (auto simp: verify_server_def split: if_splits)
qed

definition example_libcrypto :: libcrypto where
  "example_libcrypto = \<lparr>bn_mod = (\<lambda>a m. Some (a mod m)), bn_mod_exp = (\<lambda>a p m. Some (a ^ p mod m)),
     bn_mod_mul = (\<lambda>a b m. Some (a * b mod m)), bn_mod_add = (\<lambda>a b m. Some ((a + b) mod m)),
     bn_mod_sub = (\<lambda>a b m. Some (nat ((int a - int b) mod int m))),
     lc_sha512 = (\<lambda>_. Some (replicate 63 0 @ [1]))\<rparr>"

lemma bn_from_zeros: "bn_from (replicate n 0) = 0"
  by (induction n) (simp_all add: bn_from_def)

lemma example_sha512: "sha512 example_libcrypto parts = replicate 63 0 @ [1]"
  by (simp add: sha512_def example_libcrypto_def)

lemma example_hash: "bn_from (sha512 example_libcrypto parts) = 1"
proof -
  have "bn_from (replicate 63 0 @ [1]) = 256 * bn_from (replicate 63 0) + 1" by (simp add: bn_from_def)
  then show ?thesis by (simp add: example_sha512 bn_from_zeros)
qed

text \<open>
  C8: SRP agreement.  A head unit that follows RFC 5054 with the same salt gets an answer exactly if its
  public key and the scrambling number are not zero; then the client has the session key of the head unit,
  its proof is the one the head unit expects, and of all proofs it accepts only the head unit's.
\<close>

theorem srp_agreement:
  assumes lc: "libcrypto_ok lc" and random: "length random = 32" and salt: "salt \<noteq> []"
    and A: "A = padded (5 ^ bn_from random mod prime)" and B: "B = padded (server_public lc salt b)"
    and run: "process_challenge lc (Some random) salt B s = (ok, s')"
  shows "(ok \<longleftrightarrow> server_public lc salt b \<noteq> 0 \<and> scramble lc A B \<noteq> 0) \<and>
    (ok \<longrightarrow> srp_public_key s' = A \<and>
      srp_session_key s' = server_session lc salt b A \<and>
      srp_client_proof s' = proof_of lc salt A B (server_session lc salt b A) \<and>
      (\<forall>p. verify_server lc p s' \<longleftrightarrow> p = sha512 lc [A, srp_client_proof s', server_session lc salt b A]))"
  using assms by (rule srp_agrees)

theorem srp_agreement_witness:
  "fst (process_challenge example_libcrypto (Some (replicate 32 0)) [1] (padded 6) new_srp_client)"
proof -
  obtain ok s' where run: "process_challenge example_libcrypto (Some (replicate 32 0)) [1] (padded 6) new_srp_client = (ok, s')"
    by fastforce
  have lc: "libcrypto_ok example_libcrypto" by (simp add: libcrypto_ok_def example_libcrypto_def)
  have "6 < prime" using prime_bounds(1) by (rule order.strict_trans [rotated]) simp
  then have B: "server_public example_libcrypto [1] 0 = 6"
    by (simp add: server_public_def server_verifier_def multiplier_of_def private_value_def example_hash)
  from srp_agreement [OF lc _ _ refl _ run, of 0] show ?thesis
    by (simp add: B run scramble_def example_hash)
qed

end
