(* ===== verification/Airplay_Pairing.thy ===== *)
theory Airplay_Pairing
  imports Airplay_Events Airplay_Srp Airplay_Pairing_Store
begin

text \<open>
  Pairing with the head unit, the first part of \<open>run_session\<close> in \<open>src/src/airplay/session.cpp\<close>:
  Pair-Setup, if no pairing is stored, then Pair-Verify, which gives the keys of the control channel.
  The head unit is a function from the bytes of a request to what the socket brings in answer.  A
  function that gives up (\<open>return 1\<close>) returns \<open>None\<close>; log lines are left out.
\<close>

section \<open>Requests and responses\<close>

text \<open>
  A turn of the reading loop: \<open>RxIdle\<close> if \<open>poll\<close> reports nothing, \<open>RxBroken\<close> if \<open>recv\<close> fails.  The
  end of the list is the deadline or a requested stop.  \<open>None\<close> if the response grows too long.
\<close>

fun read_response :: "rx_event list \<Rightarrow> bytes \<Rightarrow> bytes option" where
  "read_response turns response_bytes =
     (if complete_response_size response_bytes \<noteq> None then Some response_bytes
      else (case turns of
          [] \<Rightarrow> Some response_bytes
        | RxIdle # turns \<Rightarrow> read_response turns response_bytes
        | RxBroken # turns \<Rightarrow> Some response_bytes
        | RxChunk bs # turns \<Rightarrow>
            (case append_limited response_bytes bs kMaxResponseBytes of
               None \<Rightarrow> None
             | Some response_bytes \<Rightarrow> read_response turns response_bytes)))"

declare read_response.simps [simp del]

record x25519 =
  x_private_key :: bytes
  x_public_key :: bytes

text \<open>
  The surroundings of a session: OpenSSL, the keys and random bytes it generates, the clock, the
  operating system at the pairing store, and the head unit with a state of its own.  The head
  unit's answer says whether the request could be sent and what arrives afterwards.
\<close>

record 'n pairing_env =
  pe_evp :: evp
  pe_libcrypto :: libcrypto
  pe_srp_random :: "bytes option"
  pe_ed25519 :: "ed25519 option"
  pe_controller_random :: "bytes option"
  pe_x25519 :: "x25519 option"
  pe_now :: int
  pe_store_os :: store_os
  pe_peer :: "bytes \<Rightarrow> 'n \<Rightarrow> (bool \<times> rx_event list) \<times> 'n"

text \<open>One request and the fields of its answer, if the answer has status 200.\<close>

definition pairing_exchange ::
    "'n pairing_env \<Rightarrow> string \<Rightarrow> int \<Rightarrow> bytes \<Rightarrow> int \<Rightarrow> 'n \<Rightarrow> (byte \<rightharpoonup> bytes) option \<times> 'n" where
  "pairing_exchange env path cseq body hkp n =
     (case pe_peer env (encode_request ''POST'' path cseq body ''application/pairing+tlv8''
          (pairing_headers (pe_now env) hkp)) n of
        ((sent, turns), n) \<Rightarrow>
          (if \<not> sent then None
           else do {
             response_bytes \<leftarrow> read_response turns [];
             response \<leftarrow> parse_response response_bytes;
             if rsp_status response \<noteq> 200 then None else Some (decode_tlv8 (rsp_body response))
           }, n))"

section \<open>Pair-Setup\<close>

definition setup_m1 :: bytes where
  "setup_m1 = encode_tlv8 [(0x06, [1]), (0x00, [0])]"

text \<open>M3 answers M2.\<close>

definition setup_m3 :: "'n pairing_env \<Rightarrow> (byte \<rightharpoonup> bytes) \<Rightarrow> (srp_client \<times> bytes) option" where
  "setup_m3 env tlv =
     do {
       state \<leftarrow> tlv 0x06;
       salt \<leftarrow> tlv 0x02;
       server_key \<leftarrow> tlv 0x03;
       if state \<noteq> [2] then None
       else (case process_challenge (pe_libcrypto env) (pe_srp_random env) salt server_key new_srp_client of
           (False, srp) \<Rightarrow> None
         | (True, srp) \<Rightarrow>
             Some (srp, encode_tlv8 [(0x06, [3]), (0x03, srp_public_key srp), (0x04, srp_client_proof srp)]))
     }"

definition setup_m4_ok :: "'n pairing_env \<Rightarrow> srp_client \<Rightarrow> (byte \<rightharpoonup> bytes) \<Rightarrow> bool" where
  "setup_m4_ok env srp tlv =
     (tlv 0x06 = Some [4] \<and>
      (case tlv 0x04 of None \<Rightarrow> False | Some server_proof \<Rightarrow> verify_server (pe_libcrypto env) server_proof srp))"

definition setup_key :: "evp \<Rightarrow> bytes \<Rightarrow> bytes" where
  "setup_key evp session_key = hkdf_sha512 evp session_key ''Pair-Setup-Encrypt-Salt'' ''Pair-Setup-Encrypt-Info'' 32"

definition controller_sign_key :: "evp \<Rightarrow> bytes \<Rightarrow> bytes" where
  "controller_sign_key evp session_key =
     hkdf_sha512 evp session_key ''Pair-Setup-Controller-Sign-Salt'' ''Pair-Setup-Controller-Sign-Info'' 32"

definition accessory_sign_key :: "evp \<Rightarrow> bytes \<Rightarrow> bytes" where
  "accessory_sign_key evp session_key =
     hkdf_sha512 evp session_key ''Pair-Setup-Accessory-Sign-Salt'' ''Pair-Setup-Accessory-Sign-Info'' 32"

text \<open>M5: the controller's new identity, signed and encrypted.\<close>

definition setup_m5 :: "'n pairing_env \<Rightarrow> bytes \<Rightarrow> (string \<times> ed25519 \<times> bytes) option" where
  "setup_m5 env session_key =
     (let evp = pe_evp env; encryption_key = setup_key evp session_key in
      do {
        new_controller \<leftarrow> pe_ed25519 env;
        ident \<leftarrow> random_controller_id (pe_controller_random env);
        _ \<leftarrow> (if length encryption_key \<noteq> 32 then None else Some ());
        let sign_key = controller_sign_key evp session_key;
        signature \<leftarrow> ed25519_sign evp (private_key new_controller) (sign_key @ bytes_of ident @ public_key new_controller);
        _ \<leftarrow> (if length sign_key \<noteq> 32 then None else Some ());
        encrypted \<leftarrow> seal evp encryption_key ''PS-Msg05''
          (encode_tlv8 [(0x01, bytes_of ident), (0x03, public_key new_controller), (0x0a, signature)]);
        Some (ident, new_controller, encode_tlv8 [(0x06, [5]), (0x05, encrypted)])
      })"

text \<open>The check of M6, which gives the pairing.\<close>

definition setup_m6 ::
    "'n pairing_env \<Rightarrow> bytes \<Rightarrow> string \<Rightarrow> ed25519 \<Rightarrow> (byte \<rightharpoonup> bytes) \<Rightarrow> pairing_record option" where
  "setup_m6 env session_key ident new_controller tlv =
     (let evp = pe_evp env in
      do {
        encrypted \<leftarrow> tlv 0x05;
        decrypted \<leftarrow> open_label evp (setup_key evp session_key) ''PS-Msg06'' encrypted;
        _ \<leftarrow> (if tlv 0x06 \<noteq> Some [6] then None else Some ());
        let accessory = decode_tlv8 decrypted;
        accessory_id \<leftarrow> accessory 0x01;
        accessory_key \<leftarrow> accessory 0x03;
        accessory_signature \<leftarrow> accessory 0x0a;
        let sign_key = accessory_sign_key evp session_key;
        _ \<leftarrow> (if length sign_key \<noteq> 32 then None else Some ());
        if \<not> ed25519_verify evp accessory_key (sign_key @ accessory_id @ accessory_key) accessory_signature then None
        else Some \<lparr>controller_id = ident, controller = new_controller, accessory_public_key = accessory_key\<rparr>
      })"

text \<open>
  Pair-Setup as a whole: three exchanges, and the pairing in the store if there is one.  The result
  holds the pairing, the files and the state of the head unit.
\<close>

definition store_pairing ::
    "'n pairing_env \<Rightarrow> string \<Rightarrow> pairing_record \<Rightarrow> (string \<rightharpoonup> bytes) \<Rightarrow> pairing_record option \<times> (string \<rightharpoonup> bytes)" where
  "store_pairing env pairing_store pairing files =
     (if pairing_store = [] then (Some pairing, files)
      else (case save_pairing_record (pe_store_os env) pairing_store pairing files of
          (ok, files) \<Rightarrow> (if ok then Some pairing else None, files)))"

definition pair_setup ::
    "'n pairing_env \<Rightarrow> string \<Rightarrow> (string \<rightharpoonup> bytes) \<Rightarrow> 'n \<Rightarrow> pairing_record option \<times> (string \<rightharpoonup> bytes) \<times> 'n" where
  "pair_setup env pairing_store files n =
     (case pairing_exchange env ''/pair-setup'' 1 setup_m1 0 n of
        (None, n) \<Rightarrow> (None, files, n)
      | (Some m2, n) \<Rightarrow>
     (case setup_m3 env m2 of
        None \<Rightarrow> (None, files, n)
      | Some (srp, m3) \<Rightarrow>
     (case pairing_exchange env ''/pair-setup'' 2 m3 0 n of
        (None, n) \<Rightarrow> (None, files, n)
      | (Some m4, n) \<Rightarrow>
     (if \<not> setup_m4_ok env srp m4 then (None, files, n)
      else case setup_m5 env (srp_session_key srp) of
        None \<Rightarrow> (None, files, n)
      | Some (ident, new_controller, m5) \<Rightarrow>
     (case pairing_exchange env ''/pair-setup'' 3 m5 0 n of
        (None, n) \<Rightarrow> (None, files, n)
      | (Some m6, n) \<Rightarrow>
     (case setup_m6 env (srp_session_key srp) ident new_controller m6 of
        None \<Rightarrow> (None, files, n)
      | Some pairing \<Rightarrow>
     (case store_pairing env pairing_store pairing files of (stored, files) \<Rightarrow> (stored, files, n))))))))"

section \<open>Pair-Verify\<close>

definition verify_m1 :: "x25519 \<Rightarrow> bytes" where
  "verify_m1 ephemeral = encode_tlv8 [(0x06, [1]), (0x03, x_public_key ephemeral)]"

definition verify_key_of :: "evp \<Rightarrow> bytes \<Rightarrow> bytes" where
  "verify_key_of evp shared = hkdf_sha512 evp shared ''Pair-Verify-Encrypt-Salt'' ''Pair-Verify-Encrypt-Info'' 32"

text \<open>M3 answers M2; with it comes the shared secret.\<close>

definition verify_m3 ::
    "evp \<Rightarrow> pairing_record \<Rightarrow> x25519 \<Rightarrow> (byte \<rightharpoonup> bytes) \<Rightarrow> (bytes \<times> bytes) option" where
  "verify_m3 evp pairing ephemeral m2 =
     do {
       peer_ephemeral \<leftarrow> m2 0x03;
       shared \<leftarrow> x25519_shared evp (x_private_key ephemeral) peer_ephemeral;
       let verify_key = verify_key_of evp shared;
       encrypted \<leftarrow> m2 0x05;
       plain \<leftarrow> open_label evp verify_key ''PV-Msg02'' encrypted;
       _ \<leftarrow> (if m2 0x06 \<noteq> Some [2] \<or> length verify_key \<noteq> 32 then None else Some ());
       let identity = decode_tlv8 plain;
       accessory_id \<leftarrow> identity 0x01;
       accessory_signature \<leftarrow> identity 0x0a;
       _ \<leftarrow> (if \<not> ed25519_verify evp (accessory_public_key pairing)
                (peer_ephemeral @ accessory_id @ x_public_key ephemeral) accessory_signature
             then None else Some ());
       signature \<leftarrow> ed25519_sign evp (private_key (controller pairing))
         (x_public_key ephemeral @ bytes_of (controller_id pairing) @ peer_ephemeral);
       encrypted \<leftarrow> seal evp verify_key ''PV-Msg03''
         (encode_tlv8 [(0x01, bytes_of (controller_id pairing)), (0x0a, signature)]);
       Some (shared, encode_tlv8 [(0x06, [3]), (0x05, encrypted)])
     }"

definition control_write_key :: "evp \<Rightarrow> bytes \<Rightarrow> bytes" where
  "control_write_key evp shared = hkdf_sha512 evp shared ''Control-Salt'' ''Control-Write-Encryption-Key'' 32"

definition control_read_key :: "evp \<Rightarrow> bytes \<Rightarrow> bytes" where
  "control_read_key evp shared = hkdf_sha512 evp shared ''Control-Salt'' ''Control-Read-Encryption-Key'' 32"

text \<open>The keys of the control channel, write key first, and the shared secret they come from.\<close>

definition pair_verify ::
    "'n pairing_env \<Rightarrow> pairing_record \<Rightarrow> 'n \<Rightarrow> (bytes \<times> bytes \<times> bytes) option \<times> 'n" where
  "pair_verify env pairing n =
     (let evp = pe_evp env in
      case pe_x25519 env of
        None \<Rightarrow> (None, n)
      | Some ephemeral \<Rightarrow>
     (case pairing_exchange env ''/pair-verify'' 4 (verify_m1 ephemeral) 2 n of
        (None, n) \<Rightarrow> (None, n)
      | (Some m2, n) \<Rightarrow>
     (case verify_m3 evp pairing ephemeral m2 of
        None \<Rightarrow> (None, n)
      | Some (shared, m3) \<Rightarrow>
     (case pairing_exchange env ''/pair-verify'' 5 m3 2 n of
        (None, n) \<Rightarrow> (None, n)
      | (Some m4, n) \<Rightarrow>
          (if m4 0x06 \<noteq> Some [4] then None
           else if length (control_write_key evp shared) \<noteq> 32 \<or> length (control_read_key evp shared) \<noteq> 32 then None
           else Some (control_write_key evp shared, control_read_key evp shared, shared), n)))))"

section \<open>The whole handshake\<close>

definition no_pairing :: pairing_record where
  "no_pairing = \<lparr>controller_id = [], controller = \<lparr>private_key = [], public_key = []\<rparr>, accessory_public_key = []\<rparr>"

definition stored_pairing :: "string \<Rightarrow> (string \<rightharpoonup> bytes) \<Rightarrow> pairing_record" where
  "stored_pairing pairing_store files =
     (if pairing_store = [] then no_pairing
      else (case load_pairing_record files pairing_store of None \<Rightarrow> no_pairing | Some stored \<Rightarrow> stored))"

definition run_pairing ::
    "'n pairing_env \<Rightarrow> string \<Rightarrow> (string \<rightharpoonup> bytes) \<Rightarrow> 'n \<Rightarrow>
     (pairing_record \<times> bytes \<times> bytes \<times> bytes) option \<times> (string \<rightharpoonup> bytes) \<times> 'n" where
  "run_pairing env pairing_store files n =
     (let pairing = stored_pairing pairing_store files in
      case (if private_key (controller pairing) = [] then pair_setup env pairing_store files n
            else (Some pairing, files, n)) of
        (None, files, n) \<Rightarrow> (None, files, n)
      | (Some pairing, files, n) \<Rightarrow>
          (case pair_verify env pairing n of
             (None, n) \<Rightarrow> (None, files, n)
           | (Some keys, n) \<Rightarrow> (Some (pairing, keys), files, n)))"

end
