(* ===== verification/Airplay_Pairing_Props.thy ===== *)
theory Airplay_Pairing_Props
  imports Airplay_Pairing
begin

text \<open>
  What pairing guarantees: with a head unit that follows the protocol it completes and both sides have
  the same keys; whatever the head unit does, keys come only from a head unit that has signed the
  exchange with the long-term key of the pairing.
\<close>

section \<open>Answers arrive\<close>

fun arrived :: "rx_event list \<Rightarrow> bytes" where
  "arrived [] = []"
| "arrived (RxChunk bs # turns) = bs @ arrived turns"
| "arrived (_ # turns) = arrived turns"

definition delivers :: "rx_event list \<Rightarrow> bytes \<Rightarrow> bool" where
  "delivers turns bs \<longleftrightarrow> RxBroken \<notin> set turns \<and> arrived turns = bs"

lemma read_response_steps:
  assumes "complete_response_size buf = None"
  shows "read_response [] buf = Some buf"
    "read_response (RxIdle # turns) buf = read_response turns buf"
    "length (buf @ bs) \<le> kMaxResponseBytes \<Longrightarrow> read_response (RxChunk bs # turns) buf = read_response turns (buf @ bs)"
  using assms by (auto simp: read_response.simps [of "_ # _"] read_response.simps [of "[]"] append_limited_def)

lemma read_response_delivers:
  assumes ok: "response_ok status reason headers body"
    and small: "length (render_response status reason headers body) \<le> kMaxResponseBytes"
  shows "RxBroken \<notin> set turns \<Longrightarrow> buf @ arrived turns = render_response status reason headers body \<Longrightarrow>
    read_response turns buf = Some (render_response status reason headers body)"
proof (induction turns arbitrary: buf)
  case Nil
  then show ?case by (simp add: read_response.simps)
next
  case (Cons t turns)
  let ?full = "render_response status reason headers body"
  show ?case
  proof (cases "complete_response_size buf = None")
    case True
    have "length (buf @ arrived (t # turns)) \<le> kMaxResponseBytes" using Cons.prems(2) small by simp
    have "length (buf @ arrived (t # turns)) \<le> kMaxResponseBytes" using Cons.prems(2) small by simp
    then have "length (buf @ bs) \<le> kMaxResponseBytes" if "t = RxChunk bs" for bs using that by simp
    with Cons show ?thesis by (cases t) (simp_all add: read_response_steps [OF True])
  next
    case False
    then have "\<not> strict_prefix buf ?full" by (rule contrapos_nn) (rule render_response_prefix [OF ok])
    moreover have "prefix buf ?full" using Cons.prems(2) by (metis prefixI)
    ultimately have "buf = ?full" by (simp add: strict_prefix_def)
    with False show ?thesis by (simp add: read_response.simps)
  qed
qed

text \<open>The fields of an answer with status 200.\<close>

definition small_answer :: "(byte \<times> bytes) list \<Rightarrow> bool" where
  "small_answer entries \<longleftrightarrow> length (encode_tlv8 entries) \<le> 65536"

lemma answer_response_ok:
  assumes "small_answer entries"
  shows "response_ok 200 ''OK'' [] (encode_tlv8 entries)"
    and "length (render_response 200 ''OK'' [] (encode_tlv8 entries)) \<le> kMaxResponseBytes"
proof -
  have digits: "length (nat_to_string n) \<le> n + 1" for n
    by (induction n rule: nat_to_string.induct) (subst nat_to_string.simps, auto)
  show "response_ok 200 ''OK'' [] (encode_tlv8 entries)"
    using assms by (simp add: small_answer_def response_ok_def no_cr_def kMaxContentLength_def)
  show "length (render_response 200 ''OK'' [] (encode_tlv8 entries)) \<le> kMaxResponseBytes"
    using assms digits [of 200] digits [of "length (encode_tlv8 entries)"]
    by (simp add: small_answer_def render_response_def kMaxResponseBytes_def)
qed

lemma exchange_delivers_fields:
  assumes "pe_peer env (encode_request ''POST'' path cseq body ''application/pairing+tlv8''
       (pairing_headers (pe_now env) hkp)) n = ((True, turns), n')"
    and "delivers turns (render_response 200 ''OK'' [] (encode_tlv8 entries))" "small_answer entries"
  shows "pairing_exchange env path cseq body hkp n = (Some (decode_tlv8 (encode_tlv8 entries)), n')"
proof -
  let ?r = "render_response 200 ''OK'' [] (encode_tlv8 entries)"
  note ok = answer_response_ok [OF assms(3)]
  have "read_response turns [] = Some ?r"
    using assms(2) by (intro read_response_delivers [OF ok]) (simp_all add: delivers_def)
  moreover obtain r where "parse_response ?r = Some r" "rsp_status r = 200" "rsp_body r = encode_tlv8 entries"
    using render_response_parsed [OF ok(1), of "[]"] by auto
  ultimately show ?thesis by (simp add: pairing_exchange_def assms(1))
qed

section \<open>A head unit that follows the protocol\<close>

record accessory =
  ac_salt :: bytes
  ac_private :: nat
  ac_id :: bytes
  ac_key :: ed25519
  ac_ephemeral :: x25519

record accessory_state =
  as_session :: bytes
  as_controllers :: "bytes \<rightharpoonup> bytes"
  as_peer :: bytes
  as_shared :: bytes
  as_verified :: bool

text \<open>Its answers to M1, M3 and M5 of Pair-Setup.  \<open>None\<close> is a refusal.\<close>

definition setup_m2 :: "libcrypto \<Rightarrow> accessory \<Rightarrow> (byte \<times> bytes) list" where
  "setup_m2 lc ac = [(0x06, [2]), (0x02, ac_salt ac), (0x03, padded (server_public lc (ac_salt ac) (ac_private ac)))]"

definition setup_m4 ::
    "libcrypto \<Rightarrow> accessory \<Rightarrow> (byte \<rightharpoonup> bytes) \<Rightarrow> accessory_state \<Rightarrow> ((byte \<times> bytes) list \<times> accessory_state) option" where
  "setup_m4 lc ac tlv s =
     do {
       client_key \<leftarrow> tlv 0x03;
       client_proof \<leftarrow> tlv 0x04;
       let session = server_session lc (ac_salt ac) (ac_private ac) client_key;
       let server_key = padded (server_public lc (ac_salt ac) (ac_private ac));
       if client_proof \<noteq> proof_of lc (ac_salt ac) client_key server_key session then None
       else Some ([(0x06, [4]), (0x04, sha512 lc [client_key, client_proof, session])], s\<lparr>as_session := session\<rparr>)
     }"

definition setup_m6_answer ::
    "evp \<Rightarrow> accessory \<Rightarrow> (byte \<rightharpoonup> bytes) \<Rightarrow> accessory_state \<Rightarrow> ((byte \<times> bytes) list \<times> accessory_state) option" where
  "setup_m6_answer evp ac tlv s =
     (let key = setup_key evp (as_session s) in
      do {
        encrypted \<leftarrow> tlv 0x05;
        plain \<leftarrow> open_label evp key ''PS-Msg05'' encrypted;
        let inner = decode_tlv8 plain;
        ident \<leftarrow> inner 0x01;
        controller_key \<leftarrow> inner 0x03;
        signature \<leftarrow> inner 0x0a;
        _ \<leftarrow> (if \<not> ed25519_verify evp controller_key
                 (controller_sign_key evp (as_session s) @ ident @ controller_key) signature then None else Some ());
        own \<leftarrow> ed25519_sign evp (private_key (ac_key ac))
          (accessory_sign_key evp (as_session s) @ ac_id ac @ public_key (ac_key ac));
        sealed \<leftarrow> seal evp key ''PS-Msg06''
          (encode_tlv8 [(0x01, ac_id ac), (0x03, public_key (ac_key ac)), (0x0a, own)]);
        Some ([(0x06, [6]), (0x05, sealed)], s\<lparr>as_controllers := (as_controllers s)(ident \<mapsto> controller_key)\<rparr>)
      })"

text \<open>Its answers to M1 and M3 of Pair-Verify.\<close>

definition verify_m2 ::
    "evp \<Rightarrow> accessory \<Rightarrow> (byte \<rightharpoonup> bytes) \<Rightarrow> accessory_state \<Rightarrow> ((byte \<times> bytes) list \<times> accessory_state) option" where
  "verify_m2 evp ac tlv s =
     do {
       peer \<leftarrow> tlv 0x03;
       shared \<leftarrow> x25519_shared evp (x_private_key (ac_ephemeral ac)) peer;
       signature \<leftarrow> ed25519_sign evp (private_key (ac_key ac)) (x_public_key (ac_ephemeral ac) @ ac_id ac @ peer);
       sealed \<leftarrow> seal evp (verify_key_of evp shared) ''PV-Msg02'' (encode_tlv8 [(0x01, ac_id ac), (0x0a, signature)]);
       Some ([(0x06, [2]), (0x03, x_public_key (ac_ephemeral ac)), (0x05, sealed)], s\<lparr>as_peer := peer, as_shared := shared\<rparr>)
     }"

definition verify_m4 ::
    "evp \<Rightarrow> accessory \<Rightarrow> (byte \<rightharpoonup> bytes) \<Rightarrow> accessory_state \<Rightarrow> ((byte \<times> bytes) list \<times> accessory_state) option" where
  "verify_m4 evp ac tlv s =
     do {
       encrypted \<leftarrow> tlv 0x05;
       plain \<leftarrow> open_label evp (verify_key_of evp (as_shared s)) ''PV-Msg03'' encrypted;
       let inner = decode_tlv8 plain;
       ident \<leftarrow> inner 0x01;
       signature \<leftarrow> inner 0x0a;
       controller_key \<leftarrow> as_controllers s ident;
       if \<not> ed25519_verify evp controller_key (as_peer s @ ident @ x_public_key (ac_ephemeral ac)) signature then None
       else Some ([(0x06, [4])], s\<lparr>as_verified := True\<rparr>)
     }"

text \<open>The head unit on the wire: \<open>chunked\<close> is how TCP brings its answer.\<close>

definition request_body :: "bytes \<Rightarrow> bytes" where
  "request_body request =
     (case find_sub crlf2 (text_of request) of None \<Rightarrow> [] | Some header_end \<Rightarrow> drop (header_end + 4) request)"

definition accessory_answer ::
    "evp \<Rightarrow> libcrypto \<Rightarrow> accessory \<Rightarrow> bytes \<Rightarrow> accessory_state \<Rightarrow> (byte \<times> bytes) list \<times> accessory_state" where
  "accessory_answer evp lc ac request s =
     (let tlv = decode_tlv8 (request_body request);
          answer =
            (if prefix (bytes_of ''POST /pair-setup '') request
             then (if tlv 0x06 = Some [1] then Some (setup_m2 lc ac, s)
                   else if tlv 0x06 = Some [3] then setup_m4 lc ac tlv s
                   else if tlv 0x06 = Some [5] then setup_m6_answer evp ac tlv s else None)
             else (if tlv 0x06 = Some [1] then verify_m2 evp ac tlv s
                   else if tlv 0x06 = Some [3] then verify_m4 evp ac tlv s else None))
      in (case answer of None \<Rightarrow> ([(0x07, [2])], s) | Some result \<Rightarrow> result))"

definition accessory_peer ::
    "evp \<Rightarrow> libcrypto \<Rightarrow> accessory \<Rightarrow> (bytes \<Rightarrow> rx_event list) \<Rightarrow> bytes \<Rightarrow> accessory_state \<Rightarrow>
     (bool \<times> rx_event list) \<times> accessory_state" where
  "accessory_peer evp lc ac chunked request s =
     (case accessory_answer evp lc ac request s of
        (entries, s) \<Rightarrow> ((True, chunked (render_response 200 ''OK'' [] (encode_tlv8 entries))), s))"

lemma request_body_encoded:
  assumes "request_ok rmethod path content_type headers"
  shows "request_body (encode_request rmethod path cseq body content_type headers) = body"
proof -
  let ?ls = "request_lines rmethod path cseq content_type headers @ [''Content-Length: '' @ nat_to_string (length body)]"
  have ls: "list_all header_line ?ls" "?ls \<noteq> []"
    using request_lines_ok [OF assms, of cseq] by (simp_all add: header_line_def digit_not_in_nat_to_string)
  have e: "encode_request rmethod path cseq body content_type headers = bytes_of (header_block ?ls @ crlf) @ body"
    by (simp only: encode_request_def encode_request_headers_block append_assoc)
  then have "find_sub crlf2 (text_of (encode_request rmethod path cseq body content_type headers)) =
      Some (length (header_block ?ls) - 2)"
    using find_block_end [OF ls, of "text_of body"] by (simp add: comp_def)
  moreover have "2 \<le> length (header_block ?ls)" by simp
  ultimately show ?thesis by (simp add: request_body_def e del: header_block_simps)
qed

lemma pairing_request_ok:
  "path = ''/pair-setup'' \<or> path = ''/pair-verify'' \<Longrightarrow>
     request_ok ''POST'' path ''application/pairing+tlv8'' (pairing_headers now hkp)"
  by (auto simp: request_ok_def pairing_headers_def request_header_ok_def no_cr_def lower_def lower_char_def)

section \<open>What is relied on\<close>

text \<open>
  The documented behaviour of the primitives: HKDF gives as many bytes as asked for, signatures of a key
  pair verify and have 64 bytes, and both sides of an X25519 exchange get the same secret.
\<close>

definition hkdf_ok :: "evp \<Rightarrow> bool" where
  "hkdf_ok evp \<longleftrightarrow> (\<forall>ikm salt info n. \<exists>out. evp_hkdf_sha512 evp ikm salt info n = Some out \<and> length out = n)"

definition signing_pair :: "evp \<Rightarrow> ed25519 \<Rightarrow> bool" where
  "signing_pair evp k \<longleftrightarrow> length (private_key k) = 32 \<and> length (public_key k) = 32 \<and>
     (\<forall>m. \<exists>signature. evp_ed25519_sign evp (private_key k) m = Some signature \<and> length signature = 64 \<and>
        evp_ed25519_verify evp (public_key k) m signature)"

definition exchange_pair :: "evp \<Rightarrow> x25519 \<Rightarrow> x25519 \<Rightarrow> bytes \<Rightarrow> bool" where
  "exchange_pair evp a b shared \<longleftrightarrow>
     length (x_public_key a) = 32 \<and> length (x_public_key b) = 32 \<and> \<not> list_all (\<lambda>b. b = 0) shared \<and>
     evp_x25519_derive evp (x_private_key a) (x_public_key b) = Some shared \<and>
     evp_x25519_derive evp (x_private_key b) (x_public_key a) = Some shared"

definition accessory_fits :: "accessory \<Rightarrow> bool" where
  "accessory_fits ac \<longleftrightarrow> ac_salt ac \<noteq> [] \<and> length (ac_salt ac) \<le> 1024 \<and> ac_id ac \<noteq> [] \<and> length (ac_id ac) \<le> 1024"

lemma decode_encode_tlv8:
  "decode_tlv8 (encode_tlv8 entries) t = (if tlv8_spec entries t = [] then None else Some (tlv8_spec entries t))"
  using decode_tlv8_entries [of "[]" entries Map.empty] by (simp add: decode_tlv8_def)

lemma length_encode_tlv8_value: "length (encode_tlv8_value t v) \<le> 3 * length v"
proof (induction t v rule: encode_tlv8_value.induct)
  case (1 t v)
  show ?case
  proof (cases "v = []")
    case False
    then have "length (encode_tlv8_value t (drop (min 255 (length v)) v)) \<le> 3 * length (drop (min 255 (length v)) v)"
      using "1.IH" by blast
    moreover have "1 \<le> min 255 (length v)" using False by (cases v) simp_all
    ultimately show ?thesis by (subst encode_tlv8_value.simps) (simp add: False Let_def)
  qed (simp add: encode_tlv8_value.simps)
qed

lemma length_encode_tlv8: "length (encode_tlv8 entries) \<le> 3 * sum_list (map (length \<circ> snd) entries)"
proof (induction entries)
  case (Cons e entries)
  then show ?case using length_encode_tlv8_value [of "fst e" "snd e"] by (cases e) (simp add: encode_tlv8_def)
qed (simp add: encode_tlv8_def)

lemma small_answer_sum: "sum_list (map (length \<circ> snd) entries) \<le> 21845 \<Longrightarrow> small_answer entries"
  using length_encode_tlv8 [of entries] by (simp add: small_answer_def)

lemma exchange_with_accessory:
  assumes "pe_peer env = accessory_peer (pe_evp env) (pe_libcrypto env) ac chunked" "\<And>bs. delivers (chunked bs) bs"
    and path: "path = ''/pair-setup'' \<or> path = ''/pair-verify''"
    and answer: "accessory_answer (pe_evp env) (pe_libcrypto env) ac (encode_request ''POST'' path cseq body
        ''application/pairing+tlv8'' (pairing_headers (pe_now env) hkp)) s = (entries, s')" "small_answer entries"
  shows "pairing_exchange env path cseq body hkp s = (Some (decode_tlv8 (encode_tlv8 entries)), s')"
  by (rule exchange_delivers_fields [where turns = "chunked (render_response 200 ''OK'' [] (encode_tlv8 entries))"])
     (simp_all add: assms accessory_peer_def)

lemma request_prefix:
  "prefix (bytes_of ''POST /pair-setup '') (encode_request ''POST'' ''/pair-setup'' cseq body content_type headers)"
  "\<not> prefix (bytes_of ''POST /pair-setup '') (encode_request ''POST'' ''/pair-verify'' cseq body content_type headers)"
  by (simp_all add: encode_request_def encode_request_headers_def byte_of_char_def)

lemma seal_open:
  assumes "aead_correct evp" "length key = 32" "length label = 8"
  obtains sealed where "seal evp key label plain = Some sealed" "length sealed = length plain + 16"
    "open_label evp key label sealed = Some plain"
proof -
  have nonce: "length (nonce_for_label label) = 12" by (simp add: nonce_for_label_def Let_def assms(3))
  with assms(1,2) obtain sealed where
    sealed: "evp_chacha20_poly1305_seal evp key (nonce_for_label label) [] plain = Some sealed"
      "length sealed = length plain + 16"
      "evp_chacha20_poly1305_open evp key (nonce_for_label label) [] sealed = Some plain"
    unfolding aead_correct_def by blast
  show thesis
  proof (rule that)
    show "seal evp key label plain = Some sealed" "length sealed = length plain + 16"
      using sealed nonce assms(2) by (simp_all add: seal_def seal_with_nonce_def)
    have "\<not> (length key \<noteq> 32 \<or> length (nonce_for_label label) \<noteq> 12 \<or> length sealed < 16)"
      using sealed(2) nonce assms(2) by simp
    then show "open_label evp key label sealed = Some plain"
      unfolding open_label_def open_with_nonce_def by (simp only: if_False sealed(3))
  qed
qed

lemma hkdf_length: "hkdf_ok evp \<Longrightarrow> length (hkdf_sha512 evp ikm salt info n) = n"
  unfolding hkdf_ok_def hkdf_sha512_def by (metis option.simps(5))

lemma signature_of:
  assumes "signing_pair evp k"
  obtains signature where "ed25519_sign evp (private_key k) m = Some signature" "length signature = 64"
    "ed25519_verify evp (public_key k) m signature"
  using assms unfolding signing_pair_def ed25519_sign_def ed25519_verify_def by blast

section \<open>Pair-Setup completes\<close>

definition pairing_world :: "accessory_state pairing_env \<Rightarrow> accessory \<Rightarrow> (bytes \<Rightarrow> rx_event list) \<Rightarrow> bool" where
  "pairing_world env ac chunked \<longleftrightarrow>
     pe_peer env = accessory_peer (pe_evp env) (pe_libcrypto env) ac chunked \<and> (\<forall>bs. delivers (chunked bs) bs) \<and>
     aead_correct (pe_evp env) \<and> hkdf_ok (pe_evp env) \<and> libcrypto_ok (pe_libcrypto env) \<and>
     accessory_fits ac \<and> signing_pair (pe_evp env) (ac_key ac)"

text \<open>One exchange: the body of the request is the encoding of some fields.\<close>

lemma exchange_in_world:
  assumes w: "pairing_world env ac chunked" and path: "path = ''/pair-setup'' \<or> path = ''/pair-verify''"
    and body: "body = encode_tlv8 es"
    and answer: "(let tlv = decode_tlv8 (encode_tlv8 es) in
      if path = ''/pair-setup''
      then (if tlv 0x06 = Some [1] then Some (setup_m2 (pe_libcrypto env) ac, s)
            else if tlv 0x06 = Some [3] then setup_m4 (pe_libcrypto env) ac tlv s
            else if tlv 0x06 = Some [5] then setup_m6_answer (pe_evp env) ac tlv s else None)
      else (if tlv 0x06 = Some [1] then verify_m2 (pe_evp env) ac tlv s
            else if tlv 0x06 = Some [3] then verify_m4 (pe_evp env) ac tlv s else None)) = Some (entries, s')"
    and small: "sum_list (map (length \<circ> snd) entries) \<le> 21845"
  shows "pairing_exchange env path cseq body hkp s = (Some (decode_tlv8 (encode_tlv8 entries)), s')"
proof (rule exchange_with_accessory [OF _ _ path _ small_answer_sum [OF small]])
  show "pe_peer env = accessory_peer (pe_evp env) (pe_libcrypto env) ac chunked" "delivers (chunked bs) bs" for bs
    using w by (simp_all add: pairing_world_def)
  have b: "request_body (encode_request ''POST'' path cseq body ''application/pairing+tlv8'' (pairing_headers (pe_now env) hkp)) = body"
    by (rule request_body_encoded [OF pairing_request_ok [OF path]])
  have "prefix (bytes_of ''POST /pair-setup '')
      (encode_request ''POST'' path cseq body ''application/pairing+tlv8'' (pairing_headers (pe_now env) hkp)) \<longleftrightarrow> path = ''/pair-setup''"
    using path request_prefix by auto
  then show "accessory_answer (pe_evp env) (pe_libcrypto env) ac (encode_request ''POST'' path cseq body
        ''application/pairing+tlv8'' (pairing_headers (pe_now env) hkp)) s = (entries, s')"
    using answer unfolding accessory_answer_def b Let_def body [symmetric] by (simp only: option.case)
qed

lemma length_controller_id_from: "length (controller_id_from i bs) = 2 * length bs + card ({4, 6, 8, 10} \<inter> {i..<i + length bs})"
proof (induction i bs rule: controller_id_from.induct)
  case (2 i b bs)
  have "{i..<i + length (b # bs)} = insert i {Suc i..<Suc i + length bs}" by auto
  with 2 show ?case by (auto simp: Int_insert_right)
qed simp

lemma length_random_controller_id:
  assumes "random_controller_id (Some bs) = Some ident" "length bs = 16"
  shows "length ident = 36"
proof -
  have "{4, 6, 8, 10::nat} \<inter> {0..<16} = {4, 6, 8, 10}" by auto
  then show ?thesis using assms by (auto simp: random_controller_id_def length_controller_id_from)
qed

lemma m1_answer:
  assumes "pairing_world env ac chunked"
  shows "pairing_exchange env ''/pair-setup'' cseq setup_m1 hkp s =
    (Some (decode_tlv8 (encode_tlv8 (setup_m2 (pe_libcrypto env) ac))), s)"
proof (rule exchange_in_world [OF assms])
  show "setup_m1 = encode_tlv8 [(0x06, [1]), (0x00, [0])]" by (rule setup_m1_def)
  have "length (padded (server_public (pe_libcrypto env) (ac_salt ac) (ac_private ac))) = kGroupBytes"
    by (rule padded_below_prime [OF server_public_less])
  then show "sum_list (map (length \<circ> snd) (setup_m2 (pe_libcrypto env) ac)) \<le> 21845"
    using assms by (simp add: setup_m2_def pairing_world_def accessory_fits_def kGroupBytes_def)
qed (simp_all add: decode_encode_tlv8 tlv8_spec_def Let_def)

lemma m3_answer:
  assumes w: "pairing_world env ac chunked"
    and A: "length A = kGroupBytes" and p: "p = proof_of (pe_libcrypto env) (ac_salt ac) A
      (padded (server_public (pe_libcrypto env) (ac_salt ac) (ac_private ac))) K"
    and K: "K = server_session (pe_libcrypto env) (ac_salt ac) (ac_private ac) A"
  shows "pairing_exchange env ''/pair-setup'' cseq (encode_tlv8 [(0x06, [3]), (0x03, A), (0x04, p)]) hkp s =
    (Some (decode_tlv8 (encode_tlv8 [(0x06, [4]), (0x04, sha512 (pe_libcrypto env) [A, p, K])])), s\<lparr>as_session := K\<rparr>)"
proof (rule exchange_in_world [OF w])
  have lc: "libcrypto_ok (pe_libcrypto env)" using w by (simp add: pairing_world_def)
  have "length p = 64" by (simp add: p proof_of_def Let_def sha512_length [OF lc])
  then have "p \<noteq> []" "A \<noteq> []" using A by (auto simp: kGroupBytes_def)
  then show "(let tlv = decode_tlv8 (encode_tlv8 [(0x06, [3]), (0x03, A), (0x04, p)]) in
      if ''/pair-setup'' = ''/pair-setup''
      then (if tlv 0x06 = Some [1] then Some (setup_m2 (pe_libcrypto env) ac, s)
            else if tlv 0x06 = Some [3] then setup_m4 (pe_libcrypto env) ac tlv s
            else if tlv 0x06 = Some [5] then setup_m6_answer (pe_evp env) ac tlv s else None)
      else (if tlv 0x06 = Some [1] then verify_m2 (pe_evp env) ac tlv s
            else if tlv 0x06 = Some [3] then verify_m4 (pe_evp env) ac tlv s else None)) =
      Some ([(0x06, [4]), (0x04, sha512 (pe_libcrypto env) [A, p, K])], s\<lparr>as_session := K\<rparr>)"
    by (simp add: Let_def decode_encode_tlv8 tlv8_spec_def setup_m4_def p [symmetric] K [symmetric])
  show "sum_list (map (length \<circ> snd) [(0x06, [4]), (0x04, sha512 (pe_libcrypto env) [A, p, K])]) \<le> 21845"
    by (simp add: sha512_length [OF lc])
qed simp_all

lemma m5_created:
  assumes w: "pairing_world env ac chunked" and k: "pe_ed25519 env = Some k" "signing_pair (pe_evp env) k"
    and ident: "random_controller_id (pe_controller_random env) = Some ident"
  obtains e signature where "setup_m5 env K = Some (ident, k, encode_tlv8 [(0x06, [5]), (0x05, e)])"
    "open_label (pe_evp env) (setup_key (pe_evp env) K) ''PS-Msg05'' e =
       Some (encode_tlv8 [(0x01, bytes_of ident), (0x03, public_key k), (0x0a, signature)])"
    "length signature = 64" "e \<noteq> []"
    "ed25519_verify (pe_evp env) (public_key k)
      (controller_sign_key (pe_evp env) K @ bytes_of ident @ public_key k) signature"
proof -
  have hkdf: "length (setup_key (pe_evp env) K) = 32" "length (controller_sign_key (pe_evp env) K) = 32"
    using w hkdf_length by (simp_all add: pairing_world_def setup_key_def controller_sign_key_def)
  obtain signature where s: "ed25519_sign (pe_evp env) (private_key k)
      (controller_sign_key (pe_evp env) K @ bytes_of ident @ public_key k) = Some signature" "length signature = 64"
    "ed25519_verify (pe_evp env) (public_key k)
      (controller_sign_key (pe_evp env) K @ bytes_of ident @ public_key k) signature"
    by (rule signature_of [OF k(2)])
  let ?inner = "encode_tlv8 [(0x01, bytes_of ident), (0x03, public_key k), (0x0a, signature)]"
  have aead: "aead_correct (pe_evp env)" using w by (simp add: pairing_world_def)
  obtain e where e: "seal (pe_evp env) (setup_key (pe_evp env) K) ''PS-Msg05'' ?inner = Some e"
    "length e = length ?inner + 16"
    "open_label (pe_evp env) (setup_key (pe_evp env) K) ''PS-Msg05'' e = Some ?inner"
    by (rule seal_open [OF aead hkdf(1), of "''PS-Msg05''" ?inner]) simp_all
  have "setup_m5 env K = Some (ident, k, encode_tlv8 [(0x06, [5]), (0x05, e)])"
    by (simp add: setup_m5_def Let_def k(1) ident hkdf s(1) e(1))
  moreover have "e \<noteq> []" using e(2) by auto
  ultimately show thesis using e(3) s(2,3) by (intro that)
qed

lemma m6_accepted:
  assumes w: "pairing_world env ac chunked" and K: "as_session s = K"
    and ident: "ident \<noteq> []" and key: "key \<noteq> []" and signature: "length signature = 64"
    and e: "open_label (pe_evp env) (setup_key (pe_evp env) K) ''PS-Msg05'' e =
       Some (encode_tlv8 [(0x01, bytes_of ident), (0x03, key), (0x0a, signature)])" "e \<noteq> []"
    and verified: "ed25519_verify (pe_evp env) key (controller_sign_key (pe_evp env) K @ bytes_of ident @ key) signature"
  obtains m6 where
    "pairing_exchange env ''/pair-setup'' cseq (encode_tlv8 [(0x06, [5]), (0x05, e)]) hkp s =
      (Some m6, s\<lparr>as_controllers := (as_controllers s)(bytes_of ident \<mapsto> key)\<rparr>)"
    "\<forall>k. setup_m6 env K ident k m6 =
      Some \<lparr>controller_id = ident, controller = k, accessory_public_key = public_key (ac_key ac)\<rparr>"
proof -
  let ?evp = "pe_evp env" and ?ltpk = "public_key (ac_key ac)"
  have pair: "signing_pair ?evp (ac_key ac)" and fits: "accessory_fits ac" and aead: "aead_correct ?evp"
    using w by (simp_all add: pairing_world_def)
  have hkdf: "length (setup_key ?evp K) = 32" "length (accessory_sign_key ?evp K) = 32"
    using w hkdf_length by (simp_all add: pairing_world_def setup_key_def accessory_sign_key_def)
  obtain own where own: "ed25519_sign ?evp (private_key (ac_key ac)) (accessory_sign_key ?evp K @ ac_id ac @ ?ltpk) = Some own"
    "length own = 64" "ed25519_verify ?evp ?ltpk (accessory_sign_key ?evp K @ ac_id ac @ ?ltpk) own"
    by (rule signature_of [OF pair])
  let ?inner = "encode_tlv8 [(0x01, ac_id ac), (0x03, ?ltpk), (0x0a, own)]"
  obtain sealed where sealed: "seal ?evp (setup_key ?evp K) ''PS-Msg06'' ?inner = Some sealed"
    "length sealed = length ?inner + 16" "open_label ?evp (setup_key ?evp K) ''PS-Msg06'' sealed = Some ?inner"
    by (rule seal_open [OF aead hkdf(1), of "''PS-Msg06''" ?inner]) simp_all
  have ltpk: "length ?ltpk = 32" using pair by (simp add: signing_pair_def)
  have nonempty: "ac_id ac \<noteq> []" "?ltpk \<noteq> []" "own \<noteq> []" "sealed \<noteq> []" "signature \<noteq> []"
    using fits ltpk own(2) sealed(2) signature by (auto simp: accessory_fits_def)
  have "length ?inner \<le> 3 * 1120"
    using length_encode_tlv8 [of "[(0x01, ac_id ac), (0x03, ?ltpk), (0x0a, own)]"] fits ltpk own(2)
    by (simp add: accessory_fits_def)
  then have small: "sum_list (map (length \<circ> snd) [(0x06::byte, [6]), (0x05, sealed)]) \<le> 21845"
    using sealed(2) by simp
  have "pairing_exchange env ''/pair-setup'' cseq (encode_tlv8 [(0x06, [5]), (0x05, e)]) hkp s =
      (Some (decode_tlv8 (encode_tlv8 [(0x06, [6]), (0x05, sealed)])),
       s\<lparr>as_controllers := (as_controllers s)(bytes_of ident \<mapsto> key)\<rparr>)"
    by (rule exchange_in_world [OF w _ refl _ small])
       (use e ident key nonempty verified own(1) sealed(1) K in
        \<open>simp_all add: Let_def decode_encode_tlv8 tlv8_spec_def setup_m6_answer_def\<close>)
  moreover have "setup_m6 env K ident k (decode_tlv8 (encode_tlv8 [(0x06, [6]), (0x05, sealed)])) =
      Some \<lparr>controller_id = ident, controller = k, accessory_public_key = ?ltpk\<rparr>" for k
    using nonempty sealed(3) own(3) hkdf by (simp add: setup_m6_def Let_def decode_encode_tlv8 tlv8_spec_def)
  ultimately show thesis by (intro that allI)
qed

text \<open>What the controller brings, and the two coincidences SRP excludes.\<close>

definition setup_possible :: "accessory_state pairing_env \<Rightarrow> accessory \<Rightarrow> ed25519 \<Rightarrow> string \<Rightarrow> bool" where
  "setup_possible env ac k ident \<longleftrightarrow>
     pe_ed25519 env = Some k \<and> signing_pair (pe_evp env) k \<and>
     (\<exists>bs. pe_controller_random env = Some bs \<and> length bs = 16 \<and> random_controller_id (Some bs) = Some ident) \<and>
     (\<exists>random. pe_srp_random env = Some random \<and> length random = 32 \<and>
        server_public (pe_libcrypto env) (ac_salt ac) (ac_private ac) \<noteq> 0 \<and>
        scramble (pe_libcrypto env) (padded (5 ^ bn_from random mod prime))
          (padded (server_public (pe_libcrypto env) (ac_salt ac) (ac_private ac))) \<noteq> 0)"

lemma setup_completes:
  assumes w: "pairing_world env ac chunked" and possible: "setup_possible env ac k ident"
  obtains K where "\<forall>store files. pair_setup env store files s =
    (case store_pairing env store \<lparr>controller_id = ident, controller = k, accessory_public_key = public_key (ac_key ac)\<rparr> files of
       (stored, files) \<Rightarrow> (stored, files,
          s\<lparr>as_session := K, as_controllers := (as_controllers s)(bytes_of ident \<mapsto> public_key k)\<rparr>))"
proof -
  let ?lc = "pe_libcrypto env" and ?evp = "pe_evp env"
  let ?B = "padded (server_public ?lc (ac_salt ac) (ac_private ac))"
  obtain random where random: "pe_srp_random env = Some random" "length random = 32"
      "server_public ?lc (ac_salt ac) (ac_private ac) \<noteq> 0"
      "scramble ?lc (padded (5 ^ bn_from random mod prime)) ?B \<noteq> 0"
    and k: "pe_ed25519 env = Some k" "signing_pair ?evp k"
    and ident: "random_controller_id (pe_controller_random env) = Some ident" "length ident = 36"
    using possible length_random_controller_id by (auto simp: setup_possible_def)
  then have nonempty: "ident \<noteq> []" by auto
  let ?A = "padded (5 ^ bn_from random mod prime)"
  let ?K = "server_session ?lc (ac_salt ac) (ac_private ac) ?A"
  have lc: "libcrypto_ok ?lc" and salt: "ac_salt ac \<noteq> []" using w by (simp_all add: pairing_world_def accessory_fits_def)
  obtain ok srp where run: "process_challenge ?lc (Some random) (ac_salt ac) ?B new_srp_client = (ok, srp)" by fastforce
  have srp: "ok" "srp_public_key srp = ?A" "srp_session_key srp = ?K" "srp_client_proof srp = proof_of ?lc (ac_salt ac) ?A ?B ?K"
    "verify_server ?lc (sha512 ?lc [?A, srp_client_proof srp, ?K]) srp"
    using srp_agrees [OF lc random(2) salt refl refl run] random(3,4) by simp_all
  have A: "length ?A = kGroupBytes" and B: "length ?B = kGroupBytes"
    using padded_below_prime(2) [of "5 ^ bn_from random mod prime"] padded_below_prime(2) [OF server_public_less] prime_pos
    by simp_all
  have m3: "setup_m3 env (decode_tlv8 (encode_tlv8 (setup_m2 ?lc ac))) =
      Some (srp, encode_tlv8 [(0x06, [3]), (0x03, ?A), (0x04, srp_client_proof srp)])"
    using salt B run srp(1,2) random(1)
    by (auto simp: setup_m3_def setup_m2_def decode_encode_tlv8 tlv8_spec_def kGroupBytes_def)
  have "sha512 ?lc [?A, srp_client_proof srp, ?K] \<noteq> []"
    using sha512_length [OF lc] by (metis list.size(3) zero_neq_numeral)
  then have m4: "setup_m4_ok env srp (decode_tlv8 (encode_tlv8 [(0x06, [4]), (0x04, sha512 ?lc [?A, srp_client_proof srp, ?K])]))"
    using srp(5) by (simp add: setup_m4_ok_def decode_encode_tlv8 tlv8_spec_def)
  obtain e signature where m5: "setup_m5 env ?K = Some (ident, k, encode_tlv8 [(0x06, [5]), (0x05, e)])"
    and e: "open_label ?evp (setup_key ?evp ?K) ''PS-Msg05'' e =
       Some (encode_tlv8 [(0x01, bytes_of ident), (0x03, public_key k), (0x0a, signature)])" "e \<noteq> []"
    and signature: "length signature = 64" "ed25519_verify ?evp (public_key k)
      (controller_sign_key ?evp ?K @ bytes_of ident @ public_key k) signature"
    by (rule m5_created [OF w k ident(1), of ?K])
  have key: "public_key k \<noteq> []" using k(2) by (auto simp: signing_pair_def)
  let ?s = "s\<lparr>as_session := ?K\<rparr>"
  have session: "as_session ?s = ?K" by simp
  obtain m6 where m6: "pairing_exchange env ''/pair-setup'' 3 (encode_tlv8 [(0x06, [5]), (0x05, e)]) 0 ?s =
      (Some m6, ?s\<lparr>as_controllers := (as_controllers ?s)(bytes_of ident \<mapsto> public_key k)\<rparr>)"
    "\<forall>k. setup_m6 env ?K ident k m6 =
      Some \<lparr>controller_id = ident, controller = k, accessory_public_key = public_key (ac_key ac)\<rparr>"
    by (rule m6_accepted [OF w session nonempty key signature(1) e signature(2), of 3 0])
  show thesis
  proof (rule that, intro allI)
    fix store files
    show "pair_setup env store files s = (case store_pairing env store
        \<lparr>controller_id = ident, controller = k, accessory_public_key = public_key (ac_key ac)\<rparr> files of
       (stored, files) \<Rightarrow> (stored, files,
          s\<lparr>as_session := ?K, as_controllers := (as_controllers s)(bytes_of ident \<mapsto> public_key k)\<rparr>))"
      using m3_answer [OF w A srp(4) refl, of 2 0 s] m4
      by (simp add: pair_setup_def m1_answer [OF w] m3 srp(3) m5 m6)
  qed
qed

section \<open>Pair-Verify completes\<close>

lemma verify_completes:
  assumes w: "pairing_world env ac chunked" and x: "pe_x25519 env = Some x" "exchange_pair (pe_evp env) x (ac_ephemeral ac) shared"
    and k: "signing_pair (pe_evp env) (controller pairing)" and ident: "controller_id pairing \<noteq> []" "length (controller_id pairing) \<le> 1024"
    and accessory: "accessory_public_key pairing = public_key (ac_key ac)"
    and registered: "as_controllers s (bytes_of (controller_id pairing)) = Some (public_key (controller pairing))"
  shows "pair_verify env pairing s =
    (Some (control_write_key (pe_evp env) shared, control_read_key (pe_evp env) shared, shared),
     s\<lparr>as_peer := x_public_key x, as_shared := shared, as_verified := True\<rparr>)"
proof -
  let ?evp = "pe_evp env" and ?y = "ac_ephemeral ac" and ?ltk = "ac_key ac"
  have pair: "signing_pair ?evp ?ltk" and fits: "accessory_fits ac" and aead: "aead_correct ?evp"
    using w by (simp_all add: pairing_world_def)
  have hkdf: "length (verify_key_of ?evp shared) = 32" "length (control_write_key ?evp shared) = 32"
    "length (control_read_key ?evp shared) = 32"
    using w hkdf_length by (simp_all add: pairing_world_def verify_key_of_def control_write_key_def control_read_key_def)
  have shared: "x25519_shared ?evp (x_private_key x) (x_public_key ?y) = Some shared"
    "x25519_shared ?evp (x_private_key ?y) (x_public_key x) = Some shared"
    and eph: "x_public_key x \<noteq> []" "x_public_key ?y \<noteq> []" "length (x_public_key x) = 32" "length (x_public_key ?y) = 32"
    using x(2) by (auto simp: exchange_pair_def x25519_shared_def)
  obtain own where own: "ed25519_sign ?evp (private_key ?ltk) (x_public_key ?y @ ac_id ac @ x_public_key x) = Some own"
    "length own = 64" "ed25519_verify ?evp (public_key ?ltk) (x_public_key ?y @ ac_id ac @ x_public_key x) own"
    by (rule signature_of [OF pair])
  let ?identity = "encode_tlv8 [(0x01, ac_id ac), (0x0a, own)]"
  obtain e where e: "seal ?evp (verify_key_of ?evp shared) ''PV-Msg02'' ?identity = Some e" "length e = length ?identity + 16"
    "open_label ?evp (verify_key_of ?evp shared) ''PV-Msg02'' e = Some ?identity"
    by (rule seal_open [OF aead hkdf(1), of "''PV-Msg02''" ?identity]) simp_all
  have "length ?identity \<le> 3 * 1088"
    using length_encode_tlv8 [of "[(0x01, ac_id ac), (0x0a, own)]"] fits own(2) by (simp add: accessory_fits_def)
  then have small: "sum_list (map (length \<circ> snd) [(0x06::byte, [2]), (0x03, x_public_key ?y), (0x05, e)]) \<le> 21845"
    using e(2) eph by simp
  let ?s = "s\<lparr>as_peer := x_public_key x, as_shared := shared\<rparr>"
  have m2: "pairing_exchange env ''/pair-verify'' 4 (verify_m1 x) 2 s =
      (Some (decode_tlv8 (encode_tlv8 [(0x06, [2]), (0x03, x_public_key ?y), (0x05, e)])), ?s)"
    by (rule exchange_in_world [OF w _ verify_m1_def _ small])
       (use shared(2) eph own(1) e(1) in \<open>simp_all add: Let_def decode_encode_tlv8 tlv8_spec_def verify_m2_def\<close>)
  obtain signature where signature: "ed25519_sign ?evp (private_key (controller pairing))
      (x_public_key x @ bytes_of (controller_id pairing) @ x_public_key ?y) = Some signature" "length signature = 64"
    "ed25519_verify ?evp (public_key (controller pairing))
      (x_public_key x @ bytes_of (controller_id pairing) @ x_public_key ?y) signature"
    by (rule signature_of [OF k])
  let ?inner = "encode_tlv8 [(0x01, bytes_of (controller_id pairing)), (0x0a, signature)]"
  obtain f where f: "seal ?evp (verify_key_of ?evp shared) ''PV-Msg03'' ?inner = Some f" "length f = length ?inner + 16"
    "open_label ?evp (verify_key_of ?evp shared) ''PV-Msg03'' f = Some ?inner"
    by (rule seal_open [OF aead hkdf(1), of "''PV-Msg03''" ?inner]) simp_all
  have nonempty: "ac_id ac \<noteq> []" "own \<noteq> []" "e \<noteq> []" "f \<noteq> []" "signature \<noteq> []"
    using fits own(2) e(2) f(2) signature(2) by (auto simp: accessory_fits_def)
  have m3: "verify_m3 ?evp pairing x (decode_tlv8 (encode_tlv8 [(0x06, [2]), (0x03, x_public_key ?y), (0x05, e)])) =
      Some (shared, encode_tlv8 [(0x06, [3]), (0x05, f)])"
    using nonempty eph e(3) own(3) shared(1) hkdf(1) signature(1) f(1) accessory
    by (simp add: verify_m3_def Let_def decode_encode_tlv8 tlv8_spec_def)
  have m4: "pairing_exchange env ''/pair-verify'' 5 (encode_tlv8 [(0x06, [3]), (0x05, f)]) 2 ?s =
      (Some (decode_tlv8 (encode_tlv8 [(0x06, [4])])), ?s\<lparr>as_verified := True\<rparr>)"
    by (rule exchange_in_world [OF w _ refl])
       (use nonempty f(3) signature(3) ident registered in
        \<open>simp_all add: Let_def decode_encode_tlv8 tlv8_spec_def verify_m4_def\<close>)
  show ?thesis
    by (simp add: pair_verify_def Let_def x(1) m2 m3 m4 hkdf decode_encode_tlv8 tlv8_spec_def)
qed

lemma run_pairing_completes:
  assumes w: "pairing_world env ac chunked" and possible: "setup_possible env ac k ident"
    and x: "pe_x25519 env = Some x" "exchange_pair (pe_evp env) x (ac_ephemeral ac) shared"
    and store: "stored_pairing store files = no_pairing" "store_pairing env store
        \<lparr>controller_id = ident, controller = k, accessory_public_key = public_key (ac_key ac)\<rparr> files = (Some pairing, files')"
    and kept: "store \<noteq> []" "files (snd (store_mkstemp (pe_store_os env))) = None"
      "snd (store_mkstemp (pe_store_os env)) \<noteq> store"
    and later: "pairing_world env' ac' chunked'" "pe_evp env' = pe_evp env" "ac_key ac' = ac_key ac"
      "pe_x25519 env' = Some x'" "exchange_pair (pe_evp env') x' (ac_ephemeral ac') shared'"
    and run: "run_pairing env store files s = (result, files'', s')"
  shows "result = Some (pairing, control_write_key (pe_evp env) shared, control_read_key (pe_evp env) shared, shared) \<and>
    as_shared s' = shared \<and> as_verified s' \<and> files'' = files' \<and>
    (\<exists>s''. run_pairing env' store files'' s' =
      (Some (pairing, control_write_key (pe_evp env) shared', control_read_key (pe_evp env) shared', shared'), files'', s'')
      \<and> as_shared s'' = shared')"
proof -
  have pairing: "pairing = \<lparr>controller_id = ident, controller = k, accessory_public_key = public_key (ac_key ac)\<rparr>"
    using store(2) by (auto simp: store_pairing_def split: if_splits prod.splits)
  have k: "signing_pair (pe_evp env) k" and "length ident = 36"
    using possible length_random_controller_id by (auto simp: setup_possible_def)
  then have ident: "ident \<noteq> []" "length ident = 36" by auto
  let ?s0 = "\<lambda>K. s\<lparr>as_session := K, as_controllers := (as_controllers s)(bytes_of ident \<mapsto> public_key k)\<rparr>"
  obtain K where "\<forall>store files. pair_setup env store files s = (case store_pairing env store
        \<lparr>controller_id = ident, controller = k, accessory_public_key = public_key (ac_key ac)\<rparr> files of
       (stored, files) \<Rightarrow> (stored, files, ?s0 K))"
    by (rule setup_completes [OF w possible, of s])
  then have paired: "pair_setup env store files s = (Some pairing, files', ?s0 K)"
    by (simp only: store(2) prod.case)
  let ?s1 = "?s0 K\<lparr>as_peer := x_public_key x, as_shared := shared, as_verified := True\<rparr>"
  have verify: "pair_verify env pairing (?s0 K) =
      (Some (control_write_key (pe_evp env) shared, control_read_key (pe_evp env) shared, shared), ?s1)"
    using k ident by (intro verify_completes [OF w x]) (simp_all add: pairing)
  have first: "run_pairing env store files s =
      (Some (pairing, control_write_key (pe_evp env) shared, control_read_key (pe_evp env) shared, shared), files', ?s1)"
    by (simp only: run_pairing_def Let_def store(1) paired verify no_pairing_def pairing_record.simps ed25519.simps
        if_True refl prod.case option.case)
  let ?s2 = "?s1\<lparr>as_peer := x_public_key x', as_shared := shared', as_verified := True\<rparr>"
  have verify': "pair_verify env' pairing ?s1 =
      (Some (control_write_key (pe_evp env') shared', control_read_key (pe_evp env') shared', shared'), ?s2)"
    using k ident later(2,3) by (intro verify_completes [OF later(1,4,5)]) (simp_all add: pairing)
  have saved: "save_pairing_record (pe_store_os env) store pairing files = (True, files')"
    using store(2) kept(1) by (auto simp: store_pairing_def pairing split: if_splits prod.splits)
  have "load_pairing_record files' store = Some pairing"
    using pairing_store_atomic [OF saved kept(2,3)] by blast
  then have "stored_pairing store files' = pairing"
    using kept(1) by (simp add: stored_pairing_def)
  moreover have "private_key (controller pairing) \<noteq> []" using k by (auto simp: pairing signing_pair_def)
  ultimately have second: "run_pairing env' store files' ?s1 =
      (Some (pairing, control_write_key (pe_evp env') shared', control_read_key (pe_evp env') shared', shared'), files', ?s2)"
    by (simp only: run_pairing_def Let_def verify' if_False prod.case option.case)
  have r: "result = Some (pairing, control_write_key (pe_evp env) shared, control_read_key (pe_evp env) shared, shared)"
    "files'' = files'" "s' = ?s1"
    using run unfolding first by simp_all
  show ?thesis unfolding r second later(2) by simp
qed

text \<open>A bridge and a head unit that pair.\<close>

definition example_accessory :: accessory where
  "example_accessory = \<lparr>ac_salt = [1], ac_private = 0, ac_id = [1],
     ac_key = \<lparr>private_key = replicate 32 1, public_key = replicate 32 2\<rparr>,
     ac_ephemeral = \<lparr>x_private_key = replicate 32 3, x_public_key = replicate 32 4\<rparr>\<rparr>"

definition example_controller :: ed25519 where
  "example_controller = \<lparr>private_key = replicate 32 5, public_key = replicate 32 6\<rparr>"

definition example_ephemeral :: x25519 where
  "example_ephemeral = \<lparr>x_private_key = replicate 32 7, x_public_key = replicate 32 8\<rparr>"

definition example_env :: "accessory_state pairing_env" where
  "example_env = \<lparr>pe_evp = example_evp, pe_libcrypto = example_libcrypto, pe_srp_random = Some (replicate 32 0),
     pe_ed25519 = Some example_controller, pe_controller_random = Some (replicate 16 0),
     pe_x25519 = Some example_ephemeral, pe_now = 0,
     pe_store_os = \<lparr>store_directories = True, store_mkstemp = (True, ''t''), store_fchmod = True,
       store_writes = [(8, False), (2, False), (36, False), (32, False), (32, False), (32, False)],
       store_fsync = True, store_rename = True\<rparr>,
     pe_peer = accessory_peer example_evp example_libcrypto example_accessory (\<lambda>bs. [RxIdle, RxChunk bs])\<rparr>"

lemma example_signing: "length (private_key k) = 32 \<Longrightarrow> length (public_key k) = 32 \<Longrightarrow> signing_pair example_evp k"
  by (simp add: signing_pair_def example_evp_def)

lemma example_world: "pairing_world example_env example_accessory (\<lambda>bs. [RxIdle, RxChunk bs])"
  using example_signing [of "ac_key example_accessory"] example_evp_correct
  by (simp add: pairing_world_def example_env_def delivers_def accessory_fits_def example_accessory_def hkdf_ok_def
      example_evp_def libcrypto_ok_def example_libcrypto_def)

lemma example_exchange: "exchange_pair example_evp example_ephemeral (ac_ephemeral example_accessory) (replicate 32 1)"
  by (simp add: exchange_pair_def example_evp_def example_ephemeral_def example_accessory_def list_all_iff)

lemma example_server_public: "server_public example_libcrypto [1] 0 = 6"
proof -
  have "6 < prime" using prime_bounds(1) by (rule order.strict_trans [rotated]) simp
  then show ?thesis
    by (simp add: server_public_def server_verifier_def multiplier_of_def private_value_def example_hash)
qed

lemma example_possible:
  obtains ident where "setup_possible example_env example_accessory example_controller ident" "length ident = 36"
proof -
  obtain ident where ident: "random_controller_id (Some (replicate 16 0)) = Some ident"
    by (simp add: random_controller_id_def)
  have l: "length ident = 36" by (rule length_random_controller_id [OF ident]) simp
  from ident have "setup_possible example_env example_accessory example_controller ident"
    by (simp add: setup_possible_def example_env_def example_accessory_def example_server_public scramble_def example_hash
        example_signing example_controller_def)
  with l show thesis by (intro that)
qed

lemma example_run:
  "\<exists>pairing w r. fst (run_pairing example_env ''p'' Map.empty
     \<lparr>as_session = [], as_controllers = Map.empty, as_peer = [], as_shared = [], as_verified = False\<rparr>) =
     Some (pairing, w, r, replicate 32 1) \<and> controller pairing = example_controller"
proof -
  let ?s = "\<lparr>as_session = [], as_controllers = Map.empty, as_peer = [], as_shared = [], as_verified = False\<rparr>"
  obtain ident where ident: "setup_possible example_env example_accessory example_controller ident" "length ident = 36"
    by (rule example_possible)
  let ?p = "\<lparr>controller_id = ident, controller = example_controller,
    accessory_public_key = public_key (ac_key example_accessory)\<rparr>"
  have "ident \<noteq> []" using ident(2) by auto
  then have "fst (save_pairing_record (pe_store_os example_env) ''p'' ?p Map.empty)"
    using ident(2)
    by (simp add: save_pairing_record_def example_env_def example_controller_def example_accessory_def record_pieces_def
        kPairingMagic_def write_out_once)
  then obtain files' where saved: "store_pairing example_env ''p'' ?p Map.empty = (Some ?p, files')"
    by (cases "save_pairing_record (pe_store_os example_env) ''p'' ?p Map.empty") (simp add: store_pairing_def)
  obtain result files'' s' where run: "run_pairing example_env ''p'' Map.empty ?s = (result, files'', s')"
    by (metis prod_cases3)
  have none: "stored_pairing ''p'' Map.empty = no_pairing" by (simp add: stored_pairing_def load_pairing_record_def)
  have x: "pe_x25519 example_env = Some example_ephemeral"
    "exchange_pair (pe_evp example_env) example_ephemeral (ac_ephemeral example_accessory) (replicate 32 1)"
    using example_exchange by (simp_all add: example_env_def)
  have kept: "Map.empty (snd (store_mkstemp (pe_store_os example_env))) = None"
    "snd (store_mkstemp (pe_store_os example_env)) \<noteq> ''p''" "''p'' \<noteq> []"
    by (simp_all add: example_env_def)
  show ?thesis
    using run_pairing_completes [OF example_world ident(1) x none saved kept(3,1,2) example_world refl refl x run]
    by (simp add: run)
qed

section \<open>Only a head unit that signed\<close>

lemma bind_SomeD: "Option.bind x f = Some y \<Longrightarrow> \<exists>z. x = Some z \<and> f z = Some y"
  by (cases x) auto

lemma verify_m3_signed:
  assumes "verify_m3 evp pairing x m2 = Some (shared, m3)"
  obtains peer ident signature where "x25519_shared evp (x_private_key x) peer = Some shared"
    "ed25519_verify evp (accessory_public_key pairing) (peer @ ident @ x_public_key x) signature"
  using assms by (auto simp: verify_m3_def Let_def dest!: bind_SomeD split: if_splits)

lemma setup_m6_signed:
  assumes "setup_m6 env K ident k m6 = Some pairing"
  obtains accessory_id signature where "controller pairing = k" "controller_id pairing = ident"
    "ed25519_verify (pe_evp env) (accessory_public_key pairing)
      (accessory_sign_key (pe_evp env) K @ accessory_id @ accessory_public_key pairing) signature"
  using assms by (auto simp: setup_m6_def Let_def dest!: bind_SomeD split: if_splits)

lemma pair_setup_checked:
  assumes "pair_setup env store files n = (Some pairing, files', n')"
  obtains salt server_key srp server_proof accessory_id signature where
    "process_challenge (pe_libcrypto env) (pe_srp_random env) salt server_key new_srp_client = (True, srp)"
    "verify_server (pe_libcrypto env) server_proof srp"
    "ed25519_verify (pe_evp env) (accessory_public_key pairing)
      (accessory_sign_key (pe_evp env) (srp_session_key srp) @ accessory_id @ accessory_public_key pairing) signature"
proof -
  from assms obtain m2 srp m3 m4 ident k m6 pairing' where s: "setup_m3 env m2 = Some (srp, m3)" "setup_m4_ok env srp m4"
    "setup_m6 env (srp_session_key srp) ident k m6 = Some pairing'" "store_pairing env store pairing' files = (Some pairing, files')"
    by (auto simp: pair_setup_def split: prod.splits option.splits if_splits)
  have p: "pairing' = pairing" using s(4) by (auto simp: store_pairing_def split: if_splits prod.splits)
  from s(1) obtain salt server_key where "process_challenge (pe_libcrypto env) (pe_srp_random env) salt server_key new_srp_client = (True, srp)"
    by (auto simp: setup_m3_def dest!: bind_SomeD split: if_splits prod.splits bool.splits)
  moreover from s(2) obtain server_proof where "verify_server (pe_libcrypto env) server_proof srp"
    by (auto simp: setup_m4_ok_def split: option.splits)
  moreover from s(3) obtain accessory_id signature where "ed25519_verify (pe_evp env) (accessory_public_key pairing)
      (accessory_sign_key (pe_evp env) (srp_session_key srp) @ accessory_id @ accessory_public_key pairing) signature"
    unfolding p by (rule setup_m6_signed)
  ultimately show thesis by (rule that)
qed

section \<open>Properties\<close>

text \<open>
  C7: Pairing completes.  With a head unit that follows the protocol, however TCP cuts its answers, an
  unpaired bridge pairs and gets the control keys that belong to the secret the head unit holds; the
  pairing is stored, and a later session with it, whatever ephemeral keys are drawn then, completes
  without Pair-Setup.
\<close>

theorem pairing_completes:
  assumes w: "pairing_world env ac chunked" and possible: "setup_possible env ac k ident"
    and x: "pe_x25519 env = Some x" "exchange_pair (pe_evp env) x (ac_ephemeral ac) shared"
    and store: "stored_pairing store files = no_pairing" "store_pairing env store
        \<lparr>controller_id = ident, controller = k, accessory_public_key = public_key (ac_key ac)\<rparr> files = (Some pairing, files')"
    and kept: "store \<noteq> []" "files (snd (store_mkstemp (pe_store_os env))) = None"
      "snd (store_mkstemp (pe_store_os env)) \<noteq> store"
    and later: "pairing_world env' ac' chunked'" "pe_evp env' = pe_evp env" "ac_key ac' = ac_key ac"
      "pe_x25519 env' = Some x'" "exchange_pair (pe_evp env') x' (ac_ephemeral ac') shared'"
    and run: "run_pairing env store files s = (result, files'', s')"
  shows "result = Some (pairing, control_write_key (pe_evp env) shared, control_read_key (pe_evp env) shared, shared) \<and>
    as_shared s' = shared \<and> as_verified s' \<and> files'' = files' \<and>
    (\<exists>s''. run_pairing env' store files'' s' =
      (Some (pairing, control_write_key (pe_evp env) shared', control_read_key (pe_evp env) shared', shared'), files'', s'')
      \<and> as_shared s'' = shared')"
  using assms by (rule run_pairing_completes)

theorem pairing_completes_witness:
  "\<exists>pairing w r. fst (run_pairing example_env ''p'' Map.empty
     \<lparr>as_session = [], as_controllers = Map.empty, as_peer = [], as_shared = [], as_verified = False\<rparr>) =
     Some (pairing, w, r, replicate 32 1) \<and> controller pairing = example_controller"
proof -
  let ?s = "\<lparr>as_session = [], as_controllers = Map.empty, as_peer = [], as_shared = [], as_verified = False\<rparr>"
  obtain ident where ident: "setup_possible example_env example_accessory example_controller ident" "length ident = 36"
    by (rule example_possible)
  let ?p = "\<lparr>controller_id = ident, controller = example_controller,
    accessory_public_key = public_key (ac_key example_accessory)\<rparr>"
  have "ident \<noteq> []" using ident(2) by auto
  then have "fst (save_pairing_record (pe_store_os example_env) ''p'' ?p Map.empty)"
    using ident(2)
    by (simp add: save_pairing_record_def example_env_def example_controller_def example_accessory_def record_pieces_def
        kPairingMagic_def write_out_once)
  then obtain files' where saved: "store_pairing example_env ''p'' ?p Map.empty = (Some ?p, files')"
    by (cases "save_pairing_record (pe_store_os example_env) ''p'' ?p Map.empty") (simp add: store_pairing_def)
  obtain result files'' s' where run: "run_pairing example_env ''p'' Map.empty ?s = (result, files'', s')"
    by (metis prod_cases3)
  have none: "stored_pairing ''p'' Map.empty = no_pairing" by (simp add: stored_pairing_def load_pairing_record_def)
  have x: "pe_x25519 example_env = Some example_ephemeral"
    "exchange_pair (pe_evp example_env) example_ephemeral (ac_ephemeral example_accessory) (replicate 32 1)"
    using example_exchange by (simp_all add: example_env_def)
  have kept: "Map.empty (snd (store_mkstemp (pe_store_os example_env))) = None"
    "snd (store_mkstemp (pe_store_os example_env)) \<noteq> ''p''" "''p'' \<noteq> []"
    by (simp_all add: example_env_def)
  show ?thesis
    using pairing_completes [OF example_world ident(1) x none saved kept(3,1,2) example_world refl refl x run]
    by (simp add: run)
qed

lemma pair_verify_signed:
  assumes "pair_verify env pairing n = (Some (w, r, shared), n')" "pe_x25519 env = Some x"
  obtains peer ident signature where "x25519_shared (pe_evp env) (x_private_key x) peer = Some shared"
    "ed25519_verify (pe_evp env) (accessory_public_key pairing) (peer @ ident @ x_public_key x) signature"
    "w = control_write_key (pe_evp env) shared" "r = control_read_key (pe_evp env) shared"
proof -
  from assms obtain m2 m3 where "verify_m3 (pe_evp env) pairing x m2 = Some (shared, m3)"
    and keys: "w = control_write_key (pe_evp env) shared" "r = control_read_key (pe_evp env) shared"
    by (auto simp: pair_verify_def Let_def split: prod.splits option.splits if_splits)
  from this(1) show thesis by (rule verify_m3_signed) (rule that [OF _ _ keys])
qed

text \<open>
  C6: Whatever the head unit and the network do, control keys exist only if the holder of the pairing's
  long-term key signed this very exchange, the bridge's ephemeral key in it; the keys are derived from the
  secret shared with the ephemeral key that was signed.  The pairing is the stored one, or a new one: then
  the head unit has proved that it knows the SRP session key, and the long-term key is signed under it.
\<close>

theorem pairing_authenticated:
  assumes run: "run_pairing env store files n = (Some (pairing, w, r, shared), files', n')"
    and x: "pe_x25519 env = Some x"
    and unforgeable: "\<And>m signature. ed25519_verify (pe_evp env) (accessory_public_key pairing) m signature \<Longrightarrow> m \<in> attested"
  shows "\<exists>peer ident. peer @ ident @ x_public_key x \<in> attested \<and>
      x25519_shared (pe_evp env) (x_private_key x) peer = Some shared \<and>
      w = control_write_key (pe_evp env) shared \<and> r = control_read_key (pe_evp env) shared \<and>
      (pairing = stored_pairing store files \<or>
       (\<exists>salt server_key srp server_proof accessory_id.
          process_challenge (pe_libcrypto env) (pe_srp_random env) salt server_key new_srp_client = (True, srp) \<and>
          verify_server (pe_libcrypto env) server_proof srp \<and>
          accessory_sign_key (pe_evp env) (srp_session_key srp) @ accessory_id @ accessory_public_key pairing \<in> attested))"
proof -
  from run obtain n1 where verify: "pair_verify env pairing n1 = (Some (w, r, shared), n')"
    and origin: "pairing = stored_pairing store files \<or> pair_setup env store files n = (Some pairing, files', n1)"
    by (auto simp: run_pairing_def Let_def split: prod.splits option.splits if_splits)
  from verify x obtain peer ident signature where
    v: "x25519_shared (pe_evp env) (x_private_key x) peer = Some shared"
      "ed25519_verify (pe_evp env) (accessory_public_key pairing) (peer @ ident @ x_public_key x) signature"
      "w = control_write_key (pe_evp env) shared" "r = control_read_key (pe_evp env) shared"
    by (rule pair_verify_signed)
  have "pairing = stored_pairing store files \<or>
       (\<exists>salt server_key srp server_proof accessory_id.
          process_challenge (pe_libcrypto env) (pe_srp_random env) salt server_key new_srp_client = (True, srp) \<and>
          verify_server (pe_libcrypto env) server_proof srp \<and>
          accessory_sign_key (pe_evp env) (srp_session_key srp) @ accessory_id @ accessory_public_key pairing \<in> attested)"
    using origin
  proof
    assume "pair_setup env store files n = (Some pairing, files', n1)"
    then show ?thesis by (rule pair_setup_checked) (blast intro: unforgeable)
  qed simp
  with v unforgeable show ?thesis by blast
qed

text \<open>The example again, with a signature scheme that attests everything.\<close>

theorem pairing_authenticated_witness:
  "\<exists>w r peer ident. peer @ ident @ replicate 32 8 \<in> (UNIV :: bytes set) \<and>
     x25519_shared example_evp (replicate 32 7) peer = Some (replicate 32 1) \<and> w = control_write_key example_evp (replicate 32 1) \<and>
     (\<exists>pairing. fst (run_pairing example_env ''p'' Map.empty
       \<lparr>as_session = [], as_controllers = Map.empty, as_peer = [], as_shared = [], as_verified = False\<rparr>) =
       Some (pairing, w, r, replicate 32 1))"
proof -
  let ?s = "\<lparr>as_session = [], as_controllers = Map.empty, as_peer = [], as_shared = [], as_verified = False\<rparr>"
  obtain pairing w r files' s' where run: "run_pairing example_env ''p'' Map.empty ?s = (Some (pairing, w, r, replicate 32 1), files', s')"
    using example_run by (metis prod.collapse)
  have x: "pe_x25519 example_env = Some example_ephemeral" "pe_evp example_env = example_evp"
    "x_public_key example_ephemeral = replicate 32 8" "x_private_key example_ephemeral = replicate 32 7"
    by (simp_all add: example_env_def example_ephemeral_def)
  from pairing_authenticated [OF run x(1), of UNIV] show ?thesis
    unfolding x(2-4) using run by (metis UNIV_I fst_conv)
qed

end
