(* ===== verification/Bridge_Config.thy ===== *)
theory Bridge_Config
  imports Text_Prelude
begin

text \<open>
  The configuration of the bridge (\<open>src/src/bridge/config.cpp\<close>): its validation, the file format,
  loading, and saving through a temporary file.  The file system is a map from paths to
  contents; what the system calls of one save answer is the record \<open>save_os\<close>.
\<close>

section \<open>Data\<close>

record config =
  head_unit_mac :: string
  wifi_interface :: string
  management_hotspot_ssid :: string
  management_hotspot_passphrase :: string
  airplay_pairing_store :: string

definition empty_config :: config where
  "empty_config = \<lparr>head_unit_mac = [], wifi_interface = [], management_hotspot_ssid = [],
     management_hotspot_passphrase = [], airplay_pairing_store = []\<rparr>"

definition kMagic :: string where
  "kMagic = ''AA2ACP-1''"

definition valid_key :: "string \<Rightarrow> bool" where
  "valid_key key =
     (key = ''head_unit_mac'' \<or> key = ''wifi_interface'' \<or> key = ''management_hotspot_ssid'' \<or>
      key = ''management_hotspot_passphrase'' \<or> key = ''airplay_pairing_store'')"

definition valid_serialized_value :: "string \<Rightarrow> bool" where
  "valid_serialized_value v =
     (list_all (\<lambda>c. c \<notin> {CHR 0x0D, CHR 0x0A, CHR ''=''}) v \<and> CHR 0x00 \<notin> set v)"

definition validate_config :: "config \<Rightarrow> bool \<Rightarrow> bool" where
  "validate_config c allow_legacy_hotspot =
     (if wifi_interface c = [] \<or> \<not> valid_serialized_value (head_unit_mac c) \<or>
         \<not> valid_serialized_value (wifi_interface c) \<or>
         \<not> valid_serialized_value (management_hotspot_ssid c) \<or>
         \<not> valid_serialized_value (management_hotspot_passphrase c) \<or>
         \<not> valid_serialized_value (airplay_pairing_store c) then False
      else if management_hotspot_ssid c = [] \<and> management_hotspot_passphrase c = [] \<and> allow_legacy_hotspot
      then True
      else management_hotspot_ssid c \<noteq> [] \<and> 8 \<le> length (management_hotspot_passphrase c))"

section \<open>Default paths\<close>

text \<open>\<open>std::filesystem::path::operator/\<close> for a relative right-hand side.\<close>

definition path_join :: "string \<Rightarrow> string \<Rightarrow> string" where
  "path_join a b = (if a = [] \<or> last a = CHR ''/'' then a @ b else a @ ''/'' @ b)"

definition default_state_directory :: "string option \<Rightarrow> string option \<Rightarrow> string \<Rightarrow> string" where
  "default_state_directory xdg_state_home home temp =
     (case xdg_state_home of
        Some (c # cs) \<Rightarrow> path_join (c # cs) ''aa2acp''
      | _ \<Rightarrow>
          (case home of
             Some (c # cs) \<Rightarrow> path_join (path_join (path_join (c # cs) ''.local'') ''state'') ''aa2acp''
           | _ \<Rightarrow> path_join temp ''aa2acp''))"

definition default_config_path :: "string \<Rightarrow> string" where
  "default_config_path state = path_join state ''config''"

definition default_airplay_pairing_store :: "string \<Rightarrow> string" where
  "default_airplay_pairing_store state = path_join state ''airplay-pairing.bin''"

definition default_head_unit_capabilities_store :: "string \<Rightarrow> string" where
  "default_head_unit_capabilities_store state = path_join state ''head-unit-capabilities''"

section \<open>Loading\<close>

definition load_line :: "string \<Rightarrow> config \<Rightarrow> config option" where
  "load_line line c =
     (case find_sub ''='' line of
        None \<Rightarrow> None
      | Some separator \<Rightarrow>
          if \<not> valid_key (take separator line) then None
          else (let v = drop (Suc separator) line
                in Some (if prefix ''head_unit_mac='' line then c\<lparr>head_unit_mac := v\<rparr>
                         else if prefix ''wifi_interface='' line then c\<lparr>wifi_interface := v\<rparr>
                         else if prefix ''management_hotspot_ssid='' line
                         then c\<lparr>management_hotspot_ssid := v\<rparr>
                         else if prefix ''management_hotspot_passphrase='' line
                         then c\<lparr>management_hotspot_passphrase := v\<rparr>
                         else c\<lparr>airplay_pairing_store := v\<rparr>)))"

fun load_lines :: "string list \<Rightarrow> config \<Rightarrow> config option" where
  "load_lines [] c = Some c"
| "load_lines (line # rest) c = (case load_line line c of None \<Rightarrow> None | Some c' \<Rightarrow> load_lines rest c')"

definition load_config :: "(string \<rightharpoonup> string) \<Rightarrow> string \<Rightarrow> config option" where
  "load_config files path =
     (case files path of
        None \<Rightarrow> None
      | Some content \<Rightarrow>
          (case getlines content of
             [] \<Rightarrow> None
           | magic # rest \<Rightarrow>
               if magic \<noteq> kMagic then None
               else (case load_lines rest empty_config of
                       None \<Rightarrow> None
                     | Some c \<Rightarrow> if validate_config c True then Some c else None)))"

section \<open>Saving\<close>

definition config_content :: "config \<Rightarrow> string" where
  "config_content c =
     kMagic @ [CHR 0x0A] @
     ''head_unit_mac='' @ head_unit_mac c @ [CHR 0x0A] @
     ''wifi_interface='' @ wifi_interface c @ [CHR 0x0A] @
     ''management_hotspot_ssid='' @ management_hotspot_ssid c @ [CHR 0x0A] @
     ''management_hotspot_passphrase='' @ management_hotspot_passphrase c @ [CHR 0x0A] @
     (if airplay_pairing_store c = [] then []
      else ''airplay_pairing_store='' @ airplay_pairing_store c @ [CHR 0x0A])"

definition temporary_name :: "string \<Rightarrow> nat \<Rightarrow> nat \<Rightarrow> string" where
  "temporary_name path pid counter = path @ ''.tmp.'' @ nat_to_string pid @ ''-'' @ nat_to_string counter"

record save_os =
  directories_created :: bool
  opened :: bool
  writes :: "(int \<times> bool) list"
  synced :: bool
  renamed :: bool

text \<open>
  \<open>write_all\<close>: a turn is what \<open>write\<close> returned and whether \<open>errno\<close> is \<open>EINTR\<close>; a list
  that ends early stands for a failed write.  The result says whether all was written, and what.
\<close>

fun write_all :: "(int \<times> bool) list \<Rightarrow> string \<Rightarrow> bool \<times> string" where
  "write_all turns [] = (True, [])"
| "write_all [] (c # cs) = (False, [])"
| "write_all ((n, eintr) # turns) (c # cs) =
     (if n < 0 then (if eintr then write_all turns (c # cs) else (False, []))
      else if n = 0 then (False, [])
      else (case write_all turns (drop (nat n) (c # cs)) of
              (ok, out) \<Rightarrow> (ok, take (nat n) (c # cs) @ out)))"

text \<open>\<open>O_EXCL\<close>: opening fails when the temporary file exists.\<close>

definition save_config ::
    "save_os \<Rightarrow> string \<Rightarrow> string \<Rightarrow> config \<Rightarrow> (string \<rightharpoonup> string) \<Rightarrow> bool \<times> (string \<rightharpoonup> string)" where
  "save_config os path temporary c files =
     (if \<not> validate_config c False then (False, files)
      else if \<not> directories_created os then (False, files)
      else if \<not> opened os \<or> files temporary \<noteq> None then (False, files)
      else
        (case write_all (writes os) (config_content c) of
           (ok, out) \<Rightarrow>
             (let files = files(temporary \<mapsto> out)
              in if ok \<and> synced os \<and> renamed os
                 then (True, (files(path \<mapsto> out))(temporary := None))
                 else (False, files(temporary := None)))))"

section \<open>Round trip\<close>

lemma write_all_prefix: "prefix (snd (write_all turns s)) s \<and> (fst (write_all turns s) \<longrightarrow> snd (write_all turns s) = s)"
proof (induction turns s rule: write_all.induct)
  case (3 n eintr turns c cs)
  show ?case
  proof (cases "0 < n")
    case True
    define k where "k = nat n"
    from 3(2) True have "prefix (snd (write_all turns (drop k (c # cs)))) (drop k (c # cs)) \<and>
        (fst (write_all turns (drop k (c # cs))) \<longrightarrow> snd (write_all turns (drop k (c # cs))) = drop k (c # cs))"
      by (simp add: k_def)
    then have "prefix (take k (c # cs) @ snd (write_all turns (drop k (c # cs)))) (take k (c # cs) @ drop k (c # cs))"
      "fst (write_all turns (drop k (c # cs))) \<longrightarrow>
        take k (c # cs) @ snd (write_all turns (drop k (c # cs))) = take k (c # cs) @ drop k (c # cs)"
      by (simp_all only: same_prefix_prefix) auto
    moreover have "write_all ((n, eintr) # turns) (c # cs) =
        (fst (write_all turns (drop k (c # cs))), take k (c # cs) @ snd (write_all turns (drop k (c # cs))))"
      using True by (simp add: k_def split: prod.split)
    ultimately show ?thesis by (simp only: append_take_drop_id fst_conv snd_conv)
  next
    case False
    with 3(1) show ?thesis by auto
  qed
qed auto

text \<open>One line of the file, without its end.\<close>

definition entry :: "string \<Rightarrow> string \<Rightarrow> string" where
  "entry key v = key @ ''='' @ v"

lemma prefix_key:
  "CHR ''='' \<notin> set k \<Longrightarrow> CHR ''='' \<notin> set key \<Longrightarrow>
     prefix (k @ ''='') (key @ CHR ''='' # v) \<longleftrightarrow> key = k"
proof (induction k arbitrary: key)
  case Nil
  then show ?case by (cases key) auto
next
  case (Cons c k)
  then show ?case by (cases key) auto
qed

lemma load_line_entry:
  assumes "valid_key key"
  shows "load_line (entry key v) c =
     Some (if key = ''head_unit_mac'' then c\<lparr>head_unit_mac := v\<rparr>
           else if key = ''wifi_interface'' then c\<lparr>wifi_interface := v\<rparr>
           else if key = ''management_hotspot_ssid'' then c\<lparr>management_hotspot_ssid := v\<rparr>
           else if key = ''management_hotspot_passphrase'' then c\<lparr>management_hotspot_passphrase := v\<rparr>
           else c\<lparr>airplay_pairing_store := v\<rparr>)"
proof -
  have key: "CHR ''='' \<notin> set key" using assms by (auto simp: valid_key_def)
  then have f: "find_sub ''='' (key @ CHR ''='' # v) = Some (length key)" by (rule find_char)
  note p = prefix_key [OF _ key, of _ v]
  have p': "prefix ''head_unit_mac='' (key @ CHR ''='' # v) \<longleftrightarrow> key = ''head_unit_mac''"
    "prefix ''wifi_interface='' (key @ CHR ''='' # v) \<longleftrightarrow> key = ''wifi_interface''"
    "prefix ''management_hotspot_ssid='' (key @ CHR ''='' # v) \<longleftrightarrow> key = ''management_hotspot_ssid''"
    "prefix ''management_hotspot_passphrase='' (key @ CHR ''='' # v) \<longleftrightarrow> key = ''management_hotspot_passphrase''"
    using p [of "''head_unit_mac''"] p [of "''wifi_interface''"] p [of "''management_hotspot_ssid''"]
      p [of "''management_hotspot_passphrase''"] by simp_all
  show ?thesis
    by (simp only: load_line_def entry_def append_Cons append_Nil f option.case Let_def p') (simp add: assms)
qed

lemma no_newline: "valid_serialized_value v \<Longrightarrow> CHR 0x0A \<notin> set v"
  by (auto simp: valid_serialized_value_def list_all_iff)

lemma getlines_entry:
  assumes "valid_serialized_value v" "valid_key key"
  shows "getlines (entry key v @ CHR 0x0A # rest) = entry key v # getlines rest"
proof -
  have "CHR 0x0A \<notin> set (entry key v)"
    using no_newline [OF assms(1)] assms(2) by (auto simp: entry_def valid_key_def)
  then show ?thesis by (rule getlines_line)
qed

lemma config_content_entries:
  "config_content c =
     kMagic @ CHR 0x0A # entry ''head_unit_mac'' (head_unit_mac c) @
     CHR 0x0A # entry ''wifi_interface'' (wifi_interface c) @
     CHR 0x0A # entry ''management_hotspot_ssid'' (management_hotspot_ssid c) @
     CHR 0x0A # entry ''management_hotspot_passphrase'' (management_hotspot_passphrase c) @
     CHR 0x0A # (if airplay_pairing_store c = [] then []
                 else entry ''airplay_pairing_store'' (airplay_pairing_store c) @ CHR 0x0A # [])"
  by (simp add: config_content_def entry_def)

lemma valid_keys [simp]:
  "valid_key ''head_unit_mac''" "valid_key ''wifi_interface''" "valid_key ''management_hotspot_ssid''"
  "valid_key ''management_hotspot_passphrase''" "valid_key ''airplay_pairing_store''"
  by (simp_all add: valid_key_def)

lemma load_content:
  assumes "validate_config c legacy"
  shows "load_config (files(path \<mapsto> config_content c)) path = Some c"
proof -
  have v: "valid_serialized_value (head_unit_mac c)" "valid_serialized_value (wifi_interface c)"
    "valid_serialized_value (management_hotspot_ssid c)"
    "valid_serialized_value (management_hotspot_passphrase c)"
    "valid_serialized_value (airplay_pairing_store c)"
    using assms by (auto simp: validate_config_def split: if_splits)
  have "getlines (config_content c) =
      [kMagic, entry ''head_unit_mac'' (head_unit_mac c), entry ''wifi_interface'' (wifi_interface c),
       entry ''management_hotspot_ssid'' (management_hotspot_ssid c),
       entry ''management_hotspot_passphrase'' (management_hotspot_passphrase c)] @
      (if airplay_pairing_store c = [] then [] else [entry ''airplay_pairing_store'' (airplay_pairing_store c)])"
    using getlines_line [of kMagic] by (simp add: config_content_entries getlines_entry v kMagic_def)
  moreover have "validate_config c True" using assms by (auto simp: validate_config_def split: if_splits)
  ultimately show ?thesis
    by (cases "airplay_pairing_store c = []"; cases c)
       (simp_all add: load_config_def load_line_entry empty_config_def)
qed

section \<open>Properties\<close>

lemma temporary_name_inject:
  "temporary_name path pid m = temporary_name path pid n \<longleftrightarrow> m = n"
  by (simp add: temporary_name_def)

lemma temporary_name_neq: "temporary_name path pid n \<noteq> path"
  by (simp add: temporary_name_def)

lemma save_config_outcome:
  assumes "save_config os path (temporary_name path pid n) c files = (ok, files')"
  shows "(ok \<longrightarrow> load_config files' path = Some c \<and> files' = files(path \<mapsto> config_content c)) \<and>
         (\<not> ok \<longrightarrow> files' = files) \<and>
         (m \<noteq> n \<longrightarrow> temporary_name path pid m \<noteq> temporary_name path pid n)"
proof -
  let ?t = "temporary_name path pid n"
  obtain w out where w: "write_all (writes os) (config_content c) = (w, out)" by fastforce
  have full: "w \<Longrightarrow> out = config_content c"
    using write_all_prefix [of "writes os" "config_content c"] by (simp add: w)
  have undo: "files ?t = None \<Longrightarrow> files(?t := None) = files" by auto
  show ?thesis
  proof (cases "validate_config c False \<and> directories_created os \<and> opened os \<and> files ?t = None \<and>
      w \<and> synced os \<and> renamed os")
    case True
    then have "ok" "files' = files(path \<mapsto> config_content c)"
      using assms w full undo temporary_name_neq [of path pid n]
      by (auto simp: save_config_def Let_def fun_upd_twist)
    with True load_content [of c False files path] show ?thesis by (simp add: temporary_name_inject)
  next
    case False
    then have "\<not> ok" "files' = files"
      using assms w undo by (auto simp: save_config_def Let_def split: if_splits)
    then show ?thesis by (simp add: temporary_name_inject)
  qed
qed


definition example_config :: config where
  "example_config = \<lparr>head_unit_mac = ''AA'', wifi_interface = ''wlan0'', management_hotspot_ssid = ''car'',
     management_hotspot_passphrase = ''12345678'', airplay_pairing_store = []\<rparr>"


end
