(* ===== verification/Bridge_Ipc.thy ===== *)
theory Bridge_Ipc
  imports Media_Props
begin

text \<open>
  The length-prefixed UNIX stream between the CarPlay worker and the daemon
  (\<open>src/src/bridge/carplay_ipc.cpp\<close>): \<open>FrameSocketWriter\<close> with its bounded queue and its
  thread that connects, sends and puts a frame back after a transport failure, and
  \<open>FrameSocketReceiver\<close> with its thread that accepts one client after the other.
  System calls answer with arguments of the model, as in \<open>Media_Forwarder\<close>; here every
  round of a loop also reads the stop token.  Descriptors are closed and paths unlinked
  without further effect, log lines are left out.

  The main theorem is about both ends: over every interleaving of producers, connection
  failures and reconnections, the receiver's callback sees the accepted frames in order and
  none of them twice.
\<close>

section \<open>Blocking transfers\<close>

definition kMaximumFrameSize :: nat where
  "kMaximumFrameSize = 4 * 1024 * 1024"

definition kMaximumIpcFrames :: nat where
  "kMaximumIpcFrames = 256"

definition kMaximumIpcBytes :: nat where
  "kMaximumIpcBytes = 16 * 1024 * 1024"

text \<open>A round of \<open>send_all\<close>: the stop token and what the system answers.\<close>

fun ipc_send_all ::
  "(bool \<times> send_turn) list \<Rightarrow> bytes \<Rightarrow> (bool \<times> bytes \<times> (bool \<times> send_turn) list) option" where
  "ipc_send_all turns [] = Some (True, [], turns)"
| "ipc_send_all [] (b # bs) = None"
| "ipc_send_all ((stop, t) # turns) (b # bs) =
     (if stop \<or> remaining t \<le> 0 then Some (False, [], turns)
      else if poll_ready t < 0 then
        (if poll_eintr t then ipc_send_all turns (b # bs) else Some (False, [], turns))
      else if poll_ready t = 0 then ipc_send_all turns (b # bs)
      else if poll_error t then Some (False, [], turns)
      else if 0 < send_count t then
        (case ipc_send_all turns (drop (nat (send_count t)) (b # bs)) of
           None \<Rightarrow> None
         | Some (ok, out, rest) \<Rightarrow> Some (ok, take (nat (send_count t)) (b # bs) @ out, rest))
      else if send_count t < 0 \<and> send_again t then ipc_send_all turns (b # bs)
      else Some (False, [], turns))"

record ipc_recv_turn =
  recv_remaining :: int
  recv_ready :: int
  recv_eintr :: bool
  revents_nval :: bool
  revents_in :: bool
  recv_count :: int
  recv_again :: bool

text \<open>
  \<open>input\<close> is what the peer has written and not been read yet: \<open>recv\<close> returns at most that,
  and 0 when there is none and the peer has closed.
\<close>

fun ipc_receive_all ::
  "(bool \<times> ipc_recv_turn) list \<Rightarrow> bytes \<Rightarrow> nat \<Rightarrow>
   (bool \<times> bytes \<times> bytes \<times> (bool \<times> ipc_recv_turn) list) option" where
  "ipc_receive_all turns input 0 = Some (True, [], input, turns)"
| "ipc_receive_all [] input (Suc n) = None"
| "ipc_receive_all ((stop, t) # turns) input (Suc n) =
     (if stop \<or> recv_remaining t \<le> 0 then Some (False, [], input, turns)
      else if recv_ready t < 0 then
        (if recv_eintr t then ipc_receive_all turns input (Suc n) else Some (False, [], input, turns))
      else if recv_ready t = 0 then ipc_receive_all turns input (Suc n)
      else if revents_nval t \<or> \<not> revents_in t then Some (False, [], input, turns)
      else (let k = min (nat (recv_count t)) (min (Suc n) (length input))
            in if 0 < k then
                 (case ipc_receive_all turns (drop k input) (Suc n - k) of
                    None \<Rightarrow> None
                  | Some (ok, got, rest) \<Rightarrow> Some (ok, take k input @ got, rest))
               else if recv_count t < 0 \<and> recv_again t then ipc_receive_all turns input (Suc n)
               else Some (False, [], input, turns)))"

section \<open>The receiver\<close>

text \<open>The constructor: the listening descriptor, negative when the receiver is not ready.\<close>

definition new_receiver :: "listen_os \<Rightarrow> string \<Rightarrow> int" where
  "new_receiver os path =
     (if 108 \<le> length path then -1
      else if socket_result os < 0 then socket_result os
      else if bind_result os \<noteq> 0 \<or> chmod_result os \<noteq> 0 \<or> listen_result os \<noteq> 0 then -1
      else socket_result os)"

text \<open>One round of the inner loop of \<open>receive\<close>: the frame for the callback, or \<open>break\<close>.\<close>

definition receive_frame ::
  "(bool \<times> ipc_recv_turn) list \<Rightarrow> bytes \<Rightarrow> (bytes option \<times> bytes \<times> (bool \<times> ipc_recv_turn) list) option" where
  "receive_frame turns input =
     (case ipc_receive_all turns input 4 of
        None \<Rightarrow> None
      | Some (False, got, input, turns) \<Rightarrow> Some (None, input, turns)
      | Some (True, header, input, turns) \<Rightarrow>
          (let sz = unat (be_value header)
           in if sz = 0 \<or> kMaximumFrameSize < sz then Some (None, input, turns)
              else (case ipc_receive_all turns input sz of
                      None \<Rightarrow> None
                    | Some (ok, frame, input, turns) \<Rightarrow>
                        Some (if ok then Some frame else None, input, turns))))"

text \<open>The inner loop on one client: the frames handed to the callback so far.\<close>

fun receive_client :: "bool list \<Rightarrow> (bool \<times> ipc_recv_turn) list \<Rightarrow> bytes \<Rightarrow> bytes list" where
  "receive_client [] turns input = []"
| "receive_client (stop # stops) turns input =
     (if stop then []
      else (case receive_frame turns input of
              Some (Some frame, input, turns) \<Rightarrow> frame # receive_client stops turns input
            | _ \<Rightarrow> []))"

text \<open>The accept loop: one session per accepted client.\<close>

type_synonym ipc_session = "bool list \<times> (bool \<times> ipc_recv_turn) list \<times> bytes"

definition receive_sessions :: "ipc_session list \<Rightarrow> bytes list" where
  "receive_sessions sessions = concat (map (\<lambda>(stops, turns, input). receive_client stops turns input) sessions)"

section \<open>The writer\<close>

record ipc_writer =
  w_frames :: "bytes list"
  w_queued_bytes :: nat

definition writer_send :: "bytes \<Rightarrow> ipc_writer \<Rightarrow> bool \<times> ipc_writer" where
  "writer_send frame w =
     (if frame = [] \<or> kMaximumFrameSize < length frame \<or> kMaximumIpcBytes < length frame then (False, w)
      else if kMaximumIpcFrames \<le> length (w_frames w) \<or>
              kMaximumIpcBytes < w_queued_bytes w + length frame then (False, w)
      else (True, w\<lparr>w_frames := w_frames w @ [frame], w_queued_bytes := w_queued_bytes w + length frame\<rparr>))"

text \<open>The critical section that takes the first frame of a queue that is not empty.\<close>

definition writer_take :: "ipc_writer \<Rightarrow> ipc_writer" where
  "writer_take w = w\<lparr>w_frames := tl (w_frames w), w_queued_bytes := w_queued_bytes w - length (hd (w_frames w))\<rparr>"

definition requeue :: "bool \<Rightarrow> bytes \<Rightarrow> ipc_writer \<Rightarrow> bool \<times> ipc_writer" where
  "requeue stop frame w =
     (if stop then (False, w)
      else if length (w_frames w) < kMaximumIpcFrames \<and> w_queued_bytes w + length frame \<le> kMaximumIpcBytes
      then (True, w\<lparr>w_queued_bytes := w_queued_bytes w + length frame, w_frames := frame # w_frames w\<rparr>)
      else (False, w))"

record connect_os =
  c_socket :: int
  c_connect :: int
  c_in_progress :: bool
  c_poll :: int
  c_poll_error :: bool
  c_getsockopt :: int
  c_socket_error :: int

definition connect_unix :: "connect_os \<Rightarrow> string \<Rightarrow> int" where
  "connect_unix os path =
     (if 108 \<le> length path then -1
      else if c_socket os < 0 then -1
      else if c_connect os \<noteq> 0 \<and> \<not> c_in_progress os then -1
      else if c_connect os \<noteq> 0 \<and>
              (c_poll os \<le> 0 \<or> c_poll_error os \<or> c_getsockopt os \<noteq> 0 \<or> c_socket_error os \<noteq> 0) then -1
      else c_socket os)"

text \<open>Header and frame of one round of \<open>write\<close>.\<close>

definition write_frame ::
  "(bool \<times> send_turn) list \<Rightarrow> bytes \<Rightarrow> (bool \<times> bytes \<times> (bool \<times> send_turn) list) option" where
  "write_frame turns frame =
     (case ipc_send_all turns (be_bytes 4 (of_nat (length frame))) of
        None \<Rightarrow> None
      | Some (False, out, turns) \<Rightarrow> Some (False, out, turns)
      | Some (True, out, turns) \<Rightarrow>
          (case ipc_send_all turns frame of
             None \<Rightarrow> None
           | Some (ok, out', turns) \<Rightarrow> Some (ok, out @ out', turns)))"

text \<open>
  The state of the writer's threads: the queue, the local variables \<open>frame\<close> (while it is
  held) and \<open>socket_fd\<close> of \<open>write\<close>, and the stop token.  For the statements it records
  what has been written on each connection (the latest last), the frames for which
  \<open>send\<close> returned true and those that \<open>requeue\<close> gave up.
\<close>

record ipc_world =
  writer :: ipc_writer
  holding :: "bytes option"
  socket_fd :: int
  ipc_stop :: bool
  streams :: "bytes list"
  accepted :: "bytes list"
  given_up :: "bytes list"

definition start_ipc :: ipc_world where
  "start_ipc = \<lparr>writer = \<lparr>w_frames = [], w_queued_bytes = 0\<rparr>, holding = None, socket_fd = -1,
     ipc_stop = False, streams = [], accepted = [], given_up = []\<rparr>"

definition append_last :: "bytes list \<Rightarrow> bytes \<Rightarrow> bytes list" where
  "append_last ss out = butlast ss @ [last ss @ out]"

definition put_back :: "bytes \<Rightarrow> ipc_world \<Rightarrow> ipc_world" where
  "put_back frame s =
     (case requeue (ipc_stop s) frame (writer s) of
        (ok, w) \<Rightarrow> s\<lparr>writer := w, holding := None, given_up := given_up s @ (if ok then [] else [frame])\<rparr>)"

inductive ipc_step :: "string \<Rightarrow> ipc_world \<Rightarrow> ipc_world \<Rightarrow> bool" for path where
  send: "writer_send frame (writer s) = (ok, w) \<Longrightarrow>
     ipc_step path s (s\<lparr>writer := w, accepted := accepted s @ (if ok then [frame] else [])\<rparr>)"
| request_stop: "ipc_step path s (s\<lparr>ipc_stop := True\<rparr>)"
| take: "holding s = None \<Longrightarrow> \<not> ipc_stop s \<Longrightarrow> w_frames (writer s) = frame # fs \<Longrightarrow>
     ipc_step path s (s\<lparr>writer := writer_take (writer s), holding := Some frame\<rparr>)"
| connect_failed: "holding s = Some frame \<Longrightarrow> socket_fd s < 0 \<Longrightarrow> connect_unix os path < 0 \<Longrightarrow>
     ipc_step path s (put_back frame (s\<lparr>socket_fd := connect_unix os path\<rparr>))"
| connected: "holding s = Some frame \<Longrightarrow> socket_fd s < 0 \<Longrightarrow> 0 \<le> connect_unix os path \<Longrightarrow>
     ipc_step path s (s\<lparr>socket_fd := connect_unix os path, streams := streams s @ [[]]\<rparr>)"
| written: "holding s = Some frame \<Longrightarrow> 0 \<le> socket_fd s \<Longrightarrow> \<forall>(stop, t) \<in> set turns. stop \<longrightarrow> ipc_stop s \<Longrightarrow>
     write_frame turns frame = Some (True, out, rest) \<Longrightarrow>
     ipc_step path s (s\<lparr>holding := None, streams := append_last (streams s) out\<rparr>)"
| write_failed: "holding s = Some frame \<Longrightarrow> 0 \<le> socket_fd s \<Longrightarrow> \<forall>(stop, t) \<in> set turns. stop \<longrightarrow> ipc_stop s \<Longrightarrow>
     write_frame turns frame = Some (False, out, rest) \<Longrightarrow>
     ipc_step path s (put_back frame (s\<lparr>socket_fd := -1, streams := append_last (streams s) out\<rparr>))"
| finish: "holding s = None \<Longrightarrow> ipc_stop s \<Longrightarrow> ipc_step path s (s\<lparr>socket_fd := -1\<rparr>)"

section \<open>Transfers\<close>

lemma ipc_send_all_prefix:
  "ipc_send_all turns bs = Some (ok, out, rest) \<Longrightarrow> (if ok then out = bs else strict_prefix out bs)"
proof (induction turns bs arbitrary: ok out rest rule: ipc_send_all.induct)
  case (3 stop t turns b bs)
  show ?case
  proof (cases "\<not> stop \<and> 0 < remaining t \<and> 0 < poll_ready t \<and> \<not> poll_error t \<and> 0 < send_count t")
    case True
    define n where "n = nat (send_count t)"
    from True 3(5) obtain out' where s: "ipc_send_all turns (drop n (b # bs)) = Some (ok, out', rest)"
      and out: "out = take n (b # bs) @ out'"
      by (auto simp: n_def split: option.splits)
    have "if ok then out' = drop n (b # bs) else strict_prefix out' (drop n (b # bs))"
      using 3(3) [of ok out' rest] True s by (simp add: n_def)
    then show ?thesis
      unfolding out by (metis append_take_drop_id same_prefix_prefix strict_prefix_def same_append_eq)
  next
    case False
    with 3 show ?thesis by (auto split: if_splits)
  qed
qed auto

lemma ipc_send_all_returns:
  "(stop, t) \<in> set turns \<Longrightarrow> remaining t \<le> 0 \<Longrightarrow> ipc_send_all turns bs \<noteq> None"
proof (induction turns arbitrary: bs)
  case (Cons u turns)
  obtain stop' t' where u: "u = (stop', t')" by fastforce
  show ?case
  proof (cases "remaining t' \<le> 0")
    case True
    then show ?thesis by (cases bs) (auto simp: u)
  next
    case False
    with Cons u have "ipc_send_all turns xs \<noteq> None" for xs by auto
    with False u show ?thesis
      by (cases bs) (simp_all del: not_None_eq split: option.split prod.split)
  qed
qed simp

lemma ipc_receive_all_splits:
  "ipc_receive_all turns input n = Some (True, got, rest, ts) \<Longrightarrow> input = got @ rest \<and> length got = n"
proof (induction turns arbitrary: input n got)
  case Nil
  then show ?case by (cases n) auto
next
  case (Cons u turns)
  obtain stop t where u: "u = (stop, t)" by fastforce
  define k where "k = min (nat (recv_count t)) (min n (length input))"
  show ?case
  proof (cases n)
    case 0
    with Cons.prems show ?thesis by simp
  next
    case (Suc m)
    with Cons.prems consider
        "ipc_receive_all turns input n = Some (True, got, rest, ts)"
      | got' where "0 < k" "ipc_receive_all turns (drop k input) (n - k) = Some (True, got', rest, ts)"
          "got = take k input @ got'"
      by (auto simp: u Let_def k_def split: if_splits option.splits)
    then show ?thesis
    proof cases
      case 1
      then show ?thesis by (rule Cons.IH)
    next
      case 2
      have "k \<le> n" "k \<le> length input" by (auto simp: k_def)
      with Cons.IH [OF 2(2)] 2(3) append_take_drop_id [of k input] show ?thesis by auto
    qed
  qed
qed

definition smooth_recv :: "bool \<times> ipc_recv_turn \<Rightarrow> bool" where
  "smooth_recv = (\<lambda>(stop, t). \<not> stop \<and> 0 < recv_remaining t \<and> 0 < recv_ready t \<and>
     \<not> revents_nval t \<and> revents_in t \<and> 0 < recv_count t)"

lemma ipc_receive_all_smooth:
  assumes "list_all smooth_recv turns" "n \<le> length turns" "n \<le> length input"
  shows "\<exists>ts. ipc_receive_all turns input n = Some (True, take n input, drop n input, ts) \<and>
           list_all smooth_recv ts \<and> length turns \<le> length ts + n"
  using assms
proof (induction turns input n rule: ipc_receive_all.induct)
  case (3 stop t turns input n)
  define k where "k = min (nat (recv_count t)) (min (Suc n) (length input))"
  from 3(5,7) have t: "\<not> (stop \<or> recv_remaining t \<le> 0)" "\<not> recv_ready t < 0" "recv_ready t \<noteq> 0"
    "\<not> (revents_nval t \<or> \<not> revents_in t)" and k: "0 < k" "k \<le> Suc n"
    by (auto simp: smooth_recv_def k_def)
  have "list_all smooth_recv turns" "Suc n - k \<le> length turns" "Suc n - k \<le> length (drop k input)"
    using 3(5-7) k by auto
  with 3(3) [OF t k_def k(1)] obtain ts where r:
    "ipc_receive_all turns (drop k input) (Suc n - k) =
       Some (True, take (Suc n - k) (drop k input), drop (Suc n - k) (drop k input), ts)"
    "list_all smooth_recv ts" "length turns \<le> length ts + (Suc n - k)" by blast
  have "take k input @ take (Suc n - k) (drop k input) = take (Suc n) input"
    using k(2) take_add [of k "Suc n - k" input] by simp
  then have "ipc_receive_all ((stop, t) # turns) input (Suc n) =
      Some (True, take (Suc n) input, drop (Suc n) input, ts)"
    using r(1) k t by (simp add: Let_def k_def [symmetric])
  moreover have "length ((stop, t) # turns) \<le> length ts + Suc n" using r(3) k by simp
  ultimately show ?case using r(2) by blast
qed auto

section \<open>Frames on a connection\<close>

definition sendable :: "bytes \<Rightarrow> bool" where
  "sendable f = (f \<noteq> [] \<and> length f \<le> kMaximumFrameSize)"

lemma write_frame_wire:
  assumes "write_frame turns f = Some (ok, out, rest)"
  shows "if ok then out = frame_wire f else strict_prefix out (frame_wire f)"
  using assms
  by (auto simp: write_frame_def frame_wire_def media_header_def strict_prefix_def
      split: option.splits bool.splits prod.splits dest!: ipc_send_all_prefix)

text \<open>What a successful round reads is the next frame that was written, whole.\<close>

lemma receive_frame_exact:
  assumes "receive_frame turns input = Some (Some f, rest, ts)"
    and "sendable g" "prefix input (frame_wire g @ later)"
  shows "f = g \<and> input = frame_wire g @ rest \<and> prefix rest later"
proof -
  from assms(1) obtain h i1 t1 where h: "ipc_receive_all turns input 4 = Some (True, h, i1, t1)"
    and f: "ipc_receive_all t1 i1 (unat (be_value h)) = Some (True, f, rest, ts)"
    by (auto simp: receive_frame_def Let_def split: option.splits bool.splits if_splits)
  note h = ipc_receive_all_splits [OF h] and f = ipc_receive_all_splits [OF f]
  from h assms(3) have hg: "h = media_header g" and i1: "prefix i1 (g @ later)"
    by (auto simp: prefix_def frame_wire_def append_eq_append_conv)
  have "length f = length g"
    using f hg unat_media_header [of g] assms(2) by (simp add: sendable_def kMaximumFrameSize_def)
  with f i1 have "f = g" "prefix rest later" by (auto simp: prefix_def append_eq_append_conv)
  with h f hg show ?thesis by (simp add: frame_wire_def)
qed

lemma receive_client_prefix:
  assumes "prefix input (concat (map frame_wire fs) @ p)" "list_all sendable fs"
    and "sendable g" "strict_prefix p (frame_wire g)"
  shows "prefix (receive_client stops turns input) fs"
  using assms(1,2)
proof (induction fs arbitrary: stops turns input)
  case Nil
  have False if "receive_frame turns input = Some (Some f, rest, ts)" for f rest ts
  proof -
    have "prefix input (frame_wire g @ [])"
      using Nil assms(4) by (auto simp: strict_prefix_def intro: prefix_order.trans)
    from receive_frame_exact [OF that assms(3) this] Nil assms(4) show False
      by (auto simp: strict_prefix_def prefix_def)
  qed
  then show ?case by (cases stops) (auto split: option.splits)
next
  case (Cons f fs)
  show ?case
  proof (cases "\<exists>stops' g rest ts. stops = False # stops' \<and> receive_frame turns input = Some (Some g, rest, ts)")
    case True
    then obtain stops' g rest ts where s: "stops = False # stops'"
      and r: "receive_frame turns input = Some (Some g, rest, ts)" by blast
    have "g = f \<and> input = frame_wire f @ rest \<and> prefix rest (concat (map frame_wire fs) @ p)"
      by (rule receive_frame_exact [OF r]) (use Cons.prems in auto)
    with s r Cons.IH [of rest stops' ts] Cons.prems show ?thesis by simp
  next
    case False
    then show ?thesis by (cases stops) (auto split: option.splits)
  qed
qed

lemma receive_frame_smooth:
  assumes "list_all smooth_recv turns" "length (frame_wire f) \<le> length turns" "sendable f"
  shows "\<exists>ts. receive_frame turns (frame_wire f @ input) = Some (Some f, input, ts) \<and>
           list_all smooth_recv ts \<and> length turns \<le> length ts + length (frame_wire f)"
proof -
  from ipc_receive_all_smooth [OF assms(1), of 4 "frame_wire f @ input"] assms(2)
  obtain ts where h: "ipc_receive_all turns (frame_wire f @ input) 4 = Some (True, media_header f, f @ input, ts)"
    "list_all smooth_recv ts" "length turns \<le> length ts + 4"
    by (auto simp: frame_wire_def)
  with assms(2) have "length f \<le> length ts" by (simp add: frame_wire_def)
  from ipc_receive_all_smooth [OF h(2) this, of "f @ input"]
  obtain ts' where "ipc_receive_all ts (f @ input) (length f) = Some (True, f, input, ts')"
    "list_all smooth_recv ts'" "length ts \<le> length ts' + length f" by auto
  with h assms(3) show ?thesis
    by (auto simp: receive_frame_def unat_media_header Let_def sendable_def kMaximumFrameSize_def frame_wire_def)
qed

text \<open>A session that is read to the end: the token is not set and every read succeeds.\<close>

definition patient :: "ipc_session \<Rightarrow> bool" where
  "patient = (\<lambda>(stops, turns, input). list_all Not stops \<and> length input \<le> length stops \<and>
     list_all smooth_recv turns \<and> length input \<le> length turns)"

lemma receive_client_all:
  assumes "input = concat (map frame_wire fs) @ p" "list_all sendable fs"
    and "patient (stops, turns, input)"
  shows "\<exists>later. receive_client stops turns input = fs @ later"
  using assms
proof (induction fs arbitrary: stops turns input)
  case (Cons f fs)
  let ?rest = "concat (map frame_wire fs) @ p"
  from Cons.prems have i: "input = frame_wire f @ ?rest" "sendable f" "list_all sendable fs" by auto
  have f: "1 \<le> length (frame_wire f)" by (simp add: frame_wire_def)
  with Cons.prems(3) i obtain stops' where s: "stops = False # stops'" "list_all Not stops'" "length ?rest \<le> length stops'"
    by (cases stops) (auto simp: patient_def)
  from Cons.prems(3) i(1) have t: "list_all smooth_recv turns" "length (frame_wire f) \<le> length turns"
    by (auto simp: patient_def)
  from receive_frame_smooth [OF t i(2), of ?rest] obtain ts where
    r: "receive_frame turns input = Some (Some f, ?rest, ts)" "list_all smooth_recv ts"
      "length turns \<le> length ts + length (frame_wire f)" by (auto simp: i(1))
  have "patient (stops', ts, ?rest)"
    using s r(2,3) Cons.prems(3) i(1) by (auto simp: patient_def)
  from Cons.IH [OF refl i(3) this] r(1) s(1) show ?case by auto
qed simp

section \<open>The invariant of the writer\<close>

definition writer_ok :: "ipc_writer \<Rightarrow> bool" where
  "writer_ok w =
     (w_queued_bytes w = sum_list (map length (w_frames w)) \<and> w_queued_bytes w \<le> kMaximumIpcBytes \<and>
      length (w_frames w) \<le> kMaximumIpcFrames \<and> list_all sendable (w_frames w))"

lemma writer_send_ok:
  "writer_ok w \<Longrightarrow> writer_send f w = (ok, w') \<Longrightarrow>
     writer_ok w' \<and> w_frames w' = w_frames w @ (if ok then [f] else [])"
  by (auto simp: writer_send_def writer_ok_def sendable_def split: if_splits)

lemma writer_take_ok: "writer_ok w \<Longrightarrow> w_frames w = f # fs \<Longrightarrow> writer_ok (writer_take w) \<and> sendable f"
  by (auto simp: writer_take_def writer_ok_def)

lemma requeue_ok:
  "writer_ok w \<Longrightarrow> sendable f \<Longrightarrow> requeue stop f w = (ok, w') \<Longrightarrow>
     writer_ok w' \<and> w_frames w' = (if ok then [f] else []) @ w_frames w"
  by (auto simp: requeue_def writer_ok_def split: if_splits)

definition held :: "ipc_world \<Rightarrow> bytes list" where
  "held s = (case holding s of None \<Rightarrow> [] | Some f \<Rightarrow> [f])"

text \<open>A connection carries whole frames and, once it has failed, the beginning of one more.\<close>

definition carries :: "bytes list \<Rightarrow> bytes \<Rightarrow> bool" where
  "carries fs stream = (list_all sendable fs \<and>
     (\<exists>p g. stream = concat (map frame_wire fs) @ p \<and> sendable g \<and> strict_prefix p (frame_wire g)))"

definition in_order :: "ipc_world \<Rightarrow> bytes list \<Rightarrow> bool" where
  "in_order s done =
     (subseq (done @ held s @ w_frames (writer s)) (accepted s) \<and>
      (given_up s = [] \<longrightarrow> done @ held s @ w_frames (writer s) = accepted s))"

definition ipc_ok :: "ipc_world \<Rightarrow> bool" where
  "ipc_ok s =
     (writer_ok (writer s) \<and> list_all sendable (held s) \<and>
      (\<exists>whole. list_all2 carries whole (streams s) \<and> in_order s (concat whole) \<and>
         (0 \<le> socket_fd s \<longrightarrow> whole \<noteq> [] \<and> last (streams s) = concat (map frame_wire (last whole)))))"

lemma carries_whole: "list_all sendable fs \<Longrightarrow> carries fs (concat (map frame_wire fs))"
  unfolding carries_def
  by (rule conjI, assumption, intro exI [of _ "[]"] exI [of _ "[0]"])
     (simp add: sendable_def kMaximumFrameSize_def strict_prefix_def frame_wire_def)

lemma ipc_okI:
  assumes "writer_ok (writer s)" "list_all sendable (held s)" "list_all2 carries whole (streams s)"
    "in_order s (concat whole)"
    "0 \<le> socket_fd s \<Longrightarrow> whole \<noteq> [] \<and> last (streams s) = concat (map frame_wire (last whole))"
  shows "ipc_ok s"
  using assms unfolding ipc_ok_def by blast

lemma in_order_put_back:
  assumes "in_order s done" "holding s = Some f" "requeue (ipc_stop s) f (writer s) = (ok, w)"
    "writer_ok (writer s)" "sendable f"
  shows "in_order (put_back f s) done"
proof -
  have w: "w_frames w = (if ok then [f] else []) @ w_frames (writer s)"
    using requeue_ok [OF assms(4,5,3)] by simp
  have "subseq (done @ w_frames (writer s)) (done @ [f] @ w_frames (writer s))"
    by (intro list_emb_append_mono) auto
  also have "subseq \<dots> (accepted s)" using assms(1,2) by (simp add: in_order_def held_def)
  finally show ?thesis using assms w by (auto simp: in_order_def held_def put_back_def)
qed

lemma ipc_ok_put_back:
  assumes "ipc_ok s" "holding s = Some f" "socket_fd s < 0"
  shows "ipc_ok (put_back f s)"
proof -
  obtain ok w where r: "requeue (ipc_stop s) f (writer s) = (ok, w)" by fastforce
  from assms obtain whole where o: "writer_ok (writer s)" "sendable f" "list_all2 carries whole (streams s)"
    "in_order s (concat whole)" by (auto simp: ipc_ok_def held_def)
  from in_order_put_back [OF o(4) assms(2) r o(1,2)] have "in_order (put_back f s) (concat whole)" .
  with o requeue_ok [OF o(1,2) r] r assms(3) show ?thesis
    by (intro ipc_okI [of _ whole]) (auto simp: put_back_def held_def)
qed

text \<open>Writing on the current connection, whole or in part.\<close>

lemma current_connection:
  assumes "ipc_ok s" "holding s = Some f" "0 \<le> socket_fd s"
  obtains before now ss where "streams s = ss @ [concat (map frame_wire now)]"
    "list_all2 carries before ss" "list_all sendable (now @ [f])" "in_order s (concat (before @ [now]))"
    "writer_ok (writer s)"
proof -
  from assms obtain whole where o: "writer_ok (writer s)" "sendable f" "list_all2 carries whole (streams s)"
    "in_order s (concat whole)" "whole \<noteq> []" "last (streams s) = concat (map frame_wire (last whole))"
    by (auto simp: ipc_ok_def held_def)
  have "streams s \<noteq> []" using o(3,5) by auto
  then obtain ss c where ss: "streams s = ss @ [c]" by (metis append_butlast_last_id)
  from o(5) obtain before now where s: "whole = before @ [now]" by (metis append_butlast_last_id)
  from o(3) ss s have "list_all2 carries before ss" "carries now c"
    by (auto simp: list_all2_append2 list_all2_Cons2 append_eq_append_conv2 Cons_eq_append_conv)
  with o ss s show ?thesis by (intro that [of ss now before]) (auto simp: carries_def)
qed

lemma ipc_ok_written:
  assumes "ipc_ok s" "holding s = Some f" "0 \<le> socket_fd s" "write_frame turns f = Some (True, out, rest)"
  shows "ipc_ok (s\<lparr>holding := None, streams := append_last (streams s) out\<rparr>)"
proof -
  from current_connection [OF assms(1-3)] obtain before now ss where
    c: "streams s = ss @ [concat (map frame_wire now)]" "list_all2 carries before ss"
      "list_all sendable (now @ [f])" "in_order s (concat (before @ [now]))" "writer_ok (writer s)" by blast
  have out: "out = frame_wire f" using write_frame_wire [OF assms(4)] by simp
  show ?thesis
    by (rule ipc_okI [of _ "before @ [now @ [f]]"])
       (use c assms(2) carries_whole [OF c(3)] in
         \<open>auto simp: out append_last_def held_def in_order_def list_all2_appendI\<close>)
qed

lemma ipc_ok_write_failed:
  assumes "ipc_ok s" "holding s = Some f" "0 \<le> socket_fd s" "write_frame turns f = Some (False, out, rest)"
  shows "ipc_ok (s\<lparr>socket_fd := -1, streams := append_last (streams s) out\<rparr>)"
proof -
  from current_connection [OF assms(1-3)] obtain before now ss where
    c: "streams s = ss @ [concat (map frame_wire now)]" "list_all2 carries before ss"
      "list_all sendable (now @ [f])" "in_order s (concat (before @ [now]))" "writer_ok (writer s)" by blast
  have "strict_prefix out (frame_wire f)" using write_frame_wire [OF assms(4)] by simp
  then have "carries now (concat (map frame_wire now) @ out)" using c(3) by (auto simp: carries_def)
  with c assms(2) show ?thesis
    by (intro ipc_okI [of _ "before @ [now]"])
       (auto simp: append_last_def held_def in_order_def list_all2_appendI)
qed

lemma ipc_ok_step: "ipc_step path s s' \<Longrightarrow> ipc_ok s \<Longrightarrow> ipc_ok s'"
proof (induction rule: ipc_step.induct)
  case (send frame s ok w)
  then obtain whole where o: "writer_ok (writer s)" "list_all sendable (held s)" "list_all2 carries whole (streams s)"
    "in_order s (concat whole)"
    "0 \<le> socket_fd s \<longrightarrow> whole \<noteq> [] \<and> last (streams s) = concat (map frame_wire (last whole))"
    by (auto simp: ipc_ok_def)
  have w: "writer_ok w" "w_frames w = w_frames (writer s) @ (if ok then [frame] else [])"
    using writer_send_ok [OF o(1) send(1)] by auto
  from o(4) have "subseq ((concat whole @ held s @ w_frames (writer s)) @ (if ok then [frame] else []))
      (accepted s @ (if ok then [frame] else []))"
    unfolding in_order_def by (intro list_emb_append_mono) auto
  then have "in_order (s\<lparr>writer := w, accepted := accepted s @ (if ok then [frame] else [])\<rparr>) (concat whole)"
    using o(4) w(2) by (auto simp: in_order_def held_def)
  with o w(1) show ?case by (intro ipc_okI [of _ whole]) (auto simp: held_def)
next
  case (take s frame fs)
  then have "in_order (s\<lparr>writer := writer_take (writer s), holding := Some frame\<rparr>) done = in_order s done" for "done"
    by (simp add: in_order_def held_def writer_take_def)
  with take writer_take_ok [of "writer s" frame fs] show ?case by (auto simp: ipc_ok_def held_def)
next
  case (connect_failed s frame os)
  have "ipc_ok (s\<lparr>socket_fd := connect_unix os path\<rparr>)"
    using connect_failed by (auto simp: ipc_ok_def held_def in_order_def)
  from ipc_ok_put_back [OF this] connect_failed show ?case by simp
next
  case (connected s frame os)
  then obtain whole where o: "writer_ok (writer s)" "list_all sendable (held s)" "list_all2 carries whole (streams s)"
    "in_order s (concat whole)" by (auto simp: ipc_ok_def)
  with carries_whole [of "[]"] show ?case
    by (intro ipc_okI [of _ "whole @ [[]]"]) (auto simp: held_def in_order_def list_all2_appendI)
next
  case (written s frame turns out rest)
  then show ?case using ipc_ok_written by blast
next
  case (write_failed s frame turns out rest)
  from ipc_ok_write_failed [OF write_failed(5,1,2,4)] write_failed(1) show ?case
    by (intro ipc_ok_put_back) auto
qed (auto simp: ipc_ok_def held_def in_order_def)

lemma ipc_ok_reachable: "(ipc_step path)\<^sup>*\<^sup>* start_ipc s \<Longrightarrow> ipc_ok s"
proof (induction rule: rtranclp_induct)
  case base
  show ?case
    by (rule ipc_okI [of _ "[]"])
       (simp_all add: start_ipc_def writer_ok_def held_def in_order_def)
qed (rule ipc_ok_step)

section \<open>Properties\<close>

lemma sessions_prefix:
  assumes "list_all2 carries whole ss" "list_all2 (\<lambda>(stops, turns, input) stream. prefix input stream) sessions ss"
  shows "subseq (receive_sessions sessions) (concat whole)"
  using assms
proof (induction sessions arbitrary: whole ss)
  case (Cons x sessions)
  obtain stops turns input where x: "x = (stops, turns, input)" by (metis prod_cases3)
  from Cons.prems x obtain st ss' fs whole' where s: "ss = st # ss'" "whole = fs # whole'" "carries fs st"
    "prefix input st" "list_all2 carries whole' ss'"
    "list_all2 (\<lambda>(stops, turns, input) stream. prefix input stream) sessions ss'"
    by (auto simp: list_all2_Cons1 list_all2_Cons2)
  from s(3,4) have "prefix (receive_client stops turns input) fs"
    by (auto simp: carries_def intro: receive_client_prefix)
  then have "subseq (receive_client stops turns input) fs" by (rule prefix_imp_subseq)
  with Cons.IH [OF s(5,6)] show ?case
    by (auto simp: receive_sessions_def x s intro: list_emb_append_mono)
qed (simp add: receive_sessions_def)

lemma sessions_all:
  assumes "list_all2 carries whole ss" "map (\<lambda>(stops, turns, input). input) sessions = ss" "list_all patient sessions"
  shows "receive_sessions sessions = concat whole"
  using assms
proof (induction sessions arbitrary: whole ss)
  case (Cons x sessions)
  obtain stops turns input where x: "x = (stops, turns, input)" by (metis prod_cases3)
  from Cons.prems x obtain fs whole' where s: "whole = fs # whole'" "carries fs input" "patient x"
    "list_all2 carries whole' (map (\<lambda>(stops, turns, input). input) sessions)" "list_all patient sessions"
    by (auto simp: list_all2_Cons2)
  from s(2) obtain p g where c: "input = concat (map frame_wire fs) @ p" "list_all sendable fs" "sendable g"
    "strict_prefix p (frame_wire g)" by (auto simp: carries_def)
  have "prefix (receive_client stops turns input) fs"
    by (rule receive_client_prefix [OF _ c(2-4)]) (simp add: c(1))
  with receive_client_all [OF c(1,2)] s(3) x have "receive_client stops turns input = fs"
    by (fastforce simp: prefix_def)
  with Cons.IH [OF s(4) refl s(5)] show ?case by (simp add: receive_sessions_def x s)
qed (simp add: receive_sessions_def)

text \<open>
  C4: The two ends together deliver in order and at most once.  Whatever the interleaving of
  producers, connection failures, interrupted writes, reconnections and the stop request,
  and whatever part of each connection the receiver has read, the frames its callback has seen
  are, in order, among the frames \<open>send\<close> accepted, none of them twice: a frame that is
  sent again after a failure was not complete on the failed connection.  If \<open>requeue\<close>
  never gave a frame up and the receiver reads every connection to its end, then the
  frames seen, the frame in the writer's hands and those queued are exactly the accepted ones.
\<close>

theorem ipc_exactly_once:
  assumes "(ipc_step path)\<^sup>*\<^sup>* start_ipc s"
    and "list_all2 (\<lambda>(stops, turns, input) stream. prefix input stream) sessions (streams s)"
  shows "subseq (receive_sessions sessions) (accepted s) \<and>
         (given_up s = [] \<longrightarrow> map (\<lambda>(stops, turns, input). input) sessions = streams s \<longrightarrow>
            list_all patient sessions \<longrightarrow>
            receive_sessions sessions @ held s @ w_frames (writer s) = accepted s)"
proof -
  from ipc_ok_reachable [OF assms(1)] obtain whole where w: "list_all2 carries whole (streams s)"
    "subseq (concat whole @ held s @ w_frames (writer s)) (accepted s)"
    "given_up s = [] \<longrightarrow> concat whole @ held s @ w_frames (writer s) = accepted s"
    by (auto simp: ipc_ok_def in_order_def)
  have "subseq (concat whole) (accepted s)"
    using w(2) by (meson list_emb_append2 prefix_imp_subseq prefixI subseq_order.trans)
  with sessions_prefix [OF w(1) assms(2)] w(3) sessions_all [OF w(1)] show ?thesis
    by (auto intro: subseq_order.trans)
qed

definition ready_turn :: send_turn where
  "ready_turn = \<lparr>remaining = 1, poll_ready = 1, poll_eintr = False, poll_error = False, send_count = 9,
     send_again = False\<rparr>"

definition ready_recv :: ipc_recv_turn where
  "ready_recv = \<lparr>recv_remaining = 1, recv_ready = 1, recv_eintr = False, revents_nval = False,
     revents_in = True, recv_count = 9, recv_again = False\<rparr>"

definition ready_connect :: connect_os where
  "ready_connect = \<lparr>c_socket = 3, c_connect = 0, c_in_progress = False, c_poll = 1, c_poll_error = False,
     c_getsockopt = 0, c_socket_error = 0\<rparr>"

definition one_frame :: ipc_world where
  "one_frame = start_ipc\<lparr>socket_fd := 3, streams := [frame_wire [7]], accepted := [[7]]\<rparr>"

lemma one_frame_reachable: "(ipc_step ''ipc'')\<^sup>*\<^sup>* start_ipc one_frame"
proof -
  define s1 where "s1 = start_ipc\<lparr>writer := \<lparr>w_frames = [[7]], w_queued_bytes = 1\<rparr>, accepted := [[7]]\<rparr>"
  define s2 where "s2 = s1\<lparr>writer := \<lparr>w_frames = [], w_queued_bytes = 0\<rparr>, holding := Some [7]\<rparr>"
  define s3 where "s3 = s2\<lparr>socket_fd := 3, streams := [[]]\<rparr>"
  note d = s3_def s2_def s1_def start_ipc_def
  have 1: "ipc_step ''ipc'' start_ipc s1"
    using ipc_step.send [of "[7]" start_ipc True "\<lparr>w_frames = [[7]], w_queued_bytes = 1\<rparr>" "''ipc''"]
    by (simp add: d writer_send_def kMaximumFrameSize_def kMaximumIpcBytes_def kMaximumIpcFrames_def)
  have 2: "ipc_step ''ipc'' s1 s2"
    using ipc_step.take [of s1 "[7]" "[]" "''ipc''"] by (simp add: d writer_take_def)
  have 3: "ipc_step ''ipc'' s2 s3"
    using ipc_step.connected [of s2 "[7]" ready_connect "''ipc''"]
    by (simp add: d connect_unix_def ready_connect_def)
  have 4: "ipc_step ''ipc'' s3 one_frame"
    using ipc_step.written [of s3 "[7]" "replicate 2 (False, ready_turn)" "frame_wire [7]" "[]" "''ipc''"]
    by (simp add: d one_frame_def write_frame_def ready_turn_def frame_wire_def media_header_def be_bytes_def
        upt_rec append_last_def numeral_2_eq_2)
  from 1 2 3 4 show ?thesis by (meson rtranclp.rtrancl_refl rtranclp.rtrancl_into_rtrancl)
qed

theorem ipc_exactly_once_witness:
  "receive_sessions [(replicate 5 False, replicate 5 (False, ready_recv), frame_wire [7])] = [[7]]"
  using ipc_exactly_once [OF one_frame_reachable,
      of "[(replicate 5 False, replicate 5 (False, ready_recv), frame_wire [7])]"]
  by (simp add: one_frame_def start_ipc_def held_def patient_def smooth_recv_def ready_recv_def
      frame_wire_def list_all_length)

text \<open>
  The queue of the writer is bounded in every reachable state: at most 256 frames and 16 MiB, the byte
  counter is exact, and every frame in it or in the writer's hands is one the receiver accepts.
\<close>

theorem ipc_queue_bounded:
  assumes "(ipc_step path)\<^sup>*\<^sup>* start_ipc s"
  shows "length (w_frames (writer s)) \<le> 256 \<and> w_queued_bytes (writer s) \<le> 16777216 \<and>
         w_queued_bytes (writer s) = sum_list (map length (w_frames (writer s))) \<and>
         list_all (\<lambda>f. f \<noteq> [] \<and> length f \<le> 4194304) (held s @ w_frames (writer s))"
  using ipc_ok_reachable [OF assms]
  by (auto simp: ipc_ok_def writer_ok_def kMaximumIpcFrames_def kMaximumIpcBytes_def sendable_def
      kMaximumFrameSize_def list_all_iff)

theorem ipc_queue_bounded_witness: "w_queued_bytes (writer one_frame) \<le> 16777216"
  using ipc_queue_bounded [OF one_frame_reachable] by simp

lemma ipc_receive_all_returns:
  "(stop, t) \<in> set turns \<Longrightarrow> recv_remaining t \<le> 0 \<Longrightarrow> ipc_receive_all turns input n \<noteq> None"
proof (induction turns arbitrary: input n)
  case (Cons u turns)
  obtain stop' t' where u: "u = (stop', t')" by fastforce
  show ?case
  proof (cases "recv_remaining t' \<le> 0")
    case True
    then show ?thesis by (cases n) (auto simp: u)
  next
    case False
    with Cons u have "ipc_receive_all turns xs k \<noteq> None" for xs k by auto
    with False u show ?thesis
      by (cases n) (simp_all del: not_None_eq add: Let_def split: option.split prod.split)
  qed
qed simp

text \<open>
  No transfer waits longer than its deadline: once a round of the sending or of the receiving
  loop finds the deadline passed, the loop has returned, whatever the socket did before;
  sending returns true exactly when everything was sent, and receiving only with all the bytes
  asked for.
\<close>

theorem ipc_transfers_return:
  assumes "(stop, t) \<in> set turns" "remaining t \<le> 0" "(rstop, u) \<in> set rturns" "recv_remaining u \<le> 0"
  shows "(\<exists>ok out rest. ipc_send_all turns bs = Some (ok, out, rest) \<and> prefix out bs \<and> (ok \<longleftrightarrow> out = bs)) \<and>
         (\<exists>ok got left rest. ipc_receive_all rturns input n = Some (ok, got, left, rest) \<and>
            (ok \<longrightarrow> input = got @ left \<and> length got = n))"
proof
  obtain ok out rest where s: "ipc_send_all turns bs = Some (ok, out, rest)"
    using ipc_send_all_returns [OF assms(1,2), of bs] by auto
  from ipc_send_all_prefix [OF this] have "prefix out bs \<and> (ok \<longleftrightarrow> out = bs)"
    by (cases ok) (auto simp: strict_prefix_def)
  with s show "\<exists>ok out rest. ipc_send_all turns bs = Some (ok, out, rest) \<and> prefix out bs \<and> (ok \<longleftrightarrow> out = bs)"
    by blast
  obtain ok got left rest where "ipc_receive_all rturns input n = Some (ok, got, left, rest)"
    using ipc_receive_all_returns [OF assms(3,4), of input n] by auto
  with ipc_receive_all_splits [of rturns input n got left rest] show "\<exists>ok got left rest. ipc_receive_all rturns input n = Some (ok, got, left, rest) \<and>
      (ok \<longrightarrow> input = got @ left \<and> length got = n)"
    by (intro exI [of _ ok] exI [of _ got] exI [of _ left] exI [of _ rest]) auto
qed

theorem ipc_transfers_return_witness:
  "\<exists>ok out rest. ipc_send_all [(False, ready_turn\<lparr>remaining := 0\<rparr>)] [1] = Some (ok, out, rest) \<and> (ok \<longleftrightarrow> out = [1])"
  using ipc_transfers_return [of False "ready_turn\<lparr>remaining := 0\<rparr>" "[(False, ready_turn\<lparr>remaining := 0\<rparr>)]"
      False "ready_recv\<lparr>recv_remaining := 0\<rparr>" "[(False, ready_recv\<lparr>recv_remaining := 0\<rparr>)]" "[1]"]
  by fastforce

end
