(* ===== verification/Bridge_Worker.thy ===== *)
theory Bridge_Worker
  imports Bytes_Prelude
begin

text \<open>
  The daemon's side of the CarPlay worker process and the command loop of its child
  (\<open>src/src/bridge/carplay_worker.cpp\<close>).  Daemon and child exchange packets over a
  \<open>SOCK_SEQPACKET\<close> socket: 1 starts a session with its arguments, 2 stops it (and, in the
  other direction, reports its result), 3 asks the daemon for a pairing confirmation and 4
  answers it.  What the operating system answers in a round of a loop (clock, \<open>poll\<close>, the
  packet received, \<open>waitpid\<close>) is a record that the model takes as an argument; what the loop
  does to the outside is a list of events.  The session itself runs in a thread of the child
  and is not part of this theory.
\<close>

section \<open>Packets\<close>

text \<open>
  \<open>PairingConfirmationMessage\<close> and its bytes in memory on the little-endian machines the
  program runs on: 8 for the identifier, 4 for the passkey, 18 for the address, 2 of padding.
\<close>

record pairing_message =
  pm_id :: u64
  pm_passkey :: u32
  pm_address :: bytes

definition sizeof_pairing_message :: nat where
  "sizeof_pairing_message = 32"

definition pairing_bytes :: "pairing_message \<Rightarrow> bytes" where
  "pairing_bytes m = le_bytes 8 (pm_id m) @ le_bytes 4 (ucast (pm_passkey m)) @ pm_address m @ [0, 0]"

definition pairing_of :: "bytes \<Rightarrow> pairing_message" where
  "pairing_of bs = \<lparr>pm_id = le_value (take 8 bs), pm_passkey = ucast (le_value (take 4 (drop 8 bs))),
     pm_address = take 18 (drop 12 bs)\<rparr>"

text \<open>The request of \<open>run\<close>: the command and the arguments, each with its NUL.\<close>

definition run_request :: "string list \<Rightarrow> bytes" where
  "run_request arguments = 1 # concat (map (\<lambda>argument. bytes_of argument @ [0]) arguments)"

definition answer_message :: "pairing_message \<Rightarrow> bool \<Rightarrow> bytes" where
  "answer_message m confirmed = 4 # pairing_bytes m @ [if confirmed then 1 else 0]"

text \<open>What a finished session sends back.\<close>

definition result_message :: "int \<Rightarrow> bytes" where
  "result_message result = 2 # le_bytes 4 (ucast (word_of_int result :: u32))"

section \<open>The command loop of the child\<close>

datatype child_action =
    Child_exit
  | Stop_session
  | Answer_confirmation u64 bool
  | Start_session "string list"
  | Ignore_command

text \<open>
  The pointer loop over the arguments: \<open>strlen\<close> reads on in the buffer, past the packet if
  that does not end with a NUL.
\<close>

function child_arguments :: "bytes \<Rightarrow> nat \<Rightarrow> nat \<Rightarrow> string list" where
  "child_arguments buffer count pos =
     (if pos < count
      then (let argument = takeWhile (\<lambda>b. b \<noteq> 0) (drop pos buffer)
            in text_of argument # child_arguments buffer count (pos + length argument + 1))
      else [])"
  by pat_completeness auto
termination
  by (relation "measure (\<lambda>(buffer, count, pos). count - pos)") auto

declare child_arguments.simps [simp del]

text \<open>
  One round: a packet arrives in the buffer of 8192 bytes, which keeps what earlier packets
  left behind it.  The empty packet stands for the end of the connection and for an error.
\<close>

definition child_receive :: "bytes \<Rightarrow> bytes \<Rightarrow> child_action \<times> bytes" where
  "child_receive buffer packet =
     (let received = take 8192 packet;
          count = length received;
          request = received @ drop count buffer
      in (if count = 0 then Child_exit
          else if request ! 0 = 2 then Stop_session
          else if request ! 0 = 4 \<and> count = 1 + sizeof_pairing_message + 1 then
            Answer_confirmation (pm_id (pairing_of (take sizeof_pairing_message (drop 1 request))))
              (request ! (1 + sizeof_pairing_message) \<noteq> 0)
          else if request ! 0 \<noteq> 1 then Ignore_command
          else Start_session (child_arguments request count 1),
          request))"

section \<open>Running a session\<close>

record carplay_worker =
  pid :: int
  control_fd :: int
  output_fd :: int

text \<open>\<open>no_group\<close>: killing the group failed with \<open>ESRCH\<close>.  The processes that are sent \<open>SIGKILL\<close>.\<close>

definition kill_worker_process_group :: "bool \<Rightarrow> int \<Rightarrow> int list" where
  "kill_worker_process_group no_group p = (if 0 < p then - p # (if no_group then [p] else []) else [])"

datatype run_event =
    Kill_group int
  | Connection_lost
  | Output bytes
  | Pairing_confirmation pairing_message
  | Pairing_reset
  | Send_stop int

record run_turn =
  now :: int
  polled :: int
  output_failed :: bool
  control_failed :: bool
  output_ready :: bool
  control_ready :: bool
  output_read :: bytes
  control_packet :: bytes
  stop_wanted :: bool
  stop_now :: int

record run_state =
  stopping :: bool
  stop_deadline :: "int option"

text \<open>
  A round of the loop in \<open>run\<close>: its events, its result if it returns, and the state.  The
  clock is in milliseconds; \<open>now\<close> is its reading at the top of a round, \<open>stop_now\<close> the one
  when the stop command has been sent.
\<close>

definition kill_due :: "run_turn \<Rightarrow> run_state \<Rightarrow> bool" where
  "kill_due t s = (stopping s \<and> (case stop_deadline s of None \<Rightarrow> False | Some d \<Rightarrow> d < now t))"

definition check_stop :: "run_turn \<Rightarrow> run_state \<Rightarrow> run_event list \<times> int option \<times> run_state" where
  "check_stop t s =
     (if \<not> stopping s \<and> stop_wanted t
      then ([Send_stop (stop_now t)], None, s\<lparr>stopping := True, stop_deadline := Some (stop_now t + 10000)\<rparr>)
      else ([], None, s))"

definition control_round :: "run_turn \<Rightarrow> run_state \<Rightarrow> run_event list \<times> int option \<times> run_state" where
  "control_round t s =
     (let message = take (1 + sizeof_pairing_message + 1) (control_packet t);
          count = length message
      in if 0 < count \<and> message ! 0 = 3 \<and> count = 1 + sizeof_pairing_message
         then ([Pairing_confirmation (pairing_of (drop 1 message))], None, s)
         else if count = 1 + 4 \<and> message ! 0 = 2
         then ([Pairing_reset], Some (sint (ucast (le_value (drop 1 message)) :: u32)), s)
         else ([], Some 1, s))"

definition run_round :: "run_turn \<Rightarrow> run_state \<Rightarrow> run_event list \<times> int option \<times> run_state" where
  "run_round t s =
     (let (killed, s) = (if kill_due t s then ([Kill_group (now t)], s\<lparr>stop_deadline := None\<rparr>) else ([], s));
          (events, result, s) =
            (if 0 < polled t then
               (if output_failed t \<or> control_failed t then ([Connection_lost], Some 1, s)
                else (let shown = (if output_ready t \<and> output_read t \<noteq> [] then [Output (output_read t)] else [])
                      in case (if control_ready t then control_round t s else check_stop t s) of
                           (events, result, s) \<Rightarrow> (shown @ events, result, s)))
             else check_stop t s)
      in (killed @ events, result, s))"

text \<open>The loop; \<open>None\<close> while it has not returned.\<close>

fun run_rounds :: "run_turn list \<Rightarrow> run_state \<Rightarrow> run_event list \<times> int option" where
  "run_rounds [] s = ([], None)"
| "run_rounds (t # turns) s =
     (case run_round t s of
        (events, Some result, s') \<Rightarrow> (events, Some result)
      | (events, None, s') \<Rightarrow> (case run_rounds turns s' of (more_events, result) \<Rightarrow> (events @ more_events, result)))"

text \<open>
  \<open>run\<close>: the events, the result and the value of \<open>active_child\<close>.  \<open>sent\<close> is whether the
  request could be sent.
\<close>

definition worker_run ::
  "carplay_worker \<Rightarrow> string list \<Rightarrow> bool \<Rightarrow> int \<Rightarrow> run_turn list \<Rightarrow> run_event list \<times> int option \<times> int" where
  "worker_run w arguments sent active turns =
     (if pid w \<le> 0 \<or> control_fd w < 0 then ([], Some 1, active)
      else if 8192 < length (run_request arguments) \<or> \<not> sent then ([], Some 1, active)
      else (case run_rounds turns \<lparr>stopping = False, stop_deadline = None\<rparr> of
              (events, None) \<Rightarrow> (events, None, pid w)
            | (events, Some result) \<Rightarrow> (events, Some result, -1)))"

text \<open>\<open>answer_pairing_confirmation\<close>: the packet and whether it was handed to the socket.\<close>

definition worker_answer :: "carplay_worker \<Rightarrow> pairing_message \<Rightarrow> bool \<Rightarrow> int \<Rightarrow> bytes option" where
  "worker_answer w m confirmed sent =
     (if 0 \<le> control_fd w \<and> sent = int (length (answer_message m confirmed))
      then Some (answer_message m confirmed) else None)"

section \<open>The end of the worker\<close>

text \<open>
  The wait of the destructor, one entry per \<open>waitpid\<close>: its result, whether it was
  interrupted, and the clock at the end of the round.  The result is the last \<open>waited\<close>.
\<close>

fun await_exit :: "(int \<times> bool \<times> int) list \<Rightarrow> int \<Rightarrow> int option" where
  "await_exit [] deadline = None"
| "await_exit ((waited, eintr, clock) # turns) deadline =
     (if waited < 0 \<and> eintr then await_exit turns deadline
      else if waited = 0 \<and> clock < deadline then await_exit turns deadline
      else Some waited)"

definition destroy_worker :: "carplay_worker \<Rightarrow> bool \<Rightarrow> (int \<times> bool \<times> int) list \<Rightarrow> int \<Rightarrow> int list option" where
  "destroy_worker w no_group turns start =
     (if 0 < pid w then
        (case await_exit turns (start + 2000) of
           None \<Rightarrow> None
         | Some waited \<Rightarrow> Some (if waited = 0 then kill_worker_process_group no_group (pid w) else []))
      else Some [])"

section \<open>Packets are read back\<close>

lemma length_pairing_bytes [simp]: "length (pm_address m) = 18 \<Longrightarrow> length (pairing_bytes m) = 32"
  by (simp add: pairing_bytes_def)

lemma ucast_u32 [simp]: "ucast (take_bit 32 (ucast (v :: u32)) :: u64) = v"
  by (rule bit_word_eqI) (auto simp: bit_simps)

lemma pairing_of_bytes [simp]: "length (pm_address m) = 18 \<Longrightarrow> pairing_of (pairing_bytes m) = m"
  by (simp add: pairing_of_def pairing_bytes_def codec_simps)

lemma byte_of_char_0 [simp]: "byte_of_char (CHR 0x00) = 0"
  by (simp add: byte_of_char_def)

lemma byte_of_char_eq_0: "byte_of_char c = 0 \<longleftrightarrow> c = CHR 0x00"
  using byte_of_char_0 char_of_byte_of_char by metis

lemma child_arguments_request:
  assumes "\<And>a. a \<in> set arguments \<Longrightarrow> CHR 0x00 \<notin> set a"
    and "buffer = pre @ concat (map (\<lambda>a. bytes_of a @ [0]) arguments) @ stale"
  shows "child_arguments buffer (length buffer - length stale) (length pre) = arguments"
  using assms
proof (induction arguments arbitrary: pre)
  case Nil
  then show ?case by (simp add: child_arguments.simps)
next
  case (Cons a arguments)
  have *: "takeWhile (\<lambda>b. b \<noteq> 0) (bytes_of a @ 0 # rest) = bytes_of a" for rest
    using Cons.prems(1) [of a] by (subst takeWhile_append2) (auto simp: byte_of_char_eq_0)
  have "child_arguments buffer (length buffer - length stale) (length (pre @ bytes_of a @ [0])) = arguments"
    by (rule Cons.IH) (use Cons.prems in auto)
  then show ?case
    by (subst child_arguments.simps) (simp add: Cons.prems(2) * Let_def comp_def)
qed

lemma child_receive_request:
  assumes "list_all (\<lambda>a. CHR 0x00 \<notin> set a) arguments" "length (run_request arguments) \<le> 8192"
  shows "fst (child_receive buffer (run_request arguments)) = Start_session arguments"
proof -
  let ?req = "run_request arguments" and ?stale = "drop (length (run_request arguments)) buffer"
  have "child_arguments (?req @ ?stale) (length (?req @ ?stale) - length ?stale) (length [1 :: byte]) = arguments"
    by (rule child_arguments_request) (use assms in \<open>auto simp: run_request_def list_all_iff\<close>)
  then have "child_arguments (?req @ ?stale) (length ?req) 1 = arguments" by simp
  moreover have "?req \<noteq> []" "(?req @ ?stale) ! 0 = 1" by (simp_all add: run_request_def)
  ultimately show ?thesis using assms by (simp add: child_receive_def Let_def)
qed

lemma child_receive_answer:
  "length (pm_address m) = 18 \<Longrightarrow>
     fst (child_receive buffer (answer_message m confirmed)) = Answer_confirmation (pm_id m) confirmed"
  by (simp add: child_receive_def Let_def answer_message_def sizeof_pairing_message_def nth_append)

lemma control_round_request:
  "length (pm_address m) = 18 \<Longrightarrow>
     control_round (t\<lparr>control_packet := 3 # pairing_bytes m\<rparr>) s = ([Pairing_confirmation m], None, s)"
  by (simp add: control_round_def Let_def sizeof_pairing_message_def)

lemma control_round_result:
  "control_round (t\<lparr>control_packet := result_message result\<rparr>) s =
     ([Pairing_reset], Some (sint (word_of_int result :: u32)), s)"
  by (simp add: control_round_def Let_def sizeof_pairing_message_def result_message_def codec_simps)

section \<open>Properties\<close>

text \<open>
  C15: The child understands its daemon.  A request that \<open>run\<close> does not refuse starts a session
  with exactly the arguments given, empty ones included, whatever earlier packets left in the
  buffer; an answer to a pairing confirmation arrives with its identifier and decision; and
  the daemon reads the result of a session as the \<open>int\<close> the session returned, and a request for
  a confirmation as the message the child sent.
\<close>

theorem worker_packets_roundtrip:
  "(list_all (\<lambda>a. CHR 0x00 \<notin> set a) arguments \<and> length (run_request arguments) \<le> 8192 \<longrightarrow>
      fst (child_receive buffer (run_request arguments)) = Start_session arguments) \<and>
   (length (pm_address m) = 18 \<longrightarrow>
      fst (child_receive buffer (answer_message m confirmed)) = Answer_confirmation (pm_id m) confirmed \<and>
      fst (control_round (t\<lparr>control_packet := 3 # pairing_bytes m\<rparr>) s) = [Pairing_confirmation m]) \<and>
   (- (2 ^ 31) \<le> result \<and> result < 2 ^ 31 \<longrightarrow>
      control_round (t\<lparr>control_packet := result_message result\<rparr>) s = ([Pairing_reset], Some result, s))"
proof -
  have "- (2 ^ 31) \<le> result \<and> result < 2 ^ 31 \<Longrightarrow> sint (word_of_int result :: u32) = result"
    by (simp add: sint_sbintrunc' signed_take_bit_int_eq_self)
  then show ?thesis
    by (simp add: child_receive_request child_receive_answer control_round_request control_round_result)
qed

theorem worker_packets_roundtrip_witness:
  "fst (child_receive [] (run_request [''--carplay'', ''''])) = Start_session [''--carplay'', '''']"
  using worker_packets_roundtrip [of "[''--carplay'', '''']" "[]"] by (simp add: run_request_def)

lemma check_stop_cases:
  "check_stop t s = (if \<not> stopping s \<and> stop_wanted t
     then ([Send_stop (stop_now t)], None, \<lparr>stopping = True, stop_deadline = Some (stop_now t + 10000)\<rparr>)
     else ([], None, s))"
  by (cases s) (simp add: check_stop_def)

definition is_stop :: "run_event \<Rightarrow> bool" where
  "is_stop e = (case e of Send_stop _ \<Rightarrow> True | _ \<Rightarrow> False)"

definition is_kill :: "run_event \<Rightarrow> bool" where
  "is_kill e = (case e of Kill_group _ \<Rightarrow> True | _ \<Rightarrow> False)"

definition signals :: "run_event list \<Rightarrow> run_event list" where
  "signals = filter (\<lambda>e. is_stop e \<or> is_kill e)"

lemma signals_append [simp]: "signals (es @ es') = signals es @ signals es'"
  by (simp add: signals_def)

text \<open>What a round signals in each of the three states of the stop.\<close>

lemma run_round_signals:
  assumes "run_round t s = (events, result, s')"
  shows "\<not> stopping s \<Longrightarrow> (signals events = [] \<and> s' = s) \<or>
           (result = None \<and> stop_wanted t \<and> signals events = [Send_stop (stop_now t)] \<and>
            s' = \<lparr>stopping = True, stop_deadline = Some (stop_now t + 10000)\<rparr>)"
    and "s = \<lparr>stopping = True, stop_deadline = Some d\<rparr> \<Longrightarrow>
           (if d < now t then signals events = [Kill_group (now t)] \<and> s' = \<lparr>stopping = True, stop_deadline = None\<rparr>
            else signals events = [] \<and> s' = s)"
    and "s = \<lparr>stopping = True, stop_deadline = None\<rparr> \<Longrightarrow> signals events = [] \<and> s' = s"
  using assms
  by (auto simp: run_round_def Let_def kill_due_def check_stop_cases control_round_def signals_def is_stop_def
      is_kill_def split: if_splits prod.splits option.splits)

lemma run_rounds_killed:
  "run_rounds turns \<lparr>stopping = True, stop_deadline = None\<rparr> = (events, result) \<Longrightarrow> signals events = []"
proof (induction turns arbitrary: events)
  case (Cons t turns)
  obtain es r s' where r: "run_round t \<lparr>stopping = True, stop_deadline = None\<rparr> = (es, r, s')"
    by (metis prod_cases3)
  with Cons run_round_signals(3) [OF r] show ?case by (auto split: option.splits prod.splits)
qed (simp add: signals_def)

lemma run_rounds_stopping:
  assumes "run_rounds turns \<lparr>stopping = True, stop_deadline = Some d\<rparr> = (events, result)"
  shows "(signals events = [] \<and> (result = None \<longrightarrow> (\<forall>u \<in> set turns. now u \<le> d))) \<or>
         (\<exists>t. d < t \<and> signals events = [Kill_group t])"
  using assms
proof (induction turns arbitrary: events)
  case (Cons t turns)
  obtain es r s' where r: "run_round t \<lparr>stopping = True, stop_deadline = Some d\<rparr> = (es, r, s')"
    by (metis prod_cases3)
  show ?case
  proof (cases r)
    case None
    with Cons.prems r obtain es' where es: "run_rounds turns s' = (es', result)" "events = es @ es'"
      by (auto split: prod.splits)
    show ?thesis
    proof (cases "d < now t")
      case True
      with run_round_signals(2) [OF r] es run_rounds_killed [of turns es' result] show ?thesis by auto
    next
      case False
      with run_round_signals(2) [OF r] es Cons.IH [of es'] show ?thesis by auto
    qed
  next
    case (Some x)
    with Cons.prems r run_round_signals(2) [OF r] show ?thesis by (auto split: if_splits)
  qed
qed (simp add: signals_def)

definition stop_seen :: "run_turn \<Rightarrow> bool" where
  "stop_seen t = (stop_wanted t \<and> (polled t \<le> 0 \<or> \<not> control_ready t))"

lemma run_round_stop_seen:
  assumes "run_round t s = (events, None, s')" "stop_seen t" "\<not> stopping s"
  shows "stopping s'"
  using assms
  by (auto simp: run_round_def Let_def kill_due_def check_stop_cases stop_seen_def split: if_splits)

lemma run_rounds_signals:
  assumes "run_rounds turns s = (events, result)" "\<not> stopping s"
  shows "(signals events = [] \<and> (result = None \<longrightarrow> (\<forall>t \<in> set turns. \<not> stop_seen t))) \<or>
         (\<exists>pre t post. turns = pre @ t # post \<and> stop_wanted t \<and>
            ((signals events = [Send_stop (stop_now t)] \<and>
                (result = None \<longrightarrow> (\<forall>u \<in> set post. now u \<le> stop_now t + 10000))) \<or>
             (\<exists>k. stop_now t + 10000 < k \<and> signals events = [Send_stop (stop_now t), Kill_group k])))"
  using assms
proof (induction turns arbitrary: events)
  case (Cons t turns)
  obtain es r s' where r: "run_round t s = (es, r, s')" by (metis prod_cases3)
  show ?case
  proof (cases "signals es = [] \<and> s' = s")
    case True
    show ?thesis
    proof (cases r)
      case None
      with Cons.prems(1) r True obtain es' where es: "run_rounds turns s = (es', result)" "events = es @ es'"
        by (auto split: prod.splits)
      have "\<not> stop_seen t" using run_round_stop_seen [of t s es s'] r None True Cons.prems(2) by auto
      with Cons.IH [OF es(1) Cons.prems(2)] es(2) True show ?thesis
        by simp (metis append_Cons)
    next
      case (Some x)
      with Cons.prems r True show ?thesis by auto
    qed
  next
    case False
    with run_round_signals(1) [OF r] Cons.prems(2) have st: "r = None" "stop_wanted t" "signals es = [Send_stop (stop_now t)]"
      "s' = \<lparr>stopping = True, stop_deadline = Some (stop_now t + 10000)\<rparr>" by auto
    with Cons.prems r obtain es' where es: "run_rounds turns s' = (es', result)" "events = es @ es'"
      by (auto split: prod.splits)
    from run_rounds_stopping [of turns "stop_now t + 10000" es' result] es st show ?thesis
      by (intro disjI2 exI [of _ "[]"] exI [of _ t] exI [of _ turns]) auto
  qed
qed (simp add: signals_def)

text \<open>
  C17: Stopping a session escalates in order.  Over any number of rounds \<open>run\<close> sends at most one stop
  command, only after a stop was asked for, and kills the process group at most once, only after
  the command and more than ten seconds later.  As long as it has not returned it does both
  in time: a round that sees the request (and no packet of the child) has sent the command, and
  a round more than ten seconds later has killed the group.  A session that returned leaves no
  process marked as active.
\<close>

theorem worker_stop_escalates:
  assumes "worker_run w arguments sent active turns = (events, result, active')"
    and "0 < pid w" "0 \<le> control_fd w" "sent" "length (run_request arguments) \<le> 8192"
  shows "((signals events = [] \<and> (result = None \<longrightarrow> (\<forall>t \<in> set turns. \<not> stop_seen t))) \<or>
          (\<exists>pre t post. turns = pre @ t # post \<and> stop_wanted t \<and>
             ((signals events = [Send_stop (stop_now t)] \<and>
                 (result = None \<longrightarrow> (\<forall>u \<in> set post. now u \<le> stop_now t + 10000))) \<or>
              (\<exists>k. stop_now t + 10000 < k \<and> signals events = [Send_stop (stop_now t), Kill_group k])))) \<and>
         active' = (if result = None then pid w else -1)"
proof -
  from assms have "run_rounds turns \<lparr>stopping = False, stop_deadline = None\<rparr> = (events, result)"
    "active' = (if result = None then pid w else -1)"
    by (auto simp: worker_run_def split: prod.splits option.splits)
  with run_rounds_signals [OF this(1)] show ?thesis by simp
qed

definition idle_turn :: "int \<Rightarrow> bool \<Rightarrow> run_turn" where
  "idle_turn clock wanted = \<lparr>now = clock, polled = 0, output_failed = False, control_failed = False,
     output_ready = False, control_ready = False, output_read = [], control_packet = [],
     stop_wanted = wanted, stop_now = clock\<rparr>"

theorem worker_stop_escalates_witness:
  "signals (fst (worker_run \<lparr>pid = 7, control_fd = 3, output_fd = 4\<rparr> [] True (-1)
      [idle_turn 0 True, idle_turn 10001 True])) \<noteq> []"
  using worker_stop_escalates [of "\<lparr>pid = 7, control_fd = 3, output_fd = 4\<rparr>" "[]" True "-1"
      "[idle_turn 0 True, idle_turn 10001 True]"]
  by (auto simp: worker_run_def run_request_def run_round_def kill_due_def check_stop_def idle_turn_def stop_seen_def)

text \<open>The destructor kills only a child that is still there after two seconds.\<close>

lemma destroy_worker_kills_late:
  assumes "destroy_worker w no_group turns start = Some (k # ks)"
  shows "\<exists>turn \<in> set turns. fst turn = 0 \<and> start + 2000 \<le> snd (snd turn)"
proof -
  have "await_exit ts d = Some 0 \<Longrightarrow> \<exists>turn \<in> set ts. fst turn = 0 \<and> d \<le> snd (snd turn)" for ts d
    by (induction ts d rule: await_exit.induct) (auto split: if_splits)
  with assms show ?thesis by (auto simp: destroy_worker_def split: if_splits option.splits)
qed

end
