(* ===== verification/Management_State.thy ===== *)
theory Management_State
  imports Bridge_Worker
begin

text \<open>
  The state the management page shows and the background threads update: \<open>Snapshot\<close> and
  \<open>PreflightState\<close> of \<open>src/include/aa2acp/bridge/management_ui.hpp\<close> and
  \<open>BluetoothDevice\<close> of \<open>src/include/aa2acp/bridge/bluez_inventory.hpp\<close>.
\<close>

datatype preflight_state = Idle_state | Discovering | Pairing_prompt | Connecting | Succeeded | Failed_state

definition preflight_active :: "preflight_state \<Rightarrow> bool" where
  "preflight_active state = (state = Discovering \<or> state = Pairing_prompt \<or> state = Connecting)"

record bluetooth_device =
  bt_address :: string
  bt_name :: string
  bt_paired :: bool
  bt_connected :: bool

record snapshot =
  bluetooth_devices :: "bluetooth_device list"
  wifi_interfaces :: "string list"
  show_unnamed_bluetooth_devices :: bool
  bluetooth_scan_running :: bool
  bluetooth_scan_phase_id :: int
  bluetooth_scan_phase :: string
  bluetooth_error :: string
  preflight_state :: preflight_state
  preflight_revision :: u64
  preflight_detail :: string
  pairing_confirmation :: "pairing_message option"
  management_hotspot_password_pending :: bool
  pending_management_hotspot_ssid :: string

definition new_snapshot :: snapshot where
  "new_snapshot = \<lparr>bluetooth_devices = [], wifi_interfaces = [], show_unnamed_bluetooth_devices = False,
     bluetooth_scan_running = False, bluetooth_scan_phase_id = 0, bluetooth_scan_phase = ''idle'',
     bluetooth_error = [], preflight_state = Idle_state, preflight_revision = 0, preflight_detail = [],
     pairing_confirmation = None, management_hotspot_password_pending = False,
     pending_management_hotspot_ssid = []\<rparr>"

end
