(* ===== verification/Bridge_Pairing.thy ===== *)
theory Bridge_Pairing
  imports Management_State Text_Prelude
begin

text \<open>
  The Bluetooth pairing confirmation, from the request of BlueZ to the click of the user and
  back.  Five parts take part: the BlueZ agent of the worker
  (\<open>src/src/iap2/bluez_pairing.cpp\<close>), the register of the pending confirmation
  (\<open>src/src/iap2_bt_main.cpp\<close>), the control socket and its two loops
  (\<open>Bridge_Worker\<close>), the snapshot the management page shows and the handler of
  \<open>POST /bluetooth-confirm\<close> (\<open>src/src/bridge_daemon_main.cpp\<close>).  Each is modelled by
  functions; the relation \<open>pair_step\<close> composes them the way the threads and the two processes
  run.  A D-Bus method call is its number in the order of arrival; \<open>allocated\<close> says whether
  libdbus could allocate a reply.  Log lines are left out.

  The theorem is that BlueZ is told to accept a comparison only if the user confirmed the code
  of that very request, and that no call is answered twice.
\<close>

section \<open>The register of the pending confirmation\<close>

record register =
  pairing_control_fd :: int
  next_id :: u64
  pending_id :: u64
  pending_result :: int

definition new_register :: register where
  "new_register = \<lparr>pairing_control_fd = -1, next_id = 1, pending_id = 0, pending_result = -1\<rparr>"

definition set_pairing_confirmation_control_fd :: "int \<Rightarrow> register \<Rightarrow> register" where
  "set_pairing_confirmation_control_fd fd r = r\<lparr>pairing_control_fd := fd\<rparr>"

text \<open>The field \<open>address\<close> of the message, with its terminating zeros.\<close>

definition address_field :: "string \<Rightarrow> bytes" where
  "address_field address =
     (if length address < 18 then bytes_of address @ replicate (18 - length address) 0 else replicate 18 0)"

text \<open>\<open>sent\<close>: the packet was handed to the socket.  The result is the identifier and the packet.\<close>

definition request_pairing_confirmation ::
  "bool \<Rightarrow> string \<Rightarrow> u32 \<Rightarrow> register \<Rightarrow> (u64 \<times> bytes) option \<times> register" where
  "request_pairing_confirmation sent address passkey r =
     (if pairing_control_fd r < 0 \<or> pending_id r \<noteq> 0 then (None, r)
      else (let message = \<lparr>pm_id = next_id r, pm_passkey = passkey, pm_address = address_field address\<rparr>;
                r = r\<lparr>next_id := next_id r + 1\<rparr>
            in if \<not> sent then (None, r)
               else (Some (pm_id message, 3 # pairing_bytes message),
                     r\<lparr>pending_id := pm_id message, pending_result := -1\<rparr>)))"

definition pairing_confirmation_result :: "u64 \<Rightarrow> register \<Rightarrow> bool option \<times> register" where
  "pairing_confirmation_result ident r =
     (if pending_id r \<noteq> ident \<or> pending_result r < 0 then (None, r)
      else (Some (pending_result r = 1), r\<lparr>pending_id := 0, pending_result := -1\<rparr>))"

definition answer_pairing_confirmation :: "u64 \<Rightarrow> bool \<Rightarrow> register \<Rightarrow> register" where
  "answer_pairing_confirmation ident confirmed r =
     (if pending_id r = ident then r\<lparr>pending_result := (if confirmed then 1 else 0)\<rparr> else r)"

definition cancel_pairing_confirmation :: "u64 \<Rightarrow> register \<Rightarrow> register" where
  "cancel_pairing_confirmation ident r =
     (if pending_id r = ident then r\<lparr>pending_id := 0, pending_result := -1\<rparr> else r)"

section \<open>The BlueZ agent\<close>

record agent_context =
  pending_call :: "nat option"
  confirmation_id :: u64
  confirmation_deadline :: int

definition new_agent :: agent_context where
  "new_agent = \<lparr>pending_call = None, confirmation_id = 0, confirmation_deadline = 0\<rparr>"

text \<open>A reply to a call: a method return (\<open>True\<close>) or \<open>org.bluez.Error.Rejected\<close>.\<close>

definition reply :: "bool \<Rightarrow> nat \<Rightarrow> bool \<Rightarrow> (nat \<times> bool) list" where
  "reply allocated call accept = (if allocated then [(call, accept)] else [])"

definition resolve_pending_confirmation ::
  "bool \<Rightarrow> int \<Rightarrow> agent_context \<times> register \<Rightarrow> (nat \<times> bool) list \<times> agent_context \<times> register" where
  "resolve_pending_confirmation allocated clock = (\<lambda>(a, r).
     case pending_call a of
       None \<Rightarrow> ([], a, r)
     | Some call \<Rightarrow>
         (case pairing_confirmation_result (confirmation_id a) r of
            (Some confirmed, r) \<Rightarrow> (reply allocated call confirmed, a\<lparr>pending_call := None\<rparr>, r)
          | (None, r) \<Rightarrow>
              if confirmation_deadline a \<le> clock
              then (reply allocated call False, a\<lparr>pending_call := None\<rparr>,
                    cancel_pairing_confirmation (confirmation_id a) r)
              else ([], a, r)))"

definition reject_pending_confirmation ::
  "bool \<Rightarrow> agent_context \<times> register \<Rightarrow> (nat \<times> bool) list \<times> agent_context \<times> register" where
  "reject_pending_confirmation allocated = (\<lambda>(a, r).
     case pending_call a of
       None \<Rightarrow> ([], a, r)
     | Some call \<Rightarrow> (reply allocated call False, a\<lparr>pending_call := None\<rparr>,
                    cancel_pairing_confirmation (confirmation_id a) r))"

datatype agent_method =
    Release | Cancel | RequestConfirmation string u32 | RequestAuthorization | AuthorizeService
  | DisplayPasskey | RequestPinCode | RequestPasskey | Other_method

text \<open>
  \<open>agent_handler\<close>: whether the call was handled, the replies, the packet for the daemon.  The
  clock is in milliseconds.
\<close>

definition agent_handler ::
  "bool \<Rightarrow> bool \<Rightarrow> int \<Rightarrow> nat \<Rightarrow> agent_method \<Rightarrow> agent_context \<times> register \<Rightarrow>
   bool \<times> (nat \<times> bool) list \<times> bytes list \<times> agent_context \<times> register" where
  "agent_handler allocated sent clock call meth s =
     (case meth of
        Other_method \<Rightarrow> (False, [], [], s)
      | RequestConfirmation device passkey \<Rightarrow>
          (case s of (a, r) \<Rightarrow>
             if pending_call a \<noteq> None then (True, reply allocated call False, [], a, r)
             else (case request_pairing_confirmation sent device passkey r of
                     (Some (ident, packet), r) \<Rightarrow>
                       (True, [], [packet],
                        a\<lparr>pending_call := Some call, confirmation_id := ident, confirmation_deadline := clock + 50000\<rparr>, r)
                   | (None, r) \<Rightarrow> (True, reply allocated call False, [], a, r)))
      | RequestPinCode \<Rightarrow> (True, reply allocated call False, [], s)
      | RequestPasskey \<Rightarrow> (True, reply allocated call False, [], s)
      | _ \<Rightarrow>
          (case (if meth = Cancel \<or> meth = Release then reject_pending_confirmation allocated s
                 else ([], s)) of
             (replies, s) \<Rightarrow> (True, replies @ reply allocated call True, [], s)))"

section \<open>The daemon\<close>

text \<open>The hooks that \<open>run\<close> calls, on the snapshot.\<close>

definition on_run_event :: "run_event \<Rightarrow> snapshot \<Rightarrow> snapshot" where
  "on_run_event e s =
     (case e of
        Connection_lost \<Rightarrow> s\<lparr>pairing_confirmation := None\<rparr>
      | Pairing_reset \<Rightarrow> s\<lparr>pairing_confirmation := None\<rparr>
      | Pairing_confirmation m \<Rightarrow>
          s\<lparr>pairing_confirmation := Some m, preflight_state := Pairing_prompt,
            preflight_detail := ''compare the Bluetooth pairing code in the management UI'',
            preflight_revision := preflight_revision s + 1\<rparr>
      | _ \<Rightarrow> s)"

text \<open>
  \<open>POST /bluetooth-confirm\<close>.  The handler takes the pending confirmation in one critical
  section, sends the answer without a lock and puts it back in another if that fails:
  \<open>confirm_begin\<close> and \<open>confirm_end\<close> are the two halves.
\<close>

definition confirm_begin ::
  "string option \<Rightarrow> string option \<Rightarrow> snapshot \<Rightarrow> (pairing_message \<times> bool) option \<times> snapshot" where
  "confirm_begin ident decision s =
     (case (ident, decision, pairing_confirmation s) of
        (Some i, Some d, Some m) \<Rightarrow>
          if (d = ''confirm'' \<or> d = ''reject'') \<and> i = nat_to_string (unat (pm_id m))
          then (Some (m, d = ''confirm''), s\<lparr>pairing_confirmation := None\<rparr>)
          else (None, s)
      | _ \<Rightarrow> (None, s))"

definition confirm_end ::
  "carplay_worker option \<Rightarrow> int \<Rightarrow> (pairing_message \<times> bool) option \<Rightarrow> snapshot \<Rightarrow>
   nat \<times> bytes list \<times> snapshot" where
  "confirm_end w sent taken s =
     (case (taken, w) of
        (Some (m, confirmed), Some w) \<Rightarrow>
          (case worker_answer w m confirmed sent of
             Some packet \<Rightarrow> (303, [packet], s)
           | None \<Rightarrow> (409, [], s\<lparr>pairing_confirmation := (case pairing_confirmation s of None \<Rightarrow> Some m | Some m' \<Rightarrow> Some m'),
                              preflight_revision := preflight_revision s + 1\<rparr>))
      | (Some (m, confirmed), None) \<Rightarrow>
          (409, [], s\<lparr>pairing_confirmation := (case pairing_confirmation s of None \<Rightarrow> Some m | Some m' \<Rightarrow> Some m'),
                      preflight_revision := preflight_revision s + 1\<rparr>)
      | (None, _) \<Rightarrow> (409, [], s\<lparr>preflight_revision := preflight_revision s + 1\<rparr>))"

section \<open>The parts together\<close>

text \<open>
  The worker process (agent, register, receive buffer), the packets under way on the control
  socket, the daemon (snapshot, the local variables of the requests in progress in its four
  threads).  For the
  statements: the calls of BlueZ in order, the identifiers given to them, the decisions the
  user posted for a confirmation that was shown, and the replies sent to BlueZ.
\<close>

record pair_world =
  agent :: agent_context
  register :: register
  child_buffer :: bytes
  to_daemon :: "bytes list"
  to_child :: "bytes list"
  daemon :: snapshot
  in_progress :: "(pairing_message \<times> bool) option list"
  calls :: "agent_method list"
  asked :: "(nat \<times> u64) list"
  decided :: "(pairing_message \<times> bool) list"
  replies :: "(nat \<times> bool) list"

definition start_pairing :: "int \<Rightarrow> pair_world" where
  "start_pairing fd = \<lparr>agent = new_agent, register = set_pairing_confirmation_control_fd fd new_register,
     child_buffer = replicate 8192 0, to_daemon = [], to_child = [], daemon = new_snapshot,
     in_progress = [], calls = [], asked = [], decided = [], replies = []\<rparr>"

definition run_action :: "child_action \<Rightarrow> register \<Rightarrow> register" where
  "run_action action r =
     (case action of Answer_confirmation ident confirmed \<Rightarrow> answer_pairing_confirmation ident confirmed r | _ \<Rightarrow> r)"

text \<open>The identifier that the request in progress draws, whether or not it can be sent.\<close>

definition drawn :: "register \<Rightarrow> register \<Rightarrow> nat \<Rightarrow> (nat \<times> u64) list" where
  "drawn r r' call = (if next_id r' = next_id r then [] else [(call, next_id r)])"

inductive pair_step :: "carplay_worker \<Rightarrow> pair_world \<Rightarrow> pair_world \<Rightarrow> bool" for w where
  bluez_call: "agent_handler allocated sent clock (length (calls s)) meth (agent s, register s) =
       (handled, rs, packets, a, r) \<Longrightarrow>
     pair_step w s (s\<lparr>agent := a, register := r, to_daemon := to_daemon s @ packets,
       calls := calls s @ [meth], asked := asked s @ drawn (register s) r (length (calls s)),
       replies := replies s @ rs\<rparr>)"
| agent_poll: "resolve_pending_confirmation allocated clock (agent s, register s) = (rs, a, r) \<Longrightarrow>
     pair_step w s (s\<lparr>agent := a, register := r, replies := replies s @ rs\<rparr>)"
| session_end: "reject_pending_confirmation allocated (agent s, register s) = (rs, a, r) \<Longrightarrow>
     pair_step w s (s\<lparr>agent := new_agent, register := r, replies := replies s @ rs\<rparr>)"
| session_result: "pair_step w s (s\<lparr>to_daemon := to_daemon s @ [result_message n]\<rparr>)"
| daemon_receive: "to_daemon s = packet # rest \<Longrightarrow>
     control_round (t\<lparr>control_packet := packet\<rparr>) run = (events, result, run') \<Longrightarrow>
     pair_step w s (s\<lparr>to_daemon := rest, daemon := fold on_run_event events (daemon s)\<rparr>)"
| connection_lost: "pair_step w s (s\<lparr>daemon := on_run_event Connection_lost (daemon s)\<rparr>)"
| daemon_command: "packet = [2] \<or> packet = run_request arguments \<Longrightarrow>
     pair_step w s (s\<lparr>to_child := to_child s @ [packet]\<rparr>)"
| user_post: "length (in_progress s) < 4 \<Longrightarrow> confirm_begin ident decision (daemon s) = (taken, d) \<Longrightarrow>
     pair_step w s (s\<lparr>daemon := d, in_progress := in_progress s @ [taken],
       decided := decided s @ (case taken of None \<Rightarrow> [] | Some c \<Rightarrow> [c])\<rparr>)"
| user_answer: "in_progress s = before @ taken # after \<Longrightarrow>
     confirm_end (if available then Some w else None) sent taken (daemon s) = (status, packets, d) \<Longrightarrow>
     pair_step w s (s\<lparr>daemon := d, in_progress := before @ after, to_child := to_child s @ packets\<rparr>)"
| child_receive: "to_child s = packet # rest \<Longrightarrow>
     child_receive (child_buffer s) packet = (action, buffer) \<Longrightarrow>
     pair_step w s (s\<lparr>to_child := rest, child_buffer := buffer, register := run_action action (register s)\<rparr>)"

section \<open>The invariant\<close>

text \<open>A message the worker really sent: its passkey is that of the call that drew its identifier.\<close>

definition known :: "pair_world \<Rightarrow> pairing_message \<Rightarrow> bool" where
  "known s m = (length (pm_address m) = 18 \<and>
     (\<exists>c device. (c, pm_id m) \<in> set (asked s) \<and> c < length (calls s) \<and>
        calls s ! c = RequestConfirmation device (pm_passkey m)))"

definition ids_ok :: "pair_world \<Rightarrow> bool" where
  "ids_ok s = (map snd (asked s) = map of_nat [1..<Suc (length (asked s))] \<and>
     next_id (register s) = of_nat (Suc (length (asked s))))"

definition socket_ok :: "pair_world \<Rightarrow> bool" where
  "socket_ok s =
     ((\<forall>p \<in> set (to_daemon s). (\<exists>m. p = 3 # pairing_bytes m \<and> known s m) \<or> (\<exists>n. p = result_message n)) \<and>
      (\<forall>p \<in> set (to_child s). p = [2] \<or> (\<exists>args. p = run_request args) \<or>
         (\<exists>(m, b) \<in> set (decided s). p = answer_message m b)))"

definition decision_ok :: "pair_world \<Rightarrow> bool" where
  "decision_ok s =
     ((\<forall>m. pairing_confirmation (daemon s) = Some m \<longrightarrow> known s m) \<and>
      (\<forall>(m, b) \<in> set (decided s). known s m) \<and>
      (\<forall>c. Some c \<in> set (in_progress s) \<longrightarrow> c \<in> set (decided s)) \<and>
      (pending_result (register s) = 1 \<longrightarrow>
         (\<exists>m. (m, True) \<in> set (decided s) \<and> pm_id m = pending_id (register s))))"

definition call_ok :: "pair_world \<Rightarrow> bool" where
  "call_ok s =
     ((\<forall>c. pending_call (agent s) = Some c \<longrightarrow>
         c < length (calls s) \<and> (c, confirmation_id (agent s)) \<in> set (asked s) \<and> c \<notin> fst ` set (replies s)) \<and>
      distinct (map fst (replies s)) \<and> (\<forall>c \<in> fst ` set (replies s). c < length (calls s)) \<and>
      (\<forall>c device passkey. (c, True) \<in> set (replies s) \<longrightarrow> calls s ! c = RequestConfirmation device passkey \<longrightarrow>
         (\<exists>m. (m, True) \<in> set (decided s) \<and> pm_passkey m = passkey \<and> (c, pm_id m) \<in> set (asked s))))"

definition pair_ok :: "pair_world \<Rightarrow> bool" where
  "pair_ok s = (ids_ok s \<and> socket_ok s \<and> decision_ok s \<and> call_ok s)"

lemmas pair_ok_defs = pair_ok_def ids_ok_def socket_ok_def decision_ok_def call_ok_def

lemma distinct_ids: "length (asked s) < 2 ^ 64 \<Longrightarrow> ids_ok s \<Longrightarrow> distinct (map snd (asked s))"
  unfolding ids_ok_def by (auto simp: distinct_map inj_on_def unat_of_nat of_nat_inverse word_of_nat_eq_iff take_bit_nat_eq_self)

lemma same_call:
  "distinct (map snd (asked s)) \<Longrightarrow> (c, i) \<in> set (asked s) \<Longrightarrow> (c', i) \<in> set (asked s) \<Longrightarrow> c = c'"
  by (force simp: distinct_map inj_on_def)

lemma known_frame [simp]:
  "known (s\<lparr>agent := a\<rparr>) = known s" "known (s\<lparr>register := r\<rparr>) = known s"
  "known (s\<lparr>child_buffer := b\<rparr>) = known s" "known (s\<lparr>to_daemon := ps\<rparr>) = known s"
  "known (s\<lparr>to_child := ps\<rparr>) = known s" "known (s\<lparr>daemon := d\<rparr>) = known s"
  "known (s\<lparr>in_progress := i\<rparr>) = known s" "known (s\<lparr>decided := ds\<rparr>) = known s"
  "known (s\<lparr>replies := rs\<rparr>) = known s"
  by (simp_all add: known_def fun_eq_iff)

text \<open>Calls and identifiers only accumulate, so what is known stays known.\<close>

lemma known_mono:
  assumes "known s m" "\<exists>xs. asked s' = asked s @ xs" "\<exists>xs. calls s' = calls s @ xs"
  shows "known s' m"
proof -
  from assms(1) obtain c device where c: "length (pm_address m) = 18" "(c, pm_id m) \<in> set (asked s)"
    "c < length (calls s)" "calls s ! c = RequestConfirmation device (pm_passkey m)" by (auto simp: known_def)
  then have "(c, pm_id m) \<in> set (asked s')" "c < length (calls s')" "calls s' ! c = calls s ! c"
    using assms(2,3) by (auto simp: nth_append)
  with c show ?thesis by (auto simp: known_def)
qed

lemma length_address_field [simp]: "length (address_field address) = 18"
  by (simp add: address_field_def)

lemma unchanged_world [simp]:
  "s\<lparr>agent := agent s, register := register s, replies := replies s\<rparr> = s"
  by simp

text \<open>The only reply to a pending call that accepts it rests on a decision of the user.\<close>

lemma resolve_ok:
  assumes "pair_ok s" "length (asked s) < 2 ^ 64"
    and "resolve_pending_confirmation allocated clock (agent s, register s) = (rs, a, r)"
  shows "pair_ok (s\<lparr>agent := a, register := r, replies := replies s @ rs\<rparr>)"
proof (cases "pending_call (agent s)")
  case None
  with assms have "rs = []" "a = agent s" "r = register s" by (auto simp: resolve_pending_confirmation_def)
  with assms(1) show ?thesis by (simp only: append_Nil2 unchanged_world)
next
  case (Some c)
  from assms(1) Some have c: "c < length (calls s)" "(c, confirmation_id (agent s)) \<in> set (asked s)"
    "c \<notin> fst ` set (replies s)" by (auto simp: pair_ok_defs)
  have accept: "\<exists>m. (m, True) \<in> set (decided s) \<and> pm_passkey m = passkey \<and> (c, pm_id m) \<in> set (asked s)"
    if "calls s ! c = RequestConfirmation device passkey" "pending_result (register s) = 1"
      "pending_id (register s) = confirmation_id (agent s)" for device passkey
  proof -
    from assms(1) that obtain m where m: "(m, True) \<in> set (decided s)" "pm_id m = confirmation_id (agent s)"
      by (auto simp: pair_ok_def decision_ok_def)
    with assms(1) have "known s m" by (auto simp: pair_ok_def decision_ok_def)
    then obtain c' device' where c': "(c', pm_id m) \<in> set (asked s)"
      "calls s ! c' = RequestConfirmation device' (pm_passkey m)" by (auto simp: known_def)
    with same_call [of s c "pm_id m" c'] distinct_ids [OF assms(2)] c(2) m(2) assms(1) have "c' = c"
      by (simp add: pair_ok_def)
    with c' that(1) m(1) c(2) m(2) show ?thesis by auto
  qed
  consider "rs = []" "a = agent s" "r = register s"
    | "pending_result (register s) = 1" "pending_id (register s) = confirmation_id (agent s)"
        "rs = reply allocated c True" "pending_call a = None" "next_id r = next_id (register s)" "pending_result r \<noteq> 1"
    | "rs = reply allocated c False" "pending_call a = None" "next_id r = next_id (register s)"
        "pending_result r = 1 \<longrightarrow> r = register s"
    using assms(3) Some
    by (cases "pending_result (register s) = 1")
       (auto simp: resolve_pending_confirmation_def pairing_confirmation_result_def cancel_pairing_confirmation_def
        split: if_splits prod.splits)
  then show ?thesis
  proof cases
    case 1
    with assms(1) show ?thesis by (simp only: append_Nil2 unchanged_world)
  next
    case 2
    with assms(1) c accept show ?thesis
      unfolding pair_ok_defs by (auto simp: reply_def)
  next
    case 3
    with assms(1) c show ?thesis
      unfolding pair_ok_defs by (auto simp: reply_def)
  qed
qed

lemma reject_ok:
  assumes "pair_ok s"
    and "reject_pending_confirmation allocated (agent s, register s) = (rs, a, r)"
  shows "pair_ok (s\<lparr>agent := a, register := r, replies := replies s @ rs\<rparr>)" "pending_call a = None"
    "next_id r = next_id (register s)"
proof -
  show "pair_ok (s\<lparr>agent := a, register := r, replies := replies s @ rs\<rparr>)"
  proof (cases "pending_call (agent s)")
    case None
    with assms have "rs = []" "a = agent s" "r = register s" by (auto simp: reject_pending_confirmation_def)
    with assms(1) show ?thesis by (simp only: append_Nil2 unchanged_world)
  next
    case (Some c)
    with assms(2) have *: "rs = reply allocated c False" "pending_call a = None" "next_id r = next_id (register s)"
      "pending_result r = 1 \<longrightarrow> r = register s"
      by (auto simp: reject_pending_confirmation_def cancel_pairing_confirmation_def split: if_splits)
    with assms(1) Some show ?thesis
      unfolding pair_ok_defs by (auto simp: reply_def)
  qed
  show "pending_call a = None" "next_id r = next_id (register s)"
    using assms(2)
    by (auto simp: reject_pending_confirmation_def cancel_pairing_confirmation_def split: option.splits if_splits)
qed

text \<open>A call that is answered at once, with an acceptance only if it asks for no confirmation.\<close>

lemma direct_reply_ok:
  assumes "pair_ok s" "b \<longrightarrow> (\<forall>device passkey. meth \<noteq> RequestConfirmation device passkey)"
  shows "pair_ok (s\<lparr>calls := calls s @ [meth], replies := replies s @ reply allocated (length (calls s)) b\<rparr>)"
    (is "pair_ok ?s")
proof -
  have known: "known s m \<Longrightarrow> known ?s m" for m by (rule known_mono) auto
  have "ids_ok ?s" using assms(1) by (simp add: pair_ok_def ids_ok_def)
  moreover have "socket_ok ?s" using assms(1) known by (fastforce simp: pair_ok_def socket_ok_def)
  moreover have "decision_ok ?s" using assms(1) known by (auto simp: pair_ok_def decision_ok_def)
  moreover have "call_ok ?s" unfolding call_ok_def
  proof (intro conjI allI impI)
    have old: "c < length (calls s)" if "(c, b) \<in> set (replies s)" for c b
      using assms(1) that by (force simp: pair_ok_def call_ok_def)
    then have new: "length (calls s) \<notin> fst ` set (replies s)" by force
    show "distinct (map fst (replies ?s))"
      using assms(1) new by (auto simp: pair_ok_def call_ok_def reply_def)
    show "\<forall>c \<in> fst ` set (replies ?s). c < length (calls ?s)"
      using old by (auto simp: reply_def less_SucI split: if_splits)
    show "c \<notin> fst ` set (replies ?s)" if "pending_call (agent ?s) = Some c" for c
      using assms(1) that by (auto simp: pair_ok_def call_ok_def reply_def split: if_splits)
  next
    fix c device passkey
    assume "(c, True) \<in> set (replies ?s)" "calls ?s ! c = RequestConfirmation device passkey"
    then show "\<exists>m. (m, True) \<in> set (decided ?s) \<and> pm_passkey m = passkey \<and> (c, pm_id m) \<in> set (asked ?s)"
      using assms by (fastforce simp: pair_ok_def call_ok_def reply_def nth_append split: if_splits)
  qed (use assms(1) in \<open>fastforce simp: pair_ok_def call_ok_def reply_def\<close>)+
  ultimately show ?thesis by (simp add: pair_ok_def)
qed

lemma draw_ok:
  assumes "pair_ok s"
  shows "pair_ok (s\<lparr>register := (register s)\<lparr>next_id := next_id (register s) + 1\<rparr>,
           asked := asked s @ [(length (calls s), next_id (register s))]\<rparr>)" (is "pair_ok ?s")
proof -
  have known: "known s m \<Longrightarrow> known ?s m" for m by (rule known_mono) auto
  have "ids_ok ?s" using assms by (simp add: pair_ok_def ids_ok_def)
  moreover have "socket_ok ?s" using assms known by (fastforce simp: pair_ok_def socket_ok_def)
  moreover have "decision_ok ?s" using assms known by (auto simp: pair_ok_def decision_ok_def)
  moreover have "call_ok ?s" using assms unfolding pair_ok_def call_ok_def by simp blast
  ultimately show ?thesis by (simp add: pair_ok_def)
qed

text \<open>A request that is sent to the daemon and waits for the decision.\<close>

lemma waiting_call_ok:
  assumes "pair_ok s" "(c, ident) \<in> set (asked s)" "c < length (calls s)" "c \<notin> fst ` set (replies s)"
    and "calls s ! c = RequestConfirmation device passkey"
    and "pending_call a = Some c" "confirmation_id a = ident"
    and "next_id r = next_id (register s)" "pending_result r = -1"
    and "m = \<lparr>pm_id = ident, pm_passkey = passkey, pm_address = address_field device\<rparr>"
  shows "pair_ok (s\<lparr>agent := a, register := r, to_daemon := to_daemon s @ [3 # pairing_bytes m]\<rparr>)" (is "pair_ok ?s")
proof -
  have m: "known s m" using assms(2,3,5) by (auto simp: known_def assms(10))
  have "ids_ok ?s" using assms(1,8) by (simp add: pair_ok_def ids_ok_def)
  moreover have "socket_ok ?s" using assms(1) m by (auto simp: pair_ok_def socket_ok_def)
  moreover have "decision_ok ?s" using assms(1,9) by (auto simp: pair_ok_def decision_ok_def)
  moreover have "call_ok ?s" using assms by (auto simp: pair_ok_def call_ok_def)
  ultimately show ?thesis by (simp add: pair_ok_def)
qed

lemma drawn_same [simp]: "drawn r r call = []"
  by (simp add: drawn_def)

lemma drawn_next: "next_id r' = next_id r + 1 \<Longrightarrow> drawn r r' call = [(call, next_id r)]"
  by (simp add: drawn_def)

lemma request_cases:
  assumes "agent_handler allocated sent clock c (RequestConfirmation device passkey) (ag, reg) = (handled, rs, packets, a, r)"
  obtains "rs = reply allocated c False" "packets = []" "a = ag" "r = reg"
  | "rs = reply allocated c False" "packets = []" "a = ag" "r = reg\<lparr>next_id := next_id reg + 1\<rparr>"
  | "rs = []" "packets = [3 # pairing_bytes \<lparr>pm_id = next_id reg, pm_passkey = passkey, pm_address = address_field device\<rparr>]"
    "pending_call a = Some c" "confirmation_id a = next_id reg" "next_id r = next_id reg + 1" "pending_result r = -1"
proof (cases "pending_call ag \<noteq> None \<or> pairing_control_fd reg < 0 \<or> pending_id reg \<noteq> 0")
  case True
  then show ?thesis using assms
    by (intro that(1); cases "pending_call ag") (auto simp: agent_handler_def request_pairing_confirmation_def)
next
  case False
  show ?thesis
  proof (cases sent)
    case True
    with False show ?thesis using assms
      by (intro that(3)) (auto simp: agent_handler_def request_pairing_confirmation_def Let_def)
  next
    case not_sent: False
    with False show ?thesis using assms
      by (intro that(2)) (auto simp: agent_handler_def request_pairing_confirmation_def Let_def)
  qed
qed

lemma confirmation_call_ok:
  assumes ok: "pair_ok s" and c: "c = length (calls s)" and meth: "meth = RequestConfirmation device passkey"
    and h: "agent_handler allocated sent clock c meth (agent s, register s) = (handled, rs, packets, a, r)"
  shows "pair_ok (s\<lparr>agent := a, register := r, to_daemon := to_daemon s @ packets, calls := calls s @ [meth],
           asked := asked s @ drawn (register s) r c, replies := replies s @ rs\<rparr>)"
    (is "pair_ok ?s")
proof -
  define s1 where "s1 = s\<lparr>register := (register s)\<lparr>next_id := next_id (register s) + 1\<rparr>,
      asked := asked s @ [(c, next_id (register s))]\<rparr>"
  have s1: "pair_ok s1" using draw_ok [OF ok] by (simp add: s1_def c)
  have new: "c \<notin> fst ` set (replies s)" using ok by (auto simp: pair_ok_def call_ok_def c)
  from h [unfolded meth] show ?thesis
  proof (cases rule: request_cases)
    case 1
    then have "?s = s\<lparr>calls := calls s @ [meth], replies := replies s @ reply allocated c False\<rparr>" by simp
    with direct_reply_ok [OF ok, of False meth allocated] show ?thesis by (simp only: c) simp
  next
    case 2
    then have "?s = s1\<lparr>calls := calls s1 @ [meth], replies := replies s1 @ reply allocated (length (calls s1)) False\<rparr>"
      by (simp add: s1_def drawn_next c)
    with direct_reply_ok [OF s1, of False meth allocated] show ?thesis by (simp only:) simp
  next
    case 3
    define s2 where "s2 = s1\<lparr>calls := calls s1 @ [meth], replies := replies s1 @ reply False (length (calls s1)) False\<rparr>"
    have s2: "pair_ok s2" using direct_reply_ok [OF s1, of False meth False] by (simp add: s2_def)
    have f: "asked s2 = asked s @ [(c, next_id (register s))]" "calls s2 = calls s @ [meth]" "replies s2 = replies s"
      "next_id (register s2) = next_id (register s) + 1"
      by (simp_all add: s2_def s1_def reply_def)
    have "?s = s2\<lparr>agent := a, register := r, to_daemon := to_daemon s2 @ packets\<rparr>"
      using 3 by (simp add: s2_def s1_def drawn_next reply_def)
    moreover have "pair_ok \<dots>"
      unfolding 3(2) by (rule waiting_call_ok [OF s2, where c = c]) (use 3 f new meth in \<open>auto simp: c\<close>)
    ultimately show ?thesis by (simp only:)
  qed
qed

lemma bluez_call_ok:
  assumes ok: "pair_ok s"
    and h: "agent_handler allocated sent clock (length (calls s)) meth (agent s, register s) =
        (handled, rs, packets, a, r)"
  shows "pair_ok (s\<lparr>agent := a, register := r, to_daemon := to_daemon s @ packets, calls := calls s @ [meth],
           asked := asked s @ drawn (register s) r (length (calls s)), replies := replies s @ rs\<rparr>)"
    (is "pair_ok ?s")
proof -
  let ?c = "length (calls s)"
  consider device passkey where "meth = RequestConfirmation device passkey"
    | "meth = Cancel \<or> meth = Release"
    | b al where "a = agent s" "r = register s" "packets = []" "rs = reply al ?c b"
        "\<forall>device passkey. meth \<noteq> RequestConfirmation device passkey"
    using h that(3) [where b = False and al = allocated] that(3) [where b = True and al = allocated]
      that(3) [where b = False and al = False]
    by (cases meth) (auto simp: agent_handler_def reply_def)
  then show ?thesis
  proof cases
    case 1
    from confirmation_call_ok [OF ok refl this h] show ?thesis .
  next
    case 2
    then obtain rs' where rej: "reject_pending_confirmation allocated (agent s, register s) = (rs', a, r)"
      and rs: "rs = rs' @ reply allocated ?c True" and "packets = []" "\<forall>device passkey. meth \<noteq> RequestConfirmation device passkey"
      using h by (auto simp: agent_handler_def split: prod.splits)
    let ?s1 = "s\<lparr>agent := a, register := r, replies := replies s @ rs'\<rparr>"
    have "?s = ?s1\<lparr>calls := calls ?s1 @ [meth], replies := replies ?s1 @ reply allocated (length (calls ?s1)) True\<rparr>"
      using rs \<open>packets = []\<close> reject_ok(3) [OF ok rej] by (simp add: drawn_def)
    with direct_reply_ok [OF reject_ok(1) [OF ok rej], of True meth allocated]
      \<open>\<forall>device passkey. meth \<noteq> RequestConfirmation device passkey\<close>
    show ?thesis by simp
  next
    case 3
    then have "?s = s\<lparr>calls := calls s @ [meth], replies := replies s @ reply al ?c b\<rparr>"
      by (simp add: drawn_def)
    with direct_reply_ok [OF ok, of b meth al] 3(5) show ?thesis by simp
  qed
qed

text \<open>The steps of the daemon and of the child's command loop.\<close>

lemma daemon_receive_ok:
  assumes ok: "pair_ok s" and p: "to_daemon s = packet # rest"
    and r: "control_round (t\<lparr>control_packet := packet\<rparr>) run = (events, result, run')"
  shows "pair_ok (s\<lparr>to_daemon := rest, daemon := fold on_run_event events (daemon s)\<rparr>)" (is "pair_ok ?s")
proof -
  from ok p have "(\<exists>m. packet = 3 # pairing_bytes m \<and> known s m) \<or> (\<exists>n. packet = result_message n)"
    by (simp add: pair_ok_def socket_ok_def)
  then have "events = [Pairing_reset] \<or> (\<exists>m. events = [Pairing_confirmation m] \<and> known s m)"
    using r control_round_request [where t = t and s = run] control_round_result [where t = t and s = run]
    by (auto simp: known_def)
  then have "\<forall>m. pairing_confirmation (fold on_run_event events (daemon s)) = Some m \<longrightarrow> known s m"
    by (auto simp: on_run_event_def)
  with ok p show ?thesis
    by (simp add: pair_ok_def ids_ok_def socket_ok_def decision_ok_def call_ok_def)
qed

lemma user_post_ok:
  assumes ok: "pair_ok s" and b: "confirm_begin ident decision (daemon s) = (taken, d)"
  shows "pair_ok (s\<lparr>daemon := d, in_progress := in_progress s @ [taken],
           decided := decided s @ (case taken of None \<Rightarrow> [] | Some c \<Rightarrow> [c])\<rparr>)" (is "pair_ok ?s")
proof -
  from b have d: "pairing_confirmation d = None \<or> pairing_confirmation d = pairing_confirmation (daemon s)"
    and t: "taken = None \<or> (\<exists>m c. taken = Some (m, c) \<and> pairing_confirmation (daemon s) = Some m)"
    by (auto simp: confirm_begin_def split: option.splits if_splits)
  have "socket_ok ?s" using ok by (fastforce simp: pair_ok_def socket_ok_def)
  moreover have "decision_ok ?s"
    using t d by (elim disjE exE conjE) (use ok in \<open>auto simp: pair_ok_def decision_ok_def\<close>)
  moreover have "call_ok ?s" using ok by (fastforce simp: pair_ok_def call_ok_def)
  ultimately show ?thesis using ok by (simp add: pair_ok_def ids_ok_def)
qed

lemma user_answer_ok:
  assumes ok: "pair_ok s" and i: "in_progress s = before @ taken # after"
    and e: "confirm_end w sent taken (daemon s) = (status, packets, d)"
  shows "pair_ok (s\<lparr>daemon := d, in_progress := before @ after, to_child := to_child s @ packets\<rparr>)" (is "pair_ok ?s")
proof -
  have p: "packets = [] \<or> (\<exists>m c. taken = Some (m, c) \<and> packets = [answer_message m c])"
    and d: "pairing_confirmation d = pairing_confirmation (daemon s) \<or>
            (\<exists>m c. taken = Some (m, c) \<and> pairing_confirmation d = Some m)"
    using e by (auto simp: confirm_end_def worker_answer_def split: option.splits if_splits)
  have m: "(m, c) \<in> set (decided s) \<and> known s m" if "taken = Some (m, c)" for m c
  proof -
    from i that have "Some (m, c) \<in> set (in_progress s)" by simp
    with ok have "(m, c) \<in> set (decided s)" by (simp add: pair_ok_def decision_ok_def)
    with ok show ?thesis by (auto simp: pair_ok_def decision_ok_def)
  qed
  have "socket_ok ?s"
    using p by (elim disjE exE conjE) (use ok m in \<open>force simp: pair_ok_def socket_ok_def\<close>)+
  moreover have "decision_ok ?s"
    using d by (elim disjE exE conjE) (use ok m i in \<open>auto simp: pair_ok_def decision_ok_def\<close>)
  ultimately show ?thesis using ok by (simp add: pair_ok_def ids_ok_def call_ok_def)
qed

lemma child_receive_ok:
  assumes ok: "pair_ok s" and p: "to_child s = packet # rest"
    and r: "child_receive (child_buffer s) packet = (action, buffer)"
  shows "pair_ok (s\<lparr>to_child := rest, child_buffer := buffer, register := run_action action (register s)\<rparr>)" (is "pair_ok ?s")
proof -
  from ok p consider "packet = [2]" | args where "packet = run_request args"
    | m c where "(m, c) \<in> set (decided s)" "packet = answer_message m c"
    by (fastforce simp: pair_ok_def socket_ok_def)
  then have "run_action action (register s) = register s \<or>
      (\<exists>m c. (m, c) \<in> set (decided s) \<and> run_action action (register s) = answer_pairing_confirmation (pm_id m) c (register s))"
  proof cases
    case (3 m c)
    then have "length (pm_address m) = 18" using ok by (fastforce simp: pair_ok_def decision_ok_def known_def)
    from child_receive_answer [OF this, of "child_buffer s" c] r 3 show ?thesis by (auto simp: run_action_def)
  qed (use r in \<open>auto simp: run_action_def child_receive_def run_request_def Let_def sizeof_pairing_message_def\<close>)
  then have "decision_ok ?s \<and> next_id (register ?s) = next_id (register s)"
    by (elim disjE exE conjE)
       (use ok in \<open>auto simp: pair_ok_def decision_ok_def answer_pairing_confirmation_def split: if_splits\<close>)
  then show ?thesis using ok p by (simp add: pair_ok_def ids_ok_def socket_ok_def call_ok_def)
qed

lemma asked_grows: "pair_step w s s' \<Longrightarrow> length (asked s) \<le> length (asked s')"
  by (induction rule: pair_step.induct) auto

lemma pair_ok_step: "pair_step w s s' \<Longrightarrow> pair_ok s \<Longrightarrow> length (asked s) < 2 ^ 64 \<Longrightarrow> pair_ok s'"
proof (induction rule: pair_step.induct)
  case (bluez_call allocated sent clock s meth handled rs packets a r)
  then show ?case using bluez_call_ok by blast
next
  case (agent_poll allocated clock s rs a r)
  then show ?case using resolve_ok by blast
next
  case (session_end allocated s rs a r)
  let ?s = "s\<lparr>agent := a, register := r, replies := replies s @ rs\<rparr>"
  have "pair_ok ?s" using reject_ok(1) session_end by blast
  then have "pair_ok (?s\<lparr>agent := new_agent\<rparr>)"
    by (simp add: pair_ok_def ids_ok_def socket_ok_def decision_ok_def call_ok_def new_agent_def)
  also have "?s\<lparr>agent := new_agent\<rparr> = s\<lparr>agent := new_agent, register := r, replies := replies s @ rs\<rparr>" by simp
  finally show ?case .
next
  case (session_result s n)
  from session_result show ?case
    by (auto simp: pair_ok_def ids_ok_def socket_ok_def decision_ok_def call_ok_def)
next
  case (daemon_receive s packet rest t run events result run')
  then show ?case using daemon_receive_ok by blast
next
  case (connection_lost s)
  from connection_lost show ?case
    by (auto simp: pair_ok_def ids_ok_def socket_ok_def decision_ok_def call_ok_def on_run_event_def)
next
  case (daemon_command packet arguments s)
  from daemon_command show ?case
    by (auto simp: pair_ok_def ids_ok_def socket_ok_def decision_ok_def call_ok_def)
next
  case (user_post s ident decision taken d)
  then show ?case using user_post_ok by blast
next
  case (user_answer s before taken after available sent status packets d)
  then show ?case using user_answer_ok by blast
next
  case (child_receive s packet rest action buffer)
  then show ?case using child_receive_ok by blast
qed

lemma pair_ok_reachable:
  assumes "(pair_step w)\<^sup>*\<^sup>* (start_pairing fd) s" "length (asked s) < 2 ^ 64"
  shows "pair_ok s"
  using assms
proof (induction rule: rtranclp_induct)
  case base
  show ?case
    by (simp add: pair_ok_defs start_pairing_def new_register_def new_snapshot_def new_agent_def
        set_pairing_confirmation_control_fd_def)
next
  case (step s s')
  with asked_grows [OF step(2)] pair_ok_step [OF step(2)] show ?case by simp
qed

section \<open>Properties\<close>

text \<open>
  C3: BlueZ is told to accept a numeric comparison only on the word of the user.  Whatever the order
  in which BlueZ, the agent's timer, the two ends of the control socket, lost connections, new
  sessions and the requests of the browser act: if the worker answers a
  \<open>RequestConfirmation\<close> call with acceptance, then the user posted \<open>confirm\<close> for a
  confirmation that the daemon showed, that carried the passkey of this very call and the
  identifier drawn for it.  No call is answered twice.  (Identifiers are 64 bits wide; the
  hypothesis excludes that they wrap.)
\<close>

theorem pairing_needs_confirmation:
  assumes "(pair_step w)\<^sup>*\<^sup>* (start_pairing fd) s" "length (asked s) < 2 ^ 64"
  shows "distinct (map fst (replies s)) \<and>
         (\<forall>c device passkey. (c, True) \<in> set (replies s) \<longrightarrow> calls s ! c = RequestConfirmation device passkey \<longrightarrow>
            (\<exists>m. (m, True) \<in> set (decided s) \<and> pm_passkey m = passkey \<and> (c, pm_id m) \<in> set (asked s)))"
  using pair_ok_reachable [OF assms] by (simp add: pair_ok_def call_ok_def)

definition example_worker :: carplay_worker where
  "example_worker = \<lparr>pid = 7, control_fd = 3, output_fd = 4\<rparr>"

definition example_message :: pairing_message where
  "example_message = \<lparr>pm_id = 1, pm_passkey = 123456, pm_address = address_field ''dev''\<rparr>"

definition accepted_world :: "bytes \<Rightarrow> pair_world" where
  "accepted_world buffer = (start_pairing 5)\<lparr>agent := \<lparr>pending_call = None, confirmation_id = 1, confirmation_deadline = 50000\<rparr>,
     register := \<lparr>pairing_control_fd = 5, next_id = 2, pending_id = 0, pending_result = -1\<rparr>,
     child_buffer := buffer,
     daemon := (on_run_event (Pairing_confirmation example_message) new_snapshot)\<lparr>pairing_confirmation := None\<rparr>,
     calls := [RequestConfirmation ''dev'' 123456], asked := [(0, 1)],
     decided := [(example_message, True)], replies := [(0, True)]\<rparr>"

lemma accepted_reachable: "\<exists>buffer. (pair_step example_worker)\<^sup>*\<^sup>* (start_pairing 5) (accepted_world buffer)"
proof -
  let ?w = example_worker and ?m = example_message and ?shown = "on_run_event (Pairing_confirmation example_message) new_snapshot"
  define s0 where "s0 = start_pairing 5"
  define s1 where "s1 = s0\<lparr>agent := \<lparr>pending_call = Some 0, confirmation_id = 1, confirmation_deadline = 50000\<rparr>,
      register := \<lparr>pairing_control_fd = 5, next_id = 2, pending_id = 1, pending_result = -1\<rparr>,
      to_daemon := [3 # pairing_bytes ?m], calls := [RequestConfirmation ''dev'' 123456], asked := [(0, 1)]\<rparr>"
  define s2 where "s2 = s1\<lparr>to_daemon := [], daemon := ?shown\<rparr>"
  define s3 where "s3 = s2\<lparr>daemon := ?shown\<lparr>pairing_confirmation := None\<rparr>, in_progress := [Some (?m, True)],
      decided := [(?m, True)]\<rparr>"
  define s4 where "s4 = s3\<lparr>in_progress := [], to_child := [answer_message ?m True]\<rparr>"
  note d = s0_def start_pairing_def set_pairing_confirmation_control_fd_def new_register_def new_agent_def
  have "length (pm_address ?m) = 18" by (simp add: example_message_def)
  obtain action buffer where r: "child_receive (child_buffer s4) (answer_message ?m True) = (action, buffer)" by fastforce
  with child_receive_answer [OF \<open>length (pm_address ?m) = 18\<close>, of "child_buffer s4" True]
  have action: "action = Answer_confirmation 1 True" by (simp add: example_message_def)
  define s5 where "s5 = s4\<lparr>to_child := [], child_buffer := buffer, register := (register s4)\<lparr>pending_result := 1\<rparr>\<rparr>"
  have bg: "confirm_begin (Some (nat_to_string (unat (pm_id ?m)))) (Some ''confirm'') (daemon s2) =
      (Some (?m, True), ?shown\<lparr>pairing_confirmation := None\<rparr>)"
    by (simp add: s2_def confirm_begin_def on_run_event_def)
  have "pair_step ?w s0 s1"
    using pair_step.bluez_call [of True True 0 s0 "RequestConfirmation ''dev'' 123456" True "[]" "[3 # pairing_bytes ?m]"
        "agent s1" "register s1" ?w]
    by (simp add: d s1_def agent_handler_def request_pairing_confirmation_def drawn_def example_message_def)
  moreover have "pair_step ?w s1 s2"
    using pair_step.daemon_receive [OF _ control_round_request [OF \<open>length (pm_address ?m) = 18\<close>], of s1 "[]" ?w]
    by (simp add: s1_def s2_def d)
  moreover have "pair_step ?w s2 s3"
    using pair_step.user_post [of s2, OF _ bg, of ?w] by (simp add: s3_def s2_def s1_def d)
  moreover have "pair_step ?w s3 s4"
    using pair_step.user_answer [of s3 "[]" "Some (?m, True)" "[]" True ?w "int (length (answer_message ?m True))" 303
        "[answer_message ?m True]" "daemon s3"]
    by (simp add: s4_def s3_def s2_def s1_def d confirm_end_def worker_answer_def example_worker_def)
  moreover have "pair_step ?w s4 s5"
    using pair_step.child_receive [OF _ r, of "[]" ?w]
    by (simp add: s5_def s4_def s3_def s2_def s1_def d action run_action_def answer_pairing_confirmation_def)
  moreover have "pair_step ?w s5 (accepted_world buffer)"
    using pair_step.agent_poll [of True 0 s5 "[(0, True)]" "agent (accepted_world buffer)" "register (accepted_world buffer)" ?w]
    by (simp add: s5_def s4_def s3_def s2_def s1_def d accepted_world_def resolve_pending_confirmation_def
        pairing_confirmation_result_def reply_def)
  ultimately have "(pair_step ?w)\<^sup>*\<^sup>* s0 (accepted_world buffer)"
    by (meson rtranclp.rtrancl_refl rtranclp.rtrancl_into_rtrancl)
  then show ?thesis by (auto simp: s0_def)
qed

theorem pairing_needs_confirmation_witness:
  "\<exists>buffer m. (m, True) \<in> set (decided (accepted_world buffer)) \<and> pm_passkey m = 123456"
proof -
  from accepted_reachable obtain buffer where "(pair_step example_worker)\<^sup>*\<^sup>* (start_pairing 5) (accepted_world buffer)" ..
  from pairing_needs_confirmation [OF this] have "\<exists>m. (m, True) \<in> set (decided (accepted_world buffer)) \<and> pm_passkey m = 123456"
    by (simp add: accepted_world_def)
  then show ?thesis by blast
qed

text \<open>After its 50 seconds a pending call is rejected at the next poll, and the register is free again.\<close>

lemma pending_call_times_out:
  assumes "pending_call a = Some c" "confirmation_deadline a \<le> clock" "pending_result r < 0"
  shows "resolve_pending_confirmation True clock (a, r) =
    ([(c, False)], a\<lparr>pending_call := None\<rparr>, cancel_pairing_confirmation (confirmation_id a) r)"
  using assms by (simp add: resolve_pending_confirmation_def pairing_confirmation_result_def reply_def)

end
