(* ===== verification/Management_Http.thy ===== *)
theory Management_Http
  imports Text_Prelude
begin

text \<open>
  The HTTP side of the management page (\<open>src/src/bridge/management_ui.cpp\<close> and the receive
  loop of \<open>handle_client\<close> in \<open>src/src/bridge_daemon_main.cpp\<close>): escaping for HTML, form
  and query fields, framing of a request, the response, the parser of the Wi-Fi inventory.
  Rendering is in \<open>Management_Page\<close>.
\<close>

section \<open>Characters\<close>

definition is_xdigit :: "char \<Rightarrow> bool" where
  "is_xdigit c = (let n = (of_char c :: nat) in is_digit c \<or> (65 \<le> n \<and> n \<le> 70) \<or> (97 \<le> n \<and> n \<le> 102))"

definition xdigit_value :: "char \<Rightarrow> nat" where
  "xdigit_value c =
     (let n = (of_char c :: nat) in if is_digit c then n - 48 else if 97 \<le> n then n - 87 else n - 55)"

definition upper_char :: "char \<Rightarrow> char" where
  "upper_char c = (let n = (of_char c :: nat) in if 97 \<le> n \<and> n \<le> 122 then char_of (n - 32) else c)"

text \<open>\<open>std::isspace\<close>: blank, and the control characters from tab to carriage return.\<close>

definition is_space :: "char \<Rightarrow> bool" where
  "is_space c = (let n = (of_char c :: nat) in n = 32 \<or> (9 \<le> n \<and> n \<le> 13))"

section \<open>Devices and pass phrases\<close>

definition normalized_bluetooth_address :: "string \<Rightarrow> string" where
  "normalized_bluetooth_address s = map upper_char (filter is_xdigit s)"

definition kDefaultHotspotPassphrase :: string where
  "kDefaultHotspotPassphrase = ''changeme''"

definition valid_hotspot_passphrase :: "string \<Rightarrow> bool" where
  "valid_hotspot_passphrase passphrase =
     (passphrase \<noteq> kDefaultHotspotPassphrase \<and> 8 \<le> length passphrase \<and>
      list_all (\<lambda>c. c \<notin> {CHR 0x0D, CHR 0x0A, CHR ''=''}) passphrase)"

section \<open>Escaping\<close>

definition html_escape_char :: "char \<Rightarrow> string" where
  "html_escape_char c =
     (if c = CHR ''&'' then ''&amp;''
      else if c = CHR ''<'' then ''&lt;''
      else if c = CHR ''>'' then ''&gt;''
      else if c = CHR 0x22 then ''&quot;''
      else if c = CHR 0x27 then ''&#39;''
      else [c])"

definition html_escape :: "string \<Rightarrow> string" where
  "html_escape s = concat (map html_escape_char s)"

text \<open>\<open>random_token\<close> from the 48 results of the random device.\<close>

definition kHexDigits :: string where
  "kHexDigits = ''0123456789abcdef''"

definition random_token :: "u32 list \<Rightarrow> string" where
  "random_token random = map (\<lambda>r. kHexDigits ! unat (r AND 0x0f)) (take 48 random)"

section \<open>Fields\<close>

fun url_decode :: "string \<Rightarrow> string" where
  "url_decode [] = []"
| "url_decode (c # cs) =
     (if c = CHR ''+'' then CHR '' '' # url_decode cs
      else if c = CHR ''%'' then
        (case cs of
           a # b # rest \<Rightarrow>
             if is_xdigit a \<and> is_xdigit b
             then char_of (16 * xdigit_value a + xdigit_value b) # url_decode rest
             else c # url_decode cs
         | _ \<Rightarrow> c # url_decode cs)
      else c # url_decode cs)"

function form_field :: "string \<Rightarrow> string \<Rightarrow> string option" where
  "form_field body wanted =
     (let field = takeWhile (\<lambda>c. c \<noteq> CHR ''&'') body;
          name = takeWhile (\<lambda>c. c \<noteq> CHR ''='') field
      in if url_decode name = wanted
         then Some (if CHR ''='' \<in> set field then url_decode (drop (length name + 1) field) else [])
         else if CHR ''&'' \<in> set body then form_field (drop (length field + 1) body) wanted
         else None)"
  by pat_completeness auto
termination
  by (relation "measure (\<lambda>(body, wanted). length body)") (auto dest: length_pos_if_in_set)

declare form_field.simps [simp del]

definition query_field :: "string \<Rightarrow> string \<Rightarrow> string option" where
  "query_field request wanted =
     (case find_sub '' '' request of
        None \<Rightarrow> None
      | Some method_end \<Rightarrow>
          (case (find_from '' '' request (method_end + 1), find_sub ''?'' request) of
             (Some path_end, Some query_start) \<Rightarrow>
               if path_end \<le> query_start then None
               else form_field (take (path_end - query_start - 1) (drop (query_start + 1) request)) wanted
           | _ \<Rightarrow> None))"

section \<open>Requests\<close>

datatype framing = Incomplete | Invalid | Complete string

text \<open>The value of a header: blanks before it and white space after it do not count.\<close>

definition header_value :: "string \<Rightarrow> string" where
  "header_value s = dropWhile is_blank (rev (dropWhile is_space (rev s)))"

text \<open>One line of the header: the body size so far, or \<open>None\<close> for an invalid request.\<close>

definition http_line :: "string \<Rightarrow> nat option \<Rightarrow> nat option option" where
  "http_line line body_size =
     (case find_sub '':'' line of
        None \<Rightarrow> Some body_size
      | Some separator \<Rightarrow>
          if lower (take separator line) = ''content-length'' then
            (case parse_unsigned (2 ^ 64 - 1) (header_value (drop (separator + 1) line)) of
               None \<Rightarrow> None
             | Some parsed \<Rightarrow>
                 if body_size \<noteq> None \<and> body_size \<noteq> Some parsed then None else Some (Some parsed))
          else Some body_size)"

function http_scan :: "string \<Rightarrow> nat \<Rightarrow> nat \<Rightarrow> nat option \<Rightarrow> nat option option" where
  "http_scan request header_end line_start body_size =
     (if line_start < header_end then
        case find_from crlf request line_start of
          None \<Rightarrow> http_line (take (header_end - line_start) (drop line_start request)) body_size
        | Some line_end \<Rightarrow>
            (case http_line (take ((if header_end < line_end then header_end else line_end) - line_start)
                               (drop line_start request)) body_size of
               None \<Rightarrow> None
             | Some body_size' \<Rightarrow>
                 if header_end \<le> line_end then Some body_size'
                 else http_scan request header_end (line_end + 2) body_size')
      else Some body_size)"
  by pat_completeness auto
termination
  by (relation "measure (\<lambda>(request, header_end, line_start, body_size). header_end - line_start)")
     (auto dest!: find_from_SomeD)

declare http_scan.simps [simp del]

text \<open>\<open>std::string_view::max_size\<close> of libstdc++.\<close>

definition kMaxSize :: nat where
  "kMaxSize = 4611686018427387899"

definition frame_http_request :: "string \<Rightarrow> nat \<Rightarrow> nat \<Rightarrow> framing" where
  "frame_http_request request maximum_headers maximum_body =
     (case find_sub crlf2 request of
        None \<Rightarrow> if maximum_headers < length request then Invalid else Incomplete
      | Some header_end \<Rightarrow>
          if maximum_headers < header_end then Invalid
          else (case http_scan request header_end 0 None of
                  None \<Rightarrow> Invalid
                | Some body_size \<Rightarrow>
                    (let body_start = header_end + 4;
                         len = (case body_size of None \<Rightarrow> 0 | Some n \<Rightarrow> n)
                     in if maximum_body < len \<or> kMaxSize - len < body_start then Invalid
                        else if length request < body_start + len then Incomplete
                        else if body_start + len < length request then Invalid
                        else Complete (take len (drop body_start request)))))"

text \<open>
  The receive loop of \<open>handle_client\<close>: \<open>chunks\<close> are the results of \<open>receive_more\<close>, which
  fails when the list is empty.  The result is the request with its body, unless the connection
  is dropped.
\<close>

fun http_receive :: "string list \<Rightarrow> string \<Rightarrow> (string \<times> string) option" where
  "http_receive chunks request =
     (case frame_http_request request (16 * 1024) (16 * 1024) of
        Invalid \<Rightarrow> None
      | Complete body \<Rightarrow> Some (request, body)
      | Incomplete \<Rightarrow> (case chunks of [] \<Rightarrow> None | c # cs \<Rightarrow> http_receive cs (request @ c)))"

declare http_receive.simps [simp del]

section \<open>Responses\<close>

definition status_text :: "int \<Rightarrow> string" where
  "status_text status =
     (if status = 200 then '' OK''
      else if status = 204 then '' No Content''
      else if status = 205 then '' Reset Content''
      else if status = 303 then '' See Other''
      else '' Bad Request'') @ crlf"

definition http_response :: "int \<Rightarrow> string \<Rightarrow> string \<Rightarrow> string \<Rightarrow> string" where
  "http_response status type body extra =
     ''HTTP/1.1 '' @ int_to_string status @ status_text status @ ''Content-Type: '' @ type @ crlf @ extra @
     ''Content-Length: '' @ nat_to_string (length body) @ crlf @ ''Connection: close'' @ crlf2 @ body"

text \<open>
  The sending loop of \<open>send_response\<close>, one entry per round: the milliseconds left, the results
  of \<open>poll\<close> and \<open>send\<close>, and whether \<open>errno\<close> is \<open>EINTR\<close>.
\<close>

fun http_send :: "(int \<times> int \<times> int \<times> bool) list \<Rightarrow> string \<Rightarrow> bool option \<times> string" where
  "http_send turns [] = (Some True, [])"
| "http_send [] (c # cs) = (None, [])"
| "http_send ((remaining, polled, written, eintr) # turns) (c # cs) =
     (if remaining \<le> 0 \<or> polled \<le> 0 then (Some False, [])
      else if 0 < written then
        (case http_send turns (drop (nat written) (c # cs)) of
           (result, out) \<Rightarrow> (result, take (nat written) (c # cs) @ out))
      else if written < 0 \<and> eintr then http_send turns (c # cs)
      else (Some False, []))"

section \<open>The Wi-Fi inventory\<close>

definition inventory_line :: "string \<Rightarrow> string option" where
  "inventory_line line =
     (let line = rev (dropWhile (\<lambda>c. c = CHR 0x0A \<or> c = CHR 0x0D) (rev line))
      in case find_sub '':'' line of
           None \<Rightarrow> None
         | Some separator \<Rightarrow> if drop (separator + 1) line = ''wifi'' then Some (take separator line) else None)"

text \<open>\<open>nmcli\<close> is the output of the command, \<open>None\<close> when it failed.\<close>

definition wifi_inventory :: "string option \<Rightarrow> string list" where
  "wifi_inventory nmcli =
     (case nmcli of None \<Rightarrow> [] | Some out \<Rightarrow> List.map_filter inventory_line (getlines out))"

section \<open>Forms are read back\<close>

text \<open>The reference: what a browser sends for \<open>application/x-www-form-urlencoded\<close>.\<close>

definition hex_char :: "nat \<Rightarrow> char" where
  "hex_char n = char_of (if n < 10 then 48 + n else 55 + n)"

definition unreserved :: "char \<Rightarrow> bool" where
  "unreserved c =
     (let n = (of_char c :: nat)
      in is_digit c \<or> (65 \<le> n \<and> n \<le> 90) \<or> (97 \<le> n \<and> n \<le> 122) \<or> c \<in> set ''*-._'')"

definition url_encode_char :: "char \<Rightarrow> string" where
  "url_encode_char c =
     (if c = CHR '' '' then ''+''
      else if unreserved c then [c]
      else [CHR ''%'', hex_char (of_char c div 16), hex_char (of_char c mod 16)])"

definition url_encode :: "string \<Rightarrow> string" where
  "url_encode s = concat (map url_encode_char s)"

definition form_pair :: "string \<times> string \<Rightarrow> string" where
  "form_pair = (\<lambda>(name, v). url_encode name @ ''='' @ url_encode v)"

fun form_encode :: "(string \<times> string) list \<Rightarrow> string" where
  "form_encode [] = []"
| "form_encode [f] = form_pair f"
| "form_encode (f # fs) = form_pair f @ ''&'' @ form_encode fs"

lemma of_char_char_of: "n < 256 \<Longrightarrow> (of_char (char_of n) :: nat) = n"
  by (simp add: of_char_of)

lemma hex_char_digit: "n < 16 \<Longrightarrow> is_xdigit (hex_char n) \<and> xdigit_value (hex_char n) = n"
  by (auto simp: hex_char_def is_xdigit_def xdigit_value_def is_digit_def Let_def of_char_char_of)

lemma hex_char_unreserved: "n < 16 \<Longrightarrow> unreserved (hex_char n)"
  by (auto simp: hex_char_def unreserved_def is_digit_def Let_def of_char_char_of)

lemma not_unreserved: "\<not> unreserved (CHR ''&'')" "\<not> unreserved (CHR ''='')" "\<not> unreserved (CHR ''+'')" "\<not> unreserved (CHR ''%'')"
  by (simp_all add: unreserved_def is_digit_def Let_def)

lemma of_char_nibbles: "(of_char c :: nat) div 16 < 16" "(of_char c :: nat) mod 16 < 16"
  using nat_of_char_less_256 [of c] by (auto simp: less_mult_imp_div_less)

lemma url_decode_encode: "url_decode (url_encode s) = s"
proof (induction s)
  case (Cons c s)
  let ?n = "of_char c :: nat"
  note of_char_nibbles [of c]
  then have hex: "is_xdigit (hex_char (?n div 16))" "is_xdigit (hex_char (?n mod 16))"
    "char_of (16 * xdigit_value (hex_char (?n div 16)) + xdigit_value (hex_char (?n mod 16))) = c"
    by (simp_all add: hex_char_digit)
  show ?case
  proof (cases "c = CHR '' '' \<or> \<not> unreserved c")
    case True
    with hex Cons.IH show ?thesis by (auto simp: url_encode_def url_encode_char_def)
  next
    case False
    then have "c \<noteq> CHR ''+''" "c \<noteq> CHR ''%''" using not_unreserved by auto
    with False Cons.IH show ?thesis by (simp add: url_encode_def url_encode_char_def)
  qed
qed (simp add: url_encode_def)

lemma url_encode_clean: "CHR ''&'' \<notin> set (url_encode s) \<and> CHR ''='' \<notin> set (url_encode s)"
proof -
  have "CHR ''&'' \<notin> set (url_encode_char c) \<and> CHR ''='' \<notin> set (url_encode_char c)" for c
    using not_unreserved hex_char_unreserved [of "of_char c div 16"] hex_char_unreserved [of "of_char c mod 16"]
      of_char_nibbles [of c]
    by (auto simp: url_encode_char_def)
  then show ?thesis by (auto simp: url_encode_def)
qed

lemma takeWhile_stop: "x \<notin> set xs \<Longrightarrow> takeWhile (\<lambda>c. c \<noteq> x) (xs @ x # ys) = xs"
  by (induction xs) auto

lemma takeWhile_all: "x \<notin> set xs \<Longrightarrow> takeWhile (\<lambda>c. c \<noteq> x) xs = xs"
  by (induction xs) auto

lemma form_pair_clean: "CHR ''&'' \<notin> set (form_pair f)"
  using url_encode_clean by (auto simp: form_pair_def)

lemma form_field_single: "form_field (form_pair (k, v)) w = (if k = w then Some v else None)"
  using form_pair_clean [of "(k, v)"] url_encode_clean
  by (subst form_field.simps)
     (simp add: takeWhile_all Let_def, simp add: form_pair_def takeWhile_stop url_decode_encode)

lemma form_field_more:
  "form_field (form_pair (k, v) @ CHR ''&'' # rest) w = (if k = w then Some v else form_field rest w)"
proof -
  have "takeWhile (\<lambda>c. c \<noteq> CHR ''&'') (form_pair (k, v) @ CHR ''&'' # rest) = form_pair (k, v)"
    by (rule takeWhile_stop [OF form_pair_clean])
  moreover have "takeWhile (\<lambda>c. c \<noteq> CHR ''='') (form_pair (k, v)) = url_encode k"
    using url_encode_clean by (simp add: form_pair_def takeWhile_stop)
  moreover have "CHR ''='' \<in> set (form_pair (k, v))" "drop (length (url_encode k) + 1) (form_pair (k, v)) = url_encode v"
    by (simp_all add: form_pair_def)
  ultimately show ?thesis
    by (subst form_field.simps, cases "k = w") (simp_all add: Let_def url_decode_encode)
qed

text \<open>
  Form fields arrive as they were entered: in the body a browser sends for any fields, with any
  characters in names and values, \<open>form_field\<close> finds for every name the value of its first
  field, and nothing for a name that was not sent.
\<close>

theorem form_fields_roundtrip:
  assumes "fields \<noteq> []"
  shows "form_field (form_encode fields) wanted = map_of fields wanted"
  using assms
proof (induction fields rule: form_encode.induct)
  case (2 f)
  then show ?case by (cases f) (simp add: form_field_single)
next
  case (3 f g fs)
  then show ?case by (cases f) (simp add: form_field_more)
qed simp

theorem form_fields_roundtrip_witness:
  "form_field (form_encode [(''csrf'', ''a&b=c''), (''id'', ''7'')]) ''id'' = Some ''7''"
  using form_fields_roundtrip [of "[(''csrf'', ''a&b=c''), (''id'', ''7'')]" "''id''"] by simp

section \<open>Requests are framed however they arrive\<close>

fun http_lines :: "string list \<Rightarrow> nat option \<Rightarrow> nat option option" where
  "http_lines [] body_size = Some body_size"
| "http_lines (l # ls) body_size =
     (case http_line l body_size of None \<Rightarrow> None | Some body_size' \<Rightarrow> http_lines ls body_size')"

lemma http_scan_block:
  assumes "list_all header_line ls"
  shows "http_scan (pre @ header_block ls @ crlf @ rest) (length (pre @ header_block ls) - 2) (length pre) body_size =
    http_lines ls body_size"
  using assms
proof (induction ls arbitrary: pre body_size)
  case Nil
  have "\<not> length pre < length pre - 2" by simp
  then show ?case by (subst http_scan.simps) (simp del: not_less)
next
  case (Cons l ls)
  let ?txt = "pre @ header_block (l # ls) @ crlf @ rest" and ?stop = "length (pre @ header_block (l # ls)) - 2"
  from Cons.prems have l: "l \<noteq> []" "CHR 0x0D \<notin> set l" by (simp_all add: header_line_def)
  have found: "find_from crlf ?txt (length pre) = Some (length pre + length l)"
    using find_from_line [OF l(2), of pre "header_block ls @ crlf @ rest"] by simp
  have start: "length pre < ?stop" and "\<not> ?stop < length pre + length l" using l(1) by simp_all
  then have line: "take ((if ?stop < length pre + length l then ?stop else length pre + length l) - length pre)
      (drop (length pre) ?txt) = l" by simp
  have later: "http_scan ?txt ?stop (length pre + length l + 2) b = http_lines ls b" for b
    using Cons.IH [of "pre @ l @ crlf" b] Cons.prems by (simp add: add.assoc)
  have last: "http_lines ls b = Some b" if "?stop \<le> length pre + length l" for b
  proof -
    from that have "ls = []" by (cases ls) auto
    then show ?thesis by simp
  qed
  show ?case
  proof (cases "http_line l body_size")
    case None
    then show ?thesis by (subst http_scan.simps) (simp only: start found if_True option.case line http_lines.simps)
  next
    case (Some b)
    then show ?thesis
      by (subst http_scan.simps, cases "?stop \<le> length pre + length l")
         (simp_all only: start found if_True if_False option.case line http_lines.simps later last not_True_eq_False)
  qed
qed

lemma frame_block:
  assumes "list_all header_line ls" "ls \<noteq> []" "length (header_block ls) - 2 \<le> maximum_headers"
    and "http_lines ls None = Some body_size" "len = (case body_size of None \<Rightarrow> 0 | Some n \<Rightarrow> n)"
    and "len \<le> maximum_body" "maximum_headers + maximum_body + 4 \<le> kMaxSize"
  shows "frame_http_request (header_block ls @ crlf @ body) maximum_headers maximum_body =
    (if length body < len then Incomplete else if len < length body then Invalid else Complete body)"
proof -
  have two: "2 \<le> length (header_block ls)" using assms(2) by (cases ls) auto
  have fin: "length (header_block ls) - 2 + 4 = length (header_block ls) + 2" using two by simp
  have "\<not> kMaxSize - len < length (header_block ls) + 2" using assms(3,6,7) two by linarith
  moreover have "http_scan (header_block ls @ crlf @ body) (length (header_block ls) - 2) 0 None = Some body_size"
    using http_scan_block [OF assms(1), of "[]" body None] assms(4) by simp
  ultimately show ?thesis
    using assms(3,5,6)
    by (simp add: frame_http_request_def find_block_end [OF assms(1,2), unfolded append.simps] Let_def fin two)
qed

lemma frame_short:
  assumes "list_all header_line ls" "ls \<noteq> []" "prefix p (header_block ls @ crlf @ body)"
    and "length p < length (header_block ls) + 2" "length p \<le> maximum_headers"
  shows "frame_http_request p maximum_headers maximum_body = Incomplete"
proof -
  have "find_sub crlf2 p = None"
  proof (rule ccontr)
    assume "find_sub crlf2 p \<noteq> None"
    then obtain i where i: "find_sub crlf2 p = Some i" by auto
    from assms(3) obtain q where "header_block ls @ crlf @ body = p @ q" by (auto simp: prefix_def)
    with find_sub_append [OF i, of q] find_block_end [OF assms(1,2), of body]
    have "i = length (header_block ls) - 2" by simp
    moreover have "2 \<le> length (header_block ls)" using assms(2) by (cases ls) auto
    moreover have "i + 4 \<le> length p" using find_sub_SomeD [OF i] by simp
    ultimately show False using assms(4) by linarith
  qed
  with assms(5) show ?thesis by (simp add: frame_http_request_def)
qed

lemma http_receive_prefix:
  assumes "list_all header_line ls" "ls \<noteq> []" "length (header_block ls) + 1 \<le> 16 * 1024"
    and "http_lines ls None = Some body_size" "length body = (case body_size of None \<Rightarrow> 0 | Some n \<Rightarrow> n)"
    and "length body \<le> 16 * 1024" "request @ concat chunks = header_block ls @ crlf @ body"
  shows "http_receive chunks request = Some (header_block ls @ crlf @ body, body)"
proof -
  have frame: "frame_http_request (header_block ls @ crlf @ b) (16 * 1024) (16 * 1024) =
      (if length b < length body then Incomplete else if length body < length b then Invalid else Complete b)" for b
    using frame_block [OF assms(1,2) _ assms(4), of "16 * 1024" "length body" "16 * 1024" b] assms(3,5,6)
    by (simp add: kMaxSize_def)
  have short: "frame_http_request p (16 * 1024) (16 * 1024) = Incomplete"
    if "prefix p (header_block ls @ crlf @ body)" "p \<noteq> header_block ls @ crlf @ body" for p
  proof (cases "length p < length (header_block ls) + 2")
    case True
    with frame_short [OF assms(1,2) that(1)] assms(3) show ?thesis by simp
  next
    case False
    from that(1) have "prefix p ((header_block ls @ crlf) @ body)" by simp
    moreover have "length (header_block ls @ crlf) \<le> length p" using False by simp
    ultimately obtain b where b: "p = header_block ls @ crlf @ b"
      by (metis append_assoc prefixE prefixI prefix_length_prefix)
    with that have "prefix b body" "b \<noteq> body" by auto
    then have "length b < length body" by (simp add: prefix_length_less prefix_order.le_neq_trans)
    with b frame [of b] show ?thesis by simp
  qed
  from assms(7) show ?thesis
  proof (induction chunks arbitrary: request)
    case Nil
    then show ?case using frame [of body] by (simp add: http_receive.simps)
  next
    case (Cons c cs)
    show ?case
    proof (cases "request = header_block ls @ crlf @ body")
      case True
      then show ?thesis using frame [of body] by (simp add: http_receive.simps)
    next
      case False
      have "prefix request (header_block ls @ crlf @ body)" using Cons.prems by (metis prefixI)
      from short [OF this False] Cons.IH [of "request @ c"] Cons.prems show ?thesis
        by (subst http_receive.simps) simp
    qed
  qed
qed

text \<open>
  C19: A request reaches its handler exactly, however TCP cuts it.  For a header block of non-empty
  lines that states the size of the body (or none, with an empty body), with header and body
  within the limits of 16 KiB, the receive loop returns exactly the request and its body after
  any partition into chunks; bytes behind the request make it invalid.
\<close>

theorem http_request_received:
  assumes "list_all header_line ls" "ls \<noteq> []" "length (header_block ls) + 1 \<le> 16 * 1024"
    and "http_lines ls None = Some body_size" "length body = (case body_size of None \<Rightarrow> 0 | Some n \<Rightarrow> n)"
    and "length body \<le> 16 * 1024"
  shows "(concat chunks = header_block ls @ crlf @ body \<longrightarrow>
            http_receive chunks [] = Some (header_block ls @ crlf @ body, body)) \<and>
         (extra \<noteq> [] \<longrightarrow> frame_http_request (header_block ls @ crlf @ body @ extra) (16 * 1024) (16 * 1024) = Invalid)"
  using http_receive_prefix [OF assms, of "[]" chunks]
    frame_block [OF assms(1,2) _ assms(4), of "16 * 1024" "length body" "16 * 1024" "body @ extra"] assms(3,5,6)
  by (simp add: kMaxSize_def)

lemma http_line_content_length:
  assumes "n < 2 ^ 64"
  shows "http_line (''Content-Length: '' @ nat_to_string n) None = Some (Some n)"
proof -
  have digit: "is_digit c \<Longrightarrow> \<not> is_space c \<and> \<not> is_blank c" for c
    by (auto simp: is_digit_def is_space_def is_blank_def Let_def)
  obtain ds d where ds: "nat_to_string n = ds @ [d]" by (metis append_butlast_last_id nat_to_string_not_Nil)
  have "is_digit d" "list_all is_digit ds" using nat_to_string_digits [of n] by (auto simp: ds)
  then have "dropWhile is_space (rev (CHR '' '' # nat_to_string n)) = rev (CHR '' '' # nat_to_string n)"
    using digit by (simp add: ds)
  moreover have "dropWhile is_blank (CHR '' '' # nat_to_string n) = nat_to_string n"
    using digit nat_to_string_digits [of n] by (cases "nat_to_string n") (auto simp: is_blank_def)
  ultimately have "header_value (CHR '' '' # nat_to_string n) = nat_to_string n"
    by (simp only: header_value_def rev_rev_ident)
  moreover have "find_sub '':'' (''Content-Length: '' @ nat_to_string n) = Some 14"
    using find_colon [of "''Content-Length''" "'' '' @ nat_to_string n"] by simp
  moreover have "lower ''Content-Length'' = ''content-length''" by code_simp
  ultimately show ?thesis using assms by (simp add: http_line_def)
qed

theorem http_request_received_witness:
  "http_receive [''POST / HTTP/1.1'' @ crlf @ ''Content-Length: '' @ nat_to_string 2, crlf2 @ ''a'', ''b''] [] =
     Some (header_block [''POST / HTTP/1.1'', ''Content-Length: '' @ nat_to_string 2] @ crlf @ ''ab'', ''ab'')"
proof -
  have lines: "http_lines [''POST / HTTP/1.1'', ''Content-Length: '' @ nat_to_string 2] None = Some (Some 2)"
    using http_line_content_length [of 2] by (simp add: http_line_def [of "''POST / HTTP/1.1''"])
  have "CHR 0x0D \<notin> set (nat_to_string 2)" by (rule digit_not_in_nat_to_string) simp
  moreover have "length (nat_to_string 2) = 1" by (simp add: nat_to_string.simps)
  ultimately show ?thesis
    using http_request_received [OF _ _ _ lines, of "''ab''"
      "[''POST / HTTP/1.1'' @ crlf @ ''Content-Length: '' @ nat_to_string 2, crlf2 @ ''a'', ''b'']" "[]"]
    by (simp add: header_line_def)
qed

section \<open>Escaped text carries no markup\<close>

text \<open>The characters that delimit tags and attribute values.\<close>

definition is_markup :: "char \<Rightarrow> bool" where
  "is_markup c = (c = CHR ''<'' \<or> c = CHR ''>'' \<or> c = CHR 0x22 \<or> c = CHR 0x27)"

definition markup :: "string \<Rightarrow> string" where
  "markup = filter is_markup"

lemma markup_append [simp]: "markup (s @ t) = markup s @ markup t"
  by (simp add: markup_def)

lemma markup_html_escape [simp]: "markup (html_escape s) = []"
  by (induction s) (auto simp: html_escape_def html_escape_char_def markup_def is_markup_def)

lemma markup_nat_to_string [simp]: "markup (nat_to_string n) = []"
proof -
  have "is_digit c \<Longrightarrow> \<not> is_markup c" for c by (auto simp: is_markup_def is_digit_def)
  then show ?thesis using nat_to_string_digits [of n] by (auto simp: markup_def filter_empty_conv list_all_iff)
qed

lemma markup_int_to_string [simp]: "markup (int_to_string i) = []"
  using markup_nat_to_string by (simp add: int_to_string_def markup_def is_markup_def)

lemma markup_random_token [simp]: "markup (random_token random) = []"
proof -
  have "\<not> is_markup (kHexDigits ! n)" if "n < 16" for n
  proof -
    have "kHexDigits ! n \<in> set kHexDigits" using that by (intro nth_mem) (simp add: kHexDigits_def)
    then show ?thesis by (auto simp: kHexDigits_def is_markup_def)
  qed
  moreover have "unat (r AND 0x0f) < 16" for r :: u32
  proof -
    have "r AND 0x0f = take_bit 4 r" by (simp add: take_bit_eq_mask mask_eq_exp_minus_1)
    then show ?thesis using take_bit_nat_less_exp [of 4 "unat r"] by (simp add: unsigned_take_bit_eq)
  qed
  ultimately show ?thesis by (auto simp: random_token_def markup_def filter_empty_conv)
qed

end
