(* ===== verification/Bridge_Session.thy ===== *)
theory Bridge_Session
  imports Management_State Management_Http Bridge_Config
begin

text \<open>
  How a CarPlay session is started: the command line that the daemon builds
  (\<open>run_carplay_session\<close> in \<open>src/src/bridge_daemon_main.cpp\<close>) and the worker's parser of it
  (\<open>run_bluetooth_worker\<close> in \<open>src/src/iap2_bt_main.cpp\<close>), and the daemon's loop that
  starts sessions for a connected phone and retries with a growing delay.
\<close>

section \<open>The command line\<close>

definition when_given :: "string \<Rightarrow> string \<Rightarrow> string list" where
  "when_given name v = (if v = [] then [] else [name, v])"

record session_sockets =
  video_path :: string
  video_socket :: string
  media_audio_socket :: string
  guidance_audio_socket :: string
  system_audio_socket :: string
  event_socket :: string
  microphone_socket :: string

text \<open>\<open>None\<close> when no head unit is configured (exit status 2).\<close>

definition session_arguments :: "string \<Rightarrow> config \<Rightarrow> bool \<Rightarrow> session_sockets \<Rightarrow> string list option" where
  "session_arguments capabilities_store config preflight sockets =
     (if head_unit_mac config = [] then None
      else Some
        ([''aa2acp-iap2-bt'', ''--bridge'', ''--mac'', head_unit_mac config,
          ''--wifi-interface'', wifi_interface config,
          ''--management-hotspot-ssid'', management_hotspot_ssid config,
          ''--management-hotspot-passphrase'', management_hotspot_passphrase config,
          ''--pairing-store'', airplay_pairing_store config,
          ''--head-unit-capabilities-store'', capabilities_store, ''--timeout'', ''60''] @
         (if preflight then [''--preflight''] else []) @
         when_given ''--video'' (video_path sockets) @
         when_given ''--video-socket'' (video_socket sockets) @
         when_given ''--audio-socket'' (media_audio_socket sockets) @
         when_given ''--guidance-audio-socket'' (guidance_audio_socket sockets) @
         when_given ''--system-audio-socket'' (system_audio_socket sockets) @
         when_given ''--event-socket'' (event_socket sockets) @
         when_given ''--microphone-socket'' (microphone_socket sockets)))"

section \<open>The parser of the worker\<close>

record worker_options =
  opt_address :: string
  opt_timeout :: int
  opt_bootstrap :: bool
  opt_carplay :: bool
  opt_wifi_config :: bool
  opt_join_wifi :: bool
  opt_leave_wifi :: bool
  opt_bridge :: bool
  opt_video_path :: string
  opt_video_socket :: string
  opt_audio_socket :: string
  opt_guidance_audio_socket :: string
  opt_system_audio_socket :: string
  opt_event_socket :: string
  opt_microphone_socket :: string
  opt_pairing_store :: string
  opt_capabilities_store :: string
  opt_wifi_interface :: string
  opt_hotspot_ssid :: string
  opt_hotspot_passphrase :: string

definition default_options :: worker_options where
  "default_options = \<lparr>opt_address = [], opt_timeout = 15, opt_bootstrap = False, opt_carplay = False,
     opt_wifi_config = False, opt_join_wifi = False, opt_leave_wifi = False, opt_bridge = False,
     opt_video_path = [], opt_video_socket = [], opt_audio_socket = [], opt_guidance_audio_socket = [],
     opt_system_audio_socket = [], opt_event_socket = [], opt_microphone_socket = [],
     opt_pairing_store = [], opt_capabilities_store = [], opt_wifi_interface = [],
     opt_hotspot_ssid = [], opt_hotspot_passphrase = []\<rparr>"

text \<open>\<open>std::stoi\<close>; \<open>None\<close> where it throws.\<close>

definition stoi :: "string \<Rightarrow> int option" where
  "stoi s =
     (let s = dropWhile is_space s;
          negative = (s \<noteq> [] \<and> hd s = CHR ''-'');
          s = (if s \<noteq> [] \<and> hd s \<in> {CHR ''-'', CHR ''+''} then tl s else s);
          ds = takeWhile is_digit s;
          v = (if negative then - int (digits_value ds) else int (digits_value ds))
      in if ds = [] \<or> v < - (2 ^ 31) \<or> 2 ^ 31 \<le> v then None else Some v)"

definition timeout_option :: "string \<Rightarrow> int" where
  "timeout_option s =
     (let t = (case stoi s of None \<Rightarrow> 15 | Some t \<Rightarrow> t) in if t \<le> 0 then 15 else t)"

text \<open>An option with a value.\<close>

definition value_option :: "string \<Rightarrow> string \<Rightarrow> worker_options \<Rightarrow> worker_options option" where
  "value_option name v s =
     (if name = ''--mac'' then Some (s\<lparr>opt_address := v\<rparr>)
      else if name = ''--timeout'' then Some (s\<lparr>opt_timeout := timeout_option v\<rparr>)
      else if name = ''--video'' then Some (s\<lparr>opt_video_path := v\<rparr>)
      else if name = ''--head-unit-capabilities-store'' then Some (s\<lparr>opt_capabilities_store := v\<rparr>)
      else if name = ''--video-socket'' then Some (s\<lparr>opt_video_socket := v\<rparr>)
      else if name = ''--audio-socket'' then Some (s\<lparr>opt_audio_socket := v\<rparr>)
      else if name = ''--guidance-audio-socket'' then Some (s\<lparr>opt_guidance_audio_socket := v\<rparr>)
      else if name = ''--system-audio-socket'' then Some (s\<lparr>opt_system_audio_socket := v\<rparr>)
      else if name = ''--event-socket'' then Some (s\<lparr>opt_event_socket := v\<rparr>)
      else if name = ''--microphone-socket'' then Some (s\<lparr>opt_microphone_socket := v\<rparr>)
      else if name = ''--pairing-store'' then Some (s\<lparr>opt_pairing_store := v\<rparr>)
      else if name = ''--wifi-interface'' then Some (s\<lparr>opt_wifi_interface := v\<rparr>)
      else if name = ''--management-hotspot-ssid'' then Some (s\<lparr>opt_hotspot_ssid := v\<rparr>)
      else if name = ''--management-hotspot-passphrase'' then Some (s\<lparr>opt_hotspot_passphrase := v\<rparr>)
      else None)"

text \<open>An option without one.\<close>

definition flag_option :: "string \<Rightarrow> worker_options \<Rightarrow> worker_options option" where
  "flag_option name s =
     (if name = ''--bootstrap'' then Some (s\<lparr>opt_bootstrap := True\<rparr>)
      else if name = ''--carplay'' then Some (s\<lparr>opt_bootstrap := True, opt_carplay := True\<rparr>)
      else if name = ''--wifi-config''
      then Some (s\<lparr>opt_bootstrap := True, opt_carplay := True, opt_wifi_config := True\<rparr>)
      else if name = ''--join-wifi''
      then Some (s\<lparr>opt_bootstrap := True, opt_carplay := True, opt_wifi_config := True, opt_join_wifi := True\<rparr>)
      else if name = ''--leave-wifi'' then Some (s\<lparr>opt_leave_wifi := True\<rparr>)
      else if name = ''--bridge'' \<or> name = ''--preflight''
      then Some (s\<lparr>opt_bootstrap := True, opt_carplay := True, opt_wifi_config := True, opt_join_wifi := True,
                  opt_bridge := True\<rparr>)
      else None)"

text \<open>The loop over \<open>argv\<close> from index 1; \<open>None\<close> is the usage message.\<close>

fun parse_options :: "string list \<Rightarrow> worker_options \<Rightarrow> worker_options option" where
  "parse_options [] s = Some s"
| "parse_options [name] s = flag_option name s"
| "parse_options (name # v # args) s =
     (case value_option name v s of
        Some s' \<Rightarrow> parse_options args s'
      | None \<Rightarrow> (case flag_option name s of Some s' \<Rightarrow> parse_options (v # args) s' | None \<Rightarrow> None))"

section \<open>The retry loop\<close>

text \<open>
  What a session's end tells the loop in \<open>run_wired_android_auto_receiver\<close>: the exit status,
  whether the daemon stops and whether the phone has gone, once when the session ends
  (\<open>stop\<close>, \<open>gone\<close>) and once after the wait.  The result is the new delay in seconds,
  \<open>preparation_failed\<close>, and \<open>carplay_start_requested\<close>.
\<close>

definition retry_step :: "nat \<Rightarrow> bool \<Rightarrow> int \<Rightarrow> bool \<times> bool \<Rightarrow> bool \<times> bool \<Rightarrow> nat \<times> bool \<times> bool" where
  "retry_step delay failed result at_end after_wait =
     (case at_end of (stop, gone) \<Rightarrow>
        if stop \<or> gone then (delay, failed, False)
        else if result = 0 then (0, failed, False)
        else (if delay = 0 then 1 else min (delay * 2) 30, True, \<not> snd after_wait \<and> \<not> fst after_wait))"

section \<open>Properties\<close>

lemma parse_value:
  "value_option name v s = Some s' \<Longrightarrow> parse_options (name # v # args) s = parse_options args s'"
  by simp

lemma parse_flag:
  assumes "\<And>v. value_option name v s = None" "flag_option name s = Some s'"
  shows "parse_options (name # args) s = parse_options args s'"
  using assms by (cases args) auto

lemma parse_when_given:
  assumes "\<And>v. value_option name v s = Some (f v)" "f [] = s"
  shows "parse_options (when_given name v @ args) s = parse_options args (f v)"
  using assms by (cases "v = []") (simp_all add: when_given_def)

lemma timeout_60: "timeout_option ''60'' = 60"
  by (simp add: timeout_option_def stoi_def is_space_def is_digit_def digits_value_def digit_value_def Let_def)

text \<open>One step of the parser for each option of the daemon's command line.\<close>

lemma parse_given:
  "parse_options (''--mac'' # v # args) s = parse_options args (s\<lparr>opt_address := v\<rparr>)"
  "parse_options (''--wifi-interface'' # v # args) s = parse_options args (s\<lparr>opt_wifi_interface := v\<rparr>)"
  "parse_options (''--management-hotspot-ssid'' # v # args) s = parse_options args (s\<lparr>opt_hotspot_ssid := v\<rparr>)"
  "parse_options (''--management-hotspot-passphrase'' # v # args) s = parse_options args (s\<lparr>opt_hotspot_passphrase := v\<rparr>)"
  "parse_options (''--pairing-store'' # v # args) s = parse_options args (s\<lparr>opt_pairing_store := v\<rparr>)"
  "parse_options (''--head-unit-capabilities-store'' # v # args) s = parse_options args (s\<lparr>opt_capabilities_store := v\<rparr>)"
  "parse_options (''--timeout'' # ''60'' # args) s = parse_options args (s\<lparr>opt_timeout := 60\<rparr>)"
  by (simp_all add: value_option_def timeout_60)

lemma parse_optional:
  "opt_video_path s = [] \<Longrightarrow>
     parse_options (when_given ''--video'' v @ args) s = parse_options args (s\<lparr>opt_video_path := v\<rparr>)"
  "opt_video_socket s = [] \<Longrightarrow>
     parse_options (when_given ''--video-socket'' v @ args) s = parse_options args (s\<lparr>opt_video_socket := v\<rparr>)"
  "opt_audio_socket s = [] \<Longrightarrow>
     parse_options (when_given ''--audio-socket'' v @ args) s = parse_options args (s\<lparr>opt_audio_socket := v\<rparr>)"
  "opt_guidance_audio_socket s = [] \<Longrightarrow>
     parse_options (when_given ''--guidance-audio-socket'' v @ args) s = parse_options args (s\<lparr>opt_guidance_audio_socket := v\<rparr>)"
  "opt_system_audio_socket s = [] \<Longrightarrow>
     parse_options (when_given ''--system-audio-socket'' v @ args) s = parse_options args (s\<lparr>opt_system_audio_socket := v\<rparr>)"
  "opt_event_socket s = [] \<Longrightarrow>
     parse_options (when_given ''--event-socket'' v @ args) s = parse_options args (s\<lparr>opt_event_socket := v\<rparr>)"
  "opt_microphone_socket s = [] \<Longrightarrow>
     parse_options (when_given ''--microphone-socket'' v @ args) s = parse_options args (s\<lparr>opt_microphone_socket := v\<rparr>)"
  by (cases s; rule parse_when_given; simp add: value_option_def)+

text \<open>
  C16: The worker runs with the configuration of the daemon.  The command line built for a session is
  accepted by the worker's parser, and every option has the value the daemon gave it, empty ones
  included; bridge mode is on, and with it everything it implies.
\<close>

theorem worker_gets_configuration:
  assumes "session_arguments store config preflight sockets = Some (program # arguments)"
  shows "parse_options arguments default_options = Some
    \<lparr>opt_address = head_unit_mac config, opt_timeout = 60, opt_bootstrap = True, opt_carplay = True,
     opt_wifi_config = True, opt_join_wifi = True, opt_leave_wifi = False, opt_bridge = True,
     opt_video_path = video_path sockets, opt_video_socket = video_socket sockets,
     opt_audio_socket = media_audio_socket sockets,
     opt_guidance_audio_socket = guidance_audio_socket sockets,
     opt_system_audio_socket = system_audio_socket sockets, opt_event_socket = event_socket sockets,
     opt_microphone_socket = microphone_socket sockets,
     opt_pairing_store = airplay_pairing_store config, opt_capabilities_store = store,
     opt_wifi_interface = wifi_interface config, opt_hotspot_ssid = management_hotspot_ssid config,
     opt_hotspot_passphrase = management_hotspot_passphrase config\<rparr>"
proof -
  have args: "arguments = ''--bridge'' # ''--mac'' # head_unit_mac config # ''--wifi-interface'' # wifi_interface config #
      ''--management-hotspot-ssid'' # management_hotspot_ssid config #
      ''--management-hotspot-passphrase'' # management_hotspot_passphrase config #
      ''--pairing-store'' # airplay_pairing_store config # ''--head-unit-capabilities-store'' # store #
      ''--timeout'' # ''60'' # ((if preflight then [''--preflight''] else []) @
         when_given ''--video'' (video_path sockets) @ when_given ''--video-socket'' (video_socket sockets) @
         when_given ''--audio-socket'' (media_audio_socket sockets) @
         when_given ''--guidance-audio-socket'' (guidance_audio_socket sockets) @
         when_given ''--system-audio-socket'' (system_audio_socket sockets) @
         when_given ''--event-socket'' (event_socket sockets) @
         when_given ''--microphone-socket'' (microphone_socket sockets) @ [])"
    using assms by (auto simp: session_arguments_def split: if_splits)
  have bridge: "parse_options (''--bridge'' # as) s = parse_options as (s\<lparr>opt_bootstrap := True, opt_carplay := True,
      opt_wifi_config := True, opt_join_wifi := True, opt_bridge := True\<rparr>)" for as s
    by (rule parse_flag) (simp_all add: value_option_def flag_option_def)
  have preflight: "parse_options ((if preflight then [''--preflight''] else []) @ as) s = parse_options as s"
    if "opt_bootstrap s" "opt_carplay s" "opt_wifi_config s" "opt_join_wifi s" "opt_bridge s" for as s
  proof (cases preflight)
    case True
    have "parse_options (''--preflight'' # as) s = parse_options as (s\<lparr>opt_bootstrap := True, opt_carplay := True,
        opt_wifi_config := True, opt_join_wifi := True, opt_bridge := True\<rparr>)"
      by (rule parse_flag) (simp_all add: value_option_def flag_option_def)
    also have "s\<lparr>opt_bootstrap := True, opt_carplay := True, opt_wifi_config := True, opt_join_wifi := True,
        opt_bridge := True\<rparr> = s" using that by (cases s) simp
    finally show ?thesis using True by simp
  qed simp
  show ?thesis
    unfolding args bridge parse_given default_options_def worker_options.simps
    by (subst preflight, simp, simp, simp, simp, simp)
       (simp only: parse_optional worker_options.simps parse_options.simps(1))
qed

theorem worker_gets_configuration_witness:
  "map_option (\<lambda>s. (opt_address s, opt_timeout s, opt_bridge s))
     (parse_options (tl (the (session_arguments ''store'' example_config False
        \<lparr>video_path = [], video_socket = ''v'', media_audio_socket = ''m'', guidance_audio_socket = ''g'',
         system_audio_socket = ''s'', event_socket = ''e'', microphone_socket = []\<rparr>))) default_options)
   = Some (''AA'', 60, True)"
proof -
  let ?s = "\<lparr>video_path = [], video_socket = ''v'', media_audio_socket = ''m'', guidance_audio_socket = ''g'',
         system_audio_socket = ''s'', event_socket = ''e'', microphone_socket = []\<rparr>"
  obtain p as where a: "session_arguments ''store'' example_config False ?s = Some (p # as)"
    by (simp add: session_arguments_def example_config_def)
  from worker_gets_configuration [OF a] show ?thesis
    unfolding a by (simp add: example_config_def)
qed

text \<open>
  The delay between attempts doubles from one second and stays at thirty: it depends on the number
  of failures since the last success only.
\<close>

lemma retry_delay_after_failures:
  assumes "result \<noteq> 0"
  shows "((\<lambda>d. fst (retry_step d failed result (False, False) after)) ^^ Suc n) 0 = min (2 ^ n) 30"
proof (induction n)
  case 0
  then show ?case using assms by (simp add: retry_step_def)
next
  case (Suc n)
  have "min (2 ^ n) (30::nat) \<noteq> 0" by simp
  moreover have "min (min (2 ^ n) 30 * 2) 30 = min (2 ^ Suc n) (30::nat)" by (simp add: min_def)
  ultimately show ?case
    unfolding funpow.simps(2) [of "Suc n"] o_apply Suc.IH using assms
    by (simp only: retry_step_def prod.case fst_conv snd_conv if_False simp_thms)
qed

end
