(* ===== verification/Bridge_Log.thy ===== *)
theory Bridge_Log
  imports Text_Prelude "HOL-Library.Char_ord" "HOL-Library.List_Lexorder"
begin

text \<open>
  Logging: the levels and line prefixes of \<open>src/include/aa2acp/bridge/logging.hpp\<close>, and of
  \<open>src/src/bridge/daemon_log.cpp\<close> the bounded tail for the management page, the stream
  buffer that copies \<open>std::cout\<close> and \<open>std::cerr\<close> to the console, the log file and that tail,
  and the pruning of old log files.  The clock is an argument: \<open>stamps\<close> are the results of
  successive calls of \<open>log_timestamp\<close>; so are the outcomes of writing.
\<close>

section \<open>Levels\<close>

datatype log_level = Debug | Info | Warning | Error

definition log_level_name :: "log_level \<Rightarrow> string" where
  "log_level_name level =
     (case level of Debug \<Rightarrow> ''debug'' | Info \<Rightarrow> ''info'' | Warning \<Rightarrow> ''warning'' | Error \<Rightarrow> ''error'')"

definition log_prefix :: "log_level \<Rightarrow> char \<Rightarrow> string" where
  "log_prefix level marker =
     ''['' @ log_level_name level @ replicate (7 - length (log_level_name level)) CHR '' '' @ ''] '' @ [marker] @ '' ''"

definition parse_log_level :: "string \<Rightarrow> log_level option" where
  "parse_log_level s =
     (if s = ''debug'' then Some Debug
      else if s = ''info'' then Some Info
      else if s = ''warning'' then Some Warning
      else if s = ''error'' then Some Error
      else None)"

text \<open>\<open>env\<close> is the value of \<open>AA2ACP_LOG_LEVEL\<close>.\<close>

definition configured_log_level :: "string option \<Rightarrow> log_level" where
  "configured_log_level env =
     (case env of None \<Rightarrow> Info | Some level \<Rightarrow> (case parse_log_level level of None \<Rightarrow> Info | Some l \<Rightarrow> l))"

definition level_number :: "log_level \<Rightarrow> nat" where
  "level_number level = (case level of Debug \<Rightarrow> 0 | Info \<Rightarrow> 1 | Warning \<Rightarrow> 2 | Error \<Rightarrow> 3)"

definition log_level_enabled :: "string option \<Rightarrow> log_level \<Rightarrow> bool" where
  "log_level_enabled env level = (level_number (configured_log_level env) \<le> level_number level)"

text \<open>What the destructor of \<open>LogLine\<close> writes, and whether to \<open>std::cerr\<close>.\<close>

definition log_line :: "string option \<Rightarrow> log_level \<Rightarrow> string \<Rightarrow> (bool \<times> string) option" where
  "log_line env level message =
     (if \<not> log_level_enabled env level \<or> message = [] then None
      else Some (level = Warning \<or> level = Error, log_prefix level CHR ''>'' @ message))"

section \<open>The recent log\<close>

definition kMaximumBytes :: nat where
  "kMaximumBytes = 200 * 1024"

definition recent_append :: "string \<Rightarrow> string \<Rightarrow> string" where
  "recent_append contents s =
     (let contents = contents @ s
      in if kMaximumBytes < length contents then drop (length contents - kMaximumBytes) contents else contents)"

section \<open>The stream buffer\<close>

text \<open>
  \<open>console\<close>, \<open>log_file\<close> and \<open>recent\<close> are what has been written to each; the file is \<open>None\<close> when it
  could not be opened.  \<open>outcomes\<close> says which of the coming writes succeed; they all do
  when the list is empty.
\<close>

record tee =
  console :: string
  log_file :: "string option"
  recent :: string
  at_line_start :: bool
  outcomes :: "bool list"

definition has_log_level_prefix :: "string \<Rightarrow> bool" where
  "has_log_level_prefix s = (\<exists>level \<in> {Debug, Info, Warning, Error}. prefix (''['' @ log_level_name level) s)"

definition outcome :: "tee \<Rightarrow> bool \<times> tee" where
  "outcome b = (case outcomes b of [] \<Rightarrow> (True, b) | ok # oks \<Rightarrow> (ok, b\<lparr>outcomes := oks\<rparr>))"

definition console_write :: "string \<Rightarrow> tee \<Rightarrow> bool \<times> tee" where
  "console_write s b = (case outcome b of (ok, b) \<Rightarrow> (ok, if ok then b\<lparr>console := console b @ s\<rparr> else b))"

definition file_write :: "string \<Rightarrow> tee \<Rightarrow> bool \<times> tee" where
  "file_write s b =
     (case log_file b of
        None \<Rightarrow> (True, b)
      | Some f \<Rightarrow> (case outcome b of (ok, b) \<Rightarrow> (ok, if ok then b\<lparr>log_file := Some (f @ s)\<rparr> else b)))"

definition next_stamp :: "string list \<Rightarrow> string" where
  "next_stamp stamps = (case stamps of [] \<Rightarrow> [] | stamp # _ \<Rightarrow> stamp)"

text \<open>The prefix of a line, when one is due; \<open>stamp\<close> is the time.\<close>

definition write_prefix :: "string \<Rightarrow> string \<Rightarrow> tee \<Rightarrow> bool \<times> tee" where
  "write_prefix stamp pre b =
     (case (if pre = [] then (True, b) else console_write pre b) of
        (False, b) \<Rightarrow> (False, b)
      | (True, b) \<Rightarrow>
          (case file_write (stamp @ pre) b of
             (False, b) \<Rightarrow> (False, b)
           | (True, b) \<Rightarrow> (True, b\<lparr>recent := recent_append (recent b) (stamp @ pre), at_line_start := False\<rparr>)))"

text \<open>
  The loop of \<open>write_locked\<close> at \<open>offset\<close>; \<open>level\<close> is the level in force (that of the scope,
  or the default of the stream).
\<close>

definition line_count :: "string \<Rightarrow> nat \<Rightarrow> nat" where
  "line_count s offset =
     (case find_from [CHR 0x0A] s offset of None \<Rightarrow> length s - offset | Some line_end \<Rightarrow> line_end - offset + 1)"

lemma line_count_pos: "offset < length s \<Longrightarrow> 0 < line_count s offset"
  by (auto simp: line_count_def split: option.splits)

lemma line_count_less: "offset < length s \<Longrightarrow> length s - (offset + line_count s offset) < length s - offset"
  using line_count_pos [of offset s] by linarith

function write_lines :: "log_level \<Rightarrow> string list \<Rightarrow> string \<Rightarrow> nat \<Rightarrow> tee \<Rightarrow> bool \<times> tee" where
  "write_lines level stamps s offset b =
     (if offset < length s
      then (case (if at_line_start b
                  then write_prefix (next_stamp stamps)
                         (if has_log_level_prefix (drop offset s) then []
                          else log_prefix level (if offset = 0 then CHR ''>'' else CHR ''|'')) b
                  else (True, b)) of
              (False, b') \<Rightarrow> (False, b')
            | (True, b') \<Rightarrow>
                (let part = take (line_count s offset) (drop offset s)
                 in case console_write part b' of
                      (False, b') \<Rightarrow> (False, b')
                    | (True, b') \<Rightarrow>
                        (case file_write part b' of
                           (False, b') \<Rightarrow> (False, b')
                         | (True, b') \<Rightarrow>
                             write_lines level (if at_line_start b then tl stamps else stamps) s
                               (offset + line_count s offset)
                               (b'\<lparr>recent := recent_append (recent b') part, at_line_start := (last part = CHR 0x0A)\<rparr>))))
      else (True, b))"
  by pat_completeness auto
termination
  by (relation "measure (\<lambda>(level, stamps, s, offset, b). length s - offset)")
     (simp_all add: line_count_less)

declare write_lines.simps [simp del]

text \<open>\<open>xsputn\<close> and \<open>overflow\<close>, the two ways characters arrive.\<close>

definition xsputn :: "log_level \<Rightarrow> string list \<Rightarrow> string \<Rightarrow> tee \<Rightarrow> nat \<times> tee" where
  "xsputn level stamps s b = (case write_lines level stamps s 0 b of (ok, b) \<Rightarrow> (if ok then length s else 0, b))"

definition overflow :: "log_level \<Rightarrow> string list \<Rightarrow> char option \<Rightarrow> tee \<Rightarrow> bool \<times> tee" where
  "overflow level stamps c b = (case c of None \<Rightarrow> (True, b) | Some c \<Rightarrow> write_lines level stamps [c] 0 b)"

section \<open>Old log files\<close>

definition is_daemon_log :: "bool \<times> string \<Rightarrow> bool" where
  "is_daemon_log = (\<lambda>(is_regular, name).
     is_regular \<and> suffix ''.log'' name \<and> prefix ''aa2acp-bridge-daemon-'' name)"

definition prune_logs :: "(bool \<times> string) list \<Rightarrow> string list" where
  "prune_logs entries = drop 29 (rev (sort (map snd (filter is_daemon_log entries))))"

text \<open>
  \<open>next_daemon_log_path\<close> on the entries of the directory: the entries that stay and the name
  of the new file.  A file that cannot be removed is not reported.
\<close>

definition next_daemon_log_path ::
  "bool \<Rightarrow> (bool \<times> string) list \<Rightarrow> nat \<Rightarrow> nat \<Rightarrow> ((bool \<times> string) list \<times> string) option" where
  "next_daemon_log_path directory_ok entries stamp getpid =
     (if \<not> directory_ok then None
      else Some (filter (\<lambda>e. \<not> (is_daemon_log e \<and> snd e \<in> set (prune_logs entries))) entries,
                 ''aa2acp-bridge-daemon-'' @ nat_to_string stamp @ ''-'' @ nat_to_string getpid @ ''.log''))"

section \<open>The recent log is the tail of the file\<close>

definition last_bytes :: "string \<Rightarrow> string" where
  "last_bytes s = drop (length s - kMaximumBytes) s"

lemma recent_append_last_bytes [simp]: "recent_append (last_bytes f) s = last_bytes (f @ s)"
  by (cases "length f \<le> kMaximumBytes") (auto simp: recent_append_def last_bytes_def Let_def add.commute)

lemma recent_append_bounded: "length (recent_append c s) \<le> kMaximumBytes"
  by (simp add: recent_append_def Let_def del: drop_append)

definition tail_ok :: "tee \<Rightarrow> bool" where
  "tail_ok b = (length (recent b) \<le> kMaximumBytes \<and> (\<forall>f. log_file b = Some f \<longrightarrow> recent b = last_bytes f))"

lemma outcome_fields:
  "outcome b = (ok, b') \<Longrightarrow>
     console b' = console b \<and> log_file b' = log_file b \<and> recent b' = recent b \<and> at_line_start b' = at_line_start b"
  by (auto simp: outcome_def split: list.splits)

lemma console_write_fields:
  "console_write s b = (ok, b') \<Longrightarrow>
     log_file b' = log_file b \<and> recent b' = recent b \<and> at_line_start b' = at_line_start b"
  by (auto simp: console_write_def split: prod.splits if_splits dest!: outcome_fields)

lemma file_write_fields:
  "file_write s b = (ok, b') \<Longrightarrow> recent b' = recent b \<and> at_line_start b' = at_line_start b \<and>
     log_file b' = (if ok then map_option (\<lambda>f. f @ s) (log_file b) else log_file b)"
  by (auto simp: file_write_def split: prod.splits option.splits if_splits dest!: outcome_fields)

lemma tail_ok_both:
  assumes "tail_ok b" "file_write s b = (True, b')"
  shows "tail_ok (b'\<lparr>recent := recent_append (recent b') s, at_line_start := a\<rparr>)"
  using assms file_write_fields [OF assms(2)] by (auto simp: tail_ok_def recent_append_bounded)

lemma tail_ok_frame:
  "log_file b' = log_file b \<Longrightarrow> recent b' = recent b \<Longrightarrow> tail_ok b \<Longrightarrow> tail_ok b'"
  by (simp add: tail_ok_def)

lemma tail_ok_console: "tail_ok b \<Longrightarrow> console_write s b = (ok, b') \<Longrightarrow> tail_ok b'"
  using console_write_fields tail_ok_frame by blast

lemma tail_ok_file_failed: "tail_ok b \<Longrightarrow> file_write s b = (False, b') \<Longrightarrow> tail_ok b'"
  using file_write_fields tail_ok_frame by (metis (full_types))

lemma tail_ok_prefix: "tail_ok b \<Longrightarrow> write_prefix stamp pre b = (ok, b') \<Longrightarrow> tail_ok b'"
  by (auto simp: write_prefix_def split: prod.splits bool.splits if_splits
      intro: tail_ok_both tail_ok_console tail_ok_file_failed)

lemma tail_ok_write: "tail_ok b \<Longrightarrow> write_lines level stamps s offset b = (ok, b') \<Longrightarrow> tail_ok b'"
proof (induction level stamps s offset b rule: write_lines.induct)
  case (1 level stamps s offset b)
  show ?case
  proof (cases "offset < length s")
    case False
    with 1 show ?thesis by (simp add: write_lines.simps)
  next
    case True
    obtain k b1 where p: "(if at_line_start b then write_prefix (next_stamp stamps)
        (if has_log_level_prefix (drop offset s) then []
         else log_prefix level (if offset = 0 then CHR ''>'' else CHR ''|'')) b else (True, b)) = (k, b1)" by fastforce
    with 1(2) have b1: "tail_ok b1" by (auto split: if_splits intro: tail_ok_prefix)
    define part where "part = take (line_count s offset) (drop offset s)"
    obtain k2 b2 where c: "console_write part b1 = (k2, b2)" by fastforce
    obtain k3 b3 where f: "file_write part b2 = (k3, b3)" by fastforce
    have b2: "tail_ok b2" using tail_ok_console [OF b1 c] .
    show ?thesis
    proof (cases "k \<and> k2 \<and> k3")
      case False
      with 1(3) True p c f b1 b2 tail_ok_file_failed [OF b2] show ?thesis
        by (subst (asm) write_lines.simps)
           (simp add: part_def [symmetric] split: bool.splits if_splits)
    next
      case ok: True
      let ?b = "b3\<lparr>recent := recent_append (recent b3) part, at_line_start := (last part = CHR 0x0A)\<rparr>"
      have "tail_ok ?b" using tail_ok_both [OF b2] f ok by simp
      moreover have "write_lines level (if at_line_start b then tl stamps else stamps) s
          (offset + line_count s offset) ?b = (ok, b')"
        using 1(3) True p c f ok by (subst (asm) write_lines.simps) (simp add: part_def [symmetric])
      ultimately show ?thesis
        using 1(1) [OF True p [symmetric] _ part_def c [symmetric] _ f [symmetric]] ok by simp
    qed
  qed
qed

section \<open>What is written\<close>

text \<open>The reference: the text in segments that end after each newline, each with what precedes it.\<close>

fun split_lines :: "string \<Rightarrow> string list" where
  "split_lines [] = []"
| "split_lines (c # cs) =
     (if c = CHR 0x0A then [c] # split_lines cs
      else (case split_lines cs of [] \<Rightarrow> [[c]] | l # ls \<Rightarrow> (c # l) # ls))"

fun annotate :: "log_level \<Rightarrow> string list \<Rightarrow> bool \<Rightarrow> char \<Rightarrow> string list \<Rightarrow> (string \<times> string \<times> string) list" where
  "annotate level stamps start marker [] = []"
| "annotate level stamps start marker (l # ls) =
     (if start
      then (next_stamp stamps, if has_log_level_prefix (concat (l # ls)) then [] else log_prefix level marker, l)
      else ([], [], l)) #
     annotate level (if start then tl stamps else stamps) (last l = CHR 0x0A) CHR ''|'' ls"

definition shown_line :: "string \<times> string \<times> string \<Rightarrow> string" where
  "shown_line = (\<lambda>(stamp, pre, l). pre @ l)"

definition kept_line :: "string \<times> string \<times> string \<Rightarrow> string" where
  "kept_line = (\<lambda>(stamp, pre, l). stamp @ pre @ l)"

lemma concat_split_lines [simp]: "concat (split_lines s) = s"
  by (induction s rule: split_lines.induct) (auto split: list.splits)

lemma split_lines_Nil_iff [simp]: "split_lines s = [] \<longleftrightarrow> s = []"
  by (cases s) (auto split: list.splits)

lemma split_lines_first:
  "s \<noteq> [] \<Longrightarrow> split_lines s =
     (let n = (case find_sub [CHR 0x0A] s of None \<Rightarrow> length s | Some i \<Rightarrow> Suc i) in take n s # split_lines (drop n s))"
proof (induction s)
  case (Cons c cs)
  show ?case
  proof (cases "c = CHR 0x0A")
    case True
    then show ?thesis by simp
  next
    case False
    then show ?thesis
    proof (cases "cs = []")
      case True
      with False show ?thesis by simp
    next
      case ne: False
      with Cons.IH False show ?thesis by (auto simp: Let_def split: option.splits)
    qed
  qed
qed simp

lemma line_count_first:
  "offset < length s \<Longrightarrow> line_count s offset =
     (case find_sub [CHR 0x0A] (drop offset s) of None \<Rightarrow> length (drop offset s) | Some i \<Rightarrow> Suc i)"
  by (auto simp: line_count_def find_from_def split: option.splits)

lemma console_write_ok [simp]: "outcomes b = [] \<Longrightarrow> console_write s b = (True, b\<lparr>console := console b @ s\<rparr>)"
  by (simp add: console_write_def outcome_def)

lemma file_write_ok [simp]: "outcomes b = [] \<Longrightarrow> file_write s b = (True, b\<lparr>log_file := map_option (\<lambda>f. f @ s) (log_file b)\<rparr>)"
  by (auto simp: file_write_def outcome_def split: option.splits)

lemma map_option_append [simp]: "map_option (\<lambda>f. f @ t) (map_option (\<lambda>f. f @ s) x) = map_option (\<lambda>f. f @ s @ t) x"
  by (cases x) auto

lemma write_lines_reference:
  assumes "outcomes b = []"
  shows "\<exists>r a. write_lines level stamps s offset b =
    (let notes = annotate level stamps (at_line_start b) (if offset = 0 then CHR ''>'' else CHR ''|'') (split_lines (drop offset s))
     in (True, b\<lparr>console := console b @ concat (map shown_line notes),
          log_file := map_option (\<lambda>f. f @ concat (map kept_line notes)) (log_file b), recent := r, at_line_start := a\<rparr>))"
  using assms
proof (induction "length s - offset" arbitrary: offset b stamps rule: less_induct)
  case less
  show ?case
  proof (cases "offset < length s")
    case False
    then show ?thesis by (auto simp: write_lines.simps option.map_ident intro!: exI [of _ "recent b"] exI [of _ "at_line_start b"])
  next
    case True
    define n where "n = line_count s offset"
    have n: "0 < n" using line_count_pos True by (simp add: n_def)
    have split: "split_lines (drop offset s) = take n (drop offset s) # split_lines (drop (offset + n) s)"
      using split_lines_first [of "drop offset s"] line_count_first [OF True] True by (simp add: n_def Let_def add.commute)
    have whole: "take n (drop offset s) @ drop (offset + n) s = drop offset s"
      by (metis add.commute append_take_drop_id drop_drop)
    define pre where "pre = (if at_line_start b then
        (if has_log_level_prefix (drop offset s) then [] else log_prefix level (if offset = 0 then CHR ''>'' else CHR ''|'')) else [])"
    define stamp where "stamp = (if at_line_start b then next_stamp stamps else [])"
    let ?part = "take n (drop offset s)"
    let ?stamps = "if at_line_start b then tl stamps else stamps"
    have "\<exists>r. write_lines level stamps s offset b = write_lines level ?stamps s (offset + n)
        (b\<lparr>console := console b @ pre @ ?part, log_file := map_option (\<lambda>f. f @ stamp @ pre @ ?part) (log_file b),
           recent := r, at_line_start := (last ?part = CHR 0x0A)\<rparr>)"
      using True less.prems
      by (subst write_lines.simps) (auto simp: n_def [symmetric] pre_def stamp_def write_prefix_def Let_def)
    then obtain r where step: "write_lines level stamps s offset b = write_lines level ?stamps s (offset + n)
        (b\<lparr>console := console b @ pre @ ?part, log_file := map_option (\<lambda>f. f @ stamp @ pre @ ?part) (log_file b),
           recent := r, at_line_start := (last ?part = CHR 0x0A)\<rparr>)" by blast
    let ?b = "b\<lparr>console := console b @ pre @ ?part, log_file := map_option (\<lambda>f. f @ stamp @ pre @ ?part) (log_file b),
           recent := r, at_line_start := (last ?part = CHR 0x0A)\<rparr>"
    have "length s - (offset + n) < length s - offset" using True n by simp
    from less.hyps [OF this, of ?b ?stamps] less.prems obtain r' a' where
      "write_lines level ?stamps s (offset + n) ?b =
        (let notes = annotate level ?stamps (at_line_start ?b) (if offset + n = 0 then CHR ''>'' else CHR ''|'')
               (split_lines (drop (offset + n) s))
         in (True, ?b\<lparr>console := console ?b @ concat (map shown_line notes),
              log_file := map_option (\<lambda>f. f @ concat (map kept_line notes)) (log_file ?b), recent := r', at_line_start := a'\<rparr>))"
      by auto
    with step n show ?thesis
      by (intro exI [of _ r'] exI [of _ a']; cases "at_line_start b")
         (simp_all add: split whole Let_def pre_def stamp_def shown_line_def kept_line_def)
  qed
qed

section \<open>Properties\<close>



text \<open>
  Nothing of the text is lost or altered on the way to console and file.  When writing succeeds,
  the text goes out in order, line by line; each line that starts a new line of output is
  preceded by the level prefix (unless it brings its own) and in the file by the time as well,
  with the marker \<open>>\<close> on the first and \<open>|\<close> on continuation lines.
\<close>

theorem log_copies_text:
  assumes "outcomes b = []"
  shows "\<exists>b'. xsputn level stamps s b = (length s, b') \<and>
    (let notes = annotate level stamps (at_line_start b) CHR ''>'' (split_lines s)
     in concat (map (\<lambda>(stamp, pre, l). l) notes) = s \<and>
        console b' = console b @ concat (map shown_line notes) \<and>
        log_file b' = map_option (\<lambda>f. f @ concat (map kept_line notes)) (log_file b))"
proof -
  have "map (\<lambda>(stamp, pre, l). l) (annotate level stamps start marker ls) = ls" for start marker ls
    by (induction level stamps start marker ls rule: annotate.induct) auto
  then have "concat (map (\<lambda>(stamp, pre, l). l) (annotate level stamps start marker (split_lines s))) = s" for start marker
    by simp
  with write_lines_reference [OF assms, of level stamps s 0] show ?thesis
    by (auto simp: xsputn_def Let_def)
qed

theorem log_copies_text_witness:
  "\<exists>b'. xsputn Info [''t '', ''u ''] [CHR ''a'', CHR 0x0A, CHR ''b'']
       \<lparr>console = [], log_file = None, recent = [], at_line_start = True, outcomes = []\<rparr> = (3, b') \<and>
     console b' = ''[info   ] > a'' @ [CHR 0x0A] @ ''[info   ] | b''"
  using log_copies_text [of "\<lparr>console = [], log_file = None, recent = [], at_line_start = True, outcomes = []\<rparr>"
      Info "[''t '', ''u '']" "[CHR ''a'', CHR 0x0A, CHR ''b'']"]
  by (auto simp: Let_def shown_line_def log_prefix_def log_level_name_def has_log_level_prefix_def eval_nat_numeral)

lemma sorted_rev_drop:
  assumes "sorted (rev xs)" "i < n" "n \<le> j" "j < length xs"
  shows "xs ! j \<le> xs ! i"
proof -
  from assms have "rev xs ! (length xs - Suc j) \<le> rev xs ! (length xs - Suc i)"
    by (intro sorted_nth_mono) auto
  with assms show ?thesis by (simp add: rev_nth)
qed

text \<open>
  Starting the daemon leaves at most 29 old logs, so that with the new one there are at most 30; every
  log that is removed is older by name than every log that stays, and no other file is touched.
\<close>

theorem log_retention:
  assumes "next_daemon_log_path directory_ok entries stamp getpid = Some (kept, name)" "distinct (map snd entries)"
  shows "length (filter is_daemon_log kept) \<le> 29 \<and>
         filter (\<lambda>e. \<not> is_daemon_log e) kept = filter (\<lambda>e. \<not> is_daemon_log e) entries \<and>
         (\<forall>gone \<in> set entries - set kept. \<forall>e \<in> set (filter is_daemon_log kept). snd gone < snd e) \<and>
         is_daemon_log (True, name)"
proof -
  define logs where "logs = rev (sort (map snd (filter is_daemon_log entries)))"
  have kept: "kept = filter (\<lambda>e. \<not> (is_daemon_log e \<and> snd e \<in> set (drop 29 logs))) entries"
    using assms(1) by (auto simp: next_daemon_log_path_def prune_logs_def logs_def split: if_splits)
  have d: "distinct logs"
    using assms(2) by (simp add: logs_def distinct_map_filter)
  have logs: "set logs = snd ` {e \<in> set entries. is_daemon_log e}" by (simp add: logs_def)
  have union: "set logs = set (take 29 logs) \<union> set (drop 29 logs)"
    by (metis append_take_drop_id set_append)
  have disjoint: "set (take 29 logs) \<inter> set (drop 29 logs) = {}"
    using set_take_disj_set_drop_if_distinct [OF d, of 29 29] by simp
  have log_kept: "filter is_daemon_log kept = filter (\<lambda>e. is_daemon_log e \<and> snd e \<in> set (take 29 logs)) entries"
    unfolding kept filter_filter
  proof (rule filter_cong [OF refl])
    fix e assume "e \<in> set entries"
    then have "is_daemon_log e \<longrightarrow> snd e \<in> set logs" using logs by blast
    with union disjoint
    show "(\<not> (is_daemon_log e \<and> snd e \<in> set (drop 29 logs)) \<and> is_daemon_log e) =
        (is_daemon_log e \<and> snd e \<in> set (take 29 logs))" by blast
  qed
  have "length (filter is_daemon_log kept) \<le> card (set (take 29 logs))"
  proof -
    have "distinct (map snd (filter is_daemon_log kept))"
      unfolding log_kept by (rule distinct_map_filter [OF assms(2)])
    then have "length (filter is_daemon_log kept) = card (snd ` set (filter is_daemon_log kept))"
      by (metis distinct_card length_map set_map)
    also have "\<dots> \<le> card (set (take 29 logs))" by (intro card_mono) (auto simp: log_kept)
    finally show ?thesis .
  qed
  also have "\<dots> \<le> 29" by (rule order_trans [OF card_length]) simp
  finally have few: "length (filter is_daemon_log kept) \<le> 29" .
  have older: "snd gone < snd e" if g: "gone \<in> set entries" "gone \<notin> set kept" and e: "e \<in> set (filter is_daemon_log kept)" for gone e
  proof -
    from g have "snd gone \<in> set (drop 29 logs)" by (simp add: kept)
    then obtain k where k: "k < length logs - 29" "snd gone = drop 29 logs ! k"
      by (metis in_set_conv_nth length_drop)
    define j where "j = 29 + k"
    have j: "29 \<le> j" "j < length logs" "snd gone = logs ! j" using k by (simp_all add: j_def)
    from e have "snd e \<in> set (take 29 logs)" by (simp add: log_kept)
    then obtain i where "i < length (take 29 logs)" "snd e = take 29 logs ! i" by (metis in_set_conv_nth)
    then have i: "i < 29" "i < length logs" "snd e = logs ! i" by simp_all
    have "logs ! j \<le> logs ! i" by (rule sorted_rev_drop [of _ _ 29]) (use i j in \<open>simp_all add: logs_def\<close>)
    moreover have "logs ! j \<noteq> logs ! i" using d i j by (simp add: nth_eq_iff_index_eq)
    ultimately show ?thesis using i j by simp
  qed
  have "filter (\<lambda>e. \<not> is_daemon_log e) kept = filter (\<lambda>e. \<not> is_daemon_log e) entries"
    unfolding kept filter_filter by (intro filter_cong) auto
  moreover have "is_daemon_log (True, name)"
    using assms(1) by (auto simp: next_daemon_log_path_def is_daemon_log_def suffix_def split: if_splits)
  ultimately show ?thesis using few older by auto
qed

theorem log_retention_witness:
  "length (filter is_daemon_log [(True, ''aa2acp-bridge-daemon-1-2.log'')]) \<le> 29"
  using log_retention [of True "[(True, ''aa2acp-bridge-daemon-1-2.log'')]" 3 4]
  by (simp add: next_daemon_log_path_def prune_logs_def)

end
