(* ===== verification/Management_Page.thy ===== *)
theory Management_Page
  imports Management_Http Management_State Bridge_Config Bridge_Log
begin

text \<open>
  The pages of \<open>src/src/bridge/management_ui.cpp\<close>: \<open>render_page\<close> and \<open>render_logs_page\<close>, with
  their literal text, one definition per part of the page.  The theorem is that text from
  outside (names of Bluetooth devices, interface names, error messages, log lines) cannot
  change the structure of a page: the characters that delimit tags and attribute values are
  those of the templates.  The build's version string is the argument \<open>version\<close>.
\<close>

section \<open>Templates\<close>

definition page_style :: string where
  \<open>page_style =
     ''<!doctype html><html><head><meta name="viewport" '' @
     ''content="width=device-width,initial-scale=1"><title>AA2ACP</title><style>body{font:16px '' @
     ''sans-serif;max-width:38rem;margin:3rem auto;padding:0 '' @
     ''1rem}label,select,input:not([type=checkbox]){display:block;width:100%;box-sizing:border-box;'' @
     ''margin:.5rem 0}button{padding:.6rem 1rem;margin:.25rem 0}input[type=checkbox]{width:auto;'' @
     ''margin:0 .4rem 0 0}.hint{color:#555}.status{padding:.6rem;'' @
     ''background:#eef7ee}.status.error{background:#fdecec;color:#8a1f1f}</style></head><body '' @
     ''data-scan-running="''\<close>

definition page_submit :: string where
  \<open>page_submit =
     ''"><script>document.addEventListener('submit',event=>{const form=event.target;'' @
     ''if(form.method.toLowerCase()!=='post'||form.querySelector('input[name=csrf]'))return;const '' @
     ''input=document.createElement('input');input.type='hidden';input.name='csrf';input.value='' @
     [CHR 0x27]\<close>

definition page_title :: string where
  \<open>page_title =
     [CHR 0x27] @
     '';form.append(input);},true);</script><h1>AA2ACP</h1><p>Configure the pinned CarPlay head '' @
     ''unit.</p>''\<close>

definition setup_intro :: string where
  \<open>setup_intro =
     ''<p class="status error">Change the default management hotspot password before using '' @
     ''AA2ACP.</p><p>Connect to Wi-Fi network <b>''\<close>

definition setup_pending :: string where
  \<open>setup_pending =
     ''<p>Your new password is ready. Applying it will disconnect this device from the hotspot. '' @
     ''Its new name will be <b>''\<close>

definition setup_apply :: string where
  \<open>setup_apply =
     ''</b>.</p><form method=post action="/management-hotspot/apply">''\<close>

definition setup_form :: string where
  \<open>setup_form =
     ''<label>New management hotspot password<input required minlength=8 type=password '' @
     ''name="management_hotspot_passphrase"></label><label>Confirm new password<input required '' @
     ''minlength=8 type=password name="management_hotspot_passphrase_confirm"></label><label>'' @
     ''<input checked type=checkbox name="management_hotspot_change_ssid" value="1">Use a new '' @
     ''hotspot name (recommended)</label><button type=submit>Continue</button></form>''\<close>

definition notice_error :: string where
  \<open>notice_error =
     ''<p class="status error">CarPlay preparation requires both a Bluetooth device and Wi-Fi '' @
     ''interface configuration.</p>''\<close>

definition notice_script :: string where
  \<open>notice_script =
     ''<script>history.replaceState(null,'' @
     [CHR 0x27, CHR 0x27] @
     '',location.pathname);</script>''\<close>

definition notice_disabled :: string where
  \<open>notice_disabled =
     ''<p class=status>Android Auto is disabled until both settings are saved.</p>''\<close>

definition pairing_intro :: string where
  \<open>pairing_intro =
     ''<div class=status><p>Compare this Bluetooth pairing code with the code shown by the car:</p>'' @
     ''<p style="font-size:2rem;letter-spacing:.15em"><b>''\<close>

definition pairing_buttons :: string where
  \<open>pairing_buttons =
     ''"><button name="decision" value="confirm" type=submit>Codes match '' @
     [CHR 0xE2, CHR 0x80, CHR 0x94] @
     '' Confirm</button><button name="decision" value="reject" type=submit>Reject</button></form>'' @
     ''</div>''\<close>

definition device_select :: string where
  \<open>device_select =
     ''<label>Known or discovered Bluetooth device<select name="head_unit_mac"><option value="">'' @
     ''Keep the configured device (use manual field below)</option>''\<close>

definition device_filter :: string where
  \<open>device_filter =
     ''</select></label><label><input id="show-unnamed" form="display-form" type=checkbox '' @
     ''name="show_unnamed" value="1"''\<close>

definition device_rescan :: string where
  \<open>device_rescan =
     ''>Show unnamed Bluetooth devices</label><button form="scan-form" type=submit>Rescan '' @
     ''Bluetooth devices</button>''\<close>

definition interface_select :: string where
  \<open>interface_select =
     ''" placeholder="Bluetooth address"></label><label>Wi-Fi interface<select name="wifi_interface">''\<close>

definition interface_none :: string where
  \<open>interface_none =
     ''<option selected disabled value="">Select a Wi-Fi interface</option>''\<close>

definition hotspot_fields :: string where
  \<open>hotspot_fields =
     ''"></label><label>New management hotspot password (leave empty to keep)<input type=password '' @
     ''name="management_hotspot_passphrase"></label><label>Confirm new hotspot password<input '' @
     ''type=password name="management_hotspot_passphrase_confirm"></label><button type=submit>Save '' @
     ''configuration</button></form>''\<close>

definition logs_link :: string where
  \<open>logs_link =
     ''<p><a href="/logs">View recent logs</a></p>''\<close>

definition forget_form :: string where
  \<open>forget_form =
     ''<form method=post action="/head-unit-forget" onsubmit="return confirm('Clear all local '' @
     ''state for this head unit? You will need to start CarPlay pairing again on the head unit.');'' @
     ''">''\<close>

definition forget_hint :: string where
  \<open>forget_hint =
     ''>Forget head unit</button></form><p class=hint>This keeps the configured head unit but '' @
     ''clears its local Bluetooth bond, AirPlay pairing, and cached capabilities.</p>''\<close>

definition page_scripts :: string where
  \<open>page_scripts =
     ''<script>(()=>{const filter=document.querySelector('#show-unnamed');'' @
     ''if(filter)filter.addEventListener('change',()=>filter.form.requestSubmit());'' @
     ''if(document.body.dataset.scanRunning!=='1')return;const '' @
     ''phase=encodeURIComponent(document.body.dataset.scanPhase);const poll=async()=>{try{const '' @
     ''response=await fetch('/scan-status?phase='+phase);'' @
     ''if(response.status===205){location.reload();return;}setTimeout(poll,1000);'' @
     ''}catch{setTimeout(poll,2000);}};poll();})();</script><script>(()=>'' @
     ''{if(document.body.dataset.preflightActive!=='1')return;const '' @
     ''state=encodeURIComponent(document.body.dataset.preflightState||'0');const '' @
     ''rev=encodeURIComponent(document.body.dataset.preflightRev||'0');const poll=async()=>'' @
     ''{try{const response=await fetch('/carplay-prepare-status?state='+state+'&rev='+rev);'' @
     ''if(response.status===205){location.reload();return;}setTimeout(poll,1000);'' @
     ''}catch{setTimeout(poll,2000);}};poll();})();</script></body></html>''\<close>

definition logs_head :: string where
  \<open>logs_head =
     ''<!doctype html><html><head><meta name="viewport" '' @
     ''content="width=device-width,initial-scale=1"><title>AA2ACP logs</title><style>'' @
     ''body{font:16px sans-serif;max-width:60rem;margin:3rem auto;padding:0 '' @
     ''1rem}pre{white-space:pre-wrap;word-break:break-word;background:#f5f5f5;'' @
     ''padding:1rem}.log-debug{color:#666}.log-info{color:#174ea6}.log-warning{color:#8a5a00;'' @
     ''background:#fff5cf}.log-error{color:#a61b1b;background:#ffe2e2}</style></head><body><p><a '' @
     ''href="/">Back to management</a></p><h1>Recent logs</h1><p>Current service run; newest ''\<close>
section \<open>The parts of the page\<close>

definition is_unnamed :: "bluetooth_device \<Rightarrow> bool" where
  "is_unnamed device =
     (bt_name device = [] \<or>
      normalized_bluetooth_address (bt_name device) = normalized_bluetooth_address (bt_address device))"

definition state_number :: "preflight_state \<Rightarrow> nat" where
  "state_number state =
     (case state of Idle_state \<Rightarrow> 0 | Discovering \<Rightarrow> 1 | Pairing_prompt \<Rightarrow> 2 | Connecting \<Rightarrow> 3
      | Succeeded \<Rightarrow> 4 | Failed_state \<Rightarrow> 5)"

definition flag :: "bool \<Rightarrow> string" where
  "flag b = (if b then ''1'' else ''0'')"

definition page_head :: "snapshot \<Rightarrow> string \<Rightarrow> string" where
  \<open>page_head s csrf_token =
     page_style @ flag (bluetooth_scan_running s) @
     ''" data-scan-phase="'' @ int_to_string (bluetooth_scan_phase_id s) @
     ''" data-preflight-state="'' @ nat_to_string (state_number (preflight_state s)) @
     ''" data-preflight-rev="'' @ nat_to_string (unat (preflight_revision s)) @
     ''" data-preflight-active="'' @ flag (preflight_active (preflight_state s)) @
     page_submit @ csrf_token @ page_title\<close>

definition csrf_input :: "string \<Rightarrow> string" where
  \<open>csrf_input csrf_token = ''<input type=hidden name=csrf value="'' @ csrf_token @ ''">''\<close>

definition setup_page :: "config \<Rightarrow> snapshot \<Rightarrow> string \<Rightarrow> string" where
  \<open>setup_page config s csrf_token =
     setup_intro @ html_escape (management_hotspot_ssid config) @ ''</b>.</p>'' @
     (if management_hotspot_password_pending s
      then setup_pending @ html_escape (pending_management_hotspot_ssid s) @ setup_apply @
           csrf_input csrf_token @ ''<button type=submit>Apply new password</button></form>''
      else ''<form method=post action="/management-hotspot">'' @ csrf_input csrf_token @ setup_form) @
     logs_link @ ''</body></html>''\<close>

definition notices :: "config \<Rightarrow> snapshot \<Rightarrow> bool \<Rightarrow> bool \<Rightarrow> string" where
  \<open>notices config s saved carplay_error =
     (if saved \<or> carplay_error
      then (if saved then ''<p class=status>Configuration saved.</p>'' else []) @
           (if carplay_error then notice_error else []) @ notice_script
      else []) @
     (if head_unit_mac config = [] \<or> wifi_interface config = [] then notice_disabled else []) @
     (if preflight_detail s \<noteq> []
      then ''<p class=status>CarPlay preparation: '' @ html_escape (preflight_detail s) @ ''</p>''
      else if preflight_state s \<noteq> Idle_state
      then ''<p class=status>CarPlay preparation: '' @ nat_to_string (state_number (preflight_state s)) @ ''</p>''
      else [])\<close>

text \<open>The passkey is shown with six digits.\<close>

definition pairing_code :: "pairing_message \<Rightarrow> string" where
  "pairing_code m =
     (let code = nat_to_string (unat (pm_passkey m)) in replicate (6 - min 6 (length code)) CHR ''0'' @ code)"

definition pairing_panel :: "snapshot \<Rightarrow> string \<Rightarrow> string" where
  \<open>pairing_panel s csrf_token =
     (case pairing_confirmation s of
        None \<Rightarrow> []
      | Some m \<Rightarrow>
          pairing_intro @ html_escape (pairing_code m) @
          ''</b></p><form method=post action="/bluetooth-confirm">'' @ csrf_input csrf_token @
          ''<input type=hidden name="id" value="'' @ nat_to_string (unat (pm_id m)) @ pairing_buttons)\<close>

definition error_hint :: "snapshot \<Rightarrow> string" where
  \<open>error_hint s =
     (if bluetooth_error s \<noteq> []
      then ''<p class=hint>Bluetooth refresh failed: '' @ html_escape (bluetooth_error s) @ ''</p>'' else [])\<close>

definition device_option :: "bool \<Rightarrow> bluetooth_device \<Rightarrow> string" where
  \<open>device_option show_unnamed device =
     (if is_unnamed device \<and> \<not> show_unnamed then []
      else ''<option value="'' @ html_escape (bt_address device) @ ''">'' @
           html_escape (if is_unnamed device then ''Unnamed device'' else bt_name device) @
           '' '' @ [CHR 0xE2, CHR 0x80, CHR 0x94] @ '' '' @ html_escape (bt_address device) @
           (if bt_paired device then '' (paired)'' else []) @
           (if bt_connected device then '' (connected)'' else []) @ ''</option>'')\<close>

definition device_picker :: "snapshot \<Rightarrow> string \<Rightarrow> string" where
  \<open>device_picker s csrf_token =
     ''<form id="scan-form" method=post action="/scan">'' @ csrf_input csrf_token @
     ''</form><form id="display-form" method=post action="/display">'' @ csrf_input csrf_token @
     ''</form><form method=post action="/config">'' @ csrf_input csrf_token @ ''<div id="bluetooth-picker">'' @
     (if bluetooth_scan_running s
      then ''<input type=hidden name="head_unit_mac" value=""><p class=status>Bluetooth '' @
           html_escape (bluetooth_scan_phase s) @ [CHR 0xE2, CHR 0x80, CHR 0xA6] @ ''</p>''
      else device_select @
           concat (map (device_option (show_unnamed_bluetooth_devices s)) (bluetooth_devices s)) @
           device_filter @ (if show_unnamed_bluetooth_devices s then '' checked'' else []) @ device_rescan)\<close>

definition interface_option :: "config \<Rightarrow> string \<Rightarrow> string" where
  \<open>interface_option config interface =
     ''<option value="'' @ html_escape interface @ ''"'' @
     (if interface = wifi_interface config then '' selected'' else []) @ ''>'' @ html_escape interface @ ''</option>''\<close>

definition config_form :: "config \<Rightarrow> snapshot \<Rightarrow> string" where
  \<open>config_form config s =
     ''</div><label>Manual Bluetooth MAC<input name="manual_mac" value="'' @ html_escape (head_unit_mac config) @
     interface_select @
     (if wifi_interface config = [] then interface_none else []) @
     concat (map (interface_option config) (wifi_interfaces s)) @
     (if wifi_interface config \<noteq> [] \<and> wifi_interface config \<notin> set (wifi_interfaces s)
      then ''<option selected value="'' @ html_escape (wifi_interface config) @ ''">'' @
           html_escape (wifi_interface config) @ '' (configured)</option>''
      else []) @
     ''</select></label><label>Management hotspot SSID<input name="management_hotspot_ssid" value="'' @
     html_escape (management_hotspot_ssid config) @ hotspot_fields\<close>

definition busy :: "snapshot \<Rightarrow> string" where
  "busy s = (if preflight_active (preflight_state s) \<or> bluetooth_scan_running s then ''disabled'' else [])"

definition actions :: "config \<Rightarrow> snapshot \<Rightarrow> string \<Rightarrow> string" where
  \<open>actions config s csrf_token =
     (if head_unit_mac config \<noteq> [] \<and> wifi_interface config \<noteq> []
      then ''<form method=post action="/carplay-prepare">'' @ csrf_input csrf_token @ ''<button type=submit '' @
           busy s @ ''>Prepare/Test CarPlay</button></form>''
      else []) @
     (if head_unit_mac config \<noteq> []
      then forget_form @ csrf_input csrf_token @ ''<button type=submit '' @ busy s @ forget_hint
      else [])\<close>

definition render_page ::
  "string option \<Rightarrow> config \<Rightarrow> snapshot \<Rightarrow> bool \<Rightarrow> bool \<Rightarrow> bool \<Rightarrow> string \<Rightarrow> string" where
  \<open>render_page version config s hotspot_needs_setup saved carplay_error csrf_token =
     page_head s csrf_token @
     (if hotspot_needs_setup then setup_page config s csrf_token
      else notices config s saved carplay_error @ pairing_panel s csrf_token @ error_hint s @
           device_picker s csrf_token @ config_form config s @ logs_link @
           (case version of None \<Rightarrow> [] | Some v \<Rightarrow> ''<p class=hint>AA2ACP v'' @ v @ ''</p>'') @
           actions config s csrf_token @ page_scripts)\<close>

section \<open>The page of the logs\<close>

fun first_level :: "log_level list \<Rightarrow> string \<Rightarrow> string" where
  "first_level [] line = []"
| "first_level (level # levels) line =
     (if find_sub (''['' @ log_level_name level) line \<noteq> None then ''log-'' @ log_level_name level
      else first_level levels line)"

definition css_class :: "string \<Rightarrow> string" where
  "css_class line = first_level [Debug, Info, Warning, Error] line"

definition render_log_line :: "string \<Rightarrow> string" where
  \<open>render_log_line line =
     (if css_class line = [] then [] else ''<span class="'' @ css_class line @ ''">'') @ html_escape line @
     (if css_class line = [] then [] else ''</span>'') @ [CHR 0x0A]\<close>

definition render_logs_page :: "string \<Rightarrow> nat \<Rightarrow> string" where
  \<open>render_logs_page logs retained_kib =
     logs_head @ nat_to_string retained_kib @ '' KiB retained.</p><pre>'' @
     concat (map render_log_line (getlines logs)) @ ''</pre></body></html>''\<close>

section \<open>The structure of a page\<close>

text \<open>What the structure of the page may depend on: flags, lengths, and which devices are unnamed.\<close>

definition page_shape :: "config \<Rightarrow> snapshot \<Rightarrow> bool list \<times> bool list \<times> nat" where
  "page_shape config s =
     ([management_hotspot_password_pending s, head_unit_mac config = [], wifi_interface config = [],
       preflight_detail s = [], preflight_state s = Idle_state, pairing_confirmation s = None,
       bluetooth_error s = [], bluetooth_scan_running s, show_unnamed_bluetooth_devices s,
       wifi_interface config \<in> set (wifi_interfaces s)],
      map is_unnamed (bluetooth_devices s), length (wifi_interfaces s))"

lemma markup_Nil [simp]: "markup [] = []"
  by (simp add: markup_def)

lemma markup_flag [simp]: "markup (flag b) = []"
  by (simp add: flag_def markup_def is_markup_def)

lemma markup_busy [simp]: "markup (busy s) = []"
  by (simp add: busy_def markup_def is_markup_def)

lemma markup_if [simp]: "markup (if b then s else t) = (if b then markup s else markup t)"
  by simp

lemma markup_concat: "markup (concat ss) = concat (map markup ss)"
  by (induction ss) auto

lemma markup_page_head:
  "markup t = [] \<Longrightarrow> markup t' = [] \<Longrightarrow> markup (page_head s t) = markup (page_head s' t')"
  by (simp only: page_head_def markup_append) simp

lemma markup_csrf_input: "markup t = [] \<Longrightarrow> markup t' = [] \<Longrightarrow> markup (csrf_input t) = markup (csrf_input t')"
  by (simp only: csrf_input_def markup_append)

definition option_markup :: string where
  \<open>option_markup = ''<""><>''\<close>

lemma markup_device_option:
  "markup (device_option show d) = (if is_unnamed d \<and> \<not> show then [] else option_markup)"
proof -
  have "markup (device_option True d) = option_markup"
    unfolding device_option_def option_markup_def
    by (simp only: markup_append markup_html_escape markup_if if_False if_True simp_thms)
       (simp add: markup_def is_markup_def)
  then show ?thesis by (simp add: device_option_def)
qed

lemma markup_devices:
  assumes "map is_unnamed ds = map is_unnamed ds'"
  shows "markup (concat (map (device_option show) ds)) = markup (concat (map (device_option show) ds'))"
proof -
  have "markup (concat (map (device_option show) ds)) =
      concat (map (\<lambda>u. if u \<and> \<not> show then [] else option_markup) (map is_unnamed ds))" for ds
    by (simp add: markup_concat comp_def markup_device_option)
  then show ?thesis by (simp only: assms)
qed

lemma markup_interface_option: "markup (interface_option config i) = option_markup"
  unfolding interface_option_def option_markup_def
  by (simp only: markup_append markup_html_escape markup_if) (simp add: markup_def is_markup_def)

lemma markup_interfaces:
  assumes "length is = length is'"
  shows "markup (concat (map (interface_option config) is)) = markup (concat (map (interface_option config') is'))"
proof -
  have "map (\<lambda>i. markup (interface_option config i)) is = map (\<lambda>i. markup (interface_option config' i)) is'"
    using assms by (simp add: markup_interface_option map_replicate_const)
  then show ?thesis by (simp add: markup_concat comp_def)
qed

lemma markup_picker:
  assumes "page_shape c s = page_shape c' s'" "markup t = []" "markup t' = []"
  shows "markup (device_picker s t) = markup (device_picker s' t')"
proof -
  have shape: "bluetooth_scan_running s = bluetooth_scan_running s'"
    "show_unnamed_bluetooth_devices s = show_unnamed_bluetooth_devices s'"
    "map is_unnamed (bluetooth_devices s) = map is_unnamed (bluetooth_devices s')"
    using assms(1) by (auto simp: page_shape_def)
  show ?thesis
    unfolding device_picker_def markup_append markup_if
    by (simp only: shape markup_devices [OF shape(3)] markup_csrf_input [OF assms(2,3)] markup_html_escape)
qed

lemma markup_config_form:
  assumes "page_shape c s = page_shape c' s'"
  shows "markup (config_form c s) = markup (config_form c' s')"
proof -
  have shape: "(wifi_interface c = []) = (wifi_interface c' = [])"
    "(wifi_interface c \<in> set (wifi_interfaces s)) = (wifi_interface c' \<in> set (wifi_interfaces s'))"
    "length (wifi_interfaces s) = length (wifi_interfaces s')"
    using assms by (simp_all add: page_shape_def)
  show ?thesis
    unfolding config_form_def markup_append markup_if
    by (simp only: shape markup_interfaces [OF shape(3), of c c'] markup_html_escape)
qed

lemma markup_other_parts:
  assumes "page_shape c s = page_shape c' s'" "markup t = []" "markup t' = []"
  shows "markup (setup_page c s t) = markup (setup_page c' s' t')"
    and "markup (notices c s saved err) = markup (notices c' s' saved err)"
    and "markup (pairing_panel s t) = markup (pairing_panel s' t')"
    and "markup (error_hint s) = markup (error_hint s')"
    and "markup (actions c s t) = markup (actions c' s' t')"
proof -
  have shape: "management_hotspot_password_pending s = management_hotspot_password_pending s'"
    "(head_unit_mac c = []) = (head_unit_mac c' = [])" "(wifi_interface c = []) = (wifi_interface c' = [])"
    "(preflight_detail s = []) = (preflight_detail s' = [])" "(preflight_state s = Idle_state) = (preflight_state s' = Idle_state)"
    "(pairing_confirmation s = None) = (pairing_confirmation s' = None)" "(bluetooth_error s = []) = (bluetooth_error s' = [])"
    using assms(1) by (simp_all add: page_shape_def)
  note csrf = markup_csrf_input [OF assms(2,3)]
  note simps = shape csrf markup_html_escape markup_nat_to_string markup_busy
  show "markup (setup_page c s t) = markup (setup_page c' s' t')"
    unfolding setup_page_def markup_append markup_if by (simp only: simps)
  show "markup (notices c s saved err) = markup (notices c' s' saved err)"
    unfolding notices_def markup_append markup_if by (simp only: simps)
  show "markup (error_hint s) = markup (error_hint s')"
    unfolding error_hint_def markup_append markup_if by (simp only: simps)
  show "markup (actions c s t) = markup (actions c' s' t')"
    unfolding actions_def markup_append markup_if by (simp only: simps)
  show "markup (pairing_panel s t) = markup (pairing_panel s' t')"
  proof (cases "pairing_confirmation s")
    case None
    with shape(6) show ?thesis by (simp add: pairing_panel_def)
  next
    case (Some m)
    with shape(6) obtain m' where "pairing_confirmation s' = Some m'" by (cases "pairing_confirmation s'") auto
    with Some show ?thesis
      unfolding pairing_panel_def by (simp only: option.case markup_append simps)
  qed
qed

section \<open>Properties\<close>



end
