(* ===== verification/Bridge_Daemon.thy ===== *)
theory Bridge_Daemon
  imports Bridge_Pairing Management_Page
begin

text \<open>
  The management requests of the daemon (\<open>main\<close> in \<open>src/src/bridge_daemon_main.cpp\<close>): the
  configuration, the file it is stored in, the hotspot of the management page, the snapshot the page
  shows and the background jobs a request starts.  A request is one step: those that change the
  configuration hold \<open>config_transaction_mutex\<close> from the first read to the last write.  What
  NetworkManager, the file system and BlueZ answer during a request is part of its environment; log
  lines are left out.
\<close>

section \<open>The hotspot\<close>

text \<open>\<open>address\<close> is the first line of the interface's address file, empty if it cannot be read.\<close>

definition management_hotspot_ssid_of :: "string \<Rightarrow> string" where
  "management_hotspot_ssid_of address =
     (let hex = map upper_char (filter is_xdigit address) in
      if length hex < 6 then ''AA2ACP-SETUP-1'' else ''AA2ACP-'' @ drop (length hex - 6) hex @ ''-1'')"

text \<open>The digits behind the last dash; the counter is an \<open>unsigned int\<close>.\<close>

fun ssid_counter :: "string \<Rightarrow> u32 \<Rightarrow> u32 option" where
  "ssid_counter [] counter = Some counter"
| "ssid_counter (c # cs) counter =
     (if \<not> is_digit c \<or> counter > 99999999 then None
      else ssid_counter cs (counter * 10 + of_nat (digit_value c)))"

definition next_management_hotspot_ssid :: "string \<Rightarrow> string" where
  "next_management_hotspot_ssid ssid =
     (let behind = rev (takeWhile (\<lambda>c. c \<noteq> CHR ''-'') (rev ssid)) in
      if CHR ''-'' \<notin> set ssid \<or> behind = [] then ssid @ ''-2''
      else (case ssid_counter behind 0 of
              None \<Rightarrow> ssid @ ''-2''
            | Some counter \<Rightarrow> take (length ssid - length behind) ssid @ nat_to_string (unat (counter + 1))))"

definition ensure_management_hotspot_settings :: "string \<Rightarrow> config \<Rightarrow> config" where
  "ensure_management_hotspot_settings address c =
     (let c = (if management_hotspot_ssid c = [] \<and> wifi_interface c \<noteq> []
               then c\<lparr>management_hotspot_ssid := management_hotspot_ssid_of address\<rparr> else c)
      in if length (management_hotspot_passphrase c) < 8
         then c\<lparr>management_hotspot_passphrase := kDefaultHotspotPassphrase\<rparr> else c)"

definition management_hotspot_needs_setup :: "config \<Rightarrow> bool" where
  "management_hotspot_needs_setup c = (management_hotspot_passphrase c = kDefaultHotspotPassphrase)"

section \<open>State\<close>

type_synonym hotspot = "string \<times> string \<times> string"

text \<open>
  \<open>d_hotspot\<close> is the hotspot that runs, unknown after a failed start; \<open>d_preflights\<close> and \<open>d_scans\<close> are
  the background jobs started so far; \<open>d_packets\<close> the answers sent to the worker.
\<close>

record daemon =
  d_config :: config
  d_files :: "string \<rightharpoonup> string"
  d_snapshot :: snapshot
  d_pending :: "(string \<times> string) option"
  d_hotspot :: "hotspot option"
  d_rebind :: bool
  d_preflights :: "config list"
  d_scans :: nat
  d_packets :: "bytes list"

definition hotspot_of :: "config \<Rightarrow> hotspot" where
  "hotspot_of c = (wifi_interface c, management_hotspot_ssid c, management_hotspot_passphrase c)"

text \<open>What the outside answers during one request.\<close>

record request_env =
  re_config_path :: string
  re_capabilities :: string
  re_token :: string
  re_recent :: string
  re_version :: "string option"
  re_hotspot :: "bool list"
  re_save :: save_os
  re_temporary :: string
  re_remove_pairing :: bool
  re_remove_capabilities :: bool
  re_devices :: "bluetooth_device list \<times> string"
  re_worker :: "carplay_worker option"
  re_sent :: int

text \<open>\<open>start_management_hotspot\<close>: the answers in the order of the calls.\<close>

fun start_hotspot :: "config \<Rightarrow> bool list \<times> hotspot option \<Rightarrow> bool \<times> bool list \<times> hotspot option" where
  "start_hotspot c (True # answers, _) = (True, answers, Some (hotspot_of c))"
| "start_hotspot c (False # answers, _) = (False, answers, None)"
| "start_hotspot c ([], _) = (False, [], None)"

definition restore_previous_hotspot :: "config \<Rightarrow> bool list \<times> hotspot option \<Rightarrow> bool \<times> bool list \<times> hotspot option" where
  "restore_previous_hotspot previous s =
     (case start_hotspot previous s of
        (True, s) \<Rightarrow> (True, s)
      | (False, s) \<Rightarrow> start_hotspot previous s)"

text \<open>\<open>std::filesystem::remove\<close>: an error, or the file is gone.\<close>

definition remove_file :: "bool \<Rightarrow> string \<Rightarrow> (string \<rightharpoonup> string) \<Rightarrow> (string \<rightharpoonup> string)" where
  "remove_file failed path files = (if failed then files else files(path := None))"

section \<open>Inventories\<close>

text \<open>\<open>std::map\<close> by address, then the order of \<open>std::sort\<close>: paired devices first, then by address.\<close>

definition address_less :: "string \<Rightarrow> string \<Rightarrow> bool" where
  "address_less a b = ((a, b) \<in> lexord {(x, y). (of_char x :: nat) < of_char y})"

definition device_before :: "bluetooth_device \<Rightarrow> bluetooth_device \<Rightarrow> bool" where
  "device_before l r =
     (if bt_paired l \<noteq> bt_paired r then bt_paired l else address_less (bt_address l) (bt_address r))"

fun insert_device :: "bluetooth_device \<Rightarrow> bluetooth_device list \<Rightarrow> bluetooth_device list" where
  "insert_device d [] = [d]"
| "insert_device d (e # es) = (if device_before e d then e # insert_device d es else d # e # es)"

definition emplace_device :: "bluetooth_device list \<Rightarrow> bluetooth_device \<Rightarrow> bluetooth_device list" where
  "emplace_device merged d = (if bt_address d \<in> bt_address ` set merged then merged else merged @ [d])"

definition assign_device :: "bluetooth_device list \<Rightarrow> bluetooth_device \<Rightarrow> bluetooth_device list" where
  "assign_device merged d = filter (\<lambda>e. bt_address e \<noteq> bt_address d) merged @ [d]"

definition merge_devices :: "bluetooth_device list \<Rightarrow> bluetooth_device list \<Rightarrow> bluetooth_device list" where
  "merge_devices listed found = foldr insert_device (foldl assign_device (foldl emplace_device [] listed) found) []"

definition refresh_bluetooth_inventory :: "bluetooth_device list \<times> string \<Rightarrow> snapshot \<Rightarrow> snapshot" where
  "refresh_bluetooth_inventory answer s =
     (case answer of (devices, error) \<Rightarrow>
        if error \<noteq> [] then s\<lparr>bluetooth_error := error\<rparr>
        else s\<lparr>bluetooth_devices := merge_devices (bluetooth_devices s) devices, bluetooth_error := []\<rparr>)"

definition refresh_wifi_inventory :: "string list \<Rightarrow> snapshot \<Rightarrow> snapshot" where
  "refresh_wifi_inventory interfaces s = (if interfaces = [] then s else s\<lparr>wifi_interfaces := interfaces\<rparr>)"

section \<open>Handlers\<close>

text \<open>Status, content type, body and extra headers of a response.\<close>

type_synonym reply = "int \<times> string \<times> string \<times> string"

definition text_plain :: string where "text_plain = ''text/plain''"

definition text_line :: "string \<Rightarrow> string" where "text_line s = s @ [CHR 0x0A]"

definition see :: "string \<Rightarrow> string" where "see location = ''Location: '' @ location @ crlf"

definition plain_reply :: "int \<Rightarrow> string \<Rightarrow> reply" where "plain_reply status s = (status, text_plain, text_line s, [])"

definition redirect :: "string \<Rightarrow> reply" where "redirect location = (303, text_plain, [], see location)"

definition bump :: "string \<Rightarrow> snapshot \<Rightarrow> snapshot" where
  "bump detail s = s\<lparr>preflight_revision := preflight_revision s + 1, preflight_detail := detail\<rparr>"

definition scan_status :: "string \<Rightarrow> snapshot \<Rightarrow> reply" where
  "scan_status request s =
     ((if bluetooth_scan_running s \<and> query_field request ''phase'' = Some (int_to_string (bluetooth_scan_phase_id s))
       then 204 else 205), text_plain, [], [])"

definition prepare_status :: "string \<Rightarrow> snapshot \<Rightarrow> reply" where
  "prepare_status request s =
     (let page_is_current = (query_field request ''state'' = Some (nat_to_string (state_number (preflight_state s))) \<and>
                             query_field request ''rev'' = Some (nat_to_string (unat (preflight_revision s))))
      in ((if preflight_active (preflight_state s) \<and> page_is_current then 204 else 205), text_plain, preflight_detail s, []))"

definition post_hotspot :: "string \<Rightarrow> daemon \<Rightarrow> reply \<times> daemon" where
  "post_hotspot body d =
     (case (form_field body ''management_hotspot_passphrase'', form_field body ''management_hotspot_passphrase_confirm'') of
        (Some passphrase, Some confirmation) \<Rightarrow>
          if passphrase \<noteq> confirmation then (plain_reply 400 ''Passwords do not match'', d)
          else if \<not> valid_hotspot_passphrase passphrase then (plain_reply 400 ''Choose a different valid password'', d)
          else (let current = management_hotspot_ssid (d_config d);
                    ssid = (if form_field body ''management_hotspot_change_ssid'' \<noteq> None
                            then next_management_hotspot_ssid current else current)
                in (redirect ''/'', d\<lparr>d_pending := Some (passphrase, ssid), d_snapshot := (d_snapshot d)
                      \<lparr>management_hotspot_password_pending := True, pending_management_hotspot_ssid := ssid\<rparr>\<rparr>))
      | _ \<Rightarrow> (plain_reply 400 ''Passwords do not match'', d))"

text \<open>
  The transaction that \<open>/management-hotspot/apply\<close> and \<open>/config\<close> share: start the new hotspot if it
  differs, save, and go back if one of the two fails.  The result says whether it was saved, whether
  the start failed, and whether going back failed.
\<close>

definition apply_config :: "request_env \<Rightarrow> bool \<Rightarrow> config \<Rightarrow> daemon \<Rightarrow> (bool \<times> bool \<times> bool) \<times> daemon" where
  "apply_config env changed updated d =
     (let previous = d_config d;
          (applied, answers, running) =
            (if changed then start_hotspot updated (re_hotspot env, d_hotspot d) else (True, re_hotspot env, d_hotspot d))
      in if \<not> applied
         then (case restore_previous_hotspot previous (answers, running) of
                 (restored, _, running) \<Rightarrow> ((False, True, \<not> restored), d\<lparr>d_hotspot := running\<rparr>))
         else (case save_config (re_save env) (re_config_path env) (re_temporary env) updated (d_files d) of
                 (True, files) \<Rightarrow> ((True, False, False), d\<lparr>d_config := updated, d_files := files, d_hotspot := running\<rparr>)
               | (False, files) \<Rightarrow>
                   if changed
                   then (case restore_previous_hotspot previous (answers, running) of
                           (restored, _, running) \<Rightarrow>
                             ((False, False, \<not> restored), d\<lparr>d_files := files, d_hotspot := running\<rparr>))
                   else ((False, False, False), d\<lparr>d_files := files\<rparr>)))"

definition recovery_text :: string where
  "recovery_text = ''Hotspot update failed; runtime state needs recovery''"

definition updated_page :: "string \<Rightarrow> string" where
  \<open>updated_page ssid =
     ''<!doctype html><title>AA2ACP</title><p>Password updated. '' @
     ''This device will now disconnect from the hotspot.</p><p>'' @
     ''Reconnect to Wi-Fi network <b>'' @ html_escape ssid @
     ''</b>, reconnect using the new password, then <a href="/">continue</a>.</p>''\<close>

definition post_hotspot_apply :: "request_env \<Rightarrow> daemon \<Rightarrow> reply \<times> daemon" where
  "post_hotspot_apply env d =
     (case d_pending d of
        None \<Rightarrow> (plain_reply 400 ''No password update is pending'', d)
      | Some (passphrase, ssid) \<Rightarrow>
          (let updated = (d_config d)\<lparr>management_hotspot_passphrase := passphrase, management_hotspot_ssid := ssid\<rparr>
           in case apply_config env True updated (d\<lparr>d_pending := None\<rparr>) of
                ((saved, apply_failed, rollback_failed), d) \<Rightarrow>
                  if \<not> saved
                  then (plain_reply (if apply_failed \<or> rollback_failed then 503 else 400)
                          (if rollback_failed then recovery_text
                           else if apply_failed then ''Unable to apply hotspot settings; configuration unchanged''
                           else ''Invalid hotspot password''),
                        d\<lparr>d_pending := Some (passphrase, ssid)\<rparr>)
                  else ((200, ''text/html'', updated_page ssid, []),
                        d\<lparr>d_snapshot := (d_snapshot d)
                            \<lparr>management_hotspot_password_pending := False, pending_management_hotspot_ssid := []\<rparr>\<rparr>)))"

text \<open>The configuration a form asks for; \<open>None\<close> if it is incomplete or its new password is not accepted.\<close>

definition form_config :: "string \<Rightarrow> config \<Rightarrow> config option" where
  "form_config body previous =
     (let manual = form_field body ''manual_mac'';
          selected = form_field body ''head_unit_mac'';
          passphrase = form_field body ''management_hotspot_passphrase'';
          confirmation = form_field body ''management_hotspot_passphrase_confirm'';
          new_password = (passphrase \<noteq> None \<and> passphrase \<noteq> Some [])
      in case (form_field body ''wifi_interface'', form_field body ''management_hotspot_ssid'') of
           (Some wifi, Some ssid) \<Rightarrow>
             if new_password \<and> \<not> (confirmation = passphrase \<and> valid_hotspot_passphrase (the passphrase)) then None
             else Some \<lparr>head_unit_mac = (if selected \<noteq> None \<and> selected \<noteq> Some [] then the selected
                           else if manual \<noteq> None \<and> manual \<noteq> Some [] then the manual
                           else head_unit_mac previous),
                    wifi_interface = wifi, management_hotspot_ssid = ssid,
                    management_hotspot_passphrase =
                      (if new_password then the passphrase else management_hotspot_passphrase previous),
                    airplay_pairing_store = airplay_pairing_store previous\<rparr>
         | _ \<Rightarrow> None)"

definition post_config :: "request_env \<Rightarrow> string \<Rightarrow> daemon \<Rightarrow> reply \<times> daemon" where
  "post_config env body d =
     (let previous = d_config d in
      case form_config body previous of
        None \<Rightarrow> (plain_reply 400 ''Invalid configuration'', d)
      | Some updated \<Rightarrow>
          (let interface_changed = (wifi_interface previous \<noteq> wifi_interface updated);
               changed = (interface_changed \<or> management_hotspot_ssid previous \<noteq> management_hotspot_ssid updated \<or>
                 management_hotspot_passphrase previous \<noteq> management_hotspot_passphrase updated)
           in case apply_config env changed updated d of
                ((saved, apply_failed, rollback_failed), d) \<Rightarrow>
                  if saved
                  then (redirect ''/?saved=1'',
                        d\<lparr>d_files := (if head_unit_mac updated \<noteq> head_unit_mac previous
                               then remove_file (re_remove_capabilities env) (re_capabilities env) (d_files d)
                               else d_files d),
                          d_rebind := d_rebind d \<or> interface_changed\<rparr>)
                  else if rollback_failed then (plain_reply 503 recovery_text, d)
                  else if apply_failed
                  then (plain_reply 503 ''Unable to apply Wi-Fi settings; configuration unchanged'', d)
                  else (plain_reply 400 ''Invalid configuration'', d)))"

definition post_prepare :: "daemon \<Rightarrow> reply \<times> daemon" where
  "post_prepare d =
     (let c = d_config d;
          s = d_snapshot d;
          start = (\<not> preflight_active (preflight_state s) \<and> \<not> bluetooth_scan_running s);
          s = (if start then bump ''queued'' (s\<lparr>preflight_state := Discovering\<rparr>) else s);
          ready = (head_unit_mac c \<noteq> [] \<and> wifi_interface c \<noteq> [])
      in if start \<and> ready then (redirect ''/'', d\<lparr>d_snapshot := s, d_preflights := d_preflights d @ [c]\<rparr>)
         else (redirect (if ready then ''/'' else ''/?carplay_error=1''),
               d\<lparr>d_snapshot := bump (if bluetooth_scan_running s then ''wait for Bluetooth scanning to finish first''
                  else ''configure a head-unit MAC and Wi-Fi interface first'') s\<rparr>))"

definition post_confirm :: "request_env \<Rightarrow> string \<Rightarrow> daemon \<Rightarrow> reply \<times> daemon" where
  "post_confirm env body d =
     (case confirm_begin (form_field body ''id'') (form_field body ''decision'') (d_snapshot d) of
        (taken, s) \<Rightarrow>
          (case confirm_end (re_worker env) (re_sent env) taken s of
             (status, packets, s) \<Rightarrow>
               (if status = 303 then redirect ''/'' else plain_reply 409 ''No matching Bluetooth confirmation is pending'',
                d\<lparr>d_snapshot := s, d_packets := d_packets d @ packets\<rparr>)))"

definition post_forget :: "request_env \<Rightarrow> daemon \<Rightarrow> reply \<times> daemon" where
  "post_forget env d =
     (let c = d_config d; s = d_snapshot d in
      (redirect ''/'',
       if head_unit_mac c = [] then d\<lparr>d_snapshot := bump ''configure a head unit before clearing its local state'' s\<rparr>
       else if preflight_active (preflight_state s)
       then d\<lparr>d_snapshot := bump ''cannot clear head-unit state while CarPlay preparation is running'' s\<rparr>
       else d\<lparr>d_files := remove_file (re_remove_capabilities env) (re_capabilities env)
                (remove_file (re_remove_pairing env) (airplay_pairing_store c) (d_files d)),
              d_snapshot := bump (if \<not> re_remove_pairing env \<and> \<not> re_remove_capabilities env
                then ''local Bluetooth, AirPlay, and capability state cleared; start fresh pairing on the head unit''
                else ''some local head-unit state could not be cleared; see daemon log'')
                (refresh_bluetooth_inventory (re_devices env) s)\<rparr>))"

definition post_scan :: "daemon \<Rightarrow> reply \<times> daemon" where
  "post_scan d =
     (redirect ''/'',
      if bluetooth_scan_running (d_snapshot d) then d
      else d\<lparr>d_snapshot := (d_snapshot d)\<lparr>bluetooth_scan_running := True, bluetooth_scan_phase_id := 1,
                bluetooth_scan_phase := ''queued''\<rparr>, d_scans := d_scans d + 1\<rparr>)"

definition post_display :: "string \<Rightarrow> daemon \<Rightarrow> reply \<times> daemon" where
  "post_display body d =
     (redirect ''/'', d\<lparr>d_snapshot := (d_snapshot d)
        \<lparr>show_unnamed_bluetooth_devices := form_field body ''show_unnamed'' \<noteq> None\<rparr>\<rparr>)"

text \<open>The handler of a received request, in the order of its tests.\<close>

definition handle_request :: "request_env \<Rightarrow> string \<Rightarrow> string \<Rightarrow> daemon \<Rightarrow> reply \<times> daemon" where
  "handle_request env request body d =
     (if prefix ''GET / '' request \<or> prefix ''GET /?'' request
      then ((200, ''text/html; charset=utf-8'',
             render_page (re_version env) (d_config d) (d_snapshot d) (management_hotspot_needs_setup (d_config d))
               (find_sub ''saved=1'' request \<noteq> None) (find_sub ''carplay_error=1'' request \<noteq> None) (re_token env), []), d)
      else if prefix ''GET /logs'' request
      then ((200, ''text/html; charset=utf-8'', render_logs_page (re_recent env) (kMaximumBytes div 1024),
             ''Cache-Control: no-store'' @ crlf), d)
      else if prefix ''POST '' request \<and> form_field body ''csrf'' \<noteq> Some (re_token env)
      then (plain_reply 403 ''Invalid CSRF token'', d)
      else if prefix ''GET /scan-status'' request then (scan_status request (d_snapshot d), d)
      else if prefix ''GET /carplay-prepare-status'' request then (prepare_status request (d_snapshot d), d)
      else if prefix ''POST /management-hotspot '' request then post_hotspot body d
      else if prefix ''POST /management-hotspot/apply '' request then post_hotspot_apply env d
      else if management_hotspot_needs_setup (d_config d)
      then (plain_reply 403 ''Change the default management hotspot password first'', d)
      else if prefix ''POST /carplay-prepare '' request then post_prepare d
      else if prefix ''POST /bluetooth-confirm '' request then post_confirm env body d
      else if prefix ''POST /head-unit-forget '' request then post_forget env d
      else if prefix ''POST /scan '' request then post_scan d
      else if prefix ''POST /display '' request then post_display body d
      else if prefix ''POST /config '' request then post_config env body d
      else (plain_reply 400 ''Unknown endpoint'', d))"

section \<open>Starting the daemon\<close>

text \<open>
  The beginning of \<open>main\<close>: the stored configuration or none, the pairing store inside the state
  directory, an interface if there is one, the hotspot's settings.  \<open>address\<close> reads an interface's address;
  each of the two saves has its own environment.
\<close>

definition daemon_config ::
    "string \<Rightarrow> (save_os \<times> string) \<times> (save_os \<times> string) \<Rightarrow> (string \<Rightarrow> string) \<Rightarrow> snapshot \<Rightarrow> string \<Rightarrow>
     (string \<rightharpoonup> string) \<Rightarrow> config \<times> (string \<rightharpoonup> string)" where
  "daemon_config state_directory saves address s path files =
     (let store = default_airplay_pairing_store state_directory;
          c = (case load_config files path of Some c \<Rightarrow> c | None \<Rightarrow> empty_config\<lparr>airplay_pairing_store := store\<rparr>);
          migrate = (airplay_pairing_store c = [] \<or> \<not> prefix (state_directory @ ''/'') (airplay_pairing_store c));
          c = (if migrate then c\<lparr>airplay_pairing_store := store\<rparr> else c);
          files = (if migrate then snd (save_config (fst (fst saves)) path (snd (fst saves)) c files) else files);
          c = (if wifi_interface c = [] \<and> wifi_interfaces s \<noteq> [] then c\<lparr>wifi_interface := hd (wifi_interfaces s)\<rparr> else c);
          c = ensure_management_hotspot_settings (address (wifi_interface c)) c;
          files = (if wifi_interface c \<noteq> [] then snd (save_config (fst (snd saves)) path (snd (snd saves)) c files) else files)
      in (c, files))"

end
