(* ===== verification/Bridge_Daemon_Props.thy ===== *)
theory Bridge_Daemon_Props
  imports Bridge_Daemon
begin

text \<open>
  What holds of the daemon whatever its management page is asked: who may change its state, how
  memory, file and hotspot stay together, and what a request can leave behind.
\<close>

section \<open>Transactions\<close>

definition env_ok :: "string \<Rightarrow> request_env \<Rightarrow> bool" where
  "env_ok path env \<longleftrightarrow> re_config_path env = path \<and> re_capabilities env \<noteq> path \<and>
     (\<exists>pid n. re_temporary env = temporary_name path pid n)"

definition matched :: "daemon \<Rightarrow> bool" where
  "matched d \<longleftrightarrow> d_hotspot d = Some (hotspot_of (d_config d))"

definition same_rest :: "daemon \<Rightarrow> daemon \<Rightarrow> bool" where
  "same_rest d d' \<longleftrightarrow> d_pending d' = d_pending d \<and> d_snapshot d' = d_snapshot d \<and> d_rebind d' = d_rebind d \<and>
     d_preflights d' = d_preflights d \<and> d_scans d' = d_scans d \<and> d_packets d' = d_packets d"

lemma start_hotspot_running:
  "start_hotspot c s = (ok, answers, running) \<Longrightarrow> ok \<Longrightarrow> running = Some (hotspot_of c)"
  by (cases "(c, s)" rule: start_hotspot.cases) auto

lemma restore_running:
  "restore_previous_hotspot c s = (ok, answers, running) \<Longrightarrow> ok \<Longrightarrow> running = Some (hotspot_of c)"
  by (auto simp: restore_previous_hotspot_def dest: start_hotspot_running split: prod.splits bool.splits)

lemma apply_config_cases:
  assumes env: "env_ok path env" and run: "apply_config env changed updated d = ((saved, apply_failed, rollback_failed), d')"
    and changed: "\<not> changed \<Longrightarrow> hotspot_of updated = hotspot_of (d_config d)"
  shows "same_rest d d'"
    and "saved \<Longrightarrow> d_config d' = updated \<and> load_config (d_files d') path = Some updated \<and> \<not> apply_failed \<and> \<not> rollback_failed"
    and "\<not> saved \<Longrightarrow> d_config d' = d_config d \<and> d_files d' = d_files d"
    and "matched d \<Longrightarrow> \<not> rollback_failed \<Longrightarrow> matched d'"
proof -
  obtain applied answers running where start: "(if changed then start_hotspot updated (re_hotspot env, d_hotspot d)
      else (True, re_hotspot env, d_hotspot d)) = (applied, answers, running)" by (metis prod_cases3)
  obtain restored answers' running' where restore: "restore_previous_hotspot (d_config d) (answers, running) = (restored, answers', running')"
    by (metis prod_cases3)
  obtain ok files where save: "save_config (re_save env) path (re_temporary env) updated (d_files d) = (ok, files)" by fastforce
  from env obtain pid n where t: "re_temporary env = temporary_name path pid n" "re_config_path env = path"
    by (auto simp: env_ok_def)
  have stored: "ok \<Longrightarrow> load_config files path = Some updated" "\<not> ok \<Longrightarrow> files = d_files d"
    using save_config_outcome [OF save [unfolded t]] by auto
  have d': "((saved, apply_failed, rollback_failed), d') =
     (if \<not> applied then ((False, True, \<not> restored), d\<lparr>d_hotspot := running'\<rparr>)
      else if ok then ((True, False, False), d\<lparr>d_config := updated, d_files := files, d_hotspot := running\<rparr>)
      else if changed then ((False, False, \<not> restored), d\<lparr>d_files := files, d_hotspot := running'\<rparr>)
      else ((False, False, False), d\<lparr>d_files := files\<rparr>))"
    using run unfolding apply_config_def Let_def start by (auto simp: restore save t(2) split: if_splits bool.splits)
  have running: "applied \<Longrightarrow> changed \<Longrightarrow> running = Some (hotspot_of updated)" "\<not> changed \<Longrightarrow> applied \<and> running = d_hotspot d"
    using start start_hotspot_running by (auto split: if_splits)
  have returned: "restored \<Longrightarrow> running' = Some (hotspot_of (d_config d))" using restore restore_running by blast
  show "same_rest d d'" using d' by (auto simp: same_rest_def split: if_splits)
  show "saved \<Longrightarrow> d_config d' = updated \<and> load_config (d_files d') path = Some updated \<and> \<not> apply_failed \<and> \<not> rollback_failed"
    using d' stored(1) by (auto split: if_splits)
  show "\<not> saved \<Longrightarrow> d_config d' = d_config d \<and> d_files d' = d_files d"
    using d' stored(2) by (auto split: if_splits)
  show "matched d \<Longrightarrow> \<not> rollback_failed \<Longrightarrow> matched d'"
    using d' running returned changed by (cases changed) (auto simp: matched_def split: if_splits)
qed


section \<open>The invariant\<close>

text \<open>
  Memory and file agree, the pairing store is another file, and no pending update has the pass phrase of
  an unconfigured device.
\<close>

definition daemon_ok :: "string \<Rightarrow> daemon \<Rightarrow> bool" where
  "daemon_ok path d \<longleftrightarrow> load_config (d_files d) path = Some (d_config d) \<and> airplay_pairing_store (d_config d) \<noteq> path \<and>
     (\<forall>passphrase ssid. d_pending d = Some (passphrase, ssid) \<longrightarrow> passphrase \<noteq> kDefaultHotspotPassphrase)"

lemma load_config_cong: "files path = files' path \<Longrightarrow> load_config files path = load_config files' path"
  by (simp add: load_config_def)

lemma load_config_remove: "p \<noteq> path \<Longrightarrow> load_config (remove_file failed p files) path = load_config files path"
  by (rule load_config_cong) (simp add: remove_file_def)

text \<open>Handlers that leave configuration, file and hotspot alone.\<close>

definition same_settings :: "daemon \<Rightarrow> daemon \<Rightarrow> bool" where
  "same_settings d d' \<longleftrightarrow> d_config d' = d_config d \<and> d_files d' = d_files d \<and> d_hotspot d' = d_hotspot d"

lemma same_settings_handlers:
  "same_settings d (snd (post_prepare d))" "same_settings d (snd (post_confirm env body d))"
  "same_settings d (snd (post_scan d))" "same_settings d (snd (post_display body d))"
  "same_settings d (snd (post_hotspot body d))"
  by (simp_all add: same_settings_def post_prepare_def post_confirm_def post_scan_def post_display_def post_hotspot_def
      Let_def split: option.split prod.split)

lemma same_pending_handlers:
  "d_pending (snd (post_prepare d)) = d_pending d" "d_pending (snd (post_confirm env body d)) = d_pending d"
  "d_pending (snd (post_scan d)) = d_pending d" "d_pending (snd (post_display body d)) = d_pending d"
  "d_pending (snd (post_forget env d)) = d_pending d"
  by (simp_all add: post_prepare_def post_confirm_def post_scan_def post_display_def post_forget_def
      Let_def split: option.split prod.split)

text \<open>What a transaction and a request guarantee for the state before and after.\<close>

definition settled :: "string \<Rightarrow> daemon \<Rightarrow> daemon \<Rightarrow> string \<Rightarrow> bool" where
  "settled path d d' body \<longleftrightarrow> daemon_ok path d' \<and>
     (management_hotspot_needs_setup (d_config d') \<longrightarrow> management_hotspot_needs_setup (d_config d)) \<and>
     (matched d \<and> body \<noteq> text_line recovery_text \<longrightarrow> matched d') \<and>
     (body = text_line recovery_text \<longrightarrow> d_config d' = d_config d)"

lemma settled_same:
  "daemon_ok path d \<Longrightarrow> same_settings d d' \<Longrightarrow> d_pending d' = d_pending d \<Longrightarrow> settled path d d' body"
  by (simp add: settled_def daemon_ok_def same_settings_def matched_def)

lemma settled_hotspot:
  assumes "daemon_ok path d" "post_hotspot body d = (answer, d')"
  shows "settled path d d' b"
proof -
  have "same_settings d d'" using same_settings_handlers(5) [of d body] by (simp add: assms(2))
  moreover have "d_pending d' = d_pending d \<or> (\<exists>p ssid. d_pending d' = Some (p, ssid) \<and> valid_hotspot_passphrase p)"
    using assms(2) by (auto simp: post_hotspot_def Let_def split: option.splits if_splits)
  ultimately show ?thesis
    using assms(1) by (auto simp: settled_def daemon_ok_def same_settings_def matched_def valid_hotspot_passphrase_def)
qed

lemma settled_apply:
  assumes ok: "daemon_ok path d" and env: "env_ok path env" and run: "post_hotspot_apply env d = ((status, type, body, extra), d')"
  shows "settled path d d' body"
proof (cases "d_pending d")
  case None
  with run ok show ?thesis by (auto simp: post_hotspot_apply_def settled_def)
next
  case (Some pending)
  then obtain passphrase ssid where p: "d_pending d = Some (passphrase, ssid)" by (cases pending) auto
  let ?d = "d\<lparr>d_pending := None\<rparr>"
    and ?updated = "(d_config d)\<lparr>management_hotspot_passphrase := passphrase, management_hotspot_ssid := ssid\<rparr>"
  obtain saved af rf d1 where a: "apply_config env True ?updated ?d = ((saved, af, rf), d1)" by (metis prod_cases3 surj_pair)
  note c = apply_config_cases [OF env a, simplified]
  have pass: "passphrase \<noteq> kDefaultHotspotPassphrase" using ok p by (simp add: daemon_ok_def)
  show ?thesis
  proof (cases saved)
    case True
    then have "d' = d1\<lparr>d_snapshot := (d_snapshot d1)
        \<lparr>management_hotspot_password_pending := False, pending_management_hotspot_ssid := []\<rparr>\<rparr>"
      "body \<noteq> text_line recovery_text"
      using run
      by (auto simp: post_hotspot_apply_def p Let_def a updated_page_def text_line_def recovery_text_def)
    then show ?thesis
      using c True ok pass by (auto simp: settled_def daemon_ok_def matched_def same_rest_def management_hotspot_needs_setup_def)
  next
    case False
    then have d': "d' = d1\<lparr>d_pending := Some (passphrase, ssid)\<rparr>" and b: "rf \<Longrightarrow> body = text_line recovery_text"
      using run by (auto simp: post_hotspot_apply_def p Let_def a plain_reply_def)
    show ?thesis
      unfolding d' using c False ok pass b by (auto simp: settled_def daemon_ok_def matched_def)
  qed
qed

lemma settled_forget:
  assumes ok: "daemon_ok path d" and env: "env_ok path env" and run: "post_forget env d = (answer, d')"
  shows "settled path d d' body"
proof -
  have "d_config d' = d_config d \<and> d_hotspot d' = d_hotspot d \<and> d_pending d' = d_pending d \<and>
      load_config (d_files d') path = load_config (d_files d) path"
    using run ok env by (auto simp: post_forget_def Let_def load_config_remove daemon_ok_def env_ok_def split: if_splits)
  then show ?thesis using ok by (simp add: settled_def daemon_ok_def matched_def)
qed

lemma form_config_cases:
  "form_config body previous = Some updated \<Longrightarrow>
     airplay_pairing_store updated = airplay_pairing_store previous \<and>
     (management_hotspot_passphrase updated = management_hotspot_passphrase previous \<or>
      management_hotspot_passphrase updated \<noteq> kDefaultHotspotPassphrase)"
  by (auto simp: form_config_def Let_def valid_hotspot_passphrase_def split: option.splits if_splits)

lemma settled_config:
  assumes ok: "daemon_ok path d" and env: "env_ok path env" and run: "post_config env b d = ((status, type, body, extra), d')"
  shows "settled path d d' body"
proof (cases "form_config b (d_config d)")
  case None
  with run ok show ?thesis by (auto simp: post_config_def settled_def)
next
  case (Some updated)
  let ?c = "d_config d"
  define changed where "changed \<longleftrightarrow> wifi_interface ?c \<noteq> wifi_interface updated \<or>
    management_hotspot_ssid ?c \<noteq> management_hotspot_ssid updated \<or>
    management_hotspot_passphrase ?c \<noteq> management_hotspot_passphrase updated"
  have same: "\<not> changed \<Longrightarrow> hotspot_of updated = hotspot_of ?c" by (simp add: changed_def hotspot_of_def)
  obtain saved af rf d1 where a: "apply_config env changed updated d = ((saved, af, rf), d1)" by (metis prod_cases3 surj_pair)
  note c = apply_config_cases [OF env a same] and form = form_config_cases [OF Some]
  have run': "((status, type, body, extra), d') = (if saved
      then (redirect ''/?saved=1'', d1\<lparr>d_files := (if head_unit_mac updated \<noteq> head_unit_mac ?c
          then remove_file (re_remove_capabilities env) (re_capabilities env) (d_files d1) else d_files d1),
          d_rebind := d_rebind d1 \<or> wifi_interface ?c \<noteq> wifi_interface updated\<rparr>)
      else if rf then (plain_reply 503 recovery_text, d1)
      else if af then (plain_reply 503 ''Unable to apply Wi-Fi settings; configuration unchanged'', d1)
      else (plain_reply 400 ''Invalid configuration'', d1))"
    using run unfolding post_config_def Let_def Some option.case changed_def [symmetric] a by simp
  show ?thesis
  proof (cases saved)
    case True
    then obtain files rebind where d': "d' = d1\<lparr>d_files := files, d_rebind := rebind\<rparr>"
      "load_config files path = load_config (d_files d1) path" "body \<noteq> text_line recovery_text"
      using run' env by (auto simp: load_config_remove env_ok_def redirect_def text_line_def)
    then show ?thesis
      using c True ok form
      by (auto simp: settled_def daemon_ok_def matched_def same_rest_def management_hotspot_needs_setup_def)
  next
    case False
    then have "d' = d1" "rf \<Longrightarrow> body = text_line recovery_text"
      using run' by (auto simp: plain_reply_def split: if_splits)
    then show ?thesis
      using c False ok by (auto simp: settled_def daemon_ok_def matched_def same_rest_def)
  qed
qed

text \<open>Every request settles.\<close>

lemma post_prefix: "prefix (''POST '' @ path) request \<Longrightarrow> prefix ''POST '' request"
  by (auto simp: prefix_def)

definition may_change :: "request_env \<Rightarrow> string \<Rightarrow> string \<Rightarrow> bool" where
  "may_change env request body \<longleftrightarrow> prefix ''POST '' request \<and> form_field body ''csrf'' = Some (re_token env)"

lemma handle_request_cases:
  "(\<exists>answer. handle_request env request body d = (answer, d)) \<or>
   (may_change env request body \<and>
     ((prefix ''POST /management-hotspot '' request \<and> handle_request env request body d = post_hotspot body d) \<or>
      (prefix ''POST /management-hotspot/apply '' request \<and> handle_request env request body d = post_hotspot_apply env d) \<or>
      (\<not> management_hotspot_needs_setup (d_config d) \<and> handle_request env request body d \<in>
        {post_prepare d, post_confirm env body d, post_forget env d, post_scan d, post_display body d, post_config env body d})))"
  (is "?unchanged \<or> ?changed")
proof (cases "prefix ''POST '' request \<and> form_field body ''csrf'' = Some (re_token env)")
  case True
  then have no_get: "\<not> prefix (''GET '' @ path) request" for path by (auto simp: prefix_def)
  have "\<not> prefix ''GET / '' request" "\<not> prefix ''GET /?'' request" "\<not> prefix ''GET /logs'' request"
    "\<not> prefix ''GET /scan-status'' request" "\<not> prefix ''GET /carplay-prepare-status'' request"
    using no_get [of "''/ ''"] no_get [of "''/?''"] no_get [of "''/logs''"] no_get [of "''/scan-status''"]
      no_get [of "''/carplay-prepare-status''"] by simp_all
  with True show ?thesis by (simp add: handle_request_def may_change_def plain_reply_def)
next
  case False
  have "\<not> prefix ''POST '' request \<Longrightarrow> \<not> prefix (''POST '' @ path) request" for path using post_prefix by blast
  note no_post = this [of "''/management-hotspot ''"] this [of "''/management-hotspot/apply ''"] this [of "''/carplay-prepare ''"]
    this [of "''/bluetooth-confirm ''"] this [of "''/head-unit-forget ''"] this [of "''/scan ''"] this [of "''/display ''"]
    this [of "''/config ''"]
  have ?unchanged
  proof (cases "prefix ''POST '' request")
    case True
    with False show ?thesis by (simp add: handle_request_def plain_reply_def)
  next
    case False
    with no_post show ?thesis by (simp add: handle_request_def scan_status_def prepare_status_def Let_def plain_reply_def)
  qed
  then show ?thesis ..
qed

lemma request_settles:
  assumes ok: "daemon_ok path d" and env: "env_ok path env"
    and run: "handle_request env request body d = ((status, type, reply_body, extra), d')"
  shows "settled path d d' reply_body"
proof -
  have unchanged: "settled path d d reply_body" using ok by (simp add: settled_def)
  have kept: "settled path d (snd (post_prepare d)) reply_body" "settled path d (snd (post_confirm env body d)) reply_body"
    "settled path d (snd (post_scan d)) reply_body" "settled path d (snd (post_display body d)) reply_body"
    by (intro settled_same [OF ok] same_settings_handlers same_pending_handlers)+
  let ?r = "((status, type, reply_body, extra), d')"
  have "d' = d \<or> d' = snd (post_prepare d) \<or> d' = snd (post_confirm env body d) \<or> d' = snd (post_scan d) \<or>
      d' = snd (post_display body d) \<or> post_hotspot body d = ?r \<or> post_hotspot_apply env d = ?r \<or>
      post_forget env d = ?r \<or> post_config env body d = ?r"
    using handle_request_cases [of env request body d] unfolding run by (elim disjE conjE exE insertE) (auto dest: arg_cong [where f = snd])
  then show ?thesis
    using unchanged kept settled_hotspot [OF ok] settled_apply [OF ok env] settled_forget [OF ok env] settled_config [OF ok env]
    by (elim disjE) (simp_all only:)
qed


section \<open>Runs\<close>

text \<open>
  A step of the daemon: a request, another thread that updates the snapshot (scan, preflight, inventory,
  hooks of a session), or the listener that takes the request to rebind.
\<close>

inductive daemon_step :: "string \<Rightarrow> daemon \<Rightarrow> daemon \<Rightarrow> bool" for path where
  request: "env_ok path env \<Longrightarrow> handle_request env request body d = (answer, d') \<Longrightarrow> daemon_step path d d'"
| background: "daemon_step path d (d\<lparr>d_snapshot := s\<rparr>)"
| rebind: "daemon_step path d (d\<lparr>d_rebind := b\<rparr>)"

lemma daemon_step_ok:
  assumes "daemon_step path d d'" "daemon_ok path d"
  shows "daemon_ok path d' \<and> (management_hotspot_needs_setup (d_config d') \<longrightarrow> management_hotspot_needs_setup (d_config d))"
  using assms
proof (induction rule: daemon_step.induct)
  case (request env request body d answer d')
  obtain status type reply_body extra where "answer = (status, type, reply_body, extra)" by (metis prod_cases4)
  with request request_settles [of path d env request body] show ?case by (simp add: settled_def)
qed (simp_all add: daemon_ok_def)

lemma daemon_steps_ok:
  assumes "(daemon_step path)\<^sup>*\<^sup>* d d'" "daemon_ok path d"
  shows "daemon_ok path d' \<and> (management_hotspot_needs_setup (d_config d') \<longrightarrow> management_hotspot_needs_setup (d_config d))"
  using assms by (induction rule: rtranclp_induct) (use daemon_step_ok in blast)+

fun run_requests :: "(request_env \<times> string \<times> string) list \<Rightarrow> daemon \<Rightarrow> daemon" where
  "run_requests [] d = d"
| "run_requests ((env, request, body) # rs) d = run_requests rs (snd (handle_request env request body d))"

lemma apply_config_keeps:
  "apply_config env changed updated d = (flags, d') \<Longrightarrow> d_snapshot d' = d_snapshot d \<and> d_preflights d' = d_preflights d \<and>
     d_scans d' = d_scans d \<and> d_packets d' = d_packets d"
  by (auto simp: apply_config_def Let_def split: prod.splits if_splits bool.splits)

lemma hotspot_starts_nothing:
  "d_preflights (snd (post_hotspot body d)) = d_preflights d" "d_scans (snd (post_hotspot body d)) = d_scans d"
  "d_packets (snd (post_hotspot body d)) = d_packets d"
  by (simp_all add: post_hotspot_def Let_def split: option.split)

lemma hotspot_apply_starts_nothing:
  "d_preflights (snd (post_hotspot_apply env d)) = d_preflights d \<and> d_scans (snd (post_hotspot_apply env d)) = d_scans d \<and>
   d_packets (snd (post_hotspot_apply env d)) = d_packets d"
proof (cases "d_pending d")
  case (Some pending)
  obtain p q where pq: "pending = (p, q)" by fastforce
  obtain saved af rf d1 where a: "apply_config env True
      ((d_config d)\<lparr>management_hotspot_passphrase := p, management_hotspot_ssid := q\<rparr>) (d\<lparr>d_pending := None\<rparr>) = ((saved, af, rf), d1)"
    by (metis prod_cases3 surj_pair)
  from apply_config_keeps [OF a] show ?thesis by (simp add: post_hotspot_apply_def Some pq Let_def a)
qed (simp add: post_hotspot_apply_def)

lemma active_preflight_kept:
  assumes "preflight_active (preflight_state (d_snapshot d))"
  shows "preflight_state (d_snapshot (snd (handle_request env request body d))) = preflight_state (d_snapshot d) \<and>
    d_preflights (snd (handle_request env request body d)) = d_preflights d"
proof -
  let ?kept = "\<lambda>d'. preflight_state (d_snapshot d') = preflight_state (d_snapshot d) \<and> d_preflights d' = d_preflights d"
  have "?kept (snd (post_hotspot_apply env d))"
    by (auto simp: post_hotspot_apply_def Let_def split: option.split prod.split dest!: apply_config_keeps)
  moreover have "?kept (snd (post_config env body d))"
    by (auto simp: post_config_def Let_def split: option.split prod.split dest!: apply_config_keeps)
  moreover have "?kept (snd (post_prepare d))" "?kept (snd (post_forget env d))" "?kept (snd (post_scan d))"
    "?kept (snd (post_display body d))" "?kept (snd (post_hotspot body d))"
    using assms by (auto simp: post_prepare_def post_forget_def post_scan_def post_display_def post_hotspot_def bump_def
        Let_def split: option.split)
  moreover have "?kept (snd (post_confirm env body d))"
    by (auto simp: post_confirm_def confirm_begin_def confirm_end_def split: option.split prod.split)
  ultimately show ?thesis
    using handle_request_cases [of env request body d] by (elim disjE conjE exE insertE) simp_all
qed

section \<open>Properties\<close>

text \<open>
  C21: Only authorised requests change anything.  If a request changes the state of the daemon, it is a
  POST that carries the token of the page; and as long as the hotspot has the pass phrase printed in the
  manual, it goes to one of the two hotspot endpoints, starts no job and sends nothing to a worker.
\<close>

theorem requests_authorised:
  assumes "handle_request env request body d = (answer, d')" "d' \<noteq> d"
  shows "prefix ''POST '' request \<and> form_field body ''csrf'' = Some (re_token env) \<and>
    (management_hotspot_needs_setup (d_config d) \<longrightarrow>
      (prefix ''POST /management-hotspot '' request \<or> prefix ''POST /management-hotspot/apply '' request) \<and>
      d_preflights d' = d_preflights d \<and> d_scans d' = d_scans d \<and> d_packets d' = d_packets d)"
proof -
  note c = handle_request_cases [of env request body d, unfolded assms(1)]
  have "may_change env request body" using c assms(2) by auto
  moreover have "d_preflights d' = d_preflights d \<and> d_scans d' = d_scans d \<and> d_packets d' = d_packets d \<and>
      (prefix ''POST /management-hotspot '' request \<or> prefix ''POST /management-hotspot/apply '' request)"
    if "management_hotspot_needs_setup (d_config d)"
  proof -
    from c assms(2) that have "(prefix ''POST /management-hotspot '' request \<and> post_hotspot body d = (answer, d')) \<or>
        (prefix ''POST /management-hotspot/apply '' request \<and> post_hotspot_apply env d = (answer, d'))" by auto
    then show ?thesis
      using hotspot_starts_nothing [of body d] hotspot_apply_starts_nothing [of env d] by (elim disjE conjE) simp_all
  qed
  ultimately show ?thesis by (simp add: may_change_def)
qed



text \<open>
  C24: Preparing CarPlay without a head unit blocks it.  The request is refused but marks a preflight as
  running; as no job runs, nothing ends it: no later request, not even one that configures a head unit,
  starts a preflight or leaves the state.
\<close>

theorem prepare_without_head_unit_blocks:
  assumes "handle_request env request body d = (answer, d')" "may_change env request body"
    and "prefix ''POST /carplay-prepare '' request" "\<not> management_hotspot_needs_setup (d_config d)"
    and "head_unit_mac (d_config d) = []" "\<not> bluetooth_scan_running (d_snapshot d)"
    and "\<not> preflight_active (preflight_state (d_snapshot d))"
  shows "d_preflights (run_requests later d') = d_preflights d \<and>
    preflight_state (d_snapshot (run_requests later d')) = Discovering"
proof -
  obtain r where r: "request = ''POST /carplay-prepare '' @ r" using assms(3) by (auto simp: prefix_def)
  have "handle_request env request body d = post_prepare d"
    using assms(2,4) by (simp add: handle_request_def may_change_def r)
  then have d': "d_preflights d' = d_preflights d" "preflight_state (d_snapshot d') = Discovering"
    using assms(1,5-7) by (auto simp: post_prepare_def bump_def Let_def)
  have "d_preflights (run_requests later e) = d_preflights e \<and> preflight_state (d_snapshot (run_requests later e)) = Discovering"
    if "preflight_state (d_snapshot e) = Discovering" for e
    using that
  proof (induction later arbitrary: e)
    case (Cons l later)
    obtain env request body where l: "l = (env, request, body)" by (cases l)
    have "preflight_active (preflight_state (d_snapshot e))" using Cons.prems by (simp add: preflight_active_def)
    from active_preflight_kept [OF this, of env request body] Cons show ?case by (simp add: l)
  qed simp
  with d' show ?thesis by simp
qed

section \<open>Witnesses\<close>

definition example_request_env :: request_env where
  "example_request_env = \<lparr>re_config_path = ''cfg'', re_capabilities = ''caps'', re_token = ''t'', re_recent = [],
     re_version = None, re_hotspot = [], re_save = \<lparr>directories_created = True, opened = True, writes = [], synced = True, renamed = True\<rparr>,
     re_temporary = temporary_name ''cfg'' 1 0, re_remove_pairing = False, re_remove_capabilities = False,
     re_devices = ([], []), re_worker = None, re_sent = 0\<rparr>"

definition example_daemon :: "config \<Rightarrow> daemon" where
  "example_daemon c = \<lparr>d_config = c, d_files = [''cfg'' \<mapsto> config_content c], d_snapshot = new_snapshot, d_pending = None,
     d_hotspot = Some (hotspot_of c), d_rebind = False, d_preflights = [], d_scans = 0, d_packets = []\<rparr>"

lemma example_fields: "form_field ''csrf=t&show_unnamed=1'' ''csrf'' = Some ''t''"
  "form_field ''csrf=t&show_unnamed=1'' ''show_unnamed'' = Some ''1''"
  by code_simp+

lemma example_daemon_ok: "daemon_ok ''cfg'' (example_daemon example_config)" "env_ok ''cfg'' example_request_env"
  "\<not> management_hotspot_needs_setup example_config"
proof -
  have "validate_config example_config False"
    by (simp add: validate_config_def example_config_def valid_serialized_value_def)
  then have "load_config [''cfg'' \<mapsto> config_content example_config] ''cfg'' = Some example_config"
    using load_content [of example_config False Map.empty "''cfg''"] by simp
  then show "daemon_ok ''cfg'' (example_daemon example_config)"
    by (simp add: daemon_ok_def example_daemon_def) (simp add: example_config_def)
  show "env_ok ''cfg'' example_request_env" by (auto simp: env_ok_def example_request_env_def)
  show "\<not> management_hotspot_needs_setup example_config"
    by (simp add: management_hotspot_needs_setup_def example_config_def kDefaultHotspotPassphrase_def)
qed

lemma example_request:
  "handle_request example_request_env ''POST /display HTTP/1.1'' ''csrf=t&show_unnamed=1'' (example_daemon example_config) =
     (redirect ''/'', (example_daemon example_config)\<lparr>d_snapshot := new_snapshot\<lparr>show_unnamed_bluetooth_devices := True\<rparr>\<rparr>)"
  using example_daemon_ok(3)
  by (simp add: handle_request_def post_display_def example_fields example_request_env_def example_daemon_def)

theorem requests_authorised_witness:
  "form_field ''csrf=t&show_unnamed=1'' ''csrf'' = Some (re_token example_request_env) \<and>
   fst (handle_request example_request_env ''POST /display HTTP/1.1'' ''csrf=t&show_unnamed=1'' (example_daemon example_config))
     = redirect ''/''"
proof -
  have "(example_daemon example_config)\<lparr>d_snapshot := new_snapshot\<lparr>show_unnamed_bluetooth_devices := True\<rparr>\<rparr>
      \<noteq> example_daemon example_config"
    by (simp add: example_daemon_def new_snapshot_def)
  from requests_authorised [OF example_request this] show ?thesis by (simp add: example_request)
qed



theorem prepare_without_head_unit_blocks_witness:
  "preflight_state (d_snapshot (run_requests [(example_request_env, ''POST /config HTTP/1.1'', ''csrf=t'')]
     (snd (handle_request example_request_env ''POST /carplay-prepare HTTP/1.1'' ''csrf=t&show_unnamed=1''
        (example_daemon (example_config\<lparr>head_unit_mac := []\<rparr>)))))) = Discovering"
proof -
  let ?c = "example_config\<lparr>head_unit_mac := []\<rparr>"
  obtain answer d' where run: "handle_request example_request_env ''POST /carplay-prepare HTTP/1.1'' ''csrf=t&show_unnamed=1''
      (example_daemon ?c) = (answer, d')" by fastforce
  have "may_change example_request_env ''POST /carplay-prepare HTTP/1.1'' ''csrf=t&show_unnamed=1''"
    by (simp add: may_change_def example_fields example_request_env_def)
  moreover have "\<not> management_hotspot_needs_setup (d_config (example_daemon ?c))" "head_unit_mac (d_config (example_daemon ?c)) = []"
    "\<not> bluetooth_scan_running (d_snapshot (example_daemon ?c))" "\<not> preflight_active (preflight_state (d_snapshot (example_daemon ?c)))"
    using example_daemon_ok(3)
    by (simp_all add: example_daemon_def management_hotspot_needs_setup_def new_snapshot_def preflight_active_def)
  ultimately show ?thesis
    unfolding run snd_conv by (intro prepare_without_head_unit_blocks [OF run, THEN conjunct2]) simp_all
qed

text \<open>
  After a failed recovery the hotspot is down.  Submitting the settings again does not bring it back: they do not
  differ from the configuration, so the hotspot is not started, and the request is answered as saved.
\<close>

lemma resubmitting_does_not_recover:
  assumes "form_config body (d_config d) = Some (d_config d)" "d_hotspot d = None"
    and "post_config env body d = (answer, d')"
  shows "d_hotspot d' = None"
  using assms by (auto simp: post_config_def apply_config_def Let_def split: prod.splits if_splits bool.splits)

end
