(* ===== verification/Bridge_Server.thy ===== *)
theory Bridge_Server
  imports Iap2_Network "HOL-Library.Multiset"
begin

text \<open>
  The server of the management page: the listener of \<open>src/src/bridge/management_listener.cpp\<close>, and
  the accept loop of \<open>src/src/bridge_daemon_main.cpp\<close> with its request queue and four workers.
  Sockets and clients are numbered; the state keeps which of them are open.
\<close>

section \<open>The listener\<close>

record listener =
  li_fd :: "nat option"
  li_address :: u32
  li_interface :: string
  li_sockets :: "(nat \<times> string \<times> u32) list"
  li_next :: nat

text \<open>What the operating system answers while a socket is opened; addresses are in network order.\<close>

record attempt =
  at_socket :: bool
  at_device :: bool
  at_addresses :: "interface_address list option"
  at_bind :: bool
  at_listen :: bool

definition kAnyAddress :: u32 where "kAnyAddress = 0"

definition kLoopbackAddress :: u32 where "kLoopbackAddress = 0x0100007F"

fun first_ipv4 :: "string \<Rightarrow> interface_address list \<Rightarrow> u32 option" where
  "first_ipv4 interface_name [] = None"
| "first_ipv4 interface_name (entry # rest) =
     (if interface_name \<noteq> ifa_name entry then first_ipv4 interface_name rest
      else case ifa_ipv4 entry of None \<Rightarrow> first_ipv4 interface_name rest | Some address \<Rightarrow> Some address)"

definition ipv4_address_for_interface :: "interface_address list option \<Rightarrow> string \<Rightarrow> u32 option" where
  "ipv4_address_for_interface addresses interface_name =
     (case addresses of None \<Rightarrow> None | Some entries \<Rightarrow> first_ipv4 interface_name entries)"

definition listen_address :: "interface_address list option \<Rightarrow> string \<Rightarrow> u32" where
  "listen_address addresses interface_name =
     (case ipv4_address_for_interface addresses interface_name of
        Some address \<Rightarrow> address
      | None \<Rightarrow> if interface_name = [] then kLoopbackAddress else kAnyAddress)"

definition open_management_listener :: "string \<Rightarrow> attempt \<Rightarrow> listener \<Rightarrow> (nat \<times> u32) option \<times> listener" where
  "open_management_listener interface_name a l =
     (if \<not> at_socket a then (None, l)
      else
        let fd = li_next l; l = l\<lparr>li_next := Suc fd\<rparr>; address = listen_address (at_addresses a) interface_name in
        if interface_name \<noteq> [] \<and> \<not> at_device a then (None, l)
        else if \<not> at_bind a \<or> \<not> at_listen a then (None, l)
        else (Some (fd, address), l\<lparr>li_sockets := li_sockets l @ [(fd, interface_name, address)]\<rparr>))"

definition close_socket :: "nat option \<Rightarrow> listener \<Rightarrow> listener" where
  "close_socket fd l =
     (case fd of None \<Rightarrow> l | Some n \<Rightarrow> l\<lparr>li_sockets := filter (\<lambda>s. fst s \<noteq> n) (li_sockets l)\<rparr>)"

definition new_listener :: "string \<Rightarrow> attempt \<Rightarrow> listener" where
  "new_listener interface_name a =
     (let l = \<lparr>li_fd = None, li_address = kLoopbackAddress, li_interface = interface_name, li_sockets = [], li_next = 0\<rparr>
      in case open_management_listener interface_name a l of
           (None, l) \<Rightarrow> l
         | (Some (fd, address), l) \<Rightarrow> l\<lparr>li_fd := Some fd, li_address := address\<rparr>)"

definition address_changed :: "interface_address list option \<Rightarrow> listener \<Rightarrow> bool" where
  "address_changed addresses l =
     (if li_interface l = [] then False
      else if li_fd l = None then True
      else case ipv4_address_for_interface addresses (li_interface l) of
             Some current \<Rightarrow> current \<noteq> li_address l
           | None \<Rightarrow> li_address l \<noteq> kAnyAddress)"

text \<open>
  The replacement is opened beside the old listener, or else after closing it; the result says whether
  the old one was closed.
\<close>

definition open_replacement ::
  "string \<Rightarrow> attempt \<Rightarrow> attempt \<Rightarrow> listener \<Rightarrow> (nat \<times> u32) option \<times> bool \<times> listener" where
  "open_replacement interface_name a1 a2 l =
     (case open_management_listener interface_name a1 l of
        (Some replacement, l1) \<Rightarrow> (Some replacement, False, l1)
      | (None, l1) \<Rightarrow>
          if li_fd l = None then (None, False, l1)
          else (case open_management_listener interface_name a2 ((close_socket (li_fd l) l1)\<lparr>li_fd := None\<rparr>) of
                  (replacement, l2) \<Rightarrow> (replacement, True, l2)))"

definition restore_listener :: "attempt \<Rightarrow> u32 \<Rightarrow> listener \<Rightarrow> listener" where
  "restore_listener a previous_address l =
     (case open_management_listener (li_interface l) a l of
        (Some (fd, address), l) \<Rightarrow> l\<lparr>li_fd := Some fd, li_address := address\<rparr>
      | (None, l) \<Rightarrow> l\<lparr>li_fd := None, li_address := previous_address\<rparr>)"

text \<open>The attempts are those for the replacement, for the replacement again, and for the old binding.\<close>

definition rebind :: "string \<Rightarrow> attempt \<times> attempt \<times> attempt \<Rightarrow> listener \<Rightarrow> bool \<times> listener" where
  "rebind interface_name attempts l =
     (case attempts of
        (a1, a2, a3) \<Rightarrow>
          (case open_replacement interface_name a1 a2 l of
             (None, closed, l') \<Rightarrow> (False, if closed then restore_listener a3 (li_address l) l' else l')
           | (Some (fd, address), closed, l') \<Rightarrow>
               let l' = (if \<not> closed \<and> li_fd l \<noteq> Some fd then close_socket (li_fd l) l' else l')
               in (True, l'\<lparr>li_fd := Some fd, li_address := address, li_interface := interface_name\<rparr>)))"

section \<open>The accept loop\<close>

definition kManagementQueueLimit :: nat where "kManagementQueueLimit = 16"

definition kManagementWorkerCount :: nat where "kManagementWorkerCount = 4"

record server =
  sv_listener :: listener
  sv_rebind_requested :: bool
  sv_queue :: "nat list"
  sv_active :: "nat option list"
  sv_stopping :: bool
  sv_accepting :: bool
  sv_next_client :: nat
  sv_closed :: "nat list"
  sv_shut_down :: "nat list"

definition new_server :: "string \<Rightarrow> attempt \<Rightarrow> server" where
  "new_server interface_name a =
     \<lparr>sv_listener = new_listener interface_name a, sv_rebind_requested = False, sv_queue = [],
      sv_active = replicate kManagementWorkerCount None, sv_stopping = False, sv_accepting = True,
      sv_next_client = 0, sv_closed = [], sv_shut_down = []\<rparr>"

definition rebind_management_listener ::
  "string \<Rightarrow> attempt \<times> attempt \<times> attempt \<Rightarrow> server \<Rightarrow> bool \<times> server" where
  "rebind_management_listener interface_name attempts s =
     (if \<not> sv_rebind_requested s then (False, s)
      else case rebind interface_name attempts (sv_listener s) of
             (ok, l) \<Rightarrow> (ok, s\<lparr>sv_listener := l, sv_rebind_requested := \<not> ok\<rparr>))"

text \<open>What \<open>poll\<close> says: interrupted or failed, nothing in time, or the listener and the signals.\<close>

datatype poll_outcome = Poll_interrupted | Poll_failed | Poll_timeout | Poll_ready bool bool

text \<open>One round: the configured interface, the addresses, the attempts of a rebind, \<open>poll\<close>, whether
  the signal can be read and whether a client is accepted.\<close>

record round =
  ro_interface :: string
  ro_addresses :: "interface_address list option"
  ro_attempts :: "attempt \<times> attempt \<times> attempt"
  ro_poll :: poll_outcome
  ro_signal_read :: bool
  ro_accepted :: bool

definition accept_client :: "server \<Rightarrow> server" where
  "accept_client s =
     (let client = sv_next_client s; s = s\<lparr>sv_next_client := Suc client\<rparr> in
      if length (sv_queue s) \<ge> kManagementQueueLimit then s\<lparr>sv_closed := sv_closed s @ [client]\<rparr>
      else s\<lparr>sv_queue := sv_queue s @ [client]\<rparr>)"

definition main_round :: "round \<Rightarrow> server \<Rightarrow> server" where
  "main_round r s =
     (if \<not> sv_accepting s then s
      else
        let s = (if ro_interface r \<noteq> li_interface (sv_listener s) \<or> address_changed (ro_addresses r) (sv_listener s)
                 then s\<lparr>sv_rebind_requested := True\<rparr> else s)
        in case ro_poll r of
             Poll_interrupted \<Rightarrow> s
           | Poll_failed \<Rightarrow> s\<lparr>sv_accepting := False\<rparr>
           | outcome \<Rightarrow>
               (case rebind_management_listener (ro_interface r) (ro_attempts r) s of
                  (True, s) \<Rightarrow> s
                | (False, s) \<Rightarrow>
                    (case outcome of
                       Poll_ready listener_ready signal_ready \<Rightarrow>
                         if signal_ready then (if ro_signal_read r then s\<lparr>sv_accepting := False\<rparr> else s)
                         else if \<not> listener_ready then s
                         else if \<not> ro_accepted r then s
                         else accept_client s
                     | _ \<Rightarrow> s)))"

text \<open>The end of \<open>main\<close>: queued clients are closed, active ones are shut down.\<close>

definition stop_serving :: "server \<Rightarrow> server" where
  "stop_serving s =
     (if sv_accepting s \<or> sv_stopping s then s
      else s\<lparr>sv_stopping := True, sv_closed := sv_closed s @ sv_queue s, sv_queue := [],
             sv_shut_down := concat (map (\<lambda>c. case c of None \<Rightarrow> [] | Some n \<Rightarrow> [n]) (sv_active s))\<rparr>)"

definition worker_take :: "nat \<Rightarrow> server \<Rightarrow> server" where
  "worker_take i s =
     (if sv_stopping s \<or> i \<ge> length (sv_active s) \<or> sv_active s ! i \<noteq> None then s
      else case sv_queue s of
             [] \<Rightarrow> s
           | client # rest \<Rightarrow> s\<lparr>sv_queue := rest, sv_active := (sv_active s)[i := Some client]\<rparr>)"

text \<open>\<open>finish_client\<close> clears the first slot that holds the client, and closes it.\<close>

fun clear_slot :: "nat \<Rightarrow> nat option list \<Rightarrow> nat option list" where
  "clear_slot client [] = []"
| "clear_slot client (slot # slots) = (if slot = Some client then None # slots else slot # clear_slot client slots)"

definition finish_client :: "nat \<Rightarrow> server \<Rightarrow> server" where
  "finish_client client s =
     s\<lparr>sv_active := clear_slot client (sv_active s), sv_closed := sv_closed s @ [client]\<rparr>"

definition worker_finish :: "nat \<Rightarrow> server \<Rightarrow> server" where
  "worker_finish i s =
     (if i \<ge> length (sv_active s) then s
      else case sv_active s ! i of None \<Rightarrow> s | Some client \<Rightarrow> finish_client client s)"

datatype server_event =
    Main_round round
  | Stop_serving
  | Worker_take nat
  | Worker_finish nat
  | Request_rebind

fun server_step :: "server_event \<Rightarrow> server \<Rightarrow> server" where
  "server_step (Main_round r) s = main_round r s"
| "server_step Stop_serving s = stop_serving s"
| "server_step (Worker_take i) s = worker_take i s"
| "server_step (Worker_finish i) s = worker_finish i s"
| "server_step Request_rebind s = s\<lparr>sv_rebind_requested := True\<rparr>"

definition run_server :: "server_event list \<Rightarrow> server \<Rightarrow> server" where
  "run_server evs s = fold server_step evs s"

section \<open>The listener agrees with the kernel\<close>

text \<open>The open sockets are the one the listener has, bound to its interface and address.\<close>

definition listener_inv :: "listener \<Rightarrow> bool" where
  "listener_inv l \<longleftrightarrow>
     li_sockets l = (case li_fd l of None \<Rightarrow> [] | Some n \<Rightarrow> [(n, li_interface l, li_address l)]) \<and>
     (\<forall>s\<in>set (li_sockets l). fst s < li_next l)"

lemma open_management_listener_cases:
  assumes "open_management_listener i a l = (r, l')"
  obtains (failed) "r = None" "li_sockets l' = li_sockets l" "li_next l \<le> li_next l'"
      "li_fd l' = li_fd l" "li_interface l' = li_interface l" "li_address l' = li_address l"
    | (opened) "r = Some (li_next l, listen_address (at_addresses a) i)"
      "li_sockets l' = li_sockets l @ [(li_next l, i, listen_address (at_addresses a) i)]" "li_next l' = Suc (li_next l)"
      "li_fd l' = li_fd l" "li_interface l' = li_interface l" "li_address l' = li_address l"
proof (cases "at_socket a \<and> (i = [] \<or> at_device a) \<and> at_bind a \<and> at_listen a")
  case True
  then show ?thesis using assms by (intro opened) (auto simp: open_management_listener_def Let_def)
next
  case False
  then show ?thesis using assms by (intro failed) (auto simp: open_management_listener_def Let_def split: if_splits)
qed

lemma new_listener_inv: "listener_inv (new_listener i a)"
proof -
  obtain r l where o: "open_management_listener i a \<lparr>li_fd = None, li_address = kLoopbackAddress, li_interface = i, li_sockets = [], li_next = 0\<rparr> = (r, l)"
    by fastforce
  from o show ?thesis
    by (cases rule: open_management_listener_cases) (simp_all add: new_listener_def o listener_inv_def)
qed

lemma restore_listener_inv:
  assumes "li_sockets l = []"
  shows "listener_inv (restore_listener a address l)" "li_interface (restore_listener a address l) = li_interface l"
proof -
  obtain r l' where o: "open_management_listener (li_interface l) a l = (r, l')" by fastforce
  from o have "listener_inv (restore_listener a address l) \<and> li_interface (restore_listener a address l) = li_interface l"
    using assms by (cases rule: open_management_listener_cases) (simp_all add: restore_listener_def o listener_inv_def)
  then show "listener_inv (restore_listener a address l)" "li_interface (restore_listener a address l) = li_interface l"
    by simp_all
qed

text \<open>What an attempt for a replacement leaves: a new socket beside the old one or alone, or none.\<close>

lemma open_replacement_facts:
  assumes "listener_inv l" "open_replacement i a1 a2 l = (r, closed, l')"
  shows "li_interface l' = li_interface l \<and> li_address l' = li_address l \<and> (closed \<longrightarrow> li_fd l \<noteq> None) \<and>
    (case r of
       None \<Rightarrow> if closed then li_sockets l' = [] else listener_inv l'
     | Some (fd, address) \<Rightarrow>
         li_fd l \<noteq> Some fd \<and> fd < li_next l' \<and> (\<exists>a\<in>{a1, a2}. address = listen_address (at_addresses a) i) \<and>
         li_sockets l' = (if closed then [] else li_sockets l) @ [(fd, i, address)])"
proof -
  have sockets: "li_sockets l = (case li_fd l of None \<Rightarrow> [] | Some n \<Rightarrow> [(n, li_interface l, li_address l)])"
    "\<forall>s\<in>set (li_sockets l). fst s < li_next l"
    using assms(1) by (simp_all add: listener_inv_def)
  obtain r1 l1 where o1: "open_management_listener i a1 l = (r1, l1)" by fastforce
  from o1 show ?thesis
  proof (cases rule: open_management_listener_cases)
    case opened
    then have "r = r1" "\<not> closed" "l' = l1" using assms(2) by (simp_all add: open_replacement_def o1)
    with opened sockets show ?thesis by (cases "li_fd l") auto
  next
    case failed
    show ?thesis
    proof (cases "li_fd l")
      case None
      then have "r = None" "\<not> closed" "l' = l1" using assms(2) failed(1) by (simp_all add: open_replacement_def o1)
      with failed sockets None show ?thesis by (auto simp: listener_inv_def)
    next
      case (Some n)
      obtain c where c: "c = (close_socket (Some n) l1)\<lparr>li_fd := None\<rparr>" by blast
      have empty: "li_sockets c = []" "li_interface c = li_interface l" "li_address c = li_address l"
        "li_next l \<le> li_next c"
        using sockets failed Some by (simp_all add: c close_socket_def)
      obtain r2 l2 where o2: "open_management_listener i a2 c = (r2, l2)" by fastforce
      have r: "r = r2" "closed" "l' = l2"
        using assms(2) failed(1) Some o2 by (simp_all add: open_replacement_def o1 c)
      have "n < li_next l" using sockets Some by simp
      from o2 show ?thesis
      proof (cases rule: open_management_listener_cases)
        case again: failed
        then show ?thesis using r empty Some by simp
      next
        case again: opened
        then show ?thesis using r empty Some \<open>n < li_next l\<close> by auto
      qed
    qed
  qed
qed

text \<open>After a rebind: where the listener is, and that it is the only open socket.\<close>

lemma rebind_inv:
  assumes "listener_inv l" "rebind i (a1, a2, a3) l = (ok, l')"
  shows "listener_inv l' \<and>
    (if ok then li_interface l' = i \<and> li_fd l' \<noteq> None \<and>
                (\<exists>a\<in>{a1, a2}. li_address l' = listen_address (at_addresses a) i)
     else li_interface l' = li_interface l)"
proof -
  obtain r closed k where o: "open_replacement i a1 a2 l = (r, closed, k)" by (metis prod_cases3)
  note facts = open_replacement_facts [OF assms(1) o]
  show ?thesis
  proof (cases r)
    case None
    then show ?thesis
      using assms(2) facts restore_listener_inv [of k a3 "li_address l"] by (auto simp: rebind_def o split: if_splits)
  next
    case (Some p)
    obtain fd address where p: "p = (fd, address)" by (cases p)
    have sockets: "li_sockets l = (case li_fd l of None \<Rightarrow> [] | Some n \<Rightarrow> [(n, li_interface l, li_address l)])"
      using assms(1) by (simp add: listener_inv_def)
    have "li_sockets (if \<not> closed \<and> li_fd l \<noteq> Some fd then close_socket (li_fd l) k else k) = [(fd, i, address)] \<and>
        li_next (if \<not> closed \<and> li_fd l \<noteq> Some fd then close_socket (li_fd l) k else k) = li_next k"
      using facts sockets by (cases "li_fd l") (auto simp: Some p close_socket_def)
    then show ?thesis
      using assms(2) facts by (auto simp: rebind_def o Some p listener_inv_def Let_def)
  qed
qed

text \<open>If the old binding can be opened again, a failed rebind keeps a listener.\<close>

lemma rebind_keeps_listener:
  assumes "rebind i (a1, a2, a3) l = (False, l')" "li_fd l \<noteq> None"
    and "at_socket a3" "at_device a3" "at_bind a3" "at_listen a3"
  shows "li_fd l' \<noteq> None"
proof -
  obtain r closed k where o: "open_replacement i a1 a2 l = (r, closed, k)" by (metis prod_cases3)
  have "r = None \<Longrightarrow> closed"
    using o assms(2) by (auto simp: open_replacement_def split: prod.splits option.splits)
  moreover have "li_fd (restore_listener a3 address k) \<noteq> None" for address
    using assms(3-6) by (simp add: restore_listener_def open_management_listener_def Let_def)
  ultimately show ?thesis
    using assms(1) by (cases r) (auto simp: rebind_def o)
qed

section \<open>The clients\<close>

definition active_clients :: "server \<Rightarrow> nat list" where
  "active_clients s = concat (map (\<lambda>c. case c of None \<Rightarrow> [] | Some n \<Rightarrow> [n]) (sv_active s))"

text \<open>Every client that was accepted waits, is served or is closed, and is so once.\<close>

definition clients_inv :: "server \<Rightarrow> bool" where
  "clients_inv s \<longleftrightarrow>
     mset (sv_queue s @ active_clients s @ sv_closed s) = mset [0..<sv_next_client s] \<and>
     length (sv_queue s) \<le> kManagementQueueLimit \<and> length (sv_active s) = kManagementWorkerCount \<and>
     (sv_stopping s \<longrightarrow> sv_queue s = [] \<and> \<not> sv_accepting s)"

definition slots :: "nat option list \<Rightarrow> nat list" where
  "slots cs = concat (map (\<lambda>c. case c of None \<Rightarrow> [] | Some n \<Rightarrow> [n]) cs)"

lemma slots_simps [simp]: "slots [] = []" "slots (c # cs) = (case c of None \<Rightarrow> [] | Some n \<Rightarrow> [n]) @ slots cs"
  by (simp_all add: slots_def)

lemma active_slots: "active_clients s = slots (sv_active s)"
  by (simp add: active_clients_def slots_def)

lemma slots_take: "i < length cs \<Longrightarrow> cs ! i = None \<Longrightarrow> mset (slots (cs[i := Some c])) = add_mset c (mset (slots cs))"
  by (induction cs arbitrary: i) (auto simp: nth_Cons' split: nat.splits if_splits)

lemma slots_clear: "Some c \<in> set cs \<Longrightarrow> add_mset c (mset (slots (clear_slot c cs))) = mset (slots cs)"
  by (induction cs) (auto split: option.splits)

lemma length_clear_slot [simp]: "length (clear_slot c cs) = length cs"
  by (induction cs) auto

lemma slots_empty: "list_all (\<lambda>c. c = None) cs \<Longrightarrow> slots cs = []"
  by (induction cs) auto

lemma clients_idle:
  "clients_inv s \<Longrightarrow> sv_queue s' = sv_queue s \<Longrightarrow> sv_active s' = sv_active s \<Longrightarrow> sv_closed s' = sv_closed s \<Longrightarrow>
   sv_next_client s' = sv_next_client s \<Longrightarrow> sv_stopping s' = sv_stopping s \<Longrightarrow>
   (sv_accepting s' \<longrightarrow> sv_accepting s) \<Longrightarrow> clients_inv s'"
  by (auto simp: clients_inv_def active_slots)

lemma clients_accept: "clients_inv s \<Longrightarrow> sv_accepting s \<Longrightarrow> clients_inv (accept_client s)"
  by (auto simp: clients_inv_def active_slots accept_client_def Let_def simp del: mset_upt)

lemma clients_main_round: "clients_inv s \<Longrightarrow> clients_inv (main_round r s)"
proof -
  assume inv: "clients_inv s"
  obtain t where t: "t = (if ro_interface r \<noteq> li_interface (sv_listener s) \<or> address_changed (ro_addresses r) (sv_listener s)
      then s\<lparr>sv_rebind_requested := True\<rparr> else s)" by blast
  obtain ok u where u: "rebind_management_listener (ro_interface r) (ro_attempts r) t = (ok, u)" by fastforce
  have same: "sv_queue t = sv_queue s" "sv_active t = sv_active s" "sv_closed t = sv_closed s"
    "sv_next_client t = sv_next_client s" "sv_stopping t = sv_stopping s" "sv_accepting t = sv_accepting s"
    by (simp_all add: t)
  moreover have "sv_queue u = sv_queue t" "sv_active u = sv_active t" "sv_closed u = sv_closed t"
    "sv_next_client u = sv_next_client t" "sv_stopping u = sv_stopping t" "sv_accepting u = sv_accepting t"
    using u by (auto simp: rebind_management_listener_def split: if_splits prod.splits)
  ultimately have quiet: "clients_inv t" "clients_inv u" "clients_inv (t\<lparr>sv_accepting := False\<rparr>)"
    "clients_inv (u\<lparr>sv_accepting := False\<rparr>)"
    using inv by (auto intro: clients_idle)
  have acc: "sv_accepting s \<Longrightarrow> clients_inv (accept_client u)"
    using clients_accept [OF quiet(2)] u same by (auto simp: rebind_management_listener_def split: if_splits prod.splits)
  show ?thesis
    using inv quiet acc unfolding main_round_def t [symmetric]
    by (cases ok) (auto simp: u Let_def split: poll_outcome.splits)
qed

lemma clients_step: "clients_inv s \<Longrightarrow> clients_inv (server_step ev s)"
proof (cases ev)
  case (Main_round r)
  assume "clients_inv s"
  then show ?thesis using Main_round clients_main_round by simp
next
  case Stop_serving
  assume "clients_inv s"
  then show ?thesis using Stop_serving by (auto simp: stop_serving_def clients_inv_def active_slots ac_simps)
next
  case (Worker_take i)
  assume "clients_inv s"
  then show ?thesis
    using Worker_take by (auto simp: worker_take_def clients_inv_def active_slots slots_take split: list.splits)
next
  case (Worker_finish i)
  assume inv: "clients_inv s"
  show ?thesis
  proof (cases "i < length (sv_active s) \<and> sv_active s ! i \<noteq> None")
    case True
    then obtain c where c: "sv_active s ! i = Some c" by auto
    with True have "Some c \<in> set (sv_active s)" by (metis nth_mem)
    from slots_clear [OF this, symmetric] show ?thesis
      using inv Worker_finish True c by (auto simp: worker_finish_def finish_client_def clients_inv_def active_slots)
  next
    case False
    then have "worker_finish i s = s" by (auto simp: worker_finish_def split: option.splits)
    then show ?thesis using inv Worker_finish by simp
  qed
next
  case Request_rebind
  assume "clients_inv s"
  then show ?thesis using Request_rebind by (auto intro: clients_idle)
qed

lemma clients_new: "clients_inv (new_server i a)"
  by (simp add: clients_inv_def active_slots new_server_def slots_empty list_all_iff)

lemma clients_run: "clients_inv s \<Longrightarrow> clients_inv (run_server evs s)"
  by (induction evs arbitrary: s) (simp_all add: run_server_def clients_step)

text \<open>The workers finish what they serve.\<close>

definition workers_finish :: "server \<Rightarrow> server" where
  "workers_finish s = fold (\<lambda>c. finish_client c) (active_clients s) s"

lemma finish_all:
  "mset (active_clients (fold (\<lambda>c. finish_client c) cs s)) = mset (active_clients s) - mset cs \<and>
   mset (sv_closed (fold (\<lambda>c. finish_client c) cs s)) = mset (sv_closed s) + mset cs"
  if "mset cs \<subseteq># mset (active_clients s)" for s
  using that
proof (induction cs arbitrary: s)
  case (Cons c cs)
  have "c \<in># mset (active_clients s)" using Cons.prems by (simp add: insert_subset_eq_iff)
  then have "Some c \<in> set (sv_active s)"
    by (auto simp: active_clients_def split: option.splits)
  from slots_clear [OF this] have "add_mset c (mset (active_clients (finish_client c s))) = mset (active_clients s)"
    by (simp add: active_slots finish_client_def)
  then have step: "mset (active_clients (finish_client c s)) = mset (active_clients s) - {#c#}"
    by (metis add_mset_remove_trivial)
  then have "mset cs \<subseteq># mset (active_clients (finish_client c s))"
    using Cons.prems by (simp add: insert_subset_eq_iff)
  from Cons.IH [OF this] show ?case using step by (simp add: finish_client_def)
qed simp

lemma stopping_clients:
  assumes "clients_inv s"
  shows "mset (sv_closed (workers_finish (stop_serving (s\<lparr>sv_accepting := False\<rparr>)))) = mset [0..<sv_next_client s]"
proof -
  let ?t = "stop_serving (s\<lparr>sv_accepting := False\<rparr>)"
  have t: "sv_queue ?t = []" "mset (sv_closed ?t) = mset (sv_queue s) + mset (sv_closed s)" "sv_active ?t = sv_active s"
    using assms by (auto simp: stop_serving_def clients_inv_def)
  have "mset (sv_closed (workers_finish ?t)) = mset (sv_closed ?t) + mset (active_clients ?t)"
    using finish_all [of "active_clients ?t" ?t] by (simp add: workers_finish_def)
  also have "\<dots> = mset (sv_queue s @ active_clients s @ sv_closed s)"
    using t by (simp add: active_slots ac_simps)
  finally show ?thesis using assms by (simp add: clients_inv_def)
qed

text \<open>
  C39: Every client that was accepted waits in the queue of at most 16, is served by one of the four
  workers, or is closed, and only one of these; when the daemon stops and the workers finish what they
  serve, every client has been closed exactly once.
\<close>

theorem clients_closed_once:
  "let s = run_server evs (new_server i a) in
   mset (sv_queue s @ active_clients s @ sv_closed s) = mset [0..<sv_next_client s] \<and>
   length (sv_queue s) \<le> 16 \<and> length (sv_active s) = 4 \<and>
   mset (sv_closed (workers_finish (stop_serving (s\<lparr>sv_accepting := False\<rparr>)))) = mset [0..<sv_next_client s]"
  using clients_run [OF clients_new, of evs i a] stopping_clients [OF clients_run [OF clients_new, of evs i a]]
  by (simp add: clients_inv_def kManagementQueueLimit_def kManagementWorkerCount_def Let_def)

section \<open>The listener of the daemon\<close>

lemma listener_step: "listener_inv (sv_listener s) \<Longrightarrow> listener_inv (sv_listener (server_step ev s))"
proof (cases ev)
  case (Main_round r)
  assume inv: "listener_inv (sv_listener s)"
  have rebound: "listener_inv (sv_listener (snd (rebind_management_listener i (a1, a2, a3) t)))"
    if "listener_inv (sv_listener t)" for i a1 a2 a3 t
  proof -
    obtain ok l' where "rebind i (a1, a2, a3) (sv_listener t) = (ok, l')" by fastforce
    with rebind_inv [OF that this] show ?thesis using that by (simp add: rebind_management_listener_def)
  qed
  obtain t where t: "t = (if ro_interface r \<noteq> li_interface (sv_listener s) \<or> address_changed (ro_addresses r) (sv_listener s)
      then s\<lparr>sv_rebind_requested := True\<rparr> else s)" by blast
  obtain ok u where u: "rebind_management_listener (ro_interface r) (ro_attempts r) t = (ok, u)" by fastforce
  have "listener_inv (sv_listener t)" using inv by (simp add: t)
  moreover from this have "listener_inv (sv_listener u)"
    using rebound [of t "ro_interface r"] u by (cases "ro_attempts r") (metis snd_conv)
  moreover have "sv_listener (accept_client u) = sv_listener u" by (simp add: accept_client_def Let_def)
  ultimately have "listener_inv (sv_listener (main_round r s))"
    using inv unfolding main_round_def t [symmetric]
    by (cases ok) (auto simp: u Let_def split: poll_outcome.splits)
  then show ?thesis using Main_round by simp
next
  case (Worker_take i)
  assume "listener_inv (sv_listener s)"
  then show ?thesis using Worker_take by (auto simp: worker_take_def split: list.splits)
next
  case (Worker_finish i)
  assume "listener_inv (sv_listener s)"
  then show ?thesis using Worker_finish by (auto simp: worker_finish_def finish_client_def split: option.splits)
qed (simp_all add: stop_serving_def)

lemma listener_run: "listener_inv (sv_listener (run_server evs (new_server i a)))"
proof -
  have "listener_inv (sv_listener s) \<Longrightarrow> listener_inv (sv_listener (run_server evs s))" for s
    by (induction evs arbitrary: s) (simp_all add: run_server_def listener_step)
  then show ?thesis using new_listener_inv by (simp add: new_server_def)
qed

lemma address_settled:
  assumes "li_fd l \<noteq> None" "li_address l = listen_address addresses (li_interface l)"
  shows "\<not> address_changed addresses l"
  using assms by (auto simp: address_changed_def listen_address_def split: option.splits)

definition reopenable :: "attempt \<Rightarrow> bool" where
  "reopenable a = (at_socket a \<and> at_device a \<and> at_bind a \<and> at_listen a)"

text \<open>
  C40: The open listening sockets are always exactly the one the daemon polls, bound to the interface
  and address it believes.  A rebind that succeeds serves the wanted interface and leaves nothing to
  change; one that fails leaves the interface as it was, and a listener if the old binding opens again.
\<close>

theorem listener_follows_interface:
  assumes "l = sv_listener (run_server evs (new_server i a))"
    and "rebind j (a1, a2, a3) l = (ok, l')" and "at_addresses a1 = at_addresses a2"
  shows "li_sockets l = (case li_fd l of None \<Rightarrow> [] | Some n \<Rightarrow> [(n, li_interface l, li_address l)]) \<and>
    li_sockets l' = (case li_fd l' of None \<Rightarrow> [] | Some n \<Rightarrow> [(n, li_interface l', li_address l')]) \<and>
    (if ok then li_interface l' = j \<and> li_fd l' \<noteq> None \<and> \<not> address_changed (at_addresses a1) l'
     else li_interface l' = li_interface l \<and> (li_fd l = None \<or> li_fd l' \<noteq> None \<or> \<not> reopenable a3))"
proof -
  have inv: "listener_inv l" using listener_run assms(1) by simp
  note facts = rebind_inv [OF inv assms(2)]
  have kept: "\<not> ok \<Longrightarrow> li_fd l = None \<or> li_fd l' \<noteq> None \<or> \<not> reopenable a3"
    using rebind_keeps_listener [of j a1 a2 a3 l l'] assms(2) by (auto simp: reopenable_def)
  have "ok \<Longrightarrow> \<not> address_changed (at_addresses a1) l'"
    using facts assms(3) by (intro address_settled) auto
  with facts inv kept show ?thesis by (auto simp: listener_inv_def)
qed

text \<open>The interface loses its address: the old binding of the port blocks the new one until it is closed.\<close>

definition granted :: attempt where
  "granted = \<lparr>at_socket = True, at_device = True,
     at_addresses = Some [\<lparr>ifa_name = ''wlan0'', ifa_ipv4 = Some 0x0101A8C0, ifa_netmask = None\<rparr>],
     at_bind = True, at_listen = True\<rparr>"

lemma listener_follows_interface_witness:
  "\<exists>l'. rebind ''wlan0'' (granted\<lparr>at_bind := False\<rparr>, granted, granted) (sv_listener (run_server [] (new_server [] granted))) =
          (True, l') \<and> li_sockets l' = [(2, ''wlan0'', 0x0101A8C0)] \<and> \<not> address_changed (at_addresses granted) l'"
proof -
  obtain l' where r: "rebind ''wlan0'' (granted\<lparr>at_bind := False\<rparr>, granted, granted)
      (sv_listener (run_server [] (new_server [] granted))) = (True, l')" and s: "li_sockets l' = [(2, ''wlan0'', 0x0101A8C0)]"
    by (simp add: rebind_def open_replacement_def open_management_listener_def close_socket_def new_server_def new_listener_def
        run_server_def granted_def listen_address_def ipv4_address_for_interface_def Let_def)
  from listener_follows_interface [OF refl r] s r show ?thesis by auto
qed

end
