(* ===== verification/Airplay_Media.thy ===== *)
theory Airplay_Media
  imports Airplay_Cipher Airplay_Video Bridge_Ipc
begin

text \<open>
  The data streams of the AirPlay session (\<open>run_session\<close> in \<open>src/src/airplay/session.cpp\<close>): the sockets'
  sending loops, the audio senders, the microphone receiver with its replay window, the buffer
  that waits for the first key frame, and the screen stream.  What a thread is given from
  outside (frames, packets, what \<open>poll\<close>, \<open>send\<close> and the stop callback answer) is a list with one
  entry per round.
\<close>

section \<open>Sending\<close>

text \<open>\<open>send_all\<close>: the stop callback is asked in every round.\<close>

fun session_send_all ::
    "(bool \<times> send_turn) list \<Rightarrow> bytes \<Rightarrow> (bool \<times> bytes \<times> (bool \<times> send_turn) list) option" where
  "session_send_all turns [] = Some (True, [], turns)"
| "session_send_all [] (b # bs) = None"
| "session_send_all ((stop, t) # turns) (b # bs) =
     (if stop \<or> remaining t \<le> 0 then Some (False, [], turns)
      else if poll_ready t < 0 then
        (if poll_eintr t then session_send_all turns (b # bs) else Some (False, [], turns))
      else if poll_ready t = 0 then session_send_all turns (b # bs)
      else if poll_error t then Some (False, [], turns)
      else if 0 < send_count t then
        (case session_send_all turns (drop (nat (send_count t)) (b # bs)) of
           None \<Rightarrow> None
         | Some (ok, out, rest) \<Rightarrow> Some (ok, take (nat (send_count t)) (b # bs) @ out, rest))
      else if send_count t < 0 \<and> send_again t then session_send_all turns (b # bs)
      else Some (False, [], turns))"

text \<open>\<open>send_udp_packet\<close>: a datagram goes out whole or not at all.\<close>

fun send_udp_packet :: "(bool \<times> send_turn) list \<Rightarrow> bytes \<Rightarrow> (bool \<times> (bool \<times> send_turn) list) option" where
  "send_udp_packet [] packet = None"
| "send_udp_packet ((stop, t) # turns) packet =
     (if stop \<or> remaining t \<le> 0 then Some (False, turns)
      else if poll_ready t < 0 then
        (if poll_eintr t then send_udp_packet turns packet else Some (False, turns))
      else if poll_ready t = 0 then send_udp_packet turns packet
      else if poll_error t then Some (False, turns)
      else if send_count t = int (length packet) then Some (True, turns)
      else if send_count t < 0 \<and> send_again t then send_udp_packet turns packet
      else Some (False, turns))"

section \<open>Audio\<close>

text \<open>The bytes of each 16-bit sample change places.\<close>

fun swap16 :: "bytes \<Rightarrow> bytes" where
  "swap16 (a # b # xs) = b # a # swap16 xs"
| "swap16 xs = xs"

record audio_stream =
  au_sequence :: u16
  au_timestamp :: u32
  au_nonce :: u64

definition new_audio_stream :: audio_stream where
  "new_audio_stream = \<lparr>au_sequence = 0, au_timestamp = 0, au_nonce = 0\<rparr>"

definition audio_header :: "audio_stream \<Rightarrow> bytes" where
  "audio_header s =
     [0x80, 100, ucast (drop_bit 8 (au_sequence s)), ucast (au_sequence s),
      ucast (drop_bit 24 (au_timestamp s)), ucast (drop_bit 16 (au_timestamp s)),
      ucast (drop_bit 8 (au_timestamp s)), ucast (au_timestamp s), 0, 0, 0, 0]"

definition audio_packet :: "evp \<Rightarrow> bytes \<Rightarrow> bytes \<Rightarrow> audio_stream \<Rightarrow> bytes option" where
  "audio_packet evp key pcm s =
     (let header = audio_header s; nonce = store_le64 (au_nonce s) in
      case seal_with_nonce evp key (replicate 4 0 @ nonce) (swap16 pcm) (take 8 (drop 4 header)) of
        None \<Rightarrow> None
      | Some sealed \<Rightarrow> Some (header @ sealed @ nonce))"

definition audio_advance :: "nat \<Rightarrow> bytes \<Rightarrow> audio_stream \<Rightarrow> audio_stream" where
  "audio_advance sample pcm s =
     \<lparr>au_sequence = au_sequence s + 1, au_timestamp = au_timestamp s + of_nat (length pcm div sample),
      au_nonce = au_nonce s + 1\<rparr>"

text \<open>
  The loop of a sender: each round the stop callback, what \<open>next\<close> returns, and the rounds of
  sending.  \<open>sample\<close> is the size of a sample: 4 for stereo, 2 for mono.  The result is the
  list of the packets that were sent.
\<close>

fun audio_sender ::
    "evp \<Rightarrow> bytes \<Rightarrow> nat \<Rightarrow> audio_stream \<Rightarrow> (bool \<times> bytes option \<times> (bool \<times> send_turn) list) list \<Rightarrow> bytes list" where
  "audio_sender evp key sample s [] = []"
| "audio_sender evp key sample s ((stop, next, turns) # rounds) =
     (if stop then []
      else (case next of
              None \<Rightarrow> []
            | Some pcm \<Rightarrow>
                if pcm = [] \<or> length pcm mod sample \<noteq> 0 then audio_sender evp key sample s rounds
                else (case audio_packet evp key pcm s of
                        None \<Rightarrow> []
                      | Some packet \<Rightarrow>
                          (case send_udp_packet turns packet of
                             Some (True, _) \<Rightarrow> packet # audio_sender evp key sample (audio_advance sample pcm s) rounds
                           | _ \<Rightarrow> []))))"

section \<open>Microphone\<close>

record mic =
  highest_nonce :: u64
  replay_window :: u64
  have_nonce :: bool

definition new_mic :: mic where
  "new_mic = \<lparr>highest_nonce = 0, replay_window = 0, have_nonce = False\<rparr>"

text \<open>The replay window: \<open>None\<close> is a nonce that is refused.\<close>

definition mic_window :: "u64 \<Rightarrow> mic \<Rightarrow> mic option" where
  "mic_window nonce s =
     (if have_nonce s
      then (if nonce > highest_nonce s
            then (let distance = nonce - highest_nonce s in
                  Some (s\<lparr>replay_window := (if distance \<ge> 64 then 1 else push_bit (unat distance) (replay_window s) OR 1),
                          highest_nonce := nonce\<rparr>))
            else (let distance = highest_nonce s - nonce in
                  if distance \<ge> 64 \<or> replay_window s AND push_bit (unat distance) 1 \<noteq> 0 then None
                  else Some (s\<lparr>replay_window := replay_window s OR push_bit (unat distance) 1\<rparr>)))
      else Some \<lparr>highest_nonce = nonce, replay_window = 1, have_nonce = True\<rparr>)"

definition mic_nonce :: "bytes \<Rightarrow> u64" where
  "mic_nonce packet = le_value (drop (length packet - 8) packet)"

text \<open>A received datagram: what the callback gets, if anything.\<close>

definition mic_packet :: "evp \<Rightarrow> bytes \<Rightarrow> bytes \<Rightarrow> mic \<Rightarrow> bytes option \<times> mic" where
  "mic_packet evp key packet s =
     (if length packet < 12 + 16 + 8 \<or> drop_bit 6 (packet ! 0) \<noteq> 2 \<or> packet ! 1 AND 0x7f \<noteq> 100 then (None, s)
      else (let nonce = drop (length packet - 8) packet in
            case open_with_nonce evp key (replicate 4 0 @ nonce)
                   (take (length packet - 12 - 8) (drop 12 packet)) (take 8 (drop 4 packet)) of
              None \<Rightarrow> (None, s)
            | Some decrypted \<Rightarrow>
                (case mic_window (mic_nonce packet) s of
                   None \<Rightarrow> (None, s)
                 | Some s \<Rightarrow> (if length decrypted mod 2 \<noteq> 0 then None else Some (swap16 decrypted), s))))"

fun mic_receiver :: "evp \<Rightarrow> bytes \<Rightarrow> bytes list \<Rightarrow> mic \<Rightarrow> bytes option list \<times> mic" where
  "mic_receiver evp key [] s = ([], s)"
| "mic_receiver evp key (packet # packets) s =
     (case mic_packet evp key packet s of
        (out, s) \<Rightarrow> (case mic_receiver evp key packets s of (outs, s) \<Rightarrow> (out # outs, s)))"

section \<open>Waiting for the first key frame\<close>

definition kMaximumStartupVideoBytes :: nat where "kMaximumStartupVideoBytes = 16 * 1024 * 1024"

definition kMaximumStartupVideoUnits :: nat where "kMaximumStartupVideoUnits = 600"

record startup =
  su_nalus :: "bytes list"
  su_initial :: "bytes list"
  su_bytes :: nat
  su_keyframe :: bool

definition new_startup :: startup where
  "new_startup = \<lparr>su_nalus = [], su_initial = [], su_bytes = 0, su_keyframe = False\<rparr>"

text \<open>A parameter set replaces the ones of its type.\<close>

definition startup_replace :: "bytes \<Rightarrow> bytes list \<Rightarrow> bytes list" where
  "startup_replace nalu ns =
     (if nalu = [] \<or> nal_type nalu \<noteq> 7 \<and> nal_type nalu \<noteq> 8 then ns
      else filter (\<lambda>e. \<not> (e \<noteq> [] \<and> nal_type e = nal_type nalu)) ns)"

definition startup_unit :: "bytes \<Rightarrow> startup \<Rightarrow> startup" where
  "startup_unit unit s =
     (let units = h264_nalus unit;
          s = s\<lparr>su_bytes := su_bytes s + length unit, su_nalus := fold startup_replace units (su_nalus s) @ units\<rparr>
      in if \<exists>n\<in>set units. n \<noteq> [] \<and> nal_type n = 5 then s\<lparr>su_keyframe := True, su_initial := [unit]\<rparr> else s)"

datatype startup_result = StartupReady bytes "bytes list" | StartupEnd int | StartupWaits

text \<open>A round: the stop callback before and after \<open>next_video_frame\<close>, and what that returns.\<close>

fun startup_video :: "(bool \<times> bytes option \<times> bool) list \<Rightarrow> startup \<Rightarrow> startup_result" where
  "startup_video [] s =
     (case avcc_config (su_nalus s) of
        Some config \<Rightarrow> if su_keyframe s then StartupReady config (su_initial s) else StartupWaits
      | None \<Rightarrow> StartupWaits)"
| "startup_video ((stop, next, stopped) # rounds) s =
     (case (if su_keyframe s then avcc_config (su_nalus s) else None) of
        Some config \<Rightarrow> StartupReady config (su_initial s)
      | None \<Rightarrow>
          if stop then StartupEnd 0
          else (case next of
                  None \<Rightarrow> StartupEnd (if stopped then 0 else 1)
                | Some unit \<Rightarrow>
                    if kMaximumStartupVideoUnits \<le> length (su_initial s) \<or>
                       kMaximumStartupVideoBytes - su_bytes s < length unit
                    then StartupEnd 1
                    else startup_video rounds (startup_unit unit s)))"

section \<open>The screen stream\<close>

definition is_slice :: "bytes \<Rightarrow> bool" where
  "is_slice nalu = (nalu \<noteq> [] \<and> (nal_type nalu = 1 \<or> nal_type nalu = 5))"

definition screen_frame :: "bytes list \<Rightarrow> bytes" where
  "screen_frame unit = concat (map (\<lambda>n. be_bytes 4 (of_nat (length n)) @ n) (filter is_slice unit))"

definition screen_header :: "nat \<Rightarrow> byte \<Rightarrow> u64 \<Rightarrow> bytes" where
  "screen_header n kind counter =
     store_le32 (of_nat n) @ [kind, 0, 0, 0] @ store_le64 counter @ replicate 112 0"

text \<open>\<open>sc_out\<close> is everything that was written to the data socket.\<close>

record screen =
  sc_counter :: u64
  sc_out :: bytes
  sc_turns :: "(bool \<times> send_turn) list"

text \<open>Two transfers, the second only after the first; \<open>None\<close> is a transfer that has not returned yet.\<close>

definition screen_send :: "bytes \<Rightarrow> bytes \<Rightarrow> screen \<Rightarrow> (bool \<times> screen) option" where
  "screen_send first second s =
     (case session_send_all (sc_turns s) first of
        None \<Rightarrow> None
      | Some (False, out, turns) \<Rightarrow> Some (False, s\<lparr>sc_out := sc_out s @ out, sc_turns := turns\<rparr>)
      | Some (True, out, turns) \<Rightarrow>
          (case session_send_all turns second of
             None \<Rightarrow> None
           | Some (ok, out', turns) \<Rightarrow> Some (ok, s\<lparr>sc_out := sc_out s @ out @ out', sc_turns := turns\<rparr>)))"

definition send_config :: "bytes \<Rightarrow> screen \<Rightarrow> (bool \<times> screen) option" where
  "send_config config s = screen_send (screen_header (length config) 1 0) config s"

definition send_access_unit :: "evp \<Rightarrow> bytes \<Rightarrow> bytes list \<Rightarrow> screen \<Rightarrow> (bool \<times> screen) option" where
  "send_access_unit evp key unit s =
     (let frame = screen_frame unit in
      if frame = [] then Some (True, s)
      else (let header = screen_header (length frame + 16) 0 (sc_counter s) in
            case seal_with_nonce evp key (replicate 4 0 @ store_le64 (sc_counter s)) frame header of
              None \<Rightarrow> Some (False, s)
            | Some sealed \<Rightarrow>
                (case screen_send header sealed s of
                   None \<Rightarrow> None
                 | Some (False, s) \<Rightarrow> Some (False, s)
                 | Some (True, s) \<Rightarrow> Some (True, s\<lparr>sc_counter := sc_counter s + 1\<rparr>))))"

text \<open>The loops over access units: the stop callback of the round and the unit, if there is one.\<close>

fun screen_units :: "evp \<Rightarrow> bytes \<Rightarrow> (bool \<times> bytes list option) list \<Rightarrow> screen \<Rightarrow> (bool \<times> screen) option" where
  "screen_units evp key [] s = Some (True, s)"
| "screen_units evp key ((stop, next) # rounds) s =
     (if stop then Some (True, s)
      else (case next of
              None \<Rightarrow> Some (True, s)
            | Some unit \<Rightarrow>
                (case send_access_unit evp key unit s of
                   None \<Rightarrow> None
                 | Some (False, s) \<Rightarrow> Some (False, s)
                 | Some (True, s) \<Rightarrow> screen_units evp key rounds s)))"

text \<open>The stream of a session: the configuration, then its units.\<close>

definition screen_stream ::
    "evp \<Rightarrow> bytes \<Rightarrow> bytes \<Rightarrow> (bool \<times> bytes list option) list \<Rightarrow> (bool \<times> send_turn) list \<Rightarrow> (bool \<times> screen) option" where
  "screen_stream evp key config rounds turns =
     (case send_config config \<lparr>sc_counter = 0, sc_out = [], sc_turns = turns\<rparr> of
        Some (True, s) \<Rightarrow> screen_units evp key rounds s
      | failed \<Rightarrow> failed)"

text \<open>The rounds of a live session: the units kept from the start, then what \<open>next_video_frame\<close> returns.\<close>

definition live_rounds :: "bytes list \<Rightarrow> (bool \<times> bytes option) list \<Rightarrow> (bool \<times> bytes list option) list" where
  "live_rounds initial rounds =
     map (\<lambda>unit. (False, Some (h264_nalus unit))) initial @
     map (\<lambda>(stop, next). (stop, map_option h264_nalus next)) rounds"

end
