(* ===== verification/Airplay_Media_Props.thy ===== *)
theory Airplay_Media_Props
  imports Airplay_Media
begin

text \<open>
  What the data streams of the AirPlay session guarantee: audio reaches a receiver of the same
  design as the microphone's through loss, duplication and reordering; the microphone's replay
  window is the set of the nonces seen; the screen stream is read back by the head unit, and a live
  stream starts with a key frame.
\<close>

section \<open>Transfers\<close>

lemma session_send_all_eq: "session_send_all turns bs = ipc_send_all turns bs"
  by (induction turns bs rule: session_send_all.induct) (auto split: option.splits)

lemma session_send_all_prefix:
  "session_send_all turns bs = Some (ok, out, rest) \<Longrightarrow> (if ok then out = bs else strict_prefix out bs)"
  unfolding session_send_all_eq by (rule ipc_send_all_prefix)

section \<open>The replay window\<close>

text \<open>The specification: a nonce is accepted that was not seen and is less than 64 behind the newest.\<close>

definition fresh :: "nat list \<Rightarrow> nat \<Rightarrow> bool" where
  "fresh seen n = (n \<notin> set seen \<and> (\<forall>m\<in>set seen. m < n + 64))"

definition window_ok :: "mic \<Rightarrow> nat list \<Rightarrow> bool" where
  "window_ok s seen \<longleftrightarrow>
     (have_nonce s \<longleftrightarrow> seen \<noteq> []) \<and>
     (have_nonce s \<longrightarrow> unat (highest_nonce s) \<in> set seen \<and> (\<forall>m\<in>set seen. m \<le> unat (highest_nonce s)) \<and>
        (\<forall>d<64. bit (replay_window s) d \<longleftrightarrow> d \<le> unat (highest_nonce s) \<and> unat (highest_nonce s) - d \<in> set seen))"

lemma window_ok_new: "window_ok new_mic []"
  by (simp add: window_ok_def new_mic_def)

lemma unat_minus_le:
  fixes a b :: u64
  assumes "b \<le> a"
  shows "unat (a - b) = unat a - unat b"
  using assms by (simp add: unat_sub)

lemma window_first: "\<not> have_nonce s \<Longrightarrow> window_ok \<lparr>highest_nonce = n, replay_window = 1, have_nonce = True\<rparr> [unat n]"
  by (auto simp: window_ok_def bit_simps)

lemma window_forward:
  fixes n :: u64
  assumes "window_ok s seen" "have_nonce s" "highest_nonce s < n"
  defines "D \<equiv> unat (n - highest_nonce s)"
  shows "window_ok (s\<lparr>replay_window := (if n - highest_nonce s \<ge> 64 then 1 else push_bit D (replay_window s) OR 1),
            highest_nonce := n\<rparr>) (unat n # seen)"
proof -
  let ?h = "unat (highest_nonce s)"
  have lt: "?h < unat n" using assms(3) by (simp add: word_less_nat_alt)
  have D: "D = unat n - ?h" "0 < D" using assms(3) lt by (simp_all add: D_def unat_minus_le)
  have big: "n - highest_nonce s \<ge> 64 \<longleftrightarrow> 64 \<le> D" by (simp add: word_le_nat_alt D_def)
  from assms(1,2) have le: "\<forall>m\<in>set seen. m \<le> ?h"
    and w: "\<And>d. d < 64 \<Longrightarrow> bit (replay_window s) d \<longleftrightarrow> d \<le> ?h \<and> ?h - d \<in> set seen"
    by (auto simp: window_ok_def)
  have "bit (if n - highest_nonce s \<ge> 64 then 1 else push_bit D (replay_window s) OR 1) d \<longleftrightarrow>
      d \<le> unat n \<and> unat n - d \<in> set (unat n # seen)" if d: "d < 64" for d
  proof (cases "64 \<le> D")
    case True
    have "unat n - d \<notin> set seen" if "d \<noteq> 0" using le True D(1) d lt that by force
    then show ?thesis using True big by (auto simp: bit_simps)
  next
    case False
    consider "d = 0" | "0 < d" "d < D" | "D \<le> d" by linarith
    then show ?thesis
    proof cases
      case 2
      then have "unat n - d \<notin> set seen" using le D by force
      with 2 False big D lt show ?thesis by (auto simp: bit_simps)
    next
      case 3
      have "bit (replay_window s) (d - D) \<longleftrightarrow> d - D \<le> ?h \<and> ?h - (d - D) \<in> set seen" using d by (intro w) simp
      moreover have "?h - (d - D) = unat n - d" "d - D \<le> ?h \<longleftrightarrow> d \<le> unat n" using 3 D lt by auto
      moreover have "unat n - d \<noteq> unat n" using 3 D lt by linarith
      ultimately show ?thesis using 3 False big d D by (auto simp: bit_simps)
    qed (use False big in \<open>auto simp: bit_simps\<close>)
  qed
  with assms(2) le lt show ?thesis by (auto simp: window_ok_def)
qed

lemma window_behind:
  fixes n :: u64
  assumes "window_ok s seen" "have_nonce s" "\<not> highest_nonce s < n"
    and "unat (highest_nonce s - n) < 64"
  shows "window_ok (s\<lparr>replay_window := replay_window s OR push_bit (unat (highest_nonce s - n)) 1\<rparr>) (unat n # seen)"
proof -
  let ?h = "unat (highest_nonce s)"
  have le: "unat n \<le> ?h" using assms(3) by (simp add: word_less_nat_alt)
  have D: "unat (highest_nonce s - n) = ?h - unat n" using assms(3) by (simp add: unat_minus_le)
  have "d \<le> ?h \<and> ?h - d = unat n \<longleftrightarrow> d = ?h - unat n" for d using le by auto
  then show ?thesis
    using assms(1,2,4) le unfolding window_ok_def D by (auto simp: bit_simps)
qed

lemma mic_window_refines:
  assumes "window_ok s seen"
  shows "case mic_window n s of None \<Rightarrow> \<not> fresh seen (unat n) | Some s' \<Rightarrow> fresh seen (unat n) \<and> window_ok s' (unat n # seen)"
proof (cases "have_nonce s")
  case False
  then show ?thesis
    using assms window_first [of s n] by (simp add: mic_window_def fresh_def window_ok_def)
next
  case True
  let ?h = "unat (highest_nonce s)"
  from assms True have le: "\<forall>m\<in>set seen. m \<le> ?h" and h: "?h \<in> set seen"
    and w: "\<And>d. d < 64 \<Longrightarrow> bit (replay_window s) d \<longleftrightarrow> d \<le> ?h \<and> ?h - d \<in> set seen"
    by (auto simp: window_ok_def)
  show ?thesis
  proof (cases "highest_nonce s < n")
    case less: True
    then have "?h < unat n" by (simp add: word_less_nat_alt)
    then have "fresh seen (unat n)" using le by (fastforce simp: fresh_def)
    with window_forward [OF assms True less] show ?thesis using True less by (simp add: mic_window_def Let_def)
  next
    case ge: False
    then have nh: "unat n \<le> ?h" by (simp add: word_less_nat_alt)
    have D: "unat (highest_nonce s - n) = ?h - unat n" using ge by (simp add: unat_minus_le)
    have big: "highest_nonce s - n \<ge> 64 \<longleftrightarrow> 64 \<le> ?h - unat n" by (simp add: word_le_nat_alt D)
    show ?thesis
    proof (cases "64 \<le> ?h - unat n")
      case far: True
      then have "\<not> fresh seen (unat n)" using h by (force simp: fresh_def)
      with True ge big far show ?thesis by (simp add: mic_window_def Let_def)
    next
      case False
      then have near: "?h - unat n < 64" by simp
      have "fresh seen (unat n) \<longleftrightarrow> unat n \<notin> set seen" using le near nh by (fastforce simp: fresh_def)
      moreover have "bit (replay_window s) (?h - unat n) \<longleftrightarrow> unat n \<in> set seen" using w [OF near] nh by simp
      ultimately show ?thesis
        using True ge big False window_behind [OF assms True ge] near
        by (auto simp: mic_window_def Let_def D and_exp_eq_0_iff_not_bit)
    qed
  qed
qed

section \<open>The microphone\<close>

text \<open>What a datagram holds if it is well-formed and authentic.\<close>

definition mic_opened :: "evp \<Rightarrow> bytes \<Rightarrow> bytes \<Rightarrow> bytes option" where
  "mic_opened evp key packet =
     (if length packet < 36 \<or> drop_bit 6 (packet ! 0) \<noteq> 2 \<or> packet ! 1 AND 0x7f \<noteq> 100 then None
      else open_with_nonce evp key (replicate 4 0 @ drop (length packet - 8) packet)
             (take (length packet - 20) (drop 12 packet)) (take 8 (drop 4 packet)))"

text \<open>The specification of the receiver: the set of nonces seen in place of the window.\<close>

fun mic_spec :: "evp \<Rightarrow> bytes \<Rightarrow> nat list \<Rightarrow> bytes list \<Rightarrow> bytes option list" where
  "mic_spec evp key seen [] = []"
| "mic_spec evp key seen (packet # packets) =
     (case mic_opened evp key packet of
        None \<Rightarrow> None # mic_spec evp key seen packets
      | Some pcm \<Rightarrow>
          if fresh seen (unat (mic_nonce packet))
          then (if odd (length pcm) then None else Some (swap16 pcm)) #
               mic_spec evp key (unat (mic_nonce packet) # seen) packets
          else None # mic_spec evp key seen packets)"

lemma mic_packet_opened:
  "mic_packet evp key packet s =
     (case mic_opened evp key packet of
        None \<Rightarrow> (None, s)
      | Some pcm \<Rightarrow>
          (case mic_window (mic_nonce packet) s of
             None \<Rightarrow> (None, s)
           | Some s' \<Rightarrow> (if odd (length pcm) then None else Some (swap16 pcm), s')))"
  by (auto simp: mic_packet_def mic_opened_def Let_def simp flip: even_iff_mod_2_eq_zero split: option.splits)

lemma mic_receiver_Cons:
  "fst (mic_receiver evp key (packet # packets) s) =
     fst (mic_packet evp key packet s) # fst (mic_receiver evp key packets (snd (mic_packet evp key packet s)))"
  by (simp split: prod.split)

lemma mic_receiver_spec:
  "window_ok s seen \<Longrightarrow> fst (mic_receiver evp key packets s) = mic_spec evp key seen packets"
proof (induction packets arbitrary: s seen)
  case (Cons packet packets)
  show ?case
  proof (cases "mic_opened evp key packet")
    case None
    with Cons show ?thesis by (simp add: mic_receiver_Cons mic_packet_opened del: mic_receiver.simps)
  next
    case (Some pcm)
    note r = mic_window_refines [OF Cons.prems, of "mic_nonce packet"]
    show ?thesis
    proof (cases "mic_window (mic_nonce packet) s")
      case None
      with r Some Cons show ?thesis by (simp add: mic_receiver_Cons mic_packet_opened del: mic_receiver.simps)
    next
      case (Some s')
      with r have "fresh seen (unat (mic_nonce packet))" "window_ok s' (unat (mic_nonce packet) # seen)" by simp_all
      with Some \<open>mic_opened evp key packet = Some pcm\<close> Cons.IH [OF this(2)] show ?thesis
        by (simp add: mic_receiver_Cons mic_packet_opened del: mic_receiver.simps)
    qed
  qed
qed simp

section \<open>Audio packets\<close>

lemma length_swap16 [simp]: "length (swap16 xs) = length xs"
  by (induction xs rule: swap16.induct) simp_all

lemma swap16_swap16 [simp]: "swap16 (swap16 xs) = xs"
  by (induction xs rule: swap16.induct) simp_all

lemma length_audio_header [simp]: "length (audio_header s) = 12"
  by (simp add: audio_header_def)

lemma length_store_le64 [simp]: "length (store_le64 v) = 8"
  by (simp add: store_le64_def)

lemma le_value_store_le64 [simp]: "le_value (store_le64 v) = v"
  using le_value_le_bytes [of 8 v] by (simp add: store_le64_def)

lemma audio_header_marks: "drop_bit 6 (audio_header s ! 0) = 2" "audio_header s ! 1 AND 0x7f = 100"
  by (simp_all add: audio_header_def)

lemma aead_correctD:
  assumes "aead_correct evp" "length key = 32" "length nonce = 12"
  obtains sealed where "seal_with_nonce evp key nonce plaintext aad = Some sealed"
    "length sealed = length plaintext + 16" "open_with_nonce evp key nonce sealed aad = Some plaintext"
  using assms unfolding aead_correct_def seal_with_nonce_def open_with_nonce_def
  by (metis (no_types, lifting) le_add2 not_less)

lemma audio_packet_opened:
  assumes "aead_correct evp" "length key = 32"
  obtains packet where "audio_packet evp key pcm s = Some packet" "mic_opened evp key packet = Some (swap16 pcm)"
    "mic_nonce packet = au_nonce s"
proof -
  let ?nonce = "store_le64 (au_nonce s)" and ?aad = "take 8 (drop 4 (audio_header s))"
  obtain sealed where s: "seal_with_nonce evp key (replicate 4 0 @ ?nonce) (swap16 pcm) ?aad = Some sealed"
      "length sealed = length (swap16 pcm) + 16" "open_with_nonce evp key (replicate 4 0 @ ?nonce) sealed ?aad = Some (swap16 pcm)"
    by (rule aead_correctD [OF assms, of "replicate 4 0 @ ?nonce" "swap16 pcm" ?aad]) simp_all
  let ?packet = "audio_header s @ sealed @ ?nonce"
  have "audio_packet evp key pcm s = Some ?packet" using s(1) by (simp add: audio_packet_def Let_def)
  moreover have "mic_opened evp key ?packet = Some (swap16 pcm)"
    using s(2,3) audio_header_marks [of s] by (simp add: mic_opened_def nth_append)
  moreover have "mic_nonce ?packet = au_nonce s" by (simp add: mic_nonce_def)
  ultimately show thesis by (rule that)
qed

text \<open>The frames a sender is given until it stops and takes.\<close>

fun audio_frames :: "nat \<Rightarrow> (bool \<times> bytes option \<times> (bool \<times> send_turn) list) list \<Rightarrow> bytes list" where
  "audio_frames sample ((False, Some pcm, turns) # rounds) =
     (if pcm = [] \<or> length pcm mod sample \<noteq> 0 then [] else [pcm]) @ audio_frames sample rounds"
| "audio_frames sample rounds = []"

definition audio_ok :: "evp \<Rightarrow> bytes \<Rightarrow> bytes \<Rightarrow> u64 \<Rightarrow> bytes \<Rightarrow> bool" where
  "audio_ok evp key packet nonce pcm = (mic_opened evp key packet = Some (swap16 pcm) \<and> mic_nonce packet = nonce)"

lemma audio_sender_stop: "audio_sender evp key sample s ((True, vc) # va) = []"
  by (cases vc) simp

lemma audio_sender_packets:
  assumes "aead_correct evp" "length key = 32"
  shows "length (audio_sender evp key sample s rounds) \<le> length (audio_frames sample rounds) \<and>
    (\<forall>i < length (audio_sender evp key sample s rounds).
       audio_ok evp key (audio_sender evp key sample s rounds ! i) (au_nonce s + of_nat i) (audio_frames sample rounds ! i))"
proof (induction sample rounds arbitrary: s rule: audio_frames.induct)
  case (1 sample pcm turns rounds)
  show ?case
  proof (cases "pcm = [] \<or> length pcm mod sample \<noteq> 0")
    case True
    then have "audio_sender evp key sample s ((False, Some pcm, turns) # rounds) = audio_sender evp key sample s rounds"
      "audio_frames sample ((False, Some pcm, turns) # rounds) = audio_frames sample rounds" by auto
    with 1 show ?thesis by simp
  next
    case False
    obtain packet where p: "audio_packet evp key pcm s = Some packet" "audio_ok evp key packet (au_nonce s) pcm"
      by (rule audio_packet_opened [OF assms, of pcm s]) (simp add: audio_ok_def)
    show ?thesis
    proof (cases "\<exists>rest. send_udp_packet turns packet = Some (True, rest)")
      case True
      then have "audio_sender evp key sample s ((False, Some pcm, turns) # rounds) =
          packet # audio_sender evp key sample (audio_advance sample pcm s) rounds" using False p by auto
      moreover have "audio_frames sample ((False, Some pcm, turns) # rounds) = pcm # audio_frames sample rounds"
        using False by auto
      ultimately show ?thesis
        using 1 [of "audio_advance sample pcm s"] p(2)
        by (auto simp: nth_Cons audio_advance_def ac_simps split: nat.split)
    next
      case stop: False
      then have "audio_sender evp key sample s ((False, Some pcm, turns) # rounds) = []"
        using False p by (auto split: option.split bool.split)
      then show ?thesis by simp
    qed
  qed
qed (simp_all add: audio_sender_stop)

section \<open>Loss, duplication and reordering\<close>

definition window_of :: "nat list \<Rightarrow> nat list \<Rightarrow> bool" where
  "window_of seen arrived \<longleftrightarrow>
     set seen \<subseteq> set arrived \<and> (\<forall>m\<in>set arrived. m \<in> set seen \<or> (\<exists>m'\<in>set seen. m + 64 \<le> m'))"

lemma fresh_window:
  assumes "window_of seen arrived"
  shows "fresh seen i \<longleftrightarrow> fresh arrived i"
proof
  assume f: "fresh seen i"
  have "m < i + 64 \<and> m \<noteq> i" if m: "m \<in> set arrived" for m
  proof (cases "m \<in> set seen")
    case True
    with f show ?thesis by (auto simp: fresh_def)
  next
    case False
    with assms m obtain m' where "m' \<in> set seen" "m + 64 \<le> m'" by (auto simp: window_of_def)
    with f have "m + 64 < i + 64" by (auto simp: fresh_def)
    then show ?thesis by simp
  qed
  then show "fresh arrived i" by (auto simp: fresh_def)
next
  assume "fresh arrived i"
  with assms show "fresh seen i" by (auto simp: fresh_def window_of_def)
qed

lemma window_of_step: "window_of seen arrived \<Longrightarrow> window_of (if fresh seen i then i # seen else seen) (arrived @ [i])"
  by (auto simp: window_of_def fresh_def not_less)

lemma mic_spec_arrived:
  assumes "\<And>i. i \<in> set is \<Longrightarrow> i < 2 ^ 64 \<and> audio_ok evp key (packet_at i) (of_nat i) (frame_at i) \<and> even (length (frame_at i))"
    and "window_of seen arrived"
  shows "mic_spec evp key seen (map packet_at is) =
    map (\<lambda>j. if fresh (arrived @ take j is) (is ! j) then Some (frame_at (is ! j)) else None) [0..<length is]"
  using assms
proof (induction "is" arbitrary: seen arrived)
  case (Cons i "is")
  have i: "mic_opened evp key (packet_at i) = Some (swap16 (frame_at i))" "unat (mic_nonce (packet_at i)) = i" "even (length (frame_at i))"
    using Cons.prems(1) [of i] by (simp_all add: audio_ok_def unat_of_nat)
  let ?seen = "if fresh seen i then i # seen else seen"
  have "mic_spec evp key ?seen (map packet_at is) =
      map (\<lambda>j. if fresh ((arrived @ [i]) @ take j is) (is ! j) then Some (frame_at (is ! j)) else None) [0..<length is]"
    using Cons.prems(1) window_of_step [OF Cons.prems(2)] by (intro Cons.IH) simp_all
  moreover have "mic_spec evp key seen (map packet_at (i # is)) =
      (if fresh arrived i then Some (frame_at i) else None) # mic_spec evp key ?seen (map packet_at is)"
    using i fresh_window [OF Cons.prems(2), of i] by simp
  ultimately show ?case by (simp add: map_upt_Suc del: upt_Suc mic_spec.simps)
qed simp

lemma audio_frames_even: "even sample \<Longrightarrow> pcm \<in> set (audio_frames sample rounds) \<Longrightarrow> even (length pcm)"
  by (induction sample rounds rule: audio_frames.induct) (auto split: if_splits dest: dvd_trans [OF _ mod_0_imp_dvd])

lemma audio_received:
  assumes "aead_correct evp" "length key = 32" "even sample" "length rounds < 2 ^ 64"
    and "\<forall>i\<in>set is. i < length (audio_sender evp key sample new_audio_stream rounds)"
  shows "fst (mic_receiver evp key (map ((!) (audio_sender evp key sample new_audio_stream rounds)) is) new_mic) =
    map (\<lambda>j. if fresh (take j is) (is ! j) then Some (audio_frames sample rounds ! (is ! j)) else None) [0..<length is]"
proof -
  let ?sent = "audio_sender evp key sample new_audio_stream rounds" and ?frames = "audio_frames sample rounds"
  note sent = audio_sender_packets [OF assms(1,2), of sample new_audio_stream rounds]
  have len: "length ?frames \<le> length rounds"
    by (induction sample rounds rule: audio_frames.induct) simp_all
  have "i < 2 ^ 64 \<and> audio_ok evp key (?sent ! i) (of_nat i) (?frames ! i) \<and> even (length (?frames ! i))" if "i \<in> set is" for i
  proof -
    have i: "i < length ?sent" using that assms(5) by simp
    then have "?frames ! i \<in> set ?frames" using sent by simp
    moreover have "audio_ok evp key (?sent ! i) (of_nat i) (?frames ! i)"
      using sent i by (simp add: new_audio_stream_def)
    moreover have "i < 2 ^ 64" using i sent len assms(4) by linarith
    ultimately show ?thesis using audio_frames_even [OF assms(3)] by blast
  qed
  then have "mic_spec evp key [] (map ((!) ?sent) is) =
      map (\<lambda>j. if fresh ([] @ take j is) (is ! j) then Some (?frames ! (is ! j)) else None) [0..<length is]"
    by (intro mic_spec_arrived) (simp_all add: window_of_def)
  then show ?thesis by (simp add: mic_receiver_spec [OF window_ok_new])
qed

section \<open>The head unit's side of the screen stream\<close>

text \<open>Units behind their lengths.\<close>

function avcc_units :: "bytes \<Rightarrow> bytes list" where
  "avcc_units bs =
     (if length bs < 4 then []
      else (let n = unat (be_value (take 4 bs)) in take n (drop 4 bs) # avcc_units (drop (4 + n) bs)))"
  by pat_completeness auto
termination
  by (relation "measure length") auto

declare avcc_units.simps [simp del]

datatype screen_item = ScreenConfig bytes | ScreenFrame "bytes list"

text \<open>A reader of the data socket: a header of 128 bytes, then the payload whose size it gives.\<close>

definition payload_size :: "bytes \<Rightarrow> nat" where
  "payload_size header = unat (le_value (take 4 header))"

definition screen_item :: "evp \<Rightarrow> bytes \<Rightarrow> bytes \<Rightarrow> bytes \<Rightarrow> screen_item option" where
  "screen_item evp key header payload =
     (if header ! 4 = 1 then Some (ScreenConfig payload)
      else map_option (\<lambda>frame. ScreenFrame (avcc_units frame))
             (open_with_nonce evp key (replicate 4 0 @ take 8 (drop 8 header)) payload header))"

function screen_items :: "evp \<Rightarrow> bytes \<Rightarrow> bytes \<Rightarrow> screen_item list" where
  "screen_items evp key bs =
     (if length bs < 128 \<or> length bs < 128 + payload_size bs then []
      else (case screen_item evp key (take 128 bs) (take (payload_size bs) (drop 128 bs)) of
              None \<Rightarrow> []
            | Some item \<Rightarrow> item # screen_items evp key (drop (128 + payload_size bs) bs)))"
  by pat_completeness auto
termination
  by (relation "measure (\<lambda>(evp, key, bs). length bs)") auto

declare screen_items.simps [simp del]

lemma payload_size_append: "4 \<le> length header \<Longrightarrow> payload_size (header @ xs) = payload_size header"
  by (simp add: payload_size_def)

lemma screen_items_message:
  assumes "length header = 128" "payload_size header = length payload" "screen_item evp key header payload = Some item"
  shows "screen_items evp key (header @ payload @ rest) = item # screen_items evp key rest"
  using assms by (subst screen_items.simps) (simp add: payload_size_append)

lemma screen_items_partial:
  assumes "length header = 128" "payload_size header = length payload" "strict_prefix out (header @ payload)"
  shows "screen_items evp key out = []"
proof -
  from assms(3) obtain z where z: "header @ payload = out @ z" "z \<noteq> []" by (auto simp: strict_prefix_def prefix_def)
  have "length out < 128 + length payload"
    using arg_cong [OF z(1), of length] z(2) assms(1) by (simp add: length_greater_0_conv [symmetric] del: length_greater_0_conv)
  moreover have "payload_size out = length payload" if "128 \<le> length out"
  proof -
    have "take 4 out = take 4 header" using arg_cong [OF z(1), of "take 4"] assms(1) that by simp
    with assms(2) show ?thesis by (simp add: payload_size_def)
  qed
  ultimately show ?thesis by (subst screen_items.simps) auto
qed

lemma screen_items_Nil [simp]: "screen_items evp key [] = []"
  by (subst screen_items.simps) simp

lemma unat_ucast_32:
  assumes "n < 2 ^ 32"
  shows "unat (take_bit 32 (ucast (of_nat n :: u32) :: u64)) = n"
proof -
  have "(ucast (of_nat n :: u32) :: u64) = of_nat n"
    using assms by (simp add: word_unat_eq_iff unsigned_ucast_eq unat_of_nat take_bit_nat_eq_self)
  then show ?thesis using assms by (simp add: unsigned_take_bit_eq unat_of_nat take_bit_nat_eq_self)
qed

lemma length_screen_header [simp]: "length (screen_header n kind counter) = 128"
  by (simp add: screen_header_def store_le32_def)

lemma payload_size_screen: "n < 2 ^ 32 \<Longrightarrow> payload_size (screen_header n kind counter) = n"
  using unat_ucast_32 [of n] le_value_le_bytes [of 4 "ucast (of_nat n :: u32)"]
  by (simp add: payload_size_def screen_header_def store_le32_def)

lemma screen_header_fields:
  "screen_header n kind counter ! 4 = kind" "take 8 (drop 8 (screen_header n kind counter)) = store_le64 counter"
  by (simp_all add: screen_header_def store_le32_def nth_append)

lemma avcc_units_Nil [simp]: "avcc_units [] = []"
  by (subst avcc_units.simps) simp

lemma avcc_units_step:
  assumes "length n < 2 ^ 32"
  shows "avcc_units (be_bytes 4 (of_nat (length n)) @ n @ rest) = n # avcc_units rest"
proof -
  have "unat (be_value (be_bytes 4 (of_nat (length n)))) = length n"
    using assms by (intro unat_be_value_of_nat) simp_all
  then show ?thesis by (subst avcc_units.simps) simp
qed

lemma screen_frame_Cons:
  "screen_frame (n # unit) = (if is_slice n then be_bytes 4 (of_nat (length n)) @ n else []) @ screen_frame unit"
  by (simp add: screen_frame_def)

lemma avcc_units_frame: "length (screen_frame unit) < 2 ^ 32 \<Longrightarrow> avcc_units (screen_frame unit) = filter is_slice unit"
proof (induction unit)
  case Nil
  then show ?case by (simp add: screen_frame_def)
next
  case (Cons n unit)
  then show ?case
  proof (cases "is_slice n")
    case True
    then have "length n < 2 ^ 32" "length (screen_frame unit) < 2 ^ 32" using Cons.prems by (simp_all add: screen_frame_Cons)
    with Cons.IH True show ?thesis by (simp add: screen_frame_Cons avcc_units_step)
  qed (simp add: screen_frame_Cons)
qed

lemma screen_frame_empty: "screen_frame unit = [] \<longleftrightarrow> filter is_slice unit = []"
  by (induction unit) (auto simp: screen_frame_Cons be_bytes_def, simp add: screen_frame_def)

section \<open>What is written is read\<close>

lemma strict_prefix_append: "strict_prefix x xs \<Longrightarrow> strict_prefix x (xs @ ys)"
  "strict_prefix x ys \<Longrightarrow> strict_prefix (xs @ x) (xs @ ys)"
  by (auto simp: strict_prefix_def prefix_def)

lemma screen_send_out:
  assumes "screen_send first second s = Some (ok, s')"
  shows "\<exists>x. sc_out s' = sc_out s @ x \<and> sc_counter s' = sc_counter s \<and>
    (if ok then x = first @ second else strict_prefix x (first @ second))"
proof (cases "session_send_all (sc_turns s) first")
  case (Some r)
  then obtain ok1 out turns where first: "session_send_all (sc_turns s) first = Some (ok1, out, turns)" by (cases r) auto
  show ?thesis
  proof (cases ok1)
    case True
    with session_send_all_prefix [OF first] have out: "out = first" by simp
    obtain ok2 out2 turns2 where second: "session_send_all turns second = Some (ok2, out2, turns2)"
        "ok2 = ok" "s' = s\<lparr>sc_out := sc_out s @ out @ out2, sc_turns := turns2\<rparr>"
      using assms first True by (auto simp: screen_send_def split: option.splits)
    with session_send_all_prefix [OF second(1)] out show ?thesis by (auto intro: strict_prefix_append(2))
  next
    case False
    with first assms session_send_all_prefix [OF first] show ?thesis
      by (auto simp: screen_send_def intro: strict_prefix_append(1))
  qed
qed (use assms in \<open>simp add: screen_send_def\<close>)

text \<open>The units a loop is given until it stops, without those that hold no slice.\<close>

fun screen_taken :: "(bool \<times> bytes list option) list \<Rightarrow> bytes list list" where
  "screen_taken ((False, Some unit) # rounds) =
     (if filter is_slice unit = [] then [] else [filter is_slice unit]) @ screen_taken rounds"
| "screen_taken rounds = []"

definition unit_fits :: "bytes list \<Rightarrow> bool" where
  "unit_fits unit = (length (screen_frame unit) + 16 < 2 ^ 32)"

lemma send_access_unit_items:
  assumes "aead_correct evp" "length key = 32" "unit_fits unit" "send_access_unit evp key unit s = Some (ok, s')"
  shows "\<exists>x. sc_out s' = sc_out s @ x \<and>
    (if ok then \<forall>rest. screen_items evp key (x @ rest) =
        (if filter is_slice unit = [] then [] else [ScreenFrame (filter is_slice unit)]) @ screen_items evp key rest
     else screen_items evp key x = [])"
proof (cases "screen_frame unit = []")
  case True
  with assms(4) show ?thesis by (auto simp: send_access_unit_def screen_frame_empty intro: exI [of _ "[]"])
next
  case False
  let ?frame = "screen_frame unit" and ?nonce = "replicate 4 0 @ store_le64 (sc_counter s)"
    and ?header = "screen_header (length (screen_frame unit) + 16) 0 (sc_counter s)"
  obtain sealed where sealed: "seal_with_nonce evp key ?nonce ?frame ?header = Some sealed"
      "length sealed = length ?frame + 16" "open_with_nonce evp key ?nonce sealed ?header = Some ?frame"
    by (rule aead_correctD [OF assms(1,2), of ?nonce ?frame ?header]) simp_all
  have size: "payload_size ?header = length sealed"
    using assms(3) sealed(2) payload_size_screen [of "length ?frame + 16"] by (simp add: unit_fits_def)
  have item: "screen_item evp key ?header sealed = Some (ScreenFrame (filter is_slice unit))"
    using sealed(3) assms(3) avcc_units_frame [of unit] by (simp add: screen_item_def screen_header_fields unit_fits_def)
  obtain r where r: "screen_send ?header sealed s = Some (ok, r)" "sc_out s' = sc_out r"
    using assms(4) False sealed(1) by (auto simp: send_access_unit_def Let_def split: option.splits bool.splits)
  from screen_send_out [OF r(1)] obtain x where x: "sc_out r = sc_out s @ x"
    "if ok then x = ?header @ sealed else strict_prefix x (?header @ sealed)" by auto
  show ?thesis
  proof (cases ok)
    case True
    with x r(2) False show ?thesis
      using screen_items_message [OF length_screen_header size item] by (auto simp: screen_frame_empty)
  next
    case ko: False
    with x r(2) show ?thesis using screen_items_partial [OF length_screen_header size] by auto
  qed
qed

lemma screen_units_items:
  assumes "aead_correct evp" "length key = 32" "\<forall>stop unit. (stop, Some unit) \<in> set rounds \<longrightarrow> unit_fits unit"
    and "screen_units evp key rounds s = Some (ok, s')"
  shows "\<exists>x. sc_out s' = sc_out s @ x \<and> prefix (screen_items evp key x) (map ScreenFrame (screen_taken rounds)) \<and>
    (ok \<longrightarrow> screen_items evp key x = map ScreenFrame (screen_taken rounds))"
  using assms(3,4)
proof (induction rounds arbitrary: s rule: screen_taken.induct)
  case (1 unit rounds)
  then obtain ok1 s1 where u: "send_access_unit evp key unit s = Some (ok1, s1)"
    by (auto split: option.splits)
  from 1(2) have "unit_fits unit" by auto
  from send_access_unit_items [OF assms(1,2) this u] obtain x where x: "sc_out s1 = sc_out s @ x"
    "if ok1 then \<forall>rest. screen_items evp key (x @ rest) =
        (if filter is_slice unit = [] then [] else [ScreenFrame (filter is_slice unit)]) @ screen_items evp key rest
     else screen_items evp key x = []" by auto
  show ?case
  proof (cases ok1)
    case True
    with 1(3) u have "screen_units evp key rounds s1 = Some (ok, s')" by simp
    from 1(1) [OF _ this] 1(2) obtain y where "sc_out s' = sc_out s1 @ y"
      "prefix (screen_items evp key y) (map ScreenFrame (screen_taken rounds))"
      "ok \<longrightarrow> screen_items evp key y = map ScreenFrame (screen_taken rounds)" by auto
    with x True show ?thesis by (intro exI [of _ "x @ y"]) auto
  next
    case False
    with 1(3) u x show ?thesis by (intro exI [of _ x]) auto
  qed
qed (auto split: if_splits option.splits intro: exI [of _ "[]"])

lemma screen_stream_items:
  assumes "aead_correct evp" "length key = 32" "length config < 2 ^ 32"
    and "\<forall>stop unit. (stop, Some unit) \<in> set rounds \<longrightarrow> unit_fits unit"
    and "screen_stream evp key config rounds turns = Some (ok, s)"
  shows "prefix (screen_items evp key (sc_out s)) (ScreenConfig config # map ScreenFrame (screen_taken rounds)) \<and>
    (ok \<longrightarrow> screen_items evp key (sc_out s) = ScreenConfig config # map ScreenFrame (screen_taken rounds))"
proof -
  let ?s = "\<lparr>sc_counter = 0, sc_out = [], sc_turns = turns\<rparr>" and ?header = "screen_header (length config) 1 0"
  have item: "screen_item evp key ?header config = Some (ScreenConfig config)"
    by (simp add: screen_item_def screen_header_fields)
  note size = payload_size_screen [OF assms(3), of 1 0]
  obtain ok1 s1 where c: "send_config config ?s = Some (ok1, s1)"
    using assms(5) by (auto simp: screen_stream_def split: option.splits)
  from screen_send_out [OF c [unfolded send_config_def]] obtain x where x: "sc_out s1 = x"
    "if ok1 then x = ?header @ config else strict_prefix x (?header @ config)" by auto
  show ?thesis
  proof (cases ok1)
    case True
    with assms(5) c have "screen_units evp key rounds s1 = Some (ok, s)" by (simp add: screen_stream_def)
    from screen_units_items [OF assms(1,2,4) this] obtain y where "sc_out s = x @ y"
      "prefix (screen_items evp key y) (map ScreenFrame (screen_taken rounds))"
      "ok \<longrightarrow> screen_items evp key y = map ScreenFrame (screen_taken rounds)" using x(1) by auto
    with x(2) True show ?thesis
      using screen_items_message [OF length_screen_header size item, of y] by simp
  next
    case False
    with assms(5) c have "s = s1" "\<not> ok" by (auto simp: screen_stream_def)
    with x False show ?thesis using screen_items_partial [OF length_screen_header size] by simp
  qed
qed

section \<open>A live stream\<close>

definition has_idr :: "bytes list \<Rightarrow> bool" where
  "has_idr unit = (\<exists>n\<in>set unit. n \<noteq> [] \<and> nal_type n = 5)"

definition startup_ok :: "bytes list \<Rightarrow> startup \<Rightarrow> bool" where
  "startup_ok taken s \<longleftrightarrow>
     set (su_nalus s) \<subseteq> (\<Union>unit\<in>set taken. set (h264_nalus unit)) \<and> su_bytes s = sum_list (map length taken) \<and>
     su_bytes s \<le> kMaximumStartupVideoBytes \<and>
     (if su_keyframe s then \<exists>unit\<in>set taken. su_initial s = [unit] \<and> has_idr (h264_nalus unit) else su_initial s = [])"

lemma startup_replace_subset: "set (fold startup_replace us ns) \<subseteq> set ns"
  by (induction us arbitrary: ns) (fastforce simp: startup_replace_def split: if_splits)+

lemma startup_unit_ok:
  assumes "startup_ok taken s" "length unit \<le> kMaximumStartupVideoBytes - su_bytes s"
  shows "startup_ok (taken @ [unit]) (startup_unit unit s)"
proof -
  have "set (fold startup_replace (h264_nalus unit) (su_nalus s) @ h264_nalus unit) \<subseteq>
      (\<Union>unit\<in>set (taken @ [unit]). set (h264_nalus unit))"
    using assms(1) startup_replace_subset [of "h264_nalus unit" "su_nalus s"] by (fastforce simp: startup_ok_def)
  moreover have "length unit + su_bytes s \<le> kMaximumStartupVideoBytes"
    using assms(2) assms(1) [unfolded startup_ok_def, THEN conjunct2, THEN conjunct2, THEN conjunct1] by linarith
  ultimately show ?thesis
    using assms(1) by (auto simp: startup_ok_def startup_unit_def Let_def has_idr_def)
qed

lemma startup_video_step:
  assumes "startup_video ((stop, nxt, stopped) # rounds) s = StartupReady config initial"
  shows "avcc_config (su_nalus s) = Some config \<and> su_keyframe s \<and> su_initial s = initial \<or>
    (\<exists>unit. nxt = Some unit \<and> length unit \<le> kMaximumStartupVideoBytes - su_bytes s \<and>
       startup_video rounds (startup_unit unit s) = StartupReady config initial)"
proof (cases "if su_keyframe s then avcc_config (su_nalus s) else None")
  case None
  then show ?thesis using assms by (simp split: option.splits if_splits)
next
  case (Some c)
  then show ?thesis using assms by (simp split: if_splits)
qed

lemma startup_video_ready:
  assumes "startup_video rounds s = StartupReady config initial" "startup_ok taken s"
  shows "\<exists>taken' s'. startup_ok taken' s' \<and> avcc_config (su_nalus s') = Some config \<and> su_keyframe s' \<and> su_initial s' = initial"
  using assms
proof (induction rounds arbitrary: s taken)
  case Nil
  then show ?case by (auto split: option.splits if_splits)
next
  case (Cons round rounds)
  obtain stop nxt stopped where r: "round = (stop, nxt, stopped)" by (cases round)
  from startup_video_step [OF Cons.prems(1) [unfolded r]] show ?case
  proof (elim disjE exE conjE)
    fix unit
    assume "length unit \<le> kMaximumStartupVideoBytes - su_bytes s"
      "startup_video rounds (startup_unit unit s) = StartupReady config initial"
    then show ?thesis using Cons.IH startup_unit_ok [OF Cons.prems(2)] by blast
  qed (use Cons.prems(2) in blast)
qed

lemma h264_nalus_size: "sum_list (map (\<lambda>n. length n + 3) (h264_nalus xs)) \<le> length xs"
proof (induction xs rule: h264_nalus.induct)
  case (1 xs)
  show ?case
  proof (cases "length xs < 3")
    case True
    then show ?thesis by (subst h264_nalus.simps) simp
  next
    case False
    show ?thesis
    proof (cases "start_code xs = 0")
      case True
      with 1(1) [OF False True] False show ?thesis by (subst h264_nalus.simps) simp
    next
      case sc: False
      let ?rest = "drop (start_code xs) xs"
      have "3 \<le> start_code xs" "start_code xs \<le> length xs" using sc False by (auto simp: start_code_def split: if_splits)
      moreover have "sum_list (map (\<lambda>n. length n + 3) (h264_nalus (drop (nalu_end ?rest) ?rest))) \<le> length (drop (nalu_end ?rest) ?rest)"
        using 1(2) [OF False sc refl refl] .
      moreover have "nalu_end ?rest \<le> length ?rest" by (rule nalu_end_le)
      ultimately show ?thesis using False sc by (subst h264_nalus.simps) (auto simp: Let_def)
    qed
  qed
qed

lemma screen_frame_size: "length (screen_frame unit) \<le> 2 * sum_list (map (\<lambda>n. length n + 3) unit)"
proof (induction unit)
  case Nil
  then show ?case by (simp add: screen_frame_def)
next
  case (Cons n unit)
  then show ?case by (simp add: screen_frame_Cons)
qed

lemma h264_unit_fits: "length frame \<le> kMaximumStartupVideoBytes \<Longrightarrow> unit_fits (h264_nalus frame)"
  using screen_frame_size [of "h264_nalus frame"] h264_nalus_size [of frame]
  by (simp add: unit_fits_def kMaximumStartupVideoBytes_def)

lemma avcc_config_size: "avcc_config ns = Some config \<Longrightarrow> length config < 2 ^ 32"
  by (auto simp: avcc_config_def split: option.splits if_splits)

lemma live_stream_items:
  assumes "aead_correct evp" "length key = 32"
    and "startup_video before new_startup = StartupReady config initial"
    and "\<forall>stop frame. (stop, Some frame) \<in> set after \<longrightarrow> length frame \<le> kMaximumStartupVideoBytes"
    and "screen_stream evp key config (live_rounds initial after) turns = Some (ok, s)"
  shows "\<exists>sps pps first later. avcc_parse config = Some (sps, pps) \<and> nal_type sps = 7 \<and> nal_type pps = 8 \<and> has_idr first \<and>
    later = screen_taken (map (\<lambda>(stop, next). (stop, map_option h264_nalus next)) after) \<and>
    prefix (screen_items evp key (sc_out s)) (ScreenConfig config # ScreenFrame first # map ScreenFrame later) \<and>
    (ok \<longrightarrow> screen_items evp key (sc_out s) = ScreenConfig config # ScreenFrame first # map ScreenFrame later)"
proof -
  have "startup_ok [] new_startup" by (simp add: startup_ok_def new_startup_def)
  from startup_video_ready [OF assms(3) this] obtain taken s' where t: "startup_ok taken s'"
    "avcc_config (su_nalus s') = Some config" "su_keyframe s'" "su_initial s' = initial" by auto
  then obtain unit where unit: "unit \<in> set taken" "initial = [unit]" "has_idr (h264_nalus unit)" by (auto simp: startup_ok_def)
  have "length unit \<le> su_bytes s'" using t(1) unit(1) member_le_sum_list [of "length unit" "map length taken"]
    by (simp add: startup_ok_def)
  then have "length unit \<le> kMaximumStartupVideoBytes" using t(1) by (simp add: startup_ok_def)
  then have fits: "\<forall>stop unit. (stop, Some unit) \<in> set (live_rounds initial after) \<longrightarrow> unit_fits unit"
    using assms(4) unit(2) by (auto simp: live_rounds_def map_option_case intro!: h264_unit_fits split: option.splits)
  let ?first = "filter is_slice (h264_nalus unit)"
  have idr: "has_idr ?first" using unit(3) by (auto simp: has_idr_def is_slice_def)
  then have "?first \<noteq> []" by (metis has_idr_def empty_iff list.set(1))
  then have taken: "screen_taken (live_rounds initial after) =
      ?first # screen_taken (map (\<lambda>(stop, next). (stop, map_option h264_nalus next)) after)"
    using unit(2) by (simp add: live_rounds_def)
  from screen_stream_items [OF assms(1,2) avcc_config_size [OF t(2)] fits assms(5)] avcc_parse_config [OF t(2)] idr
  show ?thesis unfolding taken by fastforce
qed

section \<open>Properties\<close>

text \<open>
  C28: The replay window of the microphone is the set of the nonces seen.  Whatever arrives, the receiver hands on
  exactly what a receiver with an unbounded memory would: the authentic packets whose nonce was not seen before and is
  less than 64 behind the newest.
\<close>

theorem microphone_window_refines: "fst (mic_receiver evp key packets new_mic) = mic_spec evp key [] packets"
  by (rule mic_receiver_spec) (rule window_ok_new)

text \<open>
  C29: Audio survives the network.  Of the packets an audio sender sent, lost, repeated and reordered in any way, a
  receiver with the microphone's window plays exactly those that are the first copy and at most 63
  behind the newest, each with the samples it was given.
\<close>

theorem audio_delivered:
  assumes "aead_correct evp" "length key = 32" "even sample" "length rounds < 2 ^ 64"
    and "\<forall>i\<in>set is. i < length (audio_sender evp key sample new_audio_stream rounds)"
  shows "fst (mic_receiver evp key (map ((!) (audio_sender evp key sample new_audio_stream rounds)) is) new_mic) =
    map (\<lambda>j. if fresh (take j is) (is ! j) then Some (audio_frames sample rounds ! (is ! j)) else None) [0..<length is]"
  using assms by (rule audio_received)


section \<open>Witnesses\<close>

definition sending_turn :: "bool \<times> send_turn" where
  "sending_turn = (False, \<lparr>remaining = 100, poll_ready = 1, poll_eintr = False, poll_error = False, send_count = 40, send_again = False\<rparr>)"

definition udp_turns :: "(bool \<times> send_turn) list" where
  "udp_turns = [sending_turn]"

lemma example_audio: "audio_sender example_evp (replicate 32 0) 2 new_audio_stream
    [(False, Some [1, 2, 3, 4], udp_turns), (False, Some [1], []), (False, Some [5, 6, 7, 8], udp_turns)] =
    [[128, 100, 0, 0, 0, 0, 0, 0, 0, 0, 0, 0, 2, 1, 4, 3] @ replicate 16 0 @ replicate 8 0,
     [128, 100, 0, 1, 0, 0, 0, 2, 0, 0, 0, 0, 6, 5, 8, 7] @ replicate 16 0 @ [1, 0, 0, 0, 0, 0, 0, 0]]"
  by code_simp

theorem audio_delivered_witness:
  "fst (mic_receiver example_evp (replicate 32 0)
     (map ((!) (audio_sender example_evp (replicate 32 0) 2 new_audio_stream
        [(False, Some [1, 2, 3, 4], udp_turns), (False, Some [1], []), (False, Some [5, 6, 7, 8], udp_turns)])) [1, 0, 1]) new_mic) =
   [Some [5, 6, 7, 8], Some [1, 2, 3, 4], None]"
  by (subst audio_delivered [OF example_evp_correct])
    (simp_all add: example_audio fresh_def numeral_3_eq_3 upt_rec del: audio_sender.simps)

definition example_frame :: bytes where
  "example_frame = [0, 0, 0, 1, 0x67, 0x42, 0, 0x1f, 0, 0, 0, 1, 0x68, 0xce, 0, 0, 0, 1, 0x65, 0x88]"

lemma example_units: "h264_nalus example_frame = [[0x67, 0x42, 0, 0x1f], [0x68, 0xce], [0x65, 0x88]]"
  "h264_nalus [0, 0, 1, 0x65, 1] = [[0x65, 1]]" "h264_nalus [0, 0, 1, 0x41, 2] = [[0x41, 2]]"
  "h264_nalus [0, 0, 1, 0x67, 0x42, 0, 0x1f, 0, 0, 1, 0x68, 0xce] = [[0x67, 0x42, 0, 0x1f], [0x68, 0xce]]"
  "h264_nalus [0, 0, 1, 0x41, 5] = [[0x41, 5]]"
  by code_simp+

lemmas startup_eval = new_startup_def startup_unit_def startup_replace_def nal_type_def avcc_config_def example_units
  kMaximumStartupVideoUnits_def kMaximumStartupVideoBytes_def

lemma example_startup: "startup_video [(False, Some example_frame, False), (False, None, False)] new_startup =
    StartupReady [1, 0x42, 0, 0x1f, 0xff, 0xe1, 0, 4, 0x67, 0x42, 0, 0x1f, 1, 0, 2, 0x68, 0xce] [example_frame]"
  by (simp add: startup_eval) (simp add: example_frame_def)


text \<open>
  Slices that arrive between the first key frame and a configuration that comes later are not sent: the stream begins
  with a key frame and goes on with slices whose references are missing.
\<close>

lemma slices_before_configuration_lost:
  "startup_video [(False, Some [0, 0, 1, 0x65, 1], False), (False, Some [0, 0, 1, 0x41, 2], False),
      (False, Some [0, 0, 1, 0x67, 0x42, 0, 0x1f, 0, 0, 1, 0x68, 0xce], False), (False, None, False)] new_startup =
    StartupReady [1, 0x42, 0, 0x1f, 0xff, 0xe1, 0, 4, 0x67, 0x42, 0, 0x1f, 1, 0, 2, 0x68, 0xce] [[0, 0, 1, 0x65, 1]]"
  by (simp add: startup_eval)

end
