(* ===== verification/Airplay_Capabilities.thy ===== *)
theory Airplay_Capabilities
  imports Bplist Text_Prelude
begin

text \<open>
  The capabilities of a head unit (\<open>src/src/airplay/head_unit_capabilities.cpp\<close>): what the answer to
  \<open>/info\<close> says of its display and its audio formats, and the file that keeps it.  The file system
  is a map from paths to contents.
\<close>

section \<open>Data\<close>

record head_unit_capabilities =
  hc_mac :: string
  hc_width :: u32
  hc_height :: u32
  hc_max_fps :: u32
  hc_media :: bool
  hc_guidance :: bool
  hc_system :: bool

definition no_capabilities :: head_unit_capabilities where
  "no_capabilities = \<lparr>hc_mac = [], hc_width = 0, hc_height = 0, hc_max_fps = 0, hc_media = False, hc_guidance = False,
     hc_system = False\<rparr>"

definition kCapabilitiesMagic :: string where
  "kCapabilitiesMagic = ''AA2ACP-HEAD-UNIT-CAPABILITIES-1''"

type_synonym dictionary = "(string \<times> plist) list"

definition integer_at :: "dictionary \<Rightarrow> string \<Rightarrow> u64 option" where
  "integer_at d key = (case map_of d key of Some (PInt v) \<Rightarrow> Some v | _ \<Rightarrow> None)"

definition valid_capabilities :: "head_unit_capabilities \<Rightarrow> bool" where
  "valid_capabilities p =
     (let has_display = (hc_width p > 0 \<and> hc_height p > 0 \<and> hc_max_fps p > 0);
          has_audio = (hc_media p \<or> hc_guidance p \<or> hc_system p)
      in hc_mac p \<noteq> [] \<and> (has_display \<or> has_audio) \<and>
         list_all (\<lambda>c. c \<notin> {CHR 0x0D, CHR 0x0A, CHR ''=''}) (hc_mac p))"

definition parse_u32 :: "string \<Rightarrow> u32 option" where
  "parse_u32 v = map_option of_nat (parse_unsigned (2 ^ 32 - 1) v)"

section \<open>From the answer to \<open>/info\<close>\<close>

text \<open>The first entry of stream type 100 and the wanted audio type decides.\<close>

fun supports_format :: "string \<Rightarrow> u64 \<Rightarrow> plist list \<Rightarrow> bool" where
  "supports_format audio_type format [] = False"
| "supports_format audio_type format (item # items) =
     (case item of
        PDict d \<Rightarrow>
          if integer_at d ''type'' \<noteq> Some 100 then supports_format audio_type format items
          else (case (map_of d ''audioType'', integer_at d ''audioOutputFormats'') of
                  (Some (PText type), Some out) \<Rightarrow>
                    if type \<noteq> audio_type then supports_format audio_type format items
                    else out AND format = format
                | _ \<Rightarrow> supports_format audio_type format items)
      | _ \<Rightarrow> supports_format audio_type format items)"

definition supports_pcm :: "dictionary \<Rightarrow> string \<Rightarrow> u64 \<Rightarrow> bool" where
  "supports_pcm info audio_type format =
     (case map_of info ''audioFormats'' of
        Some (PArray items) \<Rightarrow> supports_format audio_type format items
      | _ \<Rightarrow> False)"

text \<open>The first display of type 110; \<open>None\<close> if one of its numbers is missing or too large.\<close>

fun find_display :: "plist list \<Rightarrow> head_unit_capabilities \<Rightarrow> head_unit_capabilities option" where
  "find_display [] p = Some p"
| "find_display (display # displays) p =
     (case display of
        PDict d \<Rightarrow>
          if integer_at d ''type'' \<noteq> Some 110 then find_display displays p
          else (case (integer_at d ''widthPixels'', integer_at d ''heightPixels'', integer_at d ''maxFPS'') of
                  (Some width, Some height, Some fps) \<Rightarrow>
                    if width > 0xffffffff \<or> height > 0xffffffff \<or> fps > 0xffffffff then None
                    else Some (p\<lparr>hc_width := ucast width, hc_height := ucast height, hc_max_fps := ucast fps\<rparr>)
                | _ \<Rightarrow> None)
      | _ \<Rightarrow> find_display displays p)"

definition capabilities_of_info :: "dictionary \<Rightarrow> string \<Rightarrow> head_unit_capabilities option" where
  "capabilities_of_info info mac =
     (let p = no_capabilities\<lparr>hc_mac := mac, hc_media := supports_pcm info ''media'' 0x8000,
                hc_guidance := supports_pcm info ''default'' 0x10, hc_system := supports_pcm info ''alert'' 0x10\<rparr>
      in case (case map_of info ''displays'' of Some (PArray displays) \<Rightarrow> find_display displays p | _ \<Rightarrow> Some p) of
           None \<Rightarrow> None
         | Some p \<Rightarrow> if valid_capabilities p then Some p else None)"

section \<open>Loading\<close>

definition capabilities_line :: "string \<Rightarrow> head_unit_capabilities \<Rightarrow> head_unit_capabilities option" where
  "capabilities_line line p =
     (case find_sub ''='' line of
        None \<Rightarrow> None
      | Some separator \<Rightarrow>
          (let key = take separator line; v = drop (Suc separator) line in
           if key = ''head_unit_mac'' then Some (p\<lparr>hc_mac := v\<rparr>)
           else if key = ''width_pixels'' then map_option (\<lambda>n. p\<lparr>hc_width := n\<rparr>) (parse_u32 v)
           else if key = ''height_pixels'' then map_option (\<lambda>n. p\<lparr>hc_height := n\<rparr>) (parse_u32 v)
           else if key = ''max_fps'' then map_option (\<lambda>n. p\<lparr>hc_max_fps := n\<rparr>) (parse_u32 v)
           else if key = ''media_pcm_48k_stereo'' then Some (p\<lparr>hc_media := (v = ''1'')\<rparr>)
           else if key = ''guidance_pcm_16k_mono'' then Some (p\<lparr>hc_guidance := (v = ''1'')\<rparr>)
           else if key = ''system_pcm_16k_mono'' then Some (p\<lparr>hc_system := (v = ''1'')\<rparr>)
           else None))"

fun capabilities_lines :: "string list \<Rightarrow> head_unit_capabilities \<Rightarrow> head_unit_capabilities option" where
  "capabilities_lines [] p = Some p"
| "capabilities_lines (line # rest) p =
     (case capabilities_line line p of None \<Rightarrow> None | Some p \<Rightarrow> capabilities_lines rest p)"

definition load_head_unit_capabilities :: "(string \<rightharpoonup> string) \<Rightarrow> string \<Rightarrow> string \<Rightarrow> head_unit_capabilities option" where
  "load_head_unit_capabilities files path mac =
     (case files path of
        None \<Rightarrow> None
      | Some content \<Rightarrow>
          (case getlines content of
             [] \<Rightarrow> None
           | first # rest \<Rightarrow>
               if first \<noteq> kCapabilitiesMagic then None
               else (case capabilities_lines rest no_capabilities of
                       None \<Rightarrow> None
                     | Some p \<Rightarrow> if valid_capabilities p \<and> hc_mac p = mac then Some p else None)))"

section \<open>Saving\<close>

definition bool_digit :: "bool \<Rightarrow> string" where "bool_digit b = (if b then ''1'' else ''0'')"

definition capabilities_content :: "head_unit_capabilities \<Rightarrow> string" where
  "capabilities_content p =
     kCapabilitiesMagic @ [CHR 0x0A] @
     ''head_unit_mac='' @ hc_mac p @ [CHR 0x0A] @
     ''width_pixels='' @ nat_to_string (unat (hc_width p)) @ [CHR 0x0A] @
     ''height_pixels='' @ nat_to_string (unat (hc_height p)) @ [CHR 0x0A] @
     ''max_fps='' @ nat_to_string (unat (hc_max_fps p)) @ [CHR 0x0A] @
     ''media_pcm_48k_stereo='' @ bool_digit (hc_media p) @ [CHR 0x0A] @
     ''guidance_pcm_16k_mono='' @ bool_digit (hc_guidance p) @ [CHR 0x0A] @
     ''system_pcm_16k_mono='' @ bool_digit (hc_system p) @ [CHR 0x0A]"

text \<open>
  What the system answers.  The state of the stream is read before it is closed; \<open>cap_flushed\<close> is
  how much of the content is in the file when the stream has been destroyed.
\<close>

record capabilities_os =
  cap_directories :: bool
  cap_mkstemp :: "string option"
  cap_opened :: bool
  cap_stream :: bool
  cap_flushed :: nat
  cap_chmod :: bool
  cap_rename :: bool

definition save_head_unit_capabilities ::
    "capabilities_os \<Rightarrow> string \<Rightarrow> head_unit_capabilities \<Rightarrow> (string \<rightharpoonup> string) \<Rightarrow> bool \<times> (string \<rightharpoonup> string)" where
  "save_head_unit_capabilities os path p files =
     (if \<not> valid_capabilities p then (False, files)
      else if \<not> cap_directories os then (False, files)
      else (case cap_mkstemp os of
              None \<Rightarrow> (False, files)
            | Some temporary \<Rightarrow>
                (let files = files(temporary \<mapsto> if cap_opened os then take (cap_flushed os) (capabilities_content p) else []);
                     ok = (cap_opened os \<and> cap_stream os \<and> cap_chmod os \<and> cap_rename os)
                 in if ok then (True, (files(path := files temporary))(temporary := None))
                    else (False, files(temporary := None)))))"

section \<open>Round trip\<close>

lemma capabilities_getline:
  assumes "CHR 0x0A \<notin> set v" "CHR 0x0A \<notin> set key"
  shows "getlines (key @ CHR ''='' # v @ CHR 0x0A # rest) = (key @ CHR ''='' # v) # getlines rest"
  using getlines_line [of "key @ CHR ''='' # v" rest] assms by simp

lemma newline_not_in: "CHR 0x0A \<notin> set (nat_to_string n)" "CHR 0x0A \<notin> set (bool_digit b)"
  by (rule digit_not_in_nat_to_string, simp) (simp add: bool_digit_def)

lemma parse_u32_to_string [simp]: "parse_u32 (nat_to_string (unat (v :: u32))) = Some v"
proof -
  have "unat v \<le> 2 ^ 32 - 1" using unat_u32_lt [of v] by (simp only: less_Suc_eq_le [symmetric]) simp
  from parse_unsigned_to_string [OF this] show ?thesis by (simp add: parse_u32_def)
qed

lemma bool_digit_iff [simp]: "bool_digit b = ''1'' \<longleftrightarrow> b"
  by (simp add: bool_digit_def)

lemma capabilities_line_entry:
  assumes "CHR ''='' \<notin> set key"
  shows "capabilities_line (key @ CHR ''='' # v) p =
     (if key = ''head_unit_mac'' then Some (p\<lparr>hc_mac := v\<rparr>)
      else if key = ''width_pixels'' then map_option (\<lambda>n. p\<lparr>hc_width := n\<rparr>) (parse_u32 v)
      else if key = ''height_pixels'' then map_option (\<lambda>n. p\<lparr>hc_height := n\<rparr>) (parse_u32 v)
      else if key = ''max_fps'' then map_option (\<lambda>n. p\<lparr>hc_max_fps := n\<rparr>) (parse_u32 v)
      else if key = ''media_pcm_48k_stereo'' then Some (p\<lparr>hc_media := (v = ''1'')\<rparr>)
      else if key = ''guidance_pcm_16k_mono'' then Some (p\<lparr>hc_guidance := (v = ''1'')\<rparr>)
      else if key = ''system_pcm_16k_mono'' then Some (p\<lparr>hc_system := (v = ''1'')\<rparr>)
      else None)"
  using find_char [OF assms] by (simp add: capabilities_line_def Let_def)

text \<open>The lines as keys and values.\<close>

definition entries :: "(string \<times> string) list \<Rightarrow> string" where
  "entries kvs = concat (map (\<lambda>(key, v). key @ CHR ''='' # v @ [CHR 0x0A]) kvs)"

lemma getlines_entries:
  "list_all (\<lambda>(key, v). CHR 0x0A \<notin> set key \<and> CHR 0x0A \<notin> set v) kvs \<Longrightarrow>
     getlines (entries kvs) = map (\<lambda>(key, v). key @ CHR ''='' # v) kvs"
  by (induction kvs) (auto simp: entries_def capabilities_getline)

definition profile_entries :: "head_unit_capabilities \<Rightarrow> (string \<times> string) list" where
  "profile_entries p =
     [(''head_unit_mac'', hc_mac p), (''width_pixels'', nat_to_string (unat (hc_width p))),
      (''height_pixels'', nat_to_string (unat (hc_height p))), (''max_fps'', nat_to_string (unat (hc_max_fps p))),
      (''media_pcm_48k_stereo'', bool_digit (hc_media p)), (''guidance_pcm_16k_mono'', bool_digit (hc_guidance p)),
      (''system_pcm_16k_mono'', bool_digit (hc_system p))]"

lemma capabilities_content_entries: "capabilities_content p = kCapabilitiesMagic @ CHR 0x0A # entries (profile_entries p)"
  by (simp add: capabilities_content_def entries_def profile_entries_def)

lemma load_capabilities_content:
  assumes "valid_capabilities p" "files path = Some (capabilities_content p)"
  shows "load_head_unit_capabilities files path (hc_mac p) = Some p"
proof -
  have mac: "CHR 0x0A \<notin> set (hc_mac p)" using assms by (auto simp: valid_capabilities_def Let_def list_all_iff)
  have lines: "getlines (entries (profile_entries p)) = map (\<lambda>(key, v). key @ CHR ''='' # v) (profile_entries p)"
    by (rule getlines_entries) (simp add: profile_entries_def mac newline_not_in)
  have magic: "getlines (capabilities_content p) = kCapabilitiesMagic # getlines (entries (profile_entries p))"
    unfolding capabilities_content_entries by (rule getlines_line) (simp add: kCapabilitiesMagic_def)
  have "capabilities_lines (map (\<lambda>(key, v). key @ CHR ''='' # v) (profile_entries p)) no_capabilities = Some p"
    by (simp add: profile_entries_def capabilities_line_entry no_capabilities_def del: append_Cons)
  then show ?thesis using assms by (simp add: load_head_unit_capabilities_def magic lines)
qed

section \<open>What the answer to \<open>/info\<close> gives\<close>

lemma find_display_mac: "find_display displays p = Some p' \<Longrightarrow> hc_mac p' = hc_mac p"
  by (induction displays) (auto split: plist.splits option.splits if_splits)

lemma capabilities_of_info_valid:
  assumes "capabilities_of_info info mac = Some p"
  shows "valid_capabilities p \<and> hc_mac p = mac"
  using assms find_display_mac
  by (fastforce simp: capabilities_of_info_def Let_def split: option.splits plist.splits if_splits)

lemma saved_capabilities:
  assumes "valid_capabilities p" "save_head_unit_capabilities os path p files = (ok, files')"
    and "\<And>temporary. cap_mkstemp os = Some temporary \<Longrightarrow> temporary \<noteq> path \<and> files temporary = None"
    and "length (capabilities_content p) \<le> cap_flushed os"
  shows "if ok then load_head_unit_capabilities files' path (hc_mac p) = Some p \<and> (\<forall>q. q \<noteq> path \<longrightarrow> files' q = files q)
    else files' = files"
proof (cases "cap_mkstemp os")
  case None
  with assms(2) show ?thesis by (simp add: save_head_unit_capabilities_def split: if_splits)
next
  case (Some temporary)
  note t = assms(3) [OF Some]
  have "(files(temporary \<mapsto> c))(temporary := None) = files" for c using t by auto
  moreover have "load_head_unit_capabilities ((files(temporary \<mapsto> c, path \<mapsto> capabilities_content p))(temporary := None)) path (hc_mac p) = Some p" for c
    using t by (intro load_capabilities_content [OF assms(1)]) auto
  ultimately show ?thesis
    using assms(1,2,4) Some t by (auto simp: save_head_unit_capabilities_def Let_def split: if_splits)
qed

section \<open>Properties\<close>


section \<open>Witnesses\<close>

definition example_info :: dictionary where
  "example_info =
     [(''audioFormats'', PArray [PDict [(''audioOutputFormats'', PInt 0xc000), (''audioType'', PText ''media''), (''type'', PInt 100)]]),
      (''displays'', PArray [PDict [(''heightPixels'', PInt 720), (''maxFPS'', PInt 60), (''type'', PInt 110), (''widthPixels'', PInt 1280)]])]"

definition example_profile :: head_unit_capabilities where
  "example_profile = \<lparr>hc_mac = ''AA:BB'', hc_width = 1280, hc_height = 720, hc_max_fps = 60, hc_media = True, hc_guidance = False,
     hc_system = False\<rparr>"

definition example_capabilities_os :: "nat \<Rightarrow> capabilities_os" where
  "example_capabilities_os n = \<lparr>cap_directories = True, cap_mkstemp = Some ''caps.tmp.1'', cap_opened = True, cap_stream = True,
     cap_flushed = n, cap_chmod = True, cap_rename = True\<rparr>"

lemma example_capabilities: "capabilities_of_info example_info ''AA:BB'' = Some example_profile"
  by (simp add: capabilities_of_info_def example_info_def supports_pcm_def integer_at_def no_capabilities_def
      example_profile_def valid_capabilities_def)

lemma example_saved: "fst (save_head_unit_capabilities (example_capabilities_os n) ''caps'' example_profile files)"
  by (simp add: save_head_unit_capabilities_def example_capabilities_os_def example_profile_def valid_capabilities_def Let_def)

lemma example_file: "snd (save_head_unit_capabilities (example_capabilities_os n) ''caps'' example_profile files) ''caps'' =
    Some (take n (capabilities_content example_profile))"
  by (simp add: save_head_unit_capabilities_def example_capabilities_os_def example_profile_def valid_capabilities_def Let_def)


text \<open>
  A disk that fills up while the stream is closed is not noticed: the save is reported as successful, and what is loaded
  are the capabilities of a head unit with six frames per second and no audio.
\<close>

lemma lost_tail_unnoticed:
  "\<exists>n. fst (save_head_unit_capabilities (example_capabilities_os n) ''caps'' example_profile files) \<and>
     load_head_unit_capabilities (snd (save_head_unit_capabilities (example_capabilities_os n) ''caps'' example_profile files)) ''caps'' ''AA:BB''
       = Some (example_profile\<lparr>hc_max_fps := 6, hc_media := False\<rparr>)"
proof -
  let ?lines = "[(''head_unit_mac'', ''AA:BB''), (''width_pixels'', ''1280''), (''height_pixels'', ''720''), (''max_fps'', ''6'')]"
  let ?kept = "kCapabilitiesMagic @ CHR 0x0A # entries ?lines"
  let ?n = "length ?kept - 1"
  have numbers: "nat_to_string 1280 = ''1280''" "nat_to_string 720 = ''720''" "nat_to_string 60 = ''60''"
    by code_simp+
  have parsed: "parse_u32 ''1280'' = Some 1280" "parse_u32 ''720'' = Some 720" "parse_u32 ''6'' = Some 6"
    by (simp_all add: parse_u32_def parse_unsigned_def is_digit_def digits_value_def digit_value_def)
  have "take ?n (capabilities_content example_profile) = butlast ?kept"
    by (simp add: capabilities_content_def entries_def example_profile_def kCapabilitiesMagic_def numbers)
  moreover have "getlines (butlast ?kept) = kCapabilitiesMagic # map (\<lambda>(key, v). key @ CHR ''='' # v) ?lines"
    by (simp add: getlines.simps kCapabilitiesMagic_def entries_def)
  ultimately have "load_head_unit_capabilities (snd (save_head_unit_capabilities (example_capabilities_os ?n) ''caps'' example_profile files))
      ''caps'' ''AA:BB'' = (case capabilities_lines (map (\<lambda>(key, v). key @ CHR ''='' # v) ?lines) no_capabilities of
         None \<Rightarrow> None | Some p \<Rightarrow> if valid_capabilities p \<and> hc_mac p = ''AA:BB'' then Some p else None)"
    unfolding load_head_unit_capabilities_def example_file by (simp only: option.case list.case if_False simp_thms)
  also have "capabilities_lines (map (\<lambda>(key, v). key @ CHR ''='' # v) ?lines) no_capabilities =
      Some (example_profile\<lparr>hc_max_fps := 6, hc_media := False\<rparr>)"
    by (simp add: capabilities_line_entry parsed no_capabilities_def example_profile_def del: append_Cons)
  finally show ?thesis
    using example_saved [of ?n files] by (intro exI [of _ ?n]) (simp add: example_profile_def valid_capabilities_def)
qed

end
