(* ===== verification/Airplay_Setup.thy ===== *)
theory Airplay_Setup
  imports Airplay_Media Airplay_Events Airplay_Capabilities
begin

text \<open>
  The control flow of \<open>run_session\<close> in \<open>src/src/airplay/session.cpp\<close> from the control keys to the streams and
  back: \<open>/info\<close>, the SETUP of the session and of each stream, RECORD, TEARDOWN.  The head unit is a
  function with a state of its own from the bytes it is sent to what arrives in answer; \<open>None\<close> is
  the end of the session with \<open>return 1\<close>.  Log lines, threads and sockets are left out.
\<close>

section \<open>Requests\<close>

record capability_store =
  cs_path :: string
  cs_os :: capabilities_os

text \<open>
  The options and surroundings of a session: the streams it wants (\<open>next_media_audio\<close> and the like), the
  ports the system gives, random bytes, and whether the head unit can be reached at a port.
\<close>

record 'n setup_env =
  se_evp :: evp
  se_shared :: bytes
  se_controller_id :: string
  se_mac :: string
  se_store :: capability_store
  se_media :: bool
  se_guidance :: bool
  se_system :: bool
  se_microphone :: bool
  se_timing_port :: "u16 option"
  se_microphone_port :: "u16 option"
  se_microphone_random :: "bytes option"
  se_media_random :: "bytes option"
  se_guidance_random :: "bytes option"
  se_system_random :: "bytes option"
  se_screen_random :: "bytes option"
  se_connect_event :: "u16 \<Rightarrow> bool"
  se_connect_microphone :: "u16 \<Rightarrow> bool"
  se_peer :: "bytes \<Rightarrow> 'n \<Rightarrow> (bool \<times> rx_event list) \<times> 'n"

text \<open>\<open>ct_requests\<close> is the history: method, sequence number and body of every request.\<close>

record 'n control =
  ct_cipher :: cipher
  ct_buffer :: bytes
  ct_cseq :: int
  ct_peer :: 'n
  ct_requests :: "(string \<times> int \<times> bytes) list"

definition new_control :: "bytes \<Rightarrow> bytes \<Rightarrow> 'n \<Rightarrow> 'n control" where
  "new_control read_key write_key n =
     \<lparr>ct_cipher = new_cipher read_key write_key, ct_buffer = [], ct_cseq = 6, ct_peer = n, ct_requests = []\<rparr>"

definition setup_exchange ::
    "'n setup_env \<Rightarrow> string \<Rightarrow> string \<Rightarrow> bytes \<Rightarrow> string \<Rightarrow> 'n control \<Rightarrow> response option \<times> 'n control" where
  "setup_exchange env rmethod path body content_type s =
     (let cseq = ct_cseq s; request = encode_request rmethod path cseq body content_type [] in
      case (case fst (encrypt (se_evp env) request (ct_cipher s)) of
              None \<Rightarrow> ((False, []), ct_peer s)
            | Some frame \<Rightarrow> se_peer env frame (ct_peer s)) of
        ((transmitted, events), n) \<Rightarrow>
          (case send_encrypted (se_evp env) (ct_cipher s) (ct_buffer s) request (Some cseq) (\<lambda>_. transmitted) events of
             (response, c, buffer) \<Rightarrow>
               (response, \<lparr>ct_cipher = c, ct_buffer = buffer, ct_cseq = cseq + 1, ct_peer = n,
                           ct_requests = ct_requests s @ [(rmethod, cseq, body)]\<rparr>)))"

definition plist_type :: string where "plist_type = ''application/x-apple-binary-plist''"

definition stream_uri :: string where "stream_uri = ''rtsp://127.0.0.1/stream''"

definition setup_request :: "'n setup_env \<Rightarrow> bytes \<Rightarrow> 'n control \<Rightarrow> response option \<times> 'n control" where
  "setup_request env body s = setup_exchange env ''SETUP'' stream_uri body plist_type s"

section \<open>Answers\<close>

definition dictionary_of :: "plist option \<Rightarrow> dictionary option" where
  "dictionary_of v = (case v of Some (PDict d) \<Rightarrow> Some d | _ \<Rightarrow> None)"

text \<open>The dictionary of a response of status 200.\<close>

definition response_dictionary :: "response option \<Rightarrow> dictionary option" where
  "response_dictionary response =
     (case response of
        None \<Rightarrow> None
      | Some r \<Rightarrow> if rsp_status r = 200 then dictionary_of (decode_bplist (rsp_body r)) else None)"

text \<open>The data port of the first stream; it has to be a port.\<close>

definition stream_port :: "response option \<Rightarrow> u16 option" where
  "stream_port response =
     (case response_dictionary response of
        None \<Rightarrow> None
      | Some d \<Rightarrow>
          (case map_of d ''streams'' of
             Some (PArray (PDict stream # _)) \<Rightarrow>
               (case integer_at stream ''dataPort'' of
                  None \<Rightarrow> None
                | Some port \<Rightarrow> if port = 0 \<or> port > 0xffff then None else Some (ucast port))
           | _ \<Rightarrow> None))"

definition stream_key :: "'n setup_env \<Rightarrow> u64 \<Rightarrow> string \<Rightarrow> bytes" where
  "stream_key env stream_id info =
     hkdf_sha512 (se_evp env) (se_shared env) (''DataStream-Salt'' @ nat_to_string (unat stream_id)) info 32"

definition output_key :: string where "output_key = ''DataStream-Output-Encryption-Key''"

definition input_key :: string where "input_key = ''DataStream-Input-Encryption-Key''"

section \<open>Session\<close>

definition info_body :: "'n setup_env \<Rightarrow> bytes" where
  "info_body env = encode_bplist (PDict
     [(''deviceID'', PText (se_controller_id env)), (''manufacturer'', PText ''AA2ACP''), (''model'', PText ''RaspberryPi''),
      (''name'', PText ''AA2ACP''), (''osVersion'', PText ''0.1'')])"

text \<open>The capabilities, if they are valid; they are stored if there is a place to and a head unit to name.\<close>

definition setup_info ::
    "'n setup_env \<Rightarrow> (string \<rightharpoonup> string) \<Rightarrow> 'n control \<Rightarrow>
     (head_unit_capabilities option \<times> (string \<rightharpoonup> string)) option \<times> 'n control" where
  "setup_info env files s =
     (case setup_exchange env ''POST'' ''/info'' (info_body env) plist_type s of
        (response, s) \<Rightarrow>
          (case response_dictionary response of
             None \<Rightarrow> (None, s)
           | Some info \<Rightarrow>
               (let capabilities = capabilities_of_info info (se_mac env);
                    files = (case capabilities of
                        Some p \<Rightarrow> if cs_path (se_store env) \<noteq> [] \<and> se_mac env \<noteq> []
                          then snd (save_head_unit_capabilities (cs_os (se_store env)) (cs_path (se_store env)) p files) else files
                      | None \<Rightarrow> files)
                in (Some (capabilities, files), s))))"

definition session_body :: "'n setup_env \<Rightarrow> u16 \<Rightarrow> bytes" where
  "session_body env timing_port = encode_bplist (PDict
     [(''deviceID'', PText (se_controller_id env)), (''model'', PText ''RaspberryPi''), (''name'', PText ''AA2ACP''),
      (''timingPort'', PInt (ucast timing_port))])"

record event_keys =
  ev_port :: u16
  ev_read_key :: bytes
  ev_write_key :: bytes

definition setup_session :: "'n setup_env \<Rightarrow> 'n control \<Rightarrow> event_keys option \<times> 'n control" where
  "setup_session env s =
     (case se_timing_port env of
        None \<Rightarrow> (None, s)
      | Some timing_port \<Rightarrow>
          (case setup_request env (session_body env timing_port) s of
             (response, s) \<Rightarrow>
               (case response_dictionary response of
                  None \<Rightarrow> (None, s)
                | Some d \<Rightarrow>
                    (case (integer_at d ''timingPort'', integer_at d ''eventPort'') of
                       (Some _, Some port) \<Rightarrow>
                         if port = 0 \<or> port > 0xffff then (None, s)
                         else (let keys = \<lparr>ev_port = ucast port,
                                  ev_read_key = hkdf_sha512 (se_evp env) (se_shared env) ''Events-Salt'' ''Events-Write-Encryption-Key'' 32,
                                  ev_write_key = hkdf_sha512 (se_evp env) (se_shared env) ''Events-Salt'' ''Events-Read-Encryption-Key'' 32\<rparr>
                               in if \<not> se_connect_event env (ev_port keys) \<or> length (ev_read_key keys) \<noteq> 32 \<or>
                                     length (ev_write_key keys) \<noteq> 32
                                  then (None, s) else (Some keys, s))
                     | _ \<Rightarrow> (None, s)))))"

section \<open>Streams\<close>

type_synonym stream = "u16 \<times> bytes"

definition stream_body :: "(string \<times> plist) list \<Rightarrow> bytes" where
  "stream_body kvs = encode_bplist (PDict [(''streams'', PArray [PDict kvs])])"

text \<open>A stream that cannot be set up is left out.\<close>

definition setup_microphone :: "'n setup_env \<Rightarrow> 'n control \<Rightarrow> stream option \<times> 'n control" where
  "setup_microphone env s =
     (if \<not> se_microphone env then (None, s)
      else (case (se_microphone_port env, random_stream_connection_id (se_microphone_random env)) of
              (Some local_port, Some stream_id) \<Rightarrow>
                (case setup_request env (stream_body
                        [(''audioFormat'', PInt 0x10), (''audioType'', PText ''default''), (''dataPort'', PInt (ucast local_port)),
                         (''input'', PBool True), (''streamConnectionID'', PInt stream_id), (''type'', PInt 100)]) s of
                   (response, s) \<Rightarrow>
                     (case stream_port response of
                        None \<Rightarrow> (None, s)
                      | Some port \<Rightarrow>
                          (let key = stream_key env stream_id input_key in
                           (if se_connect_microphone env port \<and> length key = 32 then Some (port, key) else None, s))))
            | _ \<Rightarrow> (None, s)))"

text \<open>Without media audio, the session goes on; if it is offered and refused, it ends.\<close>

definition setup_media :: "'n setup_env \<Rightarrow> head_unit_capabilities option \<Rightarrow> 'n control \<Rightarrow> stream option option \<times> 'n control" where
  "setup_media env capabilities s =
     (case (capabilities, random_stream_connection_id (se_media_random env)) of
        (Some p, Some stream_id) \<Rightarrow>
          if \<not> se_media env \<or> \<not> hc_media p then (Some None, s)
          else (case setup_request env (stream_body
                       [(''audioFormat'', PInt 0x8000), (''audioType'', PText ''media''),
                        (''streamConnectionID'', PInt stream_id), (''type'', PInt 100)]) s of
                  (response, s) \<Rightarrow>
                    (let key = stream_key env stream_id output_key in
                     case stream_port response of
                       None \<Rightarrow> (None, s)
                     | Some port \<Rightarrow> (if length key = 32 then Some (Some (port, key)) else None, s)))
      | _ \<Rightarrow> (Some None, s))"

definition setup_auxiliary_audio ::
    "'n setup_env \<Rightarrow> bool \<Rightarrow> bool \<Rightarrow> bytes option \<Rightarrow> string \<Rightarrow> 'n control \<Rightarrow> stream option \<times> 'n control" where
  "setup_auxiliary_audio env wanted supported random audio_type s =
     (if \<not> wanted \<or> \<not> supported then (None, s)
      else (case random_stream_connection_id random of
              None \<Rightarrow> (None, s)
            | Some stream_id \<Rightarrow>
                (case setup_request env (stream_body
                        [(''audioFormat'', PInt 0x10), (''audioType'', PText audio_type),
                         (''streamConnectionID'', PInt stream_id), (''type'', PInt 100)]) s of
                   (response, s) \<Rightarrow>
                     (let key = stream_key env stream_id output_key in
                      case stream_port response of
                        None \<Rightarrow> (None, s)
                      | Some port \<Rightarrow> (if length key = 32 then Some (port, key) else None, s)))))"

text \<open>The screen: its port and its identifier, from which the key is made when the video begins.\<close>

definition setup_screen :: "'n setup_env \<Rightarrow> 'n control \<Rightarrow> (u16 \<times> u64) option \<times> 'n control" where
  "setup_screen env s =
     (case random_stream_connection_id (se_screen_random env) of
        None \<Rightarrow> (None, s)
      | Some stream_id \<Rightarrow>
          (case setup_request env (stream_body [(''streamConnectionID'', PInt stream_id), (''type'', PInt 110)]) s of
             (response, s) \<Rightarrow> (map_option (\<lambda>port. (port, stream_id)) (stream_port response), s)))"

definition setup_record :: "'n setup_env \<Rightarrow> 'n control \<Rightarrow> bool \<times> 'n control" where
  "setup_record env s =
     (case setup_exchange env ''RECORD'' stream_uri [] ''application/octet-stream'' s of
        (response, s) \<Rightarrow> ((case response of None \<Rightarrow> False | Some r \<Rightarrow> rsp_status r = 200), s))"

record session_streams =
  sn_microphone :: "stream option"
  sn_media :: "stream option"
  sn_guidance :: "stream option"
  sn_system :: "stream option"
  sn_screen :: "u16 \<times> u64"

definition setup_streams ::
    "'n setup_env \<Rightarrow> head_unit_capabilities option \<Rightarrow> 'n control \<Rightarrow> session_streams option \<times> 'n control" where
  "setup_streams env capabilities s =
     (case setup_microphone env s of
        (microphone, s) \<Rightarrow>
          (case setup_media env capabilities s of
             (None, s) \<Rightarrow> (None, s)
           | (Some media, s) \<Rightarrow>
               (case setup_auxiliary_audio env (se_guidance env)
                       (case capabilities of None \<Rightarrow> False | Some p \<Rightarrow> hc_guidance p) (se_guidance_random env) ''default'' s of
                  (guidance, s) \<Rightarrow>
                    (case setup_auxiliary_audio env (se_system env)
                            (case capabilities of None \<Rightarrow> False | Some p \<Rightarrow> hc_system p) (se_system_random env) ''alert'' s of
                       (system, s) \<Rightarrow>
                         (case setup_screen env s of
                            (None, s) \<Rightarrow> (None, s)
                          | (Some screen, s) \<Rightarrow>
                              (case setup_record env s of
                                 (False, s) \<Rightarrow> (None, s)
                               | (True, s) \<Rightarrow>
                                   (Some \<lparr>sn_microphone = microphone, sn_media = media, sn_guidance = guidance,
                                          sn_system = system, sn_screen = screen\<rparr>, s)))))))"

text \<open>
  The whole: what is left at the end is the TEARDOWN of \<open>teardown_guard\<close>, whatever the streams did.  The
  result is the event channel and the streams that were in use.
\<close>

definition send_teardown :: "'n setup_env \<Rightarrow> 'n control \<Rightarrow> 'n control" where
  "send_teardown env s = snd (setup_exchange env ''TEARDOWN'' stream_uri [] ''application/octet-stream'' s)"

definition run_streams ::
    "'n setup_env \<Rightarrow> (string \<rightharpoonup> string) \<Rightarrow> 'n control \<Rightarrow> (event_keys \<times> session_streams option) option \<times> (string \<rightharpoonup> string) \<times> 'n control" where
  "run_streams env files s =
     (case setup_info env files s of
        (None, s) \<Rightarrow> (None, files, s)
      | (Some (capabilities, files), s) \<Rightarrow>
          (case setup_session env s of
             (None, s) \<Rightarrow> (None, files, s)
           | (Some event, s) \<Rightarrow>
               (case setup_streams env capabilities s of
                  (outcome, s) \<Rightarrow> (Some (event, outcome), files, send_teardown env s))))"

end
