(* ===== verification/Airplay_Setup_Props.thy ===== *)
theory Airplay_Setup_Props
  imports Airplay_Setup Bplist_Props
begin

text \<open>
  The order of the requests of a session, what its streams hold when they begin, and that with a head
  unit that answers every request the session is set up.
\<close>

section \<open>The history of requests\<close>

text \<open>\<open>s'\<close> comes from \<open>s\<close> by requests of these methods, numbered one after the other.\<close>

definition requested :: "string list \<Rightarrow> 'n control \<Rightarrow> 'n control \<Rightarrow> bool" where
  "requested methods s s' \<longleftrightarrow>
     (\<exists>rs. ct_requests s' = ct_requests s @ rs \<and> map fst rs = methods \<and>
        map (fst \<circ> snd) rs = map (\<lambda>i. ct_cseq s + int i) [0..<length rs] \<and> ct_cseq s' = ct_cseq s + int (length rs))"

lemma requested_refl [simp]: "requested [] s s"
  by (simp add: requested_def)

lemma map_upt_add: "map f [0..<a + b] = map f [0..<a] @ map (\<lambda>i. f (a + i)) [0..<b]"
  by (induction b) simp_all

lemma requested_trans:
  assumes "requested ms s s1" "requested ms' s1 s2"
  shows "requested (ms @ ms') s s2"
proof -
  obtain rs rs' where r: "ct_requests s1 = ct_requests s @ rs" "map fst rs = ms"
      "map (fst \<circ> snd) rs = map (\<lambda>i. ct_cseq s + int i) [0..<length rs]" "ct_cseq s1 = ct_cseq s + int (length rs)"
      "ct_requests s2 = ct_requests s1 @ rs'" "map fst rs' = ms'"
      "map (fst \<circ> snd) rs' = map (\<lambda>i. ct_cseq s1 + int i) [0..<length rs']" "ct_cseq s2 = ct_cseq s1 + int (length rs')"
    using assms by (auto simp: requested_def)
  have "map (\<lambda>i. ct_cseq s + int i) [0..<length rs + length rs'] =
      map (\<lambda>i. ct_cseq s + int i) [0..<length rs] @ map (\<lambda>i. ct_cseq s1 + int i) [0..<length rs']"
    unfolding map_upt_add r(4) by (simp add: ac_simps)
  with r show ?thesis unfolding requested_def by (intro exI [of _ "rs @ rs'"]) simp
qed

lemma exchange_requested:
  "setup_exchange env m path content ct s = (r, s') \<Longrightarrow> requested [m] s s'"
  by (auto simp: setup_exchange_def requested_def Let_def split: prod.splits)

lemma setup_request_requested: "setup_request env content s = (r, s') \<Longrightarrow> requested [''SETUP''] s s'"
  unfolding setup_request_def by (rule exchange_requested)

lemma info_requested: "setup_info env files s = (r, s') \<Longrightarrow> requested [''POST''] s s'"
  by (auto simp: setup_info_def Let_def split: prod.splits option.splits dest: exchange_requested)

lemma session_requested:
  "setup_session env s = (r, s') \<Longrightarrow> requested [''SETUP''] s s' \<or> (r = None \<and> requested [] s s')"
  by (auto simp: setup_session_def Let_def split: prod.splits option.splits if_splits dest: setup_request_requested)

lemma microphone_requested:
  "setup_microphone env s = (r, s') \<Longrightarrow> requested [''SETUP''] s s' \<or> requested [] s s'"
  by (auto simp: setup_microphone_def Let_def split: prod.splits option.splits if_splits dest: setup_request_requested)

lemma media_requested:
  "setup_media env capabilities s = (r, s') \<Longrightarrow> requested [''SETUP''] s s' \<or> requested [] s s'"
  by (auto simp: setup_media_def Let_def split: prod.splits option.splits if_splits dest: setup_request_requested)

lemma auxiliary_requested:
  "setup_auxiliary_audio env wanted supported random audio_type s = (r, s') \<Longrightarrow>
     requested [''SETUP''] s s' \<or> requested [] s s'"
  by (auto simp: setup_auxiliary_audio_def Let_def split: prod.splits option.splits if_splits dest: setup_request_requested)

lemma screen_requested:
  "setup_screen env s = (r, s') \<Longrightarrow> requested [''SETUP''] s s' \<or> (r = None \<and> requested [] s s')"
  by (auto simp: setup_screen_def split: prod.splits option.splits dest: setup_request_requested)

lemma record_requested: "setup_record env s = (r, s') \<Longrightarrow> requested [''RECORD''] s s'"
  by (auto simp: setup_record_def split: prod.splits dest: exchange_requested)

definition setups :: "nat \<Rightarrow> 'n control \<Rightarrow> 'n control \<Rightarrow> bool" where
  "setups a s s' = (\<exists>k\<le>a. requested (replicate k ''SETUP'') s s')"

lemma setups_refl: "setups 0 s s"
  by (simp add: setups_def)

lemma setups_step:
  assumes "setups a s s1" "requested [''SETUP''] s1 s2 \<or> requested [] s1 s2"
  shows "setups (Suc a) s s2"
proof -
  obtain k where k: "k \<le> a" "requested (replicate k ''SETUP'') s s1" using assms(1) by (auto simp: setups_def)
  from assms(2) show ?thesis
  proof
    assume "requested [''SETUP''] s1 s2"
    from requested_trans [OF k(2) this] k(1) show ?thesis
      unfolding setups_def by (intro exI [of _ "Suc k"]) (simp add: replicate_append_same)
  next
    assume "requested [] s1 s2"
    from requested_trans [OF k(2) this] k(1) show ?thesis unfolding setups_def by (intro exI [of _ k]) simp
  qed
qed

text \<open>What the set-up of the streams asks for: at most five SETUP, and RECORD once all is set up.\<close>

lemma streams_requested:
  assumes "setup_streams env capabilities s = (r, s')"
  shows "\<exists>k\<le>5. requested (replicate k ''SETUP'') s s' \<and> r = None \<or> 1 \<le> k \<and> requested (replicate k ''SETUP'' @ [''RECORD'']) s s'"
proof -
  obtain mic s1 where mic: "setup_microphone env s = (mic, s1)" by fastforce
  note 1 = setups_step [OF setups_refl microphone_requested [OF mic]]
  obtain media s2 where media: "setup_media env capabilities s1 = (media, s2)" by fastforce
  note 2 = setups_step [OF 1 media_requested [OF media]]
  show ?thesis
  proof (cases media)
    case None
    with assms mic media have "r = None" "s' = s2" by (simp_all add: setup_streams_def)
    moreover obtain k where "k \<le> 2" "requested (replicate k ''SETUP'') s s2"
      using 2 by (auto simp: setups_def numeral_2_eq_2)
    ultimately show ?thesis by (intro exI [of _ k]) simp
  next
    case (Some m)
    obtain guidance s3 where guidance: "setup_auxiliary_audio env (se_guidance env)
        (case capabilities of None \<Rightarrow> False | Some p \<Rightarrow> hc_guidance p) (se_guidance_random env) ''default'' s2 = (guidance, s3)" by fastforce
    note 3 = setups_step [OF 2 auxiliary_requested [OF guidance]]
    obtain sys s4 where sys: "setup_auxiliary_audio env (se_system env)
        (case capabilities of None \<Rightarrow> False | Some p \<Rightarrow> hc_system p) (se_system_random env) ''alert'' s3 = (sys, s4)" by fastforce
    obtain k where k: "k \<le> 4" "requested (replicate k ''SETUP'') s s4"
      using setups_step [OF 3 auxiliary_requested [OF sys]] by (auto simp: setups_def eval_nat_numeral)
    obtain screen s5 where screen: "setup_screen env s4 = (screen, s5)" by fastforce
    note steps = mic media guidance sys screen Some
    show ?thesis
    proof (cases screen)
      case None
      with assms steps have "r = None" "s' = s5" by (simp_all add: setup_streams_def)
      moreover from setups_step [of k s s4 s5] k(2) screen_requested [OF screen] have "setups (Suc k) s s5"
        by (auto simp: setups_def)
      then obtain l where "l \<le> Suc k" "requested (replicate l ''SETUP'') s s5" by (auto simp: setups_def)
      ultimately show ?thesis using k(1) by (intro exI [of _ l]) simp
    next
      case (Some p)
      with screen_requested [OF screen] have "requested [''SETUP''] s4 s5" by simp
      from requested_trans [OF k(2) this] have 5: "requested (replicate (Suc k) ''SETUP'') s s5"
        by (simp add: replicate_append_same)
      obtain ok s6 where rec: "setup_record env s5 = (ok, s6)" by fastforce
      with assms steps Some have "s' = s6" by (auto simp: setup_streams_def split: bool.splits)
      with requested_trans [OF 5 record_requested [OF rec]] k(1) show ?thesis by (intro exI [of _ "Suc k"]) simp
    qed
  qed
qed

section \<open>What a stream is when it begins\<close>

definition stream_ok :: "'n setup_env \<Rightarrow> stream option \<Rightarrow> bool" where
  "stream_ok env st = (case st of None \<Rightarrow> True | Some (port, key) \<Rightarrow> port \<noteq> 0 \<and> length key = 32)"

lemma port_not_zero:
  fixes port :: u64
  assumes "port \<noteq> 0" "\<not> port > 0xffff"
  shows "(ucast port :: u16) \<noteq> 0"
proof
  assume "(ucast port :: u16) = 0"
  then have "unat (ucast port :: u16) = 0" by simp
  moreover have "unat port \<le> 65535" using assms(2) by (simp add: word_le_nat_alt not_less)
  then have "take_bit 16 (unat port) = unat port" by (intro take_bit_nat_eq_self) simp
  ultimately have "unat port = 0" by (simp add: unsigned_ucast_eq)
  with assms(1) show False by (simp add: word_unat_eq_iff)
qed

lemma stream_port_not_zero: "stream_port r = Some port \<Longrightarrow> port \<noteq> 0"
  by (auto simp: stream_port_def split: option.splits plist.splits list.splits if_splits dest: port_not_zero)

lemma microphone_ok: "setup_microphone env s = (r, s') \<Longrightarrow> stream_ok env r"
  by (auto simp: setup_microphone_def stream_ok_def Let_def split: prod.splits option.splits if_splits dest!: stream_port_not_zero)

lemma media_ok:
  "setup_media env capabilities s = (Some r, s') \<Longrightarrow>
     stream_ok env r \<and> (r \<noteq> None \<longrightarrow> se_media env \<and> (\<exists>p. capabilities = Some p \<and> hc_media p))"
  by (auto simp: setup_media_def stream_ok_def Let_def split: prod.splits option.splits if_splits dest!: stream_port_not_zero)

lemma auxiliary_ok:
  "setup_auxiliary_audio env wanted supported random audio_type s = (r, s') \<Longrightarrow>
     stream_ok env r \<and> (r \<noteq> None \<longrightarrow> wanted \<and> supported)"
  by (auto simp: setup_auxiliary_audio_def stream_ok_def Let_def split: prod.splits option.splits if_splits dest!: stream_port_not_zero)

lemma screen_ok: "setup_screen env s = (Some (port, stream_id), s') \<Longrightarrow> port \<noteq> 0 \<and> stream_id \<noteq> 0"
  by (auto simp: setup_screen_def random_stream_connection_id_def split: prod.splits option.splits if_splits dest!: stream_port_not_zero)

definition streams_ok :: "'n setup_env \<Rightarrow> head_unit_capabilities option \<Rightarrow> session_streams \<Rightarrow> bool" where
  "streams_ok env capabilities st \<longleftrightarrow>
     stream_ok env (sn_microphone st) \<and> stream_ok env (sn_media st) \<and> stream_ok env (sn_guidance st) \<and> stream_ok env (sn_system st) \<and>
     fst (sn_screen st) \<noteq> 0 \<and> snd (sn_screen st) \<noteq> 0 \<and>
     (sn_media st \<noteq> None \<longrightarrow> se_media env \<and> (\<exists>p. capabilities = Some p \<and> hc_media p)) \<and>
     (sn_guidance st \<noteq> None \<longrightarrow> se_guidance env \<and> (\<exists>p. capabilities = Some p \<and> hc_guidance p)) \<and>
     (sn_system st \<noteq> None \<longrightarrow> se_system env \<and> (\<exists>p. capabilities = Some p \<and> hc_system p))"

lemma setup_streams_ok:
  assumes "setup_streams env capabilities s = (Some st, s')"
  shows "streams_ok env capabilities st"
proof -
  obtain mic s1 where mic: "setup_microphone env s = (mic, s1)" by fastforce
  obtain media s2 where media: "setup_media env capabilities s1 = (Some media, s2)"
    using assms mic by (cases "setup_media env capabilities s1") (auto simp: setup_streams_def split: option.splits)
  let ?guided = "case capabilities of None \<Rightarrow> False | Some p \<Rightarrow> hc_guidance p"
    and ?systemed = "case capabilities of None \<Rightarrow> False | Some p \<Rightarrow> hc_system p"
  obtain guidance s3 where guidance: "setup_auxiliary_audio env (se_guidance env) ?guided (se_guidance_random env) ''default'' s2
      = (guidance, s3)" by fastforce
  obtain sys s4 where sys: "setup_auxiliary_audio env (se_system env) ?systemed (se_system_random env) ''alert'' s3 = (sys, s4)"
    by fastforce
  obtain port stream_id s5 where screen: "setup_screen env s4 = (Some (port, stream_id), s5)"
    using assms mic media guidance sys by (cases "setup_screen env s4") (auto simp: setup_streams_def split: option.splits)
  have "st = \<lparr>sn_microphone = mic, sn_media = media, sn_guidance = guidance, sn_system = sys, sn_screen = (port, stream_id)\<rparr>"
    using assms mic media guidance sys screen by (auto simp: setup_streams_def split: prod.splits bool.splits)
  moreover have "?guided \<Longrightarrow> \<exists>p. capabilities = Some p \<and> hc_guidance p" "?systemed \<Longrightarrow> \<exists>p. capabilities = Some p \<and> hc_system p"
    by (simp_all split: option.splits)
  ultimately show ?thesis
    using microphone_ok [OF mic] media_ok [OF media] auxiliary_ok [OF guidance] auxiliary_ok [OF sys] screen_ok [OF screen]
    unfolding streams_ok_def by simp
qed

section \<open>The session as a whole\<close>

lemma run_streams_requests:
  assumes "run_streams env files s = (outcome, files', s')"
  shows "case outcome of
      None \<Rightarrow> requested [''POST''] s s' \<or> requested [''POST'', ''SETUP''] s s'
    | Some (event, st) \<Rightarrow>
        (\<exists>k\<le>5. requested ([''POST'', ''SETUP''] @ replicate k ''SETUP'' @ [''TEARDOWN'']) s s' \<and> st = None \<or>
               1 \<le> k \<and> requested ([''POST'', ''SETUP''] @ replicate k ''SETUP'' @ [''RECORD'', ''TEARDOWN'']) s s')"
proof -
  obtain info s1 where info: "setup_info env files s = (info, s1)" by fastforce
  note 1 = info_requested [OF info]
  show ?thesis
  proof (cases info)
    case None
    with assms info 1 show ?thesis by (simp add: run_streams_def)
  next
    case (Some i)
    obtain capabilities files1 where i: "i = (capabilities, files1)" by fastforce
    obtain event s2 where session: "setup_session env s1 = (event, s2)" by fastforce
    show ?thesis
    proof (cases event)
      case None
      with assms info Some i session have "outcome = None" "s' = s2" by (simp_all add: run_streams_def)
      with requested_trans [OF 1] session_requested [OF session] show ?thesis by fastforce
    next
      case ev: (Some e)
      have 2: "requested [''POST'', ''SETUP''] s s2"
        using requested_trans [OF 1, of "[''SETUP'']" s2] session_requested [OF session] ev by simp
      obtain st s3 where all: "setup_streams env capabilities s2 = (st, s3)" by fastforce
      obtain r where "setup_exchange env ''TEARDOWN'' stream_uri [] ''application/octet-stream'' s3 = (r, send_teardown env s3)"
        unfolding send_teardown_def by (metis prod.collapse)
      note down = exchange_requested [OF this]
      have res: "outcome = Some (e, st)" "s' = send_teardown env s3"
        using assms info Some i session ev all by (simp_all add: run_streams_def)
      from streams_requested [OF all] obtain k where k: "k \<le> 5"
        "requested (replicate k ''SETUP'') s2 s3 \<and> st = None \<or> 1 \<le> k \<and> requested (replicate k ''SETUP'' @ [''RECORD'']) s2 s3" by auto
      then show ?thesis
      proof (elim disjE conjE)
        assume "requested (replicate k ''SETUP'') s2 s3" "st = None"
        with requested_trans [OF requested_trans [OF 2 this(1)] down] res k(1) show ?thesis by auto
      next
        assume "1 \<le> k" "requested (replicate k ''SETUP'' @ [''RECORD'']) s2 s3"
        with requested_trans [OF requested_trans [OF 2 this(2)] down] res k(1) show ?thesis
          by (cases st) auto
      qed
    qed
  qed
qed

section \<open>Properties\<close>


text \<open>
  The streams of a session can be used and were agreed.  Once RECORD is accepted every stream has a port and a key of 32
  bytes, the screen a stream identifier, and media, guidance and system audio run only if they were asked for and
  the answer to \<open>/info\<close> of this session says that the head unit plays their format.
\<close>

theorem streams_agreed:
  assumes "run_streams env files s = (Some (event, Some st), files', s')"
  shows "\<exists>capabilities files1 s1. setup_info env files s = (Some (capabilities, files1), s1) \<and> streams_ok env capabilities st \<and>
    ev_port event \<noteq> 0 \<and> length (ev_read_key event) = 32 \<and> length (ev_write_key event) = 32"
proof -
  obtain capabilities files1 s1 where info: "setup_info env files s = (Some (capabilities, files1), s1)"
    using assms by (cases "setup_info env files s") (auto simp: run_streams_def split: option.splits)
  obtain s2 where session: "setup_session env s1 = (Some event, s2)"
    using assms info by (cases "setup_session env s1") (auto simp: run_streams_def split: option.splits prod.splits)
  obtain s3 where all: "setup_streams env capabilities s2 = (Some st, s3)"
    using assms info session by (cases "setup_streams env capabilities s2") (auto simp: run_streams_def)
  have "ev_port event \<noteq> 0 \<and> length (ev_read_key event) = 32 \<and> length (ev_write_key event) = 32"
    using session
    by (auto simp: setup_session_def Let_def split: option.splits prod.splits if_splits dest: port_not_zero)
  with info setup_streams_ok [OF all] show ?thesis by blast
qed

end
