(* ===== verification/Airplay_Setup_Live.thy ===== *)
theory Airplay_Setup_Live
  imports Airplay_Setup_Props
begin

text \<open>
  With a head unit that answers every request, the session is set up: the requests fit their frames,
  every answer is read however it is cut, and each stream that is wanted and supported gets the
  port it was given.
\<close>

section \<open>Sizes of the requests\<close>

lemma length_table_bytes: "length (table_bytes sz offs) = sz * length offs"
  by (simp add: table_bytes_def concat_be_length)

lemma encode_size: "length (encode_bplist v) \<le> 26 * nodes_of v + data_of v + 40"
proof -
  define N where "N = flat 0 v"
  define rs where "rs = bytes_for (of_nat (length N - 1))"
  define table where "table = 8 + length (body rs N)"
  define sz where "sz = bytes_for (of_nat table)"
  have bounds: "rs \<le> 8" "sz \<le> 8" by (simp_all add: rs_def sz_def)
  have b: "length (body rs N) + 8 \<le> 18 * nodes_of v + data_of v"
    using body_length(1) [OF bounds(1)] by (simp add: N_def)
  have "sz * nodes_of v \<le> 8 * nodes_of v" using bounds(2) by simp
  moreover have "encode_bplist v = magic @ body rs N @ table_bytes sz (node_offsets rs 8 N) @ trailer_bytes sz rs (length N) table"
    using finish_eq [OF rs_def table_def sz_def] by (simp add: encode_bplist_def add_eq N_def [symmetric])
  then have "length (encode_bplist v) = 8 + length (body rs N) + sz * nodes_of v + 32"
    by (simp add: length_table_bytes trailer_bytes_def N_def length_flat)
  ultimately show ?thesis using b by linarith
qed

lemma nat_to_string_length: "n < 10 ^ Suc k \<Longrightarrow> length (nat_to_string n) \<le> Suc k"
proof (induction k arbitrary: n)
  case 0
  then show ?case by (subst nat_to_string.simps) simp
next
  case (Suc k)
  show ?case
  proof (cases "n < 10")
    case True
    then show ?thesis by (subst nat_to_string.simps) simp
  next
    case False
    have "n div 10 < 10 ^ Suc k" using Suc.prems by simp
    from Suc.IH [OF this] False show ?thesis by (subst nat_to_string.simps) simp
  qed
qed

definition small_request :: "string \<Rightarrow> string \<Rightarrow> bytes \<Rightarrow> string \<Rightarrow> bool" where
  "small_request rmethod path content content_type =
     (length rmethod \<le> 100 \<and> length path \<le> 100 \<and> length content_type \<le> 100 \<and> length content \<le> 60000)"

lemma request_size:
  assumes "small_request rmethod path content content_type" "k < 90"
  shows "length (encode_request rmethod path (int k + 6) content content_type []) \<le> 65535"
proof -
  have "length (nat_to_string (length content)) \<le> 5"
    using assms(1) nat_to_string_length [of "length content" 4] by (simp add: small_request_def)
  moreover have "length (int_to_string (int k + 6)) \<le> 2"
    using assms(2) nat_to_string_length [of "k + 6" 1] by (simp add: int_to_string_def nat_add_distrib)
  ultimately show ?thesis
    using assms(1) by (simp add: encode_request_def encode_request_headers_def small_request_def)
qed

section \<open>One request and its answer\<close>

definition answer_headers :: "nat \<Rightarrow> (string \<times> string) list" where
  "answer_headers k = [(''CSeq'', int_to_string (int k + 6))]"

definition answer_text :: "nat \<Rightarrow> bytes \<Rightarrow> bytes" where
  "answer_text k content = render_response 200 ''OK'' (answer_headers k) content"

lemma answer_headers_ok:
  assumes "length content \<le> 60000" "k < 90"
  shows "answer_ok (Some (int k + 6)) 200 ''OK'' (answer_headers k) content" "frame_ok (answer_text k content)"
proof -
  have "int_to_string (int k + 6) = nat_to_string (k + 6)"
    by (simp add: int_to_string_def nat_add_distrib nat_int_add)
  then have h: "answer_headers k = [(''CSeq'', nat_to_string (k + 6))]" by (simp add: answer_headers_def)
  have digits: "length (nat_to_string (k + 6)) \<le> 2" "length (nat_to_string (length content)) \<le> 5"
    using assms nat_to_string_length [of "k + 6" 1] nat_to_string_length [of "length content" 4] by simp_all
  have status: "length (nat_to_string 200) \<le> 3" using nat_to_string_length [of 200 2] by simp
  have size: "length (answer_text k content) \<le> length content + 100"
    using digits status by (simp add: answer_text_def render_response_def h)
  have low: "lower ''CSeq'' = ''cseq''" by code_simp
  have ok: "response_ok 200 ''OK'' (answer_headers k) content"
    using assms(1) nat_to_string_ends [of "k + 6"] digit_not_in_nat_to_string [of "CHR 0x0D" "k + 6"]
    by (simp add: response_ok_def h no_cr_def request_header_ok_def trimmed_def is_blank_def kMaxContentLength_def low)
  show "answer_ok (Some (int k + 6)) 200 ''OK'' (answer_headers k) content"
    using ok size assms(1) unfolding answer_ok_def answer_text_def [symmetric]
    by (simp add: kMaxResponseBytes_def answer_headers_def low)
  show "frame_ok (answer_text k content)"
    using size assms(1) by (simp add: frame_ok_def) (simp add: answer_text_def render_response_def)
qed

lemma await_waits:
  assumes "aead_correct evp" "length (cc_read_key c) = 32" "length p \<le> 65535"
    and "strict_prefix buffer (frame_of evp (cc_read_key c) (cc_read_counter c, p))"
  shows "rx_frames evp expected c buffer [] = (RxWait, c, buffer, [])"
  using decrypt_one_partial [OF assms] by (simp add: rx_frames.simps [of _ _ _ buffer])

lemma await_answer:
  assumes "aead_correct evp" "length (cc_read_key c) = 32" "k < 90" "length content \<le> 60000"
    and "buffer @ concat chunks = frame_of evp (cc_read_key c) (cc_read_counter c, answer_text k content)"
  shows "await_response evp (Some (int k + 6)) c buffer [] (map RxChunk chunks @ [RxIdle]) =
    (Some (answer 200 ''OK'' (answer_headers k) content), c\<lparr>cc_read_counter := cc_read_counter c + 1\<rparr>, [])"
  using assms(5)
proof (induction chunks arbitrary: buffer)
  note ok = answer_headers_ok [OF assms(4,3)]
  have whole: "rx_frames evp (Some (int k + 6)) c (frame_of evp (cc_read_key c) (cc_read_counter c, answer_text k content)) [] =
      (RxResponse (answer 200 ''OK'' (answer_headers k) content), c\<lparr>cc_read_counter := cc_read_counter c + 1\<rparr>, [], answer_text k content)"
    using rx_frames_frame [OF assms(1,2) ok(2), of "Some (int k + 6)" "[]" "[]"] answer_final [OF ok(1)]
    by (simp add: answer_text_def)
  {
    case Nil
    with whole show ?case by simp
  next
    case (Cons chunk chunks)
    show ?case
    proof (cases "buffer = frame_of evp (cc_read_key c) (cc_read_counter c, answer_text k content)")
      case True
      with whole show ?thesis by simp
    next
      case False
      have "frame_of evp (cc_read_key c) (cc_read_counter c, answer_text k content) = buffer @ chunk @ concat chunks"
        using Cons.prems by simp
      with False have "strict_prefix buffer (frame_of evp (cc_read_key c) (cc_read_counter c, answer_text k content))"
        unfolding strict_prefix_def prefix_def by blast
      from await_waits [OF assms(1,2) _ this] ok(2) Cons.IH [of "buffer @ chunk"] Cons.prems show ?thesis
        by (simp add: frame_ok_def)
    qed
  }
qed

text \<open>The session after \<open>k\<close> requests that were answered.\<close>

definition in_step :: "bytes \<Rightarrow> bytes \<Rightarrow> nat \<Rightarrow> nat control \<Rightarrow> bool" where
  "in_step read_key write_key k s \<longleftrightarrow>
     ct_cseq s = int k + 6 \<and> ct_peer s = k \<and> ct_buffer s = [] \<and>
     ct_cipher s = \<lparr>cc_read_key = read_key, cc_write_key = write_key, cc_read_counter = of_nat k, cc_write_counter = of_nat k\<rparr>"

text \<open>The requests of a session: method, path and content type.\<close>

definition request_kinds :: "(string \<times> string \<times> string) set" where
  "request_kinds = {(''POST'', ''/info'', plist_type), (''SETUP'', stream_uri, plist_type),
     (''RECORD'', stream_uri, ''application/octet-stream''), (''TEARDOWN'', stream_uri, ''application/octet-stream'')}"

text \<open>
  A head unit that answers: what it is sent is a request in the frame its counter expects, and it sends one
  frame with status 200, the sequence number of the request and a body, cut in any way.
\<close>

definition head_unit_answers :: "nat setup_env \<Rightarrow> bytes \<Rightarrow> bytes \<Rightarrow> (string \<Rightarrow> bytes \<Rightarrow> bytes) \<Rightarrow> bool" where
  "head_unit_answers env read_key write_key reply \<longleftrightarrow>
     (\<forall>rmethod path content_type content k. (rmethod, path, content_type) \<in> request_kinds \<longrightarrow>
        (\<exists>chunks. se_peer env (frame_of (se_evp env) write_key
             (of_nat k, encode_request rmethod path (int k + 6) content content_type [])) k =
           ((True, map RxChunk chunks @ [RxIdle]), Suc k) \<and>
         concat chunks = frame_of (se_evp env) read_key (of_nat k, answer_text k (reply rmethod content)) \<and>
         length (reply rmethod content) \<le> 60000))"

lemma exchange_answered:
  assumes "aead_correct (se_evp env)" "length read_key = 32" "length write_key = 32"
    and "head_unit_answers env read_key write_key reply"
    and "in_step read_key write_key k s" "k < 90" "(rmethod, path, content_type) \<in> request_kinds" "length content \<le> 60000"
  obtains s' where "setup_exchange env rmethod path content content_type s =
      (Some (answer 200 ''OK'' (answer_headers k) (reply rmethod content)), s')" "in_step read_key write_key (Suc k) s'"
proof -
  let ?request = "encode_request rmethod path (int k + 6) content content_type []"
  note s = assms(5) [unfolded in_step_def]
  from assms(4,7) obtain chunks where peer: "se_peer env (frame_of (se_evp env) write_key (of_nat k, ?request)) k =
      ((True, map RxChunk chunks @ [RxIdle]), Suc k)"
    "concat chunks = frame_of (se_evp env) read_key (of_nat k, answer_text k (reply rmethod content))"
    "length (reply rmethod content) \<le> 60000"
    unfolding head_unit_answers_def by blast
  have small: "small_request rmethod path content content_type"
    using assms(7,8) by (auto simp: small_request_def request_kinds_def plist_type_def stream_uri_def)
  define c where "c = \<lparr>cc_read_key = read_key, cc_write_key = write_key, cc_read_counter = of_nat k, cc_write_counter = of_nat k\<rparr>"
  from request_size [OF small assms(6)] encrypt_frame [OF assms(1), of c ?request]
  have e: "encrypt (se_evp env) ?request c = (Some (frame_of (se_evp env) write_key (of_nat k, ?request)),
      c\<lparr>cc_write_counter := of_nat k + 1\<rparr>)"
    using assms(3) by (simp add: c_def)
  from await_answer [OF assms(1), of "c\<lparr>cc_write_counter := of_nat k + 1\<rparr>" k "reply rmethod content" "[]" chunks]
  have "send_encrypted (se_evp env) c [] ?request (Some (int k + 6)) (\<lambda>_. True) (map RxChunk chunks @ [RxIdle]) =
      (Some (answer 200 ''OK'' (answer_headers k) (reply rmethod content)),
       c\<lparr>cc_write_counter := of_nat k + 1, cc_read_counter := of_nat k + 1\<rparr>, [])"
    using assms(2,6) peer(2,3) by (simp add: send_encrypted_def e) (simp add: c_def)
  note sent = this
  let ?s = "\<lparr>ct_cipher = c\<lparr>cc_write_counter := of_nat k + 1, cc_read_counter := of_nat k + 1\<rparr>, ct_buffer = [],
     ct_cseq = int k + 6 + 1, ct_peer = Suc k, ct_requests = ct_requests s @ [(rmethod, int k + 6, content)]\<rparr>"
  have "ct_cipher s = c" "ct_buffer s = []" "ct_cseq s = int k + 6" "ct_peer s = k" using s by (simp_all add: c_def)
  then have "setup_exchange env rmethod path content content_type s =
      (Some (answer 200 ''OK'' (answer_headers k) (reply rmethod content)), ?s)"
    using peer(1) sent by (simp add: setup_exchange_def Let_def e)
  moreover have "in_step read_key write_key (Suc k) ?s" by (simp add: in_step_def c_def)
  ultimately show thesis by (rule that)
qed

section \<open>The steps of a session that is answered\<close>

text \<open>The surroundings give what is asked of them.\<close>

definition generous :: "nat setup_env \<Rightarrow> bool" where
  "generous env \<longleftrightarrow>
     length (se_controller_id env) \<le> 1024 \<and> se_timing_port env \<noteq> None \<and> se_microphone_port env \<noteq> None \<and>
     random_stream_connection_id (se_microphone_random env) \<noteq> None \<and> random_stream_connection_id (se_media_random env) \<noteq> None \<and>
     random_stream_connection_id (se_guidance_random env) \<noteq> None \<and> random_stream_connection_id (se_system_random env) \<noteq> None \<and>
     random_stream_connection_id (se_screen_random env) \<noteq> None \<and>
     (\<forall>port. se_connect_event env port) \<and> (\<forall>port. se_connect_microphone env port) \<and>
     (\<forall>salt info. length (hkdf_sha512 (se_evp env) (se_shared env) salt info 32) = 32)"

text \<open>What the head unit answers to \<open>/info\<close>, to the SETUP of the session and to that of a stream.\<close>

definition port_value :: "dictionary \<Rightarrow> string \<Rightarrow> u64 \<Rightarrow> bool" where
  "port_value d key port = (integer_at d key = Some port \<and> port \<noteq> 0 \<and> port \<le> 0xffff)"

definition replies_ok :: "nat setup_env \<Rightarrow> (string \<Rightarrow> bytes \<Rightarrow> bytes) \<Rightarrow> dictionary \<Rightarrow> u64 \<Rightarrow> bool" where
  "replies_ok env reply info event_port \<longleftrightarrow>
     (\<forall>content. decode_bplist (reply ''POST'' content) = Some (PDict info)) \<and>
     (\<forall>timing_port. \<exists>d. decode_bplist (reply ''SETUP'' (session_body env timing_port)) = Some (PDict d) \<and>
        integer_at d ''timingPort'' \<noteq> None \<and> port_value d ''eventPort'' event_port) \<and>
     (\<forall>kvs. \<exists>d stream rest port. decode_bplist (reply ''SETUP'' (stream_body kvs)) = Some (PDict d) \<and>
        map_of d ''streams'' = Some (PArray (PDict stream # rest)) \<and> port_value stream ''dataPort'' port)"

definition session_answered ::
    "nat setup_env \<Rightarrow> bytes \<Rightarrow> bytes \<Rightarrow> (string \<Rightarrow> bytes \<Rightarrow> bytes) \<Rightarrow> dictionary \<Rightarrow> u64 \<Rightarrow> bool" where
  "session_answered env read_key write_key reply info event_port \<longleftrightarrow>
     aead_correct (se_evp env) \<and> length read_key = 32 \<and> length write_key = 32 \<and> generous env \<and>
     head_unit_answers env read_key write_key reply \<and> replies_ok env reply info event_port"

lemma answered_exchange:
  assumes "session_answered env rk wk reply info ep" "in_step rk wk k s" "k < 90"
    and "(rmethod, path, content_type) \<in> request_kinds" "length content \<le> 60000"
  obtains s' where "setup_exchange env rmethod path content content_type s =
      (Some (answer 200 ''OK'' (answer_headers k) (reply rmethod content)), s')" "in_step rk wk (Suc k) s'"
  using assms exchange_answered [of env rk wk reply k s rmethod path content_type content]
  unfolding session_answered_def by blast

lemma stream_answered:
  assumes "session_answered env rk wk reply info ep" "in_step rk wk k s" "k < 90" "length (stream_body kvs) \<le> 60000"
  obtains r port s' where "setup_request env (stream_body kvs) s = (r, s')" "stream_port r = Some port" "in_step rk wk (Suc k) s'"
proof -
  have kind: "(''SETUP'', stream_uri, plist_type) \<in> request_kinds" by (simp add: request_kinds_def)
  obtain s' where x: "setup_exchange env ''SETUP'' stream_uri (stream_body kvs) plist_type s =
      (Some (answer 200 ''OK'' (answer_headers k) (reply ''SETUP'' (stream_body kvs))), s')" "in_step rk wk (Suc k) s'"
    by (rule answered_exchange [OF assms(1-3) kind assms(4)])
  from assms(1) obtain d stream rest port where d: "decode_bplist (reply ''SETUP'' (stream_body kvs)) = Some (PDict d)"
      "map_of d ''streams'' = Some (PArray (PDict stream # rest))" "port_value stream ''dataPort'' port"
    unfolding session_answered_def replies_ok_def by blast
  have "stream_port (Some (answer 200 ''OK'' (answer_headers k) (reply ''SETUP'' (stream_body kvs)))) = Some (ucast port)"
    using d by (simp add: stream_port_def response_dictionary_def dictionary_of_def answer_def port_value_def not_less)
  with x show thesis by (intro that) (auto simp: setup_request_def)
qed

lemma stream_body_size:
  "nodes_of (PDict [(''streams'', PArray [PDict kvs])]) \<le> 1000 \<Longrightarrow> data_of (PDict [(''streams'', PArray [PDict kvs])]) \<le> 1000 \<Longrightarrow>
     length (stream_body kvs) \<le> 60000"
  unfolding stream_body_def by (rule order_trans [OF encode_size]) linarith

lemma info_answered:
  assumes "session_answered env rk wk reply info ep" "in_step rk wk k s" "k < 90"
  obtains files' s' where "setup_info env files s = (Some (capabilities_of_info info (se_mac env), files'), s')" "in_step rk wk (Suc k) s'"
proof -
  have "length (info_body env) \<le> 60000"
    using assms(1) unfolding info_body_def
    by (intro order_trans [OF encode_size]) (simp add: session_answered_def generous_def)
  moreover have "(''POST'', ''/info'', plist_type) \<in> request_kinds" by (simp add: request_kinds_def)
  ultimately obtain s' where x: "setup_exchange env ''POST'' ''/info'' (info_body env) plist_type s =
      (Some (answer 200 ''OK'' (answer_headers k) (reply ''POST'' (info_body env))), s')" "in_step rk wk (Suc k) s'"
    using answered_exchange [OF assms] by metis
  have "response_dictionary (Some (answer 200 ''OK'' (answer_headers k) (reply ''POST'' (info_body env)))) = Some info"
    using assms(1) by (simp add: session_answered_def replies_ok_def response_dictionary_def dictionary_of_def answer_def)
  with x show thesis by (intro that) (simp_all add: setup_info_def Let_def)
qed

lemma session_step_answered:
  assumes "session_answered env rk wk reply info ep" "in_step rk wk k s" "k < 90"
  obtains event s' where "setup_session env s = (Some event, s')" "ev_port event = ucast ep" "in_step rk wk (Suc k) s'"
proof -
  obtain tp where tp: "se_timing_port env = Some tp" using assms(1) by (auto simp: session_answered_def generous_def)
  have "length (session_body env tp) \<le> 60000"
    using assms(1) unfolding session_body_def
    by (intro order_trans [OF encode_size]) (simp add: session_answered_def generous_def)
  moreover have "(''SETUP'', stream_uri, plist_type) \<in> request_kinds" by (simp add: request_kinds_def)
  ultimately obtain s' where x: "setup_exchange env ''SETUP'' stream_uri (session_body env tp) plist_type s =
      (Some (answer 200 ''OK'' (answer_headers k) (reply ''SETUP'' (session_body env tp))), s')" "in_step rk wk (Suc k) s'"
    using answered_exchange [OF assms] by metis
  from assms(1) obtain d where d: "decode_bplist (reply ''SETUP'' (session_body env tp)) = Some (PDict d)"
      "integer_at d ''timingPort'' \<noteq> None" "port_value d ''eventPort'' ep"
    unfolding session_answered_def replies_ok_def by blast
  have "response_dictionary (Some (answer 200 ''OK'' (answer_headers k) (reply ''SETUP'' (session_body env tp)))) = Some d"
    using d by (simp add: response_dictionary_def dictionary_of_def answer_def)
  with x d tp assms(1) show thesis
    by (intro that [of "\<lparr>ev_port = ucast ep,
          ev_read_key = hkdf_sha512 (se_evp env) (se_shared env) ''Events-Salt'' ''Events-Write-Encryption-Key'' 32,
          ev_write_key = hkdf_sha512 (se_evp env) (se_shared env) ''Events-Salt'' ''Events-Read-Encryption-Key'' 32\<rparr>" s'])
       (auto simp: setup_session_def setup_request_def port_value_def session_answered_def generous_def Let_def not_less)
qed

text \<open>The state after at most one more request.\<close>

definition further :: "bytes \<Rightarrow> bytes \<Rightarrow> nat \<Rightarrow> nat control \<Rightarrow> bool" where
  "further rk wk k s = (\<exists>k'\<le>k. in_step rk wk k' s)"

lemma furtherI: "in_step rk wk k s \<Longrightarrow> further rk wk (Suc k) s" "in_step rk wk (Suc k) s \<Longrightarrow> further rk wk (Suc k) s"
  by (auto simp: further_def intro: le_SucI)

lemma microphone_answered:
  assumes "session_answered env rk wk reply info ep" "in_step rk wk k s" "k < 90"
  shows "\<exists>r s'. setup_microphone env s = (r, s') \<and> (r \<noteq> None \<longleftrightarrow> se_microphone env) \<and> further rk wk (Suc k) s'"
proof (cases "se_microphone env")
  case False
  with assms(2) show ?thesis by (simp add: setup_microphone_def furtherI)
next
  case True
  obtain lp stream_id where g: "se_microphone_port env = Some lp" "random_stream_connection_id (se_microphone_random env) = Some stream_id"
      "se_connect_microphone env port" "length (stream_key env stream_id input_key) = 32" for port
    using assms(1) by (auto simp: session_answered_def generous_def stream_key_def)
  have "length (stream_body [(''audioFormat'', PInt 0x10), (''audioType'', PText ''default''), (''dataPort'', PInt (ucast lp)),
      (''input'', PBool True), (''streamConnectionID'', PInt stream_id), (''type'', PInt 100)]) \<le> 60000"
    by (rule stream_body_size) simp_all
  from stream_answered [OF assms this] obtain r port s' where
    "setup_request env (stream_body [(''audioFormat'', PInt 0x10), (''audioType'', PText ''default''), (''dataPort'', PInt (ucast lp)),
      (''input'', PBool True), (''streamConnectionID'', PInt stream_id), (''type'', PInt 100)]) s = (r, s')"
    "stream_port r = Some port" "in_step rk wk (Suc k) s'" by blast
  with True g show ?thesis by (simp add: setup_microphone_def furtherI)
qed

lemma media_answered:
  assumes "session_answered env rk wk reply info ep" "in_step rk wk k s" "k < 90"
  shows "\<exists>r s'. setup_media env capabilities s = (Some r, s') \<and>
    (r \<noteq> None \<longleftrightarrow> se_media env \<and> (\<exists>p. capabilities = Some p \<and> hc_media p)) \<and> further rk wk (Suc k) s'"
proof (cases "se_media env \<and> (\<exists>p. capabilities = Some p \<and> hc_media p)")
  case False
  with assms(2) show ?thesis by (auto simp: setup_media_def furtherI split: option.splits)
next
  case True
  obtain stream_id where g: "random_stream_connection_id (se_media_random env) = Some stream_id"
      "length (stream_key env stream_id output_key) = 32"
    using assms(1) by (auto simp: session_answered_def generous_def stream_key_def)
  have "length (stream_body [(''audioFormat'', PInt 0x8000), (''audioType'', PText ''media''), (''streamConnectionID'', PInt stream_id),
      (''type'', PInt 100)]) \<le> 60000"
    by (rule stream_body_size) simp_all
  from stream_answered [OF assms this] obtain r port s' where
    "setup_request env (stream_body [(''audioFormat'', PInt 0x8000), (''audioType'', PText ''media''), (''streamConnectionID'', PInt stream_id),
      (''type'', PInt 100)]) s = (r, s')" "stream_port r = Some port" "in_step rk wk (Suc k) s'" by blast
  with True g show ?thesis by (auto simp: setup_media_def furtherI)
qed

lemma auxiliary_answered:
  assumes "session_answered env rk wk reply info ep" "in_step rk wk k s" "k < 90" "random_stream_connection_id random \<noteq> None"
    and "length audio_type \<le> 100"
  shows "\<exists>r s'. setup_auxiliary_audio env wanted supported random audio_type s = (r, s') \<and> (r \<noteq> None \<longleftrightarrow> wanted \<and> supported) \<and>
    further rk wk (Suc k) s'"
proof (cases "wanted \<and> supported")
  case False
  with assms(2) show ?thesis by (auto simp: setup_auxiliary_audio_def furtherI)
next
  case True
  obtain stream_id where g: "random_stream_connection_id random = Some stream_id" using assms(4) by auto
  have key: "length (stream_key env stream_id output_key) = 32"
    using assms(1) by (auto simp: session_answered_def generous_def stream_key_def)
  have "length (stream_body [(''audioFormat'', PInt 0x10), (''audioType'', PText audio_type), (''streamConnectionID'', PInt stream_id),
      (''type'', PInt 100)]) \<le> 60000"
    by (rule stream_body_size) (use assms(5) in simp_all)
  from stream_answered [OF assms(1-3) this] obtain r port s' where
    "setup_request env (stream_body [(''audioFormat'', PInt 0x10), (''audioType'', PText audio_type), (''streamConnectionID'', PInt stream_id),
      (''type'', PInt 100)]) s = (r, s')" "stream_port r = Some port" "in_step rk wk (Suc k) s'" by blast
  with True g key show ?thesis by (auto simp: setup_auxiliary_audio_def furtherI)
qed

lemma screen_answered:
  assumes "session_answered env rk wk reply info ep" "in_step rk wk k s" "k < 90"
  shows "\<exists>p s'. setup_screen env s = (Some p, s') \<and> in_step rk wk (Suc k) s'"
proof -
  obtain stream_id where g: "random_stream_connection_id (se_screen_random env) = Some stream_id"
    using assms(1) by (auto simp: session_answered_def generous_def)
  have "length (stream_body [(''streamConnectionID'', PInt stream_id), (''type'', PInt 110)]) \<le> 60000"
    by (rule stream_body_size) simp_all
  from stream_answered [OF assms this] obtain r port s' where
    "setup_request env (stream_body [(''streamConnectionID'', PInt stream_id), (''type'', PInt 110)]) s = (r, s')"
    "stream_port r = Some port" "in_step rk wk (Suc k) s'" by blast
  with g show ?thesis by (auto simp: setup_screen_def)
qed

lemma record_answered:
  assumes "session_answered env rk wk reply info ep" "in_step rk wk k s" "k < 90"
  shows "\<exists>s'. setup_record env s = (True, s') \<and> in_step rk wk (Suc k) s'"
proof -
  have kind: "(''RECORD'', stream_uri, ''application/octet-stream'') \<in> request_kinds" by (simp add: request_kinds_def)
  obtain s' where x: "setup_exchange env ''RECORD'' stream_uri [] ''application/octet-stream'' s =
      (Some (answer 200 ''OK'' (answer_headers k) (reply ''RECORD'' [])), s')" "in_step rk wk (Suc k) s'"
    by (rule answered_exchange [OF assms kind, of "[]"]) simp_all
  then show ?thesis by (auto simp: setup_record_def answer_def)
qed

text \<open>Which streams a session has that was set up.\<close>

definition streams_complete :: "'n setup_env \<Rightarrow> head_unit_capabilities option \<Rightarrow> session_streams \<Rightarrow> bool" where
  "streams_complete env capabilities st \<longleftrightarrow>
     (sn_microphone st \<noteq> None \<longleftrightarrow> se_microphone env) \<and>
     (sn_media st \<noteq> None \<longleftrightarrow> se_media env \<and> (\<exists>p. capabilities = Some p \<and> hc_media p)) \<and>
     (sn_guidance st \<noteq> None \<longleftrightarrow> se_guidance env \<and> (\<exists>p. capabilities = Some p \<and> hc_guidance p)) \<and>
     (sn_system st \<noteq> None \<longleftrightarrow> se_system env \<and> (\<exists>p. capabilities = Some p \<and> hc_system p))"

lemma streams_answered:
  assumes ok: "session_answered env rk wk reply info ep" and s: "in_step rk wk 2 s"
  shows "\<exists>st s'. setup_streams env capabilities s = (Some st, s') \<and> streams_complete env capabilities st"
proof -
  let ?guided = "case capabilities of None \<Rightarrow> False | Some p \<Rightarrow> hc_guidance p"
    and ?systemed = "case capabilities of None \<Rightarrow> False | Some p \<Rightarrow> hc_system p"
  have random: "random_stream_connection_id (se_guidance_random env) \<noteq> None" "random_stream_connection_id (se_system_random env) \<noteq> None"
    using ok by (auto simp: session_answered_def generous_def)
  obtain mic s1 k1 where mic: "setup_microphone env s = (mic, s1)" "mic \<noteq> None \<longleftrightarrow> se_microphone env" "in_step rk wk k1 s1" "k1 \<le> 3"
    using microphone_answered [OF ok s] by (auto simp: further_def)
  obtain media s2 k2 where media: "setup_media env capabilities s1 = (Some media, s2)"
      "media \<noteq> None \<longleftrightarrow> se_media env \<and> (\<exists>p. capabilities = Some p \<and> hc_media p)" "in_step rk wk k2 s2" "k2 \<le> 4"
    using media_answered [OF ok mic(3), of capabilities] mic(4) unfolding further_def by force
  obtain guidance s3 k3 where guidance: "setup_auxiliary_audio env (se_guidance env) ?guided (se_guidance_random env) ''default'' s2
      = (guidance, s3)" "guidance \<noteq> None \<longleftrightarrow> se_guidance env \<and> ?guided" "in_step rk wk k3 s3" "k3 \<le> 5"
    using auxiliary_answered [OF ok media(3) _ random(1), of "''default''" "se_guidance env" ?guided] media(4) unfolding further_def by force
  obtain sys s4 k4 where sys: "setup_auxiliary_audio env (se_system env) ?systemed (se_system_random env) ''alert'' s3 = (sys, s4)"
      "sys \<noteq> None \<longleftrightarrow> se_system env \<and> ?systemed" "in_step rk wk k4 s4" "k4 \<le> 6"
    using auxiliary_answered [OF ok guidance(3) _ random(2), of "''alert''" "se_system env" ?systemed] guidance(4) unfolding further_def by force
  obtain screen s5 where screen: "setup_screen env s4 = (Some screen, s5)" "in_step rk wk (Suc k4) s5"
    using screen_answered [OF ok sys(3)] sys(4) by auto
  obtain s6 where rec: "setup_record env s5 = (True, s6)" using record_answered [OF ok screen(2)] sys(4) by auto
  have "setup_streams env capabilities s =
      (Some \<lparr>sn_microphone = mic, sn_media = media, sn_guidance = guidance, sn_system = sys, sn_screen = screen\<rparr>, s6)"
    using mic(1) media(1) guidance(1) sys(1) screen(1) rec by (simp add: setup_streams_def)
  moreover have "?guided \<longleftrightarrow> (\<exists>p. capabilities = Some p \<and> hc_guidance p)" "?systemed \<longleftrightarrow> (\<exists>p. capabilities = Some p \<and> hc_system p)"
    by (simp_all split: option.splits)
  ultimately show ?thesis using mic(2) media(2) guidance(2) sys(2) by (simp add: streams_complete_def)
qed

lemma session_is_established:
  assumes ok: "session_answered env rk wk reply info ep"
  shows "\<exists>event st. fst (run_streams env files (new_control rk wk 0)) = Some (event, Some st) \<and> ev_port event = ucast ep \<and>
    streams_complete env (capabilities_of_info info (se_mac env)) st"
proof -
  have 0: "in_step rk wk 0 (new_control rk wk 0)" by (simp add: in_step_def new_control_def new_cipher_def)
  obtain files1 s1 where info: "setup_info env files (new_control rk wk 0) = (Some (capabilities_of_info info (se_mac env), files1), s1)"
      "in_step rk wk 1 s1"
    by (rule info_answered [OF ok 0, of files]) simp_all
  obtain event s2 where session: "setup_session env s1 = (Some event, s2)" "ev_port event = ucast ep" "in_step rk wk 2 s2"
    by (rule session_step_answered [OF ok info(2)]) (simp_all add: numeral_2_eq_2)
  obtain st s3 where all: "setup_streams env (capabilities_of_info info (se_mac env)) s2 = (Some st, s3)"
      "streams_complete env (capabilities_of_info info (se_mac env)) st"
    using streams_answered [OF ok session(3)] by blast
  show ?thesis using info(1) session(1,2) all by (simp add: run_streams_def)
qed

section \<open>Properties\<close>

text \<open>
  C25: A session is set up.  With a head unit that answers every request with status 200, in one encrypted frame that
  TCP cuts in any way, the bridge has the event channel on the port it was told, the screen, the microphone if there is one to
  feed, and media, guidance and system audio exactly as far as they are wanted and the head unit plays them.
\<close>

theorem session_established:
  assumes "session_answered env read_key write_key reply info event_port"
  shows "\<exists>event st. fst (run_streams env files (new_control read_key write_key 0)) = Some (event, Some st) \<and>
    ev_port event = ucast event_port \<and> streams_complete env (capabilities_of_info info (se_mac env)) st"
  using assms by (rule session_is_established)

section \<open>Witnesses\<close>

definition example_answer :: dictionary where
  "example_answer =
     [(''audioFormats'', PArray [PDict [(''audioOutputFormats'', PInt 0xc000), (''audioType'', PText ''media''), (''type'', PInt 100)]]),
      (''eventPort'', PInt 7001), (''streams'', PArray [PDict [(''dataPort'', PInt 6000)]]), (''timingPort'', PInt 6001)]"

definition example_reply :: "string \<Rightarrow> bytes \<Rightarrow> bytes" where
  "example_reply rmethod content = encode_bplist (PDict example_answer)"

definition example_setup_env :: "nat setup_env" where
  "example_setup_env = \<lparr>se_evp = example_evp, se_shared = [], se_controller_id = ''AA'', se_mac = ''AA:BB'',
     se_store = \<lparr>cs_path = [], cs_os = example_capabilities_os 0\<rparr>, se_media = True, se_guidance = True, se_system = False,
     se_microphone = True, se_timing_port = Some 6001, se_microphone_port = Some 6002,
     se_microphone_random = Some [0, 0, 0, 0, 0, 0, 0, 1], se_media_random = Some [0, 0, 0, 0, 0, 0, 0, 2],
     se_guidance_random = Some [0, 0, 0, 0, 0, 0, 0, 3], se_system_random = Some [0, 0, 0, 0, 0, 0, 0, 4],
     se_screen_random = Some [0, 0, 0, 0, 0, 0, 0, 5], se_connect_event = \<lambda>_. True, se_connect_microphone = \<lambda>_. True,
     se_peer = \<lambda>frame k. ((True, [RxChunk (frame_of example_evp (replicate 32 0) (of_nat k, answer_text k (example_reply [] []))), RxIdle]), Suc k)\<rparr>"

lemma example_reply_decoded: "decode_bplist (example_reply rmethod content) = Some (PDict example_answer)"
  unfolding example_reply_def by (rule decode_encode) (simp_all add: example_answer_def kMaxMaterializedBytes_def less_list_code less_char_def)

lemma example_reply_size: "length (example_reply rmethod content) \<le> 60000"
  unfolding example_reply_def by (rule order_trans [OF encode_size]) (simp add: example_answer_def)

lemma example_generous: "generous example_setup_env"
proof -
  have "random_stream_connection_id (Some [0, 0, 0, 0, 0, 0, 0, 1]) = Some 1" "random_stream_connection_id (Some [0, 0, 0, 0, 0, 0, 0, 2]) = Some 2"
    "random_stream_connection_id (Some [0, 0, 0, 0, 0, 0, 0, 3]) = Some 3" "random_stream_connection_id (Some [0, 0, 0, 0, 0, 0, 0, 4]) = Some 4"
    "random_stream_connection_id (Some [0, 0, 0, 0, 0, 0, 0, 5]) = Some 5"
    by (simp_all add: random_stream_connection_id_def be_value_def)
  then show ?thesis by (simp add: generous_def example_setup_env_def hkdf_sha512_def example_evp_def)
qed

lemma example_answered:
  "session_answered example_setup_env (replicate 32 0) (replicate 32 0) example_reply example_answer 7001"
proof -
  have "head_unit_answers example_setup_env (replicate 32 0) (replicate 32 0) example_reply"
    unfolding head_unit_answers_def
  proof (intro allI impI)
    fix rmethod path content_type content k
    show "\<exists>chunks. se_peer example_setup_env (frame_of (se_evp example_setup_env) (replicate 32 0)
          (of_nat k, encode_request rmethod path (int k + 6) content content_type [])) k = ((True, map RxChunk chunks @ [RxIdle]), Suc k) \<and>
        concat chunks = frame_of (se_evp example_setup_env) (replicate 32 0) (of_nat k, answer_text k (example_reply rmethod content)) \<and>
        length (example_reply rmethod content) \<le> 60000"
      using example_reply_size [of rmethod content]
      by (intro exI [of _ "[frame_of example_evp (replicate 32 0) (of_nat k, answer_text k (example_reply [] []))]"])
         (simp add: example_setup_env_def example_reply_def)
  qed
  moreover have "replies_ok example_setup_env example_reply example_answer 7001"
    unfolding replies_ok_def example_reply_decoded
    by (auto simp: example_answer_def integer_at_def port_value_def intro!: exI [of _ 6000])
  ultimately show ?thesis
    using example_generous by (simp add: session_answered_def example_setup_env_def example_evp_correct)
qed

theorem session_established_witness:
  "\<exists>event st. fst (run_streams example_setup_env Map.empty (new_control (replicate 32 0) (replicate 32 0) 0)) = Some (event, Some st) \<and>
     ev_port event = 7001 \<and> sn_media st \<noteq> None \<and> sn_guidance st = None \<and> sn_microphone st \<noteq> None"
proof -
  have caps: "capabilities_of_info example_answer (se_mac example_setup_env) =
      Some (no_capabilities\<lparr>hc_mac := ''AA:BB'', hc_media := True\<rparr>)"
    by (simp add: example_setup_env_def capabilities_of_info_def example_answer_def supports_pcm_def integer_at_def no_capabilities_def valid_capabilities_def)
  have wants: "se_media example_setup_env" "se_microphone example_setup_env"
    by (simp_all add: example_setup_env_def)
  obtain event st where e: "fst (run_streams example_setup_env Map.empty (new_control (replicate 32 0) (replicate 32 0) 0)) = Some (event, Some st)"
    "ev_port event = 7001" "streams_complete example_setup_env (capabilities_of_info example_answer (se_mac example_setup_env)) st"
    using session_established [OF example_answered, of Map.empty] by auto
  have "sn_media st \<noteq> None" "sn_microphone st \<noteq> None" "\<not> sn_guidance st \<noteq> None"
    using e(3) by (simp_all only: streams_complete_def caps wants) (simp_all add: no_capabilities_def)
  moreover from this(3) have "sn_guidance st = None" by (simp only: not_not)
  ultimately show ?thesis using e(1,2) by blast
qed


theorem streams_agreed_witness:
  "\<exists>event st capabilities. fst (run_streams example_setup_env Map.empty (new_control (replicate 32 0) (replicate 32 0) 0)) = Some (event, Some st) \<and>
     streams_ok example_setup_env capabilities st"
proof -
  obtain event st where e: "fst (run_streams example_setup_env Map.empty (new_control (replicate 32 0) (replicate 32 0) 0)) = Some (event, Some st)"
    using session_is_established [OF example_answered, of Map.empty] by blast
  obtain outcome files s where r: "run_streams example_setup_env Map.empty (new_control (replicate 32 0) (replicate 32 0) 0) = (outcome, files, s)"
    by (metis prod_cases3)
  from e r have "run_streams example_setup_env Map.empty (new_control (replicate 32 0) (replicate 32 0) 0) = (Some (event, Some st), files, s)" by simp
  from streams_agreed [OF this] e show ?thesis by blast
qed

end
