(* ===== verification/Aa_Ingress.thy ===== *)
theory Aa_Ingress
  imports Bytes_Prelude "HOL-Library.Sublist"
begin

text \<open>
  The hand-over queue that \<open>src/src/aa/wired_receiver.cpp\<close> uses three times (input reports and
  microphone packets of \<open>WiredReceiver::Impl\<close>, packets of \<open>MicrophoneSession\<close>): a bounded queue
  that drops its oldest element, a flag that says whether a drain is posted, and a drain that takes
  one element under the lock, hands it on, and posts itself again while there are more.
\<close>

section \<open>The operations\<close>

record 'a ingress =
  in_queue :: "'a list"
  in_posted :: bool

definition empty_ingress :: "'a ingress" where
  "empty_ingress = \<lparr>in_queue = [], in_posted = False\<rparr>"

text \<open>The critical section of the producer; the result says whether it posts a drain.\<close>

definition ingress_push :: "nat \<Rightarrow> 'a \<Rightarrow> 'a ingress \<Rightarrow> bool \<times> 'a ingress" where
  "ingress_push limit x q =
     (let xs = (if length (in_queue q) \<ge> limit then tl (in_queue q) else in_queue q)
      in (\<not> in_posted q, \<lparr>in_queue = xs @ [x], in_posted = True\<rparr>))"

text \<open>The first critical section of a drain.\<close>

definition ingress_take :: "'a ingress \<Rightarrow> 'a option \<times> 'a ingress" where
  "ingress_take q =
     (case in_queue q of
        [] \<Rightarrow> (None, q\<lparr>in_posted := False\<rparr>)
      | x # xs \<Rightarrow> (Some x, q\<lparr>in_queue := xs\<rparr>))"

text \<open>The second critical section; the result says whether the drain posts itself again.\<close>

definition ingress_again :: "'a ingress \<Rightarrow> bool \<times> 'a ingress" where
  "ingress_again q =
     (if in_queue q = [] then (False, q\<lparr>in_posted := False\<rparr>) else (True, q))"

section \<open>The contract of a hand-over\<close>

text \<open>
  A hand-over with what its environment holds: \<open>ho_drains\<close> drains are posted, \<open>ho_running\<close> says that
  one is between its two critical sections; \<open>ho_offered\<close> and \<open>ho_taken\<close> are histories.
\<close>

record 'a handover =
  ho_ingress :: "'a ingress"
  ho_drains :: nat
  ho_running :: bool
  ho_offered :: "'a list"
  ho_taken :: "'a list"

definition empty_handover :: "'a handover" where
  "empty_handover = \<lparr>ho_ingress = empty_ingress, ho_drains = 0, ho_running = False, ho_offered = [], ho_taken = []\<rparr>"

datatype 'a handover_event = Offer 'a | Begin_drain | End_drain | Discard | Reset

fun handover_step :: "nat \<Rightarrow> 'a handover_event \<Rightarrow> 'a handover \<Rightarrow> 'a handover" where
  "handover_step limit (Offer x) h =
     (case ingress_push limit x (ho_ingress h) of
        (post, q) \<Rightarrow> h\<lparr>ho_ingress := q, ho_drains := ho_drains h + (if post then 1 else 0),
                      ho_offered := ho_offered h @ [x]\<rparr>)"
| "handover_step limit Begin_drain h =
     (if ho_running h \<or> ho_drains h = 0 then h
      else case ingress_take (ho_ingress h) of
             (None, q) \<Rightarrow> h\<lparr>ho_ingress := q, ho_drains := ho_drains h - 1\<rparr>
           | (Some x, q) \<Rightarrow> h\<lparr>ho_ingress := q, ho_drains := ho_drains h - 1, ho_running := True,
                             ho_taken := ho_taken h @ [x]\<rparr>)"
| "handover_step limit End_drain h =
     (if \<not> ho_running h then h
      else case ingress_again (ho_ingress h) of
             (post, q) \<Rightarrow> h\<lparr>ho_ingress := q, ho_running := False, ho_drains := ho_drains h + (if post then 1 else 0)\<rparr>)"
| "handover_step limit Discard h = h\<lparr>ho_ingress := (ho_ingress h)\<lparr>in_queue := []\<rparr>\<rparr>"
| "handover_step limit Reset h = h\<lparr>ho_ingress := empty_ingress\<rparr>"

text \<open>What always holds, whether drains of earlier runs are left over or not.\<close>

definition handover_inv :: "nat \<Rightarrow> 'a handover \<Rightarrow> bool" where
  "handover_inv limit h \<longleftrightarrow>
     length (in_queue (ho_ingress h)) \<le> limit \<and>
     (in_queue (ho_ingress h) \<noteq> [] \<longrightarrow> in_posted (ho_ingress h)) \<and>
     (in_posted (ho_ingress h) \<longrightarrow> ho_running h \<or> ho_drains h > 0) \<and>
     subseq (ho_taken h @ in_queue (ho_ingress h)) (ho_offered h)"

lemma subseq_drop_middle: "subseq (xs @ q) zs \<Longrightarrow> subseq (xs @ tl q @ [x]) (zs @ [x])"
proof -
  assume "subseq (xs @ q) zs"
  moreover have "subseq (xs @ tl q) (xs @ q)" by (cases q) (auto simp: subseq_append' intro: list_emb_Cons)
  ultimately have "subseq ((xs @ tl q) @ [x]) (zs @ [x])"
    by (meson list_emb_append_mono subseq_order.dual_order.refl subseq_order.order_trans)
  then show ?thesis by simp
qed

lemma subseq_snoc: "subseq (xs @ q) zs \<Longrightarrow> subseq (xs @ q @ [x]) (zs @ [x])"
  by (metis append_assoc list_emb_append_mono subseq_order.dual_order.refl)

locale bounded_handover =
  fixes limit :: nat
  assumes room: "0 < limit"
begin

lemma inv_empty: "handover_inv limit empty_handover"
  by (simp add: handover_inv_def empty_handover_def empty_ingress_def)

lemma inv_step:
  assumes "handover_inv limit h"
  shows "handover_inv limit (handover_step limit ev h)"
proof (cases ev)
  case (Offer x)
  have "length (tl (in_queue (ho_ingress h)) @ [x]) \<le> limit"
    using assms room by (cases "in_queue (ho_ingress h)") (auto simp: handover_inv_def)
  then show ?thesis
    using assms room subseq_drop_middle [of "ho_taken h" "in_queue (ho_ingress h)" "ho_offered h" x]
      subseq_snoc [of "ho_taken h" "in_queue (ho_ingress h)" "ho_offered h" x]
    by (auto simp: Offer handover_inv_def ingress_push_def Let_def)
next
  case Begin_drain
  then show ?thesis
    using assms by (cases "in_queue (ho_ingress h)") (auto simp: handover_inv_def ingress_take_def)
next
  case End_drain
  then show ?thesis using assms by (auto simp: handover_inv_def ingress_again_def)
next
  case Discard
  have "subseq (ho_taken h) (ho_taken h @ in_queue (ho_ingress h))" by (simp add: list_emb_prefix)
  then show ?thesis
    using assms subseq_order.order_trans by (fastforce simp: Discard handover_inv_def)
next
  case Reset
  have "subseq (ho_taken h) (ho_taken h @ in_queue (ho_ingress h))" by (simp add: list_emb_prefix)
  then show ?thesis
    using assms subseq_order.order_trans by (fastforce simp: Reset handover_inv_def empty_ingress_def)
qed

lemma inv_run: "handover_inv limit h \<Longrightarrow> handover_inv limit (fold (handover_step limit) evs h)"
  by (induction evs arbitrary: h) (simp_all add: inv_step)

lemma inv_reachable: "handover_inv limit (fold (handover_step limit) evs empty_handover)"
  by (rule inv_run [OF inv_empty])

text \<open>A drain that runs takes the oldest element; as many drains as elements empty the queue.\<close>

lemma drain_takes:
  assumes "\<not> ho_running h" "ho_drains h > 0" "in_queue (ho_ingress h) = x # xs"
  shows "fold (handover_step limit) [Begin_drain, End_drain] h =
           h\<lparr>ho_ingress := (if xs = [] then \<lparr>in_queue = [], in_posted = False\<rparr> else (ho_ingress h)\<lparr>in_queue := xs\<rparr>),
             ho_drains := (if xs = [] then ho_drains h - 1 else ho_drains h), ho_taken := ho_taken h @ [x]\<rparr>"
  using assms by (cases "ho_ingress h") (auto simp: ingress_take_def ingress_again_def)

lemma drains_empty:
  assumes "handover_inv limit h" "\<not> ho_running h" "in_queue (ho_ingress h) = xs"
  shows "\<exists>h'. fold (handover_step limit) (concat (replicate (length xs) [Begin_drain, End_drain])) h = h' \<and>
            in_queue (ho_ingress h') = [] \<and> ho_taken h' = ho_taken h @ xs \<and> \<not> ho_running h' \<and> handover_inv limit h'"
  using assms
proof (induction xs arbitrary: h)
  case (Cons x xs)
  let ?h = "fold (handover_step limit) [Begin_drain, End_drain] h"
  have "ho_drains h > 0" using Cons.prems by (simp add: handover_inv_def)
  note step = drain_takes [OF Cons.prems(2) this Cons.prems(3)]
  have "handover_inv limit ?h" using Cons.prems(1) by (rule inv_run)
  moreover have "\<not> ho_running ?h" "in_queue (ho_ingress ?h) = xs" "ho_taken ?h = ho_taken h @ [x]"
    using Cons.prems by (simp_all only: step) auto
  ultimately show ?case using Cons.IH [of ?h] by simp
qed simp

end

end
