(* ===== verification/Aa_Session.thy ===== *)
theory Aa_Session
  imports Aa_Ingress Text_Prelude
begin

text \<open>
  The sessions of \<open>src/src/aa/wired_receiver.cpp\<close>: \<open>AudioSinkSession\<close>, \<open>InputSession\<close>, \<open>SensorSession\<close>,
  \<open>MicrophoneSession\<close> and \<open>ControlSession\<close> with its worker for the capabilities of the head unit.
  The channels of the AASDK library are effects: what is sent, which channel waits for its next
  message, and what is reported to the bridge.  The cryptor of the library is a parameter.
\<close>

section \<open>Effects\<close>

datatype aa_channel =
    Control_channel
  | Video_channel
  | Media_channel
  | Guidance_channel
  | System_channel
  | Input_channel
  | Sensor_channel
  | Microphone_channel

datatype aa_stream = Stream_media | Stream_guidance | Stream_system

datatype receiver_event_type =
    Waiting_for_phone
  | Aoap_transport_ready
  | Control_session_ready
  | Video_stream_configured
  | Video_stream_started
  | Transport_teardown
  | Disconnected
  | Receiver_error

text \<open>The profile of the head unit that the capabilities provider returns.\<close>

record aa_capabilities =
  width_pixels :: u32
  height_pixels :: u32
  max_fps :: u32
  media_audio :: bool
  guidance_audio :: bool
  system_audio :: bool

datatype resolution = Video_800x480 | Video_1280x720 | Video_1920x1080

text \<open>A service with its frame rate and density, or its sample rate, bits and channels.\<close>

datatype aa_service =
    Video_service resolution nat nat
  | Audio_service aa_channel aa_stream u32 nat u32
  | Microphone_service u32 nat u32
  | Sensor_service
  | Input_service "int list"

record service_discovery =
  sd_driver_left :: bool
  sd_display_name :: string
  sd_probe_for_support :: bool
  sd_ping_timeout :: nat
  sd_ping_interval :: nat
  sd_ping_latency :: nat
  sd_ping_tracked :: nat
  sd_head_unit :: "(string \<times> string) list"
  sd_services :: "aa_service list"

text \<open>What is sent to the phone; an acknowledgement carries the session and counts one frame.\<close>

datatype aa_message =
    Channel_open_response
  | Setup_response
  | Media_ack u32
  | Key_binding_response
  | Sensor_start_response
  | Input_report bytes
  | Microphone_response u32
  | Microphone_data u64 bytes
  | Version_request
  | Handshake_out bytes
  | Auth_complete
  | Discovery_response service_discovery
  | Audio_focus_response bool
  | Video_focus bool

datatype aa_effect =
    Transmit aa_channel aa_message
  | Await aa_channel
  | Report_event receiver_event_type string
  | Play aa_stream bytes
  | Show bytes
  | Ended
  | Shut_down
  | Null_channel

section \<open>State\<close>

record microphone =
  mi_session :: u32
  mi_in_flight :: bool
  mi_pending :: bytes
  mi_ingress :: "bytes ingress"

definition new_microphone :: microphone where
  "new_microphone = \<lparr>mi_session = 0, mi_in_flight = False, mi_pending = [], mi_ingress = empty_ingress\<rparr>"

datatype strand_task = Drain_audio | Send_report bytes | Send_discovery "aa_capabilities option"

datatype capability_phase = Capability_waiting | Capability_computing | Capability_exited

record 'c aa_session =
  ss_cryptor :: 'c
  ss_opened :: bool
  ss_audio_session :: "aa_stream \<Rightarrow> u32"
  ss_video_session :: u32
  ss_microphone :: microphone
  ss_capability_pending :: bool
  ss_stopping :: bool
  ss_phase :: capability_phase
  ss_failed :: bool
  ss_tasks :: "strand_task list"
  ss_effects :: "aa_effect list"

definition new_session :: "'c \<Rightarrow> 'c aa_session" where
  "new_session c =
     \<lparr>ss_cryptor = c, ss_opened = False, ss_audio_session = (\<lambda>_. 0), ss_video_session = 0,
      ss_microphone = new_microphone, ss_capability_pending = False, ss_stopping = False,
      ss_phase = Capability_waiting, ss_failed = False, ss_tasks = [], ss_effects = []\<rparr>"

definition emit :: "aa_effect list \<Rightarrow> 'c aa_session \<Rightarrow> 'c aa_session" where
  "emit es s = s\<lparr>ss_effects := ss_effects s @ es\<rparr>"

definition post :: "strand_task list \<Rightarrow> 'c aa_session \<Rightarrow> 'c aa_session" where
  "post ts s = s\<lparr>ss_tasks := ss_tasks s @ ts\<rparr>"

record aa_error =
  er_usb_transfer :: bool
  er_native :: nat
  er_what :: string

record 'c cryptor =
  cr_do_handshake :: "'c \<Rightarrow> (aa_error + bool) \<times> 'c"
  cr_write_buffer :: "bytes \<Rightarrow> 'c \<Rightarrow> aa_error option \<times> 'c"
  cr_read_buffer :: "'c \<Rightarrow> (aa_error + bytes) \<times> 'c"

section \<open>Errors\<close>

text \<open>\<open>fail\<close> of the control session, which reports once, and of the other sessions, which always do.\<close>

definition session_fail :: "string \<Rightarrow> bool \<Rightarrow> 'c aa_session \<Rightarrow> 'c aa_session" where
  "session_fail detail expected_usb_unplug s =
     (if ss_failed s then s
      else emit [Report_event (if expected_usb_unplug then Transport_teardown else Receiver_error)
                  (''Android Auto control session: '' @ detail), Ended]
             (s\<lparr>ss_failed := True\<rparr>))"

definition session_error :: "aa_error \<Rightarrow> 'c aa_session \<Rightarrow> 'c aa_session" where
  "session_error e s = session_fail (er_what e) (er_usb_transfer e \<and> er_native e = 1) s"

definition channel_name :: "aa_channel \<Rightarrow> string" where
  "channel_name ch =
     (if ch = Input_channel then ''input'' else if ch = Sensor_channel then ''sensor''
      else if ch = Microphone_channel then ''microphone'' else ''audio'')"

definition channel_fail :: "aa_channel \<Rightarrow> string \<Rightarrow> 'c aa_session \<Rightarrow> 'c aa_session" where
  "channel_fail ch detail s =
     emit [Report_event Receiver_error (''Android Auto '' @ channel_name ch @ '' channel: '' @ detail)] s"

text \<open>
  A rejected promise of a message on a channel, and \<open>onChannelError\<close>: both end in \<open>fail\<close> of the
  session that owns the channel.
\<close>

definition channel_error :: "aa_channel \<Rightarrow> aa_error \<Rightarrow> 'c aa_session \<Rightarrow> 'c aa_session" where
  "channel_error ch e s =
     (if ch = Control_channel \<or> ch = Video_channel then session_error e s else channel_fail ch (er_what e) s)"

section \<open>Audio, input and sensor channels\<close>

definition channel_of :: "aa_stream \<Rightarrow> aa_channel" where
  "channel_of st =
     (case st of Stream_media \<Rightarrow> Media_channel | Stream_guidance \<Rightarrow> Guidance_channel | Stream_system \<Rightarrow> System_channel)"

text \<open>A channel that answers a request and waits for the next message.\<close>

definition respond :: "aa_channel \<Rightarrow> aa_message \<Rightarrow> 'c aa_session \<Rightarrow> 'c aa_session" where
  "respond ch m s = emit [Transmit ch m, Await ch] s"

definition audio_open :: "aa_stream \<Rightarrow> 'c aa_session \<Rightarrow> 'c aa_session" where
  "audio_open st s = respond (channel_of st) Channel_open_response s"

definition audio_setup :: "aa_stream \<Rightarrow> bool \<Rightarrow> 'c aa_session \<Rightarrow> 'c aa_session" where
  "audio_setup st pcm s =
     (if \<not> pcm then channel_fail (channel_of st) ''phone requested an unsupported Android Auto audio codec'' s
      else respond (channel_of st) Setup_response s)"

definition audio_start :: "aa_stream \<Rightarrow> u32 \<Rightarrow> 'c aa_session \<Rightarrow> 'c aa_session" where
  "audio_start st ident s =
     emit [Await (channel_of st)] (s\<lparr>ss_audio_session := (ss_audio_session s)(st := ident)\<rparr>)"

definition audio_stop :: "aa_stream \<Rightarrow> 'c aa_session \<Rightarrow> 'c aa_session" where
  "audio_stop st s = emit [Await (channel_of st)] (s\<lparr>ss_audio_session := (ss_audio_session s)(st := 0)\<rparr>)"

definition audio_acknowledge :: "aa_stream \<Rightarrow> 'c aa_session \<Rightarrow> 'c aa_session" where
  "audio_acknowledge st s = respond (channel_of st) (Media_ack (ss_audio_session s st)) s"

definition audio_media :: "aa_stream \<Rightarrow> bytes \<Rightarrow> 'c aa_session \<Rightarrow> 'c aa_session" where
  "audio_media st content s = audio_acknowledge st (emit [Play st content] s)"

definition input_open :: "'c aa_session \<Rightarrow> 'c aa_session" where
  "input_open s = respond Input_channel Channel_open_response s"

definition input_key_binding :: "'c aa_session \<Rightarrow> 'c aa_session" where
  "input_key_binding s = respond Input_channel Key_binding_response s"

definition send_report :: "bytes \<Rightarrow> 'c aa_session \<Rightarrow> 'c aa_session" where
  "send_report r s = (if ss_opened s then post [Send_report r] s else emit [Null_channel] s)"

definition sensor_open :: "'c aa_session \<Rightarrow> 'c aa_session" where
  "sensor_open s = respond Sensor_channel Channel_open_response s"

definition sensor_start_request :: "'c aa_session \<Rightarrow> 'c aa_session" where
  "sensor_start_request s = respond Sensor_channel Sensor_start_response s"

section \<open>The microphone\<close>

definition mic_open :: "'c aa_session \<Rightarrow> 'c aa_session" where
  "mic_open s = respond Microphone_channel Channel_open_response s"

definition mic_setup :: "bool \<Rightarrow> 'c aa_session \<Rightarrow> 'c aa_session" where
  "mic_setup pcm s =
     (if \<not> pcm then channel_fail Microphone_channel ''phone requested an unsupported Android Auto microphone codec'' s
      else respond Microphone_channel Setup_response s)"

definition mic_request :: "bool \<Rightarrow> 'c aa_session \<Rightarrow> 'c aa_session" where
  "mic_request is_open s =
     (let ident = (if is_open then 1 else 0); m = ss_microphone s in
      respond Microphone_channel (Microphone_response ident)
        (s\<lparr>ss_microphone := m\<lparr>mi_session := ident, mi_in_flight := False, mi_pending := [],
             mi_ingress := (mi_ingress m)\<lparr>in_queue := []\<rparr>\<rparr>\<rparr>))"

definition send_audio_on_strand :: "u64 \<Rightarrow> bytes \<Rightarrow> 'c aa_session \<Rightarrow> 'c aa_session" where
  "send_audio_on_strand now audio s =
     (let m = ss_microphone s in
      if mi_session m = 0 \<or> audio = [] then s
      else if mi_in_flight m then s\<lparr>ss_microphone := m\<lparr>mi_pending := audio\<rparr>\<rparr>
      else emit [Transmit Microphone_channel (Microphone_data now audio)]
             (s\<lparr>ss_microphone := m\<lparr>mi_in_flight := True\<rparr>\<rparr>))"

definition mic_ack :: "u64 \<Rightarrow> 'c aa_session \<Rightarrow> 'c aa_session" where
  "mic_ack now s =
     (let m = ss_microphone s; audio = mi_pending m;
          s' = s\<lparr>ss_microphone := m\<lparr>mi_in_flight := False, mi_pending := []\<rparr>\<rparr>
      in emit [Await Microphone_channel] (if audio \<noteq> [] then send_audio_on_strand now audio s' else s'))"

definition kMaximumIngressPackets :: nat where
  "kMaximumIngressPackets = 2"

definition mic_send_audio :: "bytes \<Rightarrow> 'c aa_session \<Rightarrow> 'c aa_session" where
  "mic_send_audio audio s =
     (if audio = [] then s
      else case ingress_push kMaximumIngressPackets audio (mi_ingress (ss_microphone s)) of
             (schedule, q) \<Rightarrow>
               post (if schedule then [Drain_audio] else [])
                 (s\<lparr>ss_microphone := (ss_microphone s)\<lparr>mi_ingress := q\<rparr>\<rparr>))"

definition mic_drain_audio :: "u64 \<Rightarrow> 'c aa_session \<Rightarrow> 'c aa_session" where
  "mic_drain_audio now s =
     (case ingress_take (mi_ingress (ss_microphone s)) of
        (None, q) \<Rightarrow> s\<lparr>ss_microphone := (ss_microphone s)\<lparr>mi_ingress := q\<rparr>\<rparr>
      | (Some audio, q) \<Rightarrow>
          let s' = send_audio_on_strand now audio (s\<lparr>ss_microphone := (ss_microphone s)\<lparr>mi_ingress := q\<rparr>\<rparr>)
          in case ingress_again (mi_ingress (ss_microphone s')) of
               (schedule, q') \<Rightarrow>
                 post (if schedule then [Drain_audio] else [])
                   (s'\<lparr>ss_microphone := (ss_microphone s')\<lparr>mi_ingress := q'\<rparr>\<rparr>))"

definition session_send_audio :: "bytes \<Rightarrow> 'c aa_session \<Rightarrow> 'c aa_session" where
  "session_send_audio audio s = (if ss_opened s then mic_send_audio audio s else emit [Null_channel] s)"

section \<open>The control channel\<close>

definition all_channels :: "aa_channel list" where
  "all_channels =
     [Control_channel, Video_channel, Media_channel, Guidance_channel, System_channel, Input_channel,
      Sensor_channel, Microphone_channel]"

text \<open>\<open>start\<close>: creating the transport and the cryptor may fail, then no channel exists.\<close>

definition session_start :: "aa_error option \<Rightarrow> 'c aa_session \<Rightarrow> 'c aa_session" where
  "session_start failure s =
     (case failure of
        Some e \<Rightarrow> session_error e s
      | None \<Rightarrow>
          emit (Transmit Control_channel Version_request # map Await all_channels) (s\<lparr>ss_opened := True\<rparr>))"

definition session_stop :: "'c aa_session \<Rightarrow> 'c aa_session" where
  "session_stop s = emit [Shut_down] (s\<lparr>ss_stopping := True\<rparr>)"

definition send_handshake :: "'c cryptor \<Rightarrow> 'c aa_session \<Rightarrow> aa_error option \<times> 'c aa_session" where
  "send_handshake crypt s =
     (case cr_read_buffer crypt (ss_cryptor s) of
        (Inl e, c) \<Rightarrow> (Some e, s\<lparr>ss_cryptor := c\<rparr>)
      | (Inr bs, c) \<Rightarrow> (None, emit [Transmit Control_channel (Handshake_out bs)] (s\<lparr>ss_cryptor := c\<rparr>)))"

definition handshake_step :: "'c cryptor \<Rightarrow> bool \<Rightarrow> 'c aa_session \<Rightarrow> 'c aa_session" where
  "handshake_step crypt answer_complete s =
     (case cr_do_handshake crypt (ss_cryptor s) of
        (Inl e, c) \<Rightarrow> session_error e (s\<lparr>ss_cryptor := c\<rparr>)
      | (Inr complete, c) \<Rightarrow>
          if complete \<and> answer_complete
          then respond Control_channel Auth_complete (s\<lparr>ss_cryptor := c\<rparr>)
          else (case send_handshake crypt (s\<lparr>ss_cryptor := c\<rparr>) of
                  (Some e, s) \<Rightarrow> session_error e s
                | (None, s) \<Rightarrow> emit [Await Control_channel] s))"

definition on_version_response :: "'c cryptor \<Rightarrow> bool \<Rightarrow> 'c aa_session \<Rightarrow> 'c aa_session" where
  "on_version_response crypt accepted s =
     (if \<not> accepted then session_fail ''Android Auto version negotiation was rejected'' False s
      else handshake_step crypt False s)"

definition on_handshake :: "'c cryptor \<Rightarrow> bytes \<Rightarrow> 'c aa_session \<Rightarrow> 'c aa_session" where
  "on_handshake crypt payload s =
     (case cr_write_buffer crypt payload (ss_cryptor s) of
        (Some e, c) \<Rightarrow> session_error e (s\<lparr>ss_cryptor := c\<rparr>)
      | (None, c) \<Rightarrow> handshake_step crypt True (s\<lparr>ss_cryptor := c\<rparr>))"

definition on_service_discovery_request :: "'c aa_session \<Rightarrow> 'c aa_session" where
  "on_service_discovery_request s =
     (if ss_stopping s \<or> ss_capability_pending s then s else s\<lparr>ss_capability_pending := True\<rparr>)"

definition no_profile :: aa_capabilities where
  "no_profile = \<lparr>width_pixels = 0, height_pixels = 0, max_fps = 0, media_audio = False, guidance_audio = False, system_audio = False\<rparr>"

definition profile_or_default :: "aa_capabilities option \<Rightarrow> aa_capabilities" where
  "profile_or_default profile = (case profile of None \<Rightarrow> no_profile | Some p \<Rightarrow> p)"

definition resolution_for :: "aa_capabilities \<Rightarrow> resolution \<times> string" where
  "resolution_for caps =
     (if width_pixels caps = 800 \<and> height_pixels caps = 480 then (Video_800x480, ''800x480 cached profile'')
      else if width_pixels caps = 1920 \<and> height_pixels caps = 1080 then (Video_1920x1080, ''1920x1080 cached profile'')
      else (Video_1280x720, ''1280x720 fallback''))"

definition services_for :: "aa_capabilities option \<Rightarrow> aa_service list" where
  "services_for profile =
     Video_service (fst (resolution_for (profile_or_default profile))) 30 180 #
     (case profile of
        None \<Rightarrow> []
      | Some p \<Rightarrow>
          (if media_audio p then [Audio_service Media_channel Stream_media 48000 16 2] else []) @
          (if guidance_audio p then [Audio_service Guidance_channel Stream_guidance 16000 16 1] else []) @
          (if system_audio p then [Audio_service System_channel Stream_system 16000 16 1] else [])) @
     [Microphone_service 16000 16 1, Sensor_service, Input_service [3, 4, 19, 20, 21, 22, 23, 66, 84]]"

definition discovery_detail :: "aa_capabilities option \<Rightarrow> string" where
  "discovery_detail profile =
     ''sent Android Auto service discovery ('' @ nat_to_string (length (services_for profile)) @ '' channels; '' @
     snd (resolution_for (profile_or_default profile)) @ '')''"

definition discovery_response :: "aa_capabilities option \<Rightarrow> service_discovery" where
  "discovery_response profile =
     \<lparr>sd_driver_left = True, sd_display_name = ''aa2acp'', sd_probe_for_support = False, sd_ping_timeout = 5000,
      sd_ping_interval = 1500, sd_ping_latency = 500, sd_ping_tracked = 5,
      sd_head_unit = [(''make'', ''aa2acp''), (''model'', ''aa2acp''), (''year'', ''2026''), (''vehicle_id'', ''aa2acp''),
        (''head_unit_make'', ''aa2acp''), (''head_unit_model'', ''aa2acp''), (''head_unit_software_build'', ''1''),
        (''head_unit_software_version'', ''0.1'')],
      sd_services = services_for profile\<rparr>"

definition send_service_discovery_response :: "aa_capabilities option \<Rightarrow> 'c aa_session \<Rightarrow> 'c aa_session" where
  "send_service_discovery_response profile s =
     respond Control_channel (Discovery_response (discovery_response profile)) s"

text \<open>
  The worker for the capabilities: a round of its loop begins when it is notified or after 100 ms,
  without looking which of the two it was, and ends when the provider has answered.
\<close>

definition capability_wake :: "'c aa_session \<Rightarrow> 'c aa_session" where
  "capability_wake s =
     (if ss_phase s \<noteq> Capability_waiting then s
      else if ss_stopping s then s\<lparr>ss_phase := Capability_exited\<rparr>
      else s\<lparr>ss_capability_pending := False, ss_phase := Capability_computing\<rparr>)"

definition capability_answer :: "aa_capabilities option \<Rightarrow> 'c aa_session \<Rightarrow> 'c aa_session" where
  "capability_answer profile s =
     (if ss_phase s \<noteq> Capability_computing then s
      else if ss_stopping s then s\<lparr>ss_phase := Capability_exited\<rparr>
      else post [Send_discovery profile] (s\<lparr>ss_phase := Capability_waiting\<rparr>))"

definition on_audio_focus_request :: "bool \<Rightarrow> 'c aa_session \<Rightarrow> 'c aa_session" where
  "on_audio_focus_request release s = respond Control_channel (Audio_focus_response (\<not> release)) s"

definition on_bye_bye :: "string \<Rightarrow> 'c aa_session \<Rightarrow> 'c aa_session" where
  "on_bye_bye detail s = session_stop (emit [Report_event Disconnected detail] s)"

section \<open>The video channel\<close>

definition video_open :: "'c aa_session \<Rightarrow> 'c aa_session" where
  "video_open s =
     respond Video_channel Channel_open_response
       (emit [Report_event Control_session_ready ''phone opened Android Auto video channel''] s)"

definition video_setup :: "bool \<Rightarrow> 'c aa_session \<Rightarrow> 'c aa_session" where
  "video_setup h264 s =
     (if \<not> h264 then session_fail ''phone requested an unsupported Android Auto video codec'' False s
      else emit [Report_event Video_stream_configured ''phone selected H.264 video configuration'',
                 Transmit Video_channel Setup_response, Transmit Video_channel (Video_focus True),
                 Await Video_channel] s)"

definition video_start :: "u32 \<Rightarrow> 'c aa_session \<Rightarrow> 'c aa_session" where
  "video_start ident s =
     emit [Report_event Video_stream_started ''Android Auto video stream started'', Await Video_channel]
       (s\<lparr>ss_video_session := ident\<rparr>)"

definition video_stop :: "'c aa_session \<Rightarrow> 'c aa_session" where
  "video_stop s =
     emit [Report_event Control_session_ready ''Android Auto video stream stopped'', Await Video_channel]
       (s\<lparr>ss_video_session := 0\<rparr>)"

definition acknowledge_video_frame :: "'c aa_session \<Rightarrow> 'c aa_session" where
  "acknowledge_video_frame s = respond Video_channel (Media_ack (ss_video_session s)) s"

definition video_media :: "bytes \<Rightarrow> 'c aa_session \<Rightarrow> 'c aa_session" where
  "video_media content s = acknowledge_video_frame (emit [Show content] s)"

definition video_focus_request :: "'c aa_session \<Rightarrow> 'c aa_session" where
  "video_focus_request s = respond Video_channel (Video_focus False) s"

section \<open>Steps\<close>

text \<open>The messages that the library hands to the handlers.\<close>

datatype phone_message =
    Version_response bool
  | Handshake_in bytes
  | Service_discovery_request
  | Audio_focus_request bool
  | Bye_bye_request
  | Bye_bye_response
  | Control_notice
  | Open_request aa_channel
  | Setup_request aa_channel bool
  | Start_indication aa_channel u32
  | Stop_indication aa_channel
  | Media_indication aa_channel bytes
  | Video_focus_request
  | Key_binding_request
  | Sensor_start_request
  | Microphone_request bool
  | Microphone_ack

definition stream_of :: "aa_channel \<Rightarrow> aa_stream option" where
  "stream_of ch =
     (if ch = Media_channel then Some Stream_media else if ch = Guidance_channel then Some Stream_guidance
      else if ch = System_channel then Some Stream_system else None)"

text \<open>
  The battery, navigation, voice and ping messages of the control channel are one \<open>Control_notice\<close>:
  their handlers only wait for the next message.  A message that a channel does not have is ignored
  by the library.
\<close>

fun on_message :: "'c cryptor \<Rightarrow> u64 \<Rightarrow> phone_message \<Rightarrow> 'c aa_session \<Rightarrow> 'c aa_session" where
  "on_message crypt now (Version_response accepted) s = on_version_response crypt accepted s"
| "on_message crypt now (Handshake_in payload) s = on_handshake crypt payload s"
| "on_message crypt now Service_discovery_request s = on_service_discovery_request s"
| "on_message crypt now (Audio_focus_request release) s = on_audio_focus_request release s"
| "on_message crypt now Bye_bye_request s = on_bye_bye ''phone ended the Android Auto control session'' s"
| "on_message crypt now Bye_bye_response s =
     on_bye_bye ''phone acknowledged Android Auto control-session shutdown'' s"
| "on_message crypt now Control_notice s = emit [Await Control_channel] s"
| "on_message crypt now (Open_request ch) s =
     (case stream_of ch of
        Some st \<Rightarrow> audio_open st s
      | None \<Rightarrow> if ch = Video_channel then video_open s
                else if ch = Input_channel then input_open s
                else if ch = Sensor_channel then sensor_open s
                else if ch = Microphone_channel then mic_open s else s)"
| "on_message crypt now (Setup_request ch accepted) s =
     (case stream_of ch of
        Some st \<Rightarrow> audio_setup st accepted s
      | None \<Rightarrow> if ch = Video_channel then video_setup accepted s
                else if ch = Microphone_channel then mic_setup accepted s else s)"
| "on_message crypt now (Start_indication ch ident) s =
     (case stream_of ch of
        Some st \<Rightarrow> audio_start st ident s
      | None \<Rightarrow> if ch = Video_channel then video_start ident s else s)"
| "on_message crypt now (Stop_indication ch) s =
     (case stream_of ch of Some st \<Rightarrow> audio_stop st s | None \<Rightarrow> if ch = Video_channel then video_stop s else s)"
| "on_message crypt now (Media_indication ch content) s =
     (case stream_of ch of
        Some st \<Rightarrow> audio_media st content s
      | None \<Rightarrow> if ch = Video_channel then video_media content s else s)"
| "on_message crypt now Video_focus_request s = video_focus_request s"
| "on_message crypt now Key_binding_request s = input_key_binding s"
| "on_message crypt now Sensor_start_request s = sensor_start_request s"
| "on_message crypt now (Microphone_request is_open) s = mic_request is_open s"
| "on_message crypt now Microphone_ack s = mic_ack now s"

text \<open>The strand runs its tasks one after the other.\<close>

definition run_strand_task :: "u64 \<Rightarrow> 'c aa_session \<Rightarrow> 'c aa_session" where
  "run_strand_task now s =
     (case ss_tasks s of
        [] \<Rightarrow> s
      | t # ts \<Rightarrow>
          let s = s\<lparr>ss_tasks := ts\<rparr> in
          case t of
            Drain_audio \<Rightarrow> mic_drain_audio now s
          | Send_report r \<Rightarrow> emit [Transmit Input_channel (Input_report r)] s
          | Send_discovery profile \<Rightarrow>
              if ss_stopping s then s else send_service_discovery_response profile s)"

datatype session_event =
    Start_session "aa_error option"
  | Stop_session
  | From_phone phone_message
  | Run_task
  | Channel_failure aa_channel aa_error
  | Send_audio bytes
  | Send_input bytes
  | Wake_capabilities
  | Capabilities "aa_capabilities option"
  | Discovery_sent "aa_capabilities option"

text \<open>\<open>Discovery_sent\<close> is the resolved promise of the discovery response, which reports it.\<close>

fun session_step :: "'c cryptor \<Rightarrow> u64 \<times> session_event \<Rightarrow> 'c aa_session \<Rightarrow> 'c aa_session" where
  "session_step crypt (now, Start_session failure) s = session_start failure s"
| "session_step crypt (now, Stop_session) s = session_stop s"
| "session_step crypt (now, From_phone m) s = on_message crypt now m s"
| "session_step crypt (now, Run_task) s = run_strand_task now s"
| "session_step crypt (now, Channel_failure ch e) s = channel_error ch e s"
| "session_step crypt (now, Send_audio audio) s = session_send_audio audio s"
| "session_step crypt (now, Send_input r) s = send_report r s"
| "session_step crypt (now, Wake_capabilities) s = capability_wake s"
| "session_step crypt (now, Capabilities profile) s = capability_answer profile s"
| "session_step crypt (now, Discovery_sent profile) s =
     emit [Report_event Control_session_ready (discovery_detail profile)] s"

definition run_session :: "'c cryptor \<Rightarrow> (u64 \<times> session_event) list \<Rightarrow> 'c aa_session \<Rightarrow> 'c aa_session" where
  "run_session crypt evs s = fold (session_step crypt) evs s"

end
