(* ===== verification/Aa_Session_Props.thy ===== *)
theory Aa_Session_Props
  imports Aa_Session
begin

text \<open>
  The properties of the Android Auto sessions, over every sequence of messages, tasks, failures and
  calls: the microphone keeps one packet in flight and the order of the packets, a control session
  ends once, and a media channel does what its own messages say, whatever the others do.
\<close>

section \<open>Effects only grow\<close>

text \<open>The effects of a step, as a list that is appended.\<close>

definition adds :: "'c aa_session \<Rightarrow> 'c aa_session \<Rightarrow> aa_effect list \<Rightarrow> bool" where
  "adds s s' es = (ss_effects s' = ss_effects s @ es)"

named_theorems session_defs

declare emit_def [session_defs] post_def [session_defs] respond_def [session_defs]
  session_fail_def [session_defs] session_error_def [session_defs] channel_fail_def [session_defs]
  channel_error_def [session_defs] audio_setup_def [session_defs] audio_start_def [session_defs]
  audio_stop_def [session_defs] audio_acknowledge_def [session_defs] audio_media_def [session_defs]
  send_report_def [session_defs] mic_setup_def [session_defs] mic_request_def [session_defs]
  session_send_audio_def [session_defs] session_start_def [session_defs] session_stop_def [session_defs]
  send_handshake_def [session_defs] handshake_step_def [session_defs] on_version_response_def [session_defs]
  on_handshake_def [session_defs] on_service_discovery_request_def [session_defs]
  send_service_discovery_response_def [session_defs] capability_wake_def [session_defs]
  capability_answer_def [session_defs] on_audio_focus_request_def [session_defs] on_bye_bye_def [session_defs]
  video_open_def [session_defs] video_setup_def [session_defs] video_start_def [session_defs]
  video_stop_def [session_defs] audio_open_def [session_defs] input_open_def [session_defs]
  input_key_binding_def [session_defs] sensor_open_def [session_defs] sensor_start_request_def [session_defs]
  mic_open_def [session_defs] video_focus_request_def [session_defs] acknowledge_video_frame_def [session_defs] video_media_def [session_defs]

section \<open>The microphone\<close>

fun mic_data :: "aa_effect list \<Rightarrow> bytes list" where
  "mic_data [] = []"
| "mic_data (Transmit Microphone_channel (Microphone_data now audio) # es) = audio # mic_data es"
| "mic_data (_ # es) = mic_data es"

lemma mic_data_append [simp]: "mic_data (es @ fs) = mic_data es @ mic_data fs"
  by (induction es rule: mic_data.induct) simp_all

fun offered_audio :: "session_event \<Rightarrow> bytes list" where
  "offered_audio (Send_audio audio) = [audio]"
| "offered_audio _ = []"

definition offered :: "(u64 \<times> session_event) list \<Rightarrow> bytes list" where
  "offered evs = concat (map (offered_audio \<circ> snd) evs)"

definition acks :: "(u64 \<times> session_event) list \<Rightarrow> nat" where
  "acks evs = length (filter (\<lambda>ev. snd ev = From_phone Microphone_ack) evs)"

definition opens :: "(u64 \<times> session_event) list \<Rightarrow> nat" where
  "opens evs = length (filter (\<lambda>ev. snd ev = From_phone (Microphone_request True)) evs)"

lemma history_simps [simp]:
  "offered [] = []" "acks [] = 0" "opens [] = 0"
  "offered (ev # evs) = offered_audio (snd ev) @ offered evs"
  "acks (ev # evs) = (if snd ev = From_phone Microphone_ack then 1 else 0) + acks evs"
  "opens (ev # evs) = (if snd ev = From_phone (Microphone_request True) then 1 else 0) + opens evs"
  "offered (evs @ evs') = offered evs @ offered evs'"
  by (simp_all add: offered_def acks_def opens_def)

text \<open>The steps that concern the microphone; the others leave it alone and send no data.\<close>

definition mic_idle :: "session_event \<Rightarrow> bool" where
  "mic_idle ev \<longleftrightarrow> ev \<noteq> Run_task \<and> (\<forall>a. ev \<noteq> Send_audio a) \<and> (\<forall>b. ev \<noteq> From_phone (Microphone_request b)) \<and>
     ev \<noteq> From_phone Microphone_ack"

lemma mic_idle_message:
  assumes "mic_idle (From_phone m)"
  shows "ss_microphone (on_message crypt now m s) = ss_microphone s \<and>
         mic_data (ss_effects (on_message crypt now m s)) = mic_data (ss_effects s)"
  using assms
  by (cases m) (auto simp: mic_idle_def session_defs split: prod.splits sum.splits option.splits)

lemma mic_idle_step:
  assumes "mic_idle (snd ev)"
  shows "ss_microphone (session_step crypt ev s) = ss_microphone s \<and>
         mic_data (ss_effects (session_step crypt ev s)) = mic_data (ss_effects s)"
proof (cases ev)
  case (Pair now e)
  show ?thesis
  proof (cases e)
    case (From_phone m)
    then show ?thesis using assms mic_idle_message [of m crypt now s] Pair by simp
  qed (use assms Pair in \<open>auto simp: mic_idle_def session_defs all_channels_def split: option.splits\<close>)
qed
lemma mic_idle_tasks:
  assumes "mic_idle (snd ev)"
  shows "count_list (ss_tasks (session_step crypt ev s)) Drain_audio = count_list (ss_tasks s) Drain_audio"
proof (cases ev)
  case (Pair now e)
  show ?thesis
  proof (cases e)
    case (From_phone m)
    then show ?thesis
      using assms Pair
      by (cases m) (auto simp: mic_idle_def session_defs split: prod.splits sum.splits option.splits)
  qed (use assms Pair in \<open>auto simp: mic_idle_def session_defs split: option.splits\<close>)
qed

text \<open>
  The ingress queue of the microphone is a hand-over: a packet that is offered is pushed, the task of
  the strand is a drain, and a request of the phone discards what waits.  What is sent, followed by
  the packet that waits for an acknowledgement, is a part of what was taken.
\<close>

interpretation packets: bounded_handover kMaximumIngressPackets
  by unfold_locales (simp add: kMaximumIngressPackets_def)

definition pending_audio :: "'c aa_session \<Rightarrow> bytes list" where
  "pending_audio s = (if mi_pending (ss_microphone s) = [] then [] else [mi_pending (ss_microphone s)])"

definition mic_handover :: "'c aa_session \<Rightarrow> bytes list \<Rightarrow> bytes handover \<Rightarrow> bool" where
  "mic_handover s given h \<longleftrightarrow>
     handover_inv kMaximumIngressPackets h \<and> ho_ingress h = mi_ingress (ss_microphone s) \<and>
     ho_drains h = count_list (ss_tasks s) Drain_audio \<and> \<not> ho_running h \<and> subseq (ho_offered h) given \<and>
     subseq (mic_data (ss_effects s) @ pending_audio s) (ho_taken h) \<and>
     (pending_audio s \<noteq> [] \<longrightarrow> mi_in_flight (ss_microphone s))"

lemma mic_handoverD:
  assumes "mic_handover s given h"
  shows "handover_inv kMaximumIngressPackets h" "ho_ingress h = mi_ingress (ss_microphone s)"
    "ho_drains h = count_list (ss_tasks s) Drain_audio" "\<not> ho_running h" "subseq (ho_offered h) given"
    "subseq (mic_data (ss_effects s) @ pending_audio s) (ho_taken h)"
    "pending_audio s \<noteq> [] \<longrightarrow> mi_in_flight (ss_microphone s)"
  using assms by (auto simp: mic_handover_def)

lemma mic_handover_new: "mic_handover (new_session c) [] empty_handover"
  using packets.inv_empty
  by (simp add: mic_handover_def pending_audio_def new_session_def new_microphone_def empty_handover_def)

lemma subseq_weaken: "subseq xs given \<Longrightarrow> subseq xs (given @ later)"
  by (meson list_emb_append2 list_emb_prefix subseq_order.order_trans)

lemma mic_handover_idle:
  assumes "mic_idle (snd ev)" "mic_handover s given h"
  shows "mic_handover (session_step crypt ev s) (given @ offered_audio (snd ev)) h"
  using assms mic_idle_step [OF assms(1), of crypt s] mic_idle_tasks [OF assms(1), of crypt s]
  by (auto simp: mic_handover_def pending_audio_def subseq_weaken)

lemma mic_handover_offer:
  assumes "mic_handover s given h"
  shows "\<exists>h'. mic_handover (session_send_audio a s) (given @ [a]) h'"
proof (cases "ss_opened s \<and> a \<noteq> []")
  case True
  let ?h = "handover_step kMaximumIngressPackets (Offer a) h"
  have inv: "handover_inv kMaximumIngressPackets ?h"
    using assms unfolding mic_handover_def by (blast intro: packets.inv_step)
  have "subseq (ho_offered h @ [a]) (given @ [a])"
    using assms by (simp add: mic_handover_def)
  then have "mic_handover (session_send_audio a s) (given @ [a]) ?h"
    using assms True inv
    by (auto simp: mic_handover_def session_send_audio_def mic_send_audio_def post_def pending_audio_def
        split: prod.splits)
  then show ?thesis by blast
next
  case False
  then have "mic_handover (session_send_audio a s) (given @ [a]) h"
    using assms
    by (auto simp: mic_handover_def session_send_audio_def mic_send_audio_def emit_def pending_audio_def
        intro: subseq_weaken)
  then show ?thesis by blast
qed

lemma subseq_skip: "subseq (xs @ ys) zs \<Longrightarrow> subseq xs zs"
  by (meson list_emb_prefix subseq_order.dual_order.refl subseq_order.order_trans)

lemma subseq_extend: "subseq xs zs \<Longrightarrow> subseq (xs @ [x]) (zs @ [x])"
  by simp

lemma mic_handover_request:
  assumes "mic_handover s given h"
  shows "mic_handover (mic_request b s) given (handover_step kMaximumIngressPackets Discard h)"
  using assms packets.inv_step [of h Discard] subseq_skip
  by (auto simp: mic_handover_def mic_request_def session_defs pending_audio_def Let_def)

text \<open>Sending a packet keeps what was sent and what waits a part of what was taken.\<close>

lemma send_audio_part:
  assumes "subseq (mic_data (ss_effects s) @ pending_audio s) taken"
    and "pending_audio s \<noteq> [] \<longrightarrow> mi_in_flight (ss_microphone s)"
  shows "subseq (mic_data (ss_effects (send_audio_on_strand now a s)) @ pending_audio (send_audio_on_strand now a s))
           (taken @ [a]) \<and>
         (pending_audio (send_audio_on_strand now a s) \<noteq> [] \<longrightarrow>
          mi_in_flight (ss_microphone (send_audio_on_strand now a s))) \<and>
         mi_ingress (ss_microphone (send_audio_on_strand now a s)) = mi_ingress (ss_microphone s) \<and>
         ss_tasks (send_audio_on_strand now a s) = ss_tasks s"
proof -
  have "subseq (mic_data (ss_effects s)) taken" using assms(1) by (rule subseq_skip)
  then show ?thesis
    using assms
    by (auto simp: send_audio_on_strand_def emit_def pending_audio_def Let_def subseq_weaken split: if_splits)
qed

lemma mic_handover_ack:
  assumes "mic_handover s given h"
  shows "mic_handover (mic_ack now s) given h"
proof -
  let ?m = "ss_microphone s"
  let ?s = "s\<lparr>ss_microphone := ?m\<lparr>mi_in_flight := False, mi_pending := []\<rparr>\<rparr>"
  have "pending_audio ?s = []" by (simp add: pending_audio_def)
  then show ?thesis
    using assms subseq_skip [of "mic_data (ss_effects s)" "pending_audio s" "ho_taken h"]
    by (auto simp: mic_handover_def mic_ack_def send_audio_on_strand_def emit_def pending_audio_def Let_def
        split: if_splits)
qed

lemma mic_handover_drain:
  assumes "mic_handover s given h" "ss_tasks s = Drain_audio # ts"
  shows "\<exists>h'. mic_handover (mic_drain_audio now (s\<lparr>ss_tasks := ts\<rparr>)) given h'"
proof -
  let ?s = "s\<lparr>ss_tasks := ts\<rparr>" and ?step = "handover_step kMaximumIngressPackets"
  note h = mic_handoverD [OF assms(1)]
  have drains: "ho_drains h = Suc (count_list ts Drain_audio)" using h assms(2) by simp
  show ?thesis
  proof (cases "in_queue (mi_ingress (ss_microphone s))")
    case Nil
    then have "mic_handover (mic_drain_audio now ?s) given (?step Begin_drain h)"
      using assms(1) drains packets.inv_step [of h Begin_drain]
      by (auto simp: mic_handover_def mic_drain_audio_def ingress_take_def pending_audio_def)
    then show ?thesis by blast
  next
    case (Cons a q)
    let ?t = "?s\<lparr>ss_microphone := (ss_microphone s)\<lparr>mi_ingress := (mi_ingress (ss_microphone s))\<lparr>in_queue := q\<rparr>\<rparr>\<rparr>"
    let ?h = "?step End_drain (?step Begin_drain h)"
    obtain u where u: "u = send_audio_on_strand now a ?t" by blast
    have "pending_audio ?t = pending_audio s" by (simp add: pending_audio_def)
    then have part: "subseq (mic_data (ss_effects u) @ pending_audio u) (ho_taken h @ [a])"
      "pending_audio u \<noteq> [] \<longrightarrow> mi_in_flight (ss_microphone u)"
      "mi_ingress (ss_microphone u) = (mi_ingress (ss_microphone s))\<lparr>in_queue := q\<rparr>" "ss_tasks u = ts"
      using send_audio_part [of ?t "ho_taken h" now a] h by (auto simp: u)
    have "mic_drain_audio now ?s =
        (case ingress_again (mi_ingress (ss_microphone u)) of
           (schedule, q') \<Rightarrow> post (if schedule then [Drain_audio] else [])
                              (u\<lparr>ss_microphone := (ss_microphone u)\<lparr>mi_ingress := q'\<rparr>\<rparr>))"
      using Cons by (simp add: mic_drain_audio_def ingress_take_def Let_def u)
    then obtain q' d where d: "mic_drain_audio now ?s =
        u\<lparr>ss_tasks := ts @ d, ss_microphone := (ss_microphone u)\<lparr>mi_ingress := q'\<rparr>\<rparr>"
      "q' = (if q = [] then \<lparr>in_queue = [], in_posted = False\<rparr> else (mi_ingress (ss_microphone s))\<lparr>in_queue := q\<rparr>)"
      "d = (if q = [] then [] else [Drain_audio])"
      using part(3,4) by (cases "mi_ingress (ss_microphone s)") (auto simp: ingress_again_def post_def)
    have run: "ho_ingress ?h = q'" "ho_drains ?h = count_list (ts @ d) Drain_audio" "\<not> ho_running ?h"
      "ho_offered ?h = ho_offered h" "ho_taken ?h = ho_taken h @ [a]"
      using h(2,4) drains Cons
      by (cases "mi_ingress (ss_microphone s)"; simp add: ingress_take_def ingress_again_def d)+
    have pending: "pending_audio (mic_drain_audio now ?s) = pending_audio u" by (simp add: d pending_audio_def)
    have "handover_inv kMaximumIngressPackets ?h"
      using h(1) by (intro packets.inv_step)
    then have "mic_handover (mic_drain_audio now ?s) given ?h"
      unfolding mic_handover_def run pending using run part h(5) by (simp add: d(1) del: handover_step.simps)
    then show ?thesis by blast
  qed
qed

lemma mic_handover_step:
  assumes "mic_handover s given h"
  shows "\<exists>h'. mic_handover (session_step crypt ev s) (given @ offered_audio (snd ev)) h'"
proof (cases "mic_idle (snd ev)")
  case True
  then show ?thesis using mic_handover_idle [OF True assms] by blast
next
  case False
  obtain now e where ev: "ev = (now, e)" by (cases ev)
  consider a where "e = Send_audio a" | "e = Run_task" | b where "e = From_phone (Microphone_request b)"
    | "e = From_phone Microphone_ack"
    using False ev by (auto simp: mic_idle_def)
  then show ?thesis
  proof cases
    case 1
    then show ?thesis using ev mic_handover_offer [OF assms] by simp
  next
    case 2
    show ?thesis
    proof (cases "ss_tasks s")
      case Nil
      then show ?thesis using 2 ev assms by (auto simp: run_strand_task_def)
    next
      case (Cons t ts)
      show ?thesis
      proof (cases "t = Drain_audio")
        case True
        then show ?thesis using 2 ev Cons mic_handover_drain [OF assms, of ts now] by (simp add: run_strand_task_def)
      next
        case other: False
        then have "mic_handover (run_strand_task now s) given h"
          using assms Cons
          by (cases t) (auto simp: run_strand_task_def mic_handover_def session_defs pending_audio_def Let_def)
        then show ?thesis using 2 ev by auto
      qed
    qed
  next
    case 3
    then show ?thesis using ev mic_handover_request [OF assms] by auto
  next
    case 4
    then show ?thesis using ev mic_handover_ack [OF assms] by auto
  qed
qed

lemma mic_handover_run:
  "mic_handover s given h \<Longrightarrow> \<exists>h'. mic_handover (run_session crypt evs s) (given @ offered evs) h'"
proof (induction evs arbitrary: s given h)
  case (Cons ev evs)
  obtain h' where "mic_handover (session_step crypt ev s) (given @ offered_audio (snd ev)) h'"
    using mic_handover_step [OF Cons.prems] by blast
  from Cons.IH [OF this] show ?case by (simp add: run_session_def)
qed (auto simp: run_session_def)

section \<open>One packet in flight\<close>

text \<open>The number of packets that may be sent before the next acknowledgement or opening.\<close>

definition credit :: "'c aa_session \<Rightarrow> nat" where
  "credit s = (if mi_session (ss_microphone s) \<noteq> 0 \<and> \<not> mi_in_flight (ss_microphone s) then 1 else 0)"

definition data_count :: "'c aa_session \<Rightarrow> nat" where
  "data_count s = length (mic_data (ss_effects s))"

lemma credit_send:
  "data_count (send_audio_on_strand now a s) + credit (send_audio_on_strand now a s) \<le> data_count s + credit s"
  by (auto simp: send_audio_on_strand_def emit_def credit_def data_count_def Let_def)

lemma credit_same:
  "ss_microphone s' = ss_microphone s \<Longrightarrow> mic_data (ss_effects s') = mic_data (ss_effects s) \<Longrightarrow>
   data_count s' + credit s' = data_count s + credit s"
  by (simp add: credit_def data_count_def)

lemma credit_ingress:
  "ss_microphone s' = (ss_microphone s)\<lparr>mi_ingress := q\<rparr> \<Longrightarrow> mic_data (ss_effects s') = mic_data (ss_effects s) \<Longrightarrow>
   data_count s' + credit s' = data_count s + credit s"
  by (simp add: credit_def data_count_def)

lemma credit_drain: "data_count (mic_drain_audio now s) + credit (mic_drain_audio now s) \<le> data_count s + credit s"
proof (cases "in_queue (mi_ingress (ss_microphone s))")
  case Nil
  then show ?thesis
    by (intro eq_refl credit_ingress) (simp_all add: mic_drain_audio_def ingress_take_def)
next
  case (Cons a q)
  let ?t = "s\<lparr>ss_microphone := (ss_microphone s)\<lparr>mi_ingress := (mi_ingress (ss_microphone s))\<lparr>in_queue := q\<rparr>\<rparr>\<rparr>"
  obtain schedule q' where again:
    "ingress_again (mi_ingress (ss_microphone (send_audio_on_strand now a ?t))) = (schedule, q')"
    by (cases "ingress_again (mi_ingress (ss_microphone (send_audio_on_strand now a ?t)))")
  have "mic_drain_audio now s = post (if schedule then [Drain_audio] else [])
      (send_audio_on_strand now a ?t\<lparr>ss_microphone := (ss_microphone (send_audio_on_strand now a ?t))\<lparr>mi_ingress := q'\<rparr>\<rparr>)"
    using Cons again by (simp add: mic_drain_audio_def ingress_take_def Let_def)
  then have "data_count (mic_drain_audio now s) + credit (mic_drain_audio now s) =
      data_count (send_audio_on_strand now a ?t) + credit (send_audio_on_strand now a ?t)"
    by (intro credit_ingress [where q = q']) (simp_all add: post_def)
  also have "\<dots> \<le> data_count ?t + credit ?t" by (rule credit_send)
  also have "\<dots> = data_count s + credit s" by (intro credit_ingress) simp_all
  finally show ?thesis .
qed

lemma credit_step:
  "data_count (session_step crypt ev s) + credit (session_step crypt ev s) \<le>
   data_count s + credit s + acks [ev] + opens [ev]"
proof (cases "mic_idle (snd ev)")
  case True
  then show ?thesis using credit_same [of "session_step crypt ev s" s] mic_idle_step [OF True, of crypt s] by simp
next
  case False
  obtain now e where ev: "ev = (now, e)" by (cases ev)
  consider a where "e = Send_audio a" | "e = Run_task" | b where "e = From_phone (Microphone_request b)"
    | "e = From_phone Microphone_ack"
    using False ev by (auto simp: mic_idle_def)
  then show ?thesis
  proof cases
    case (1 a)
    then show ?thesis
      using ev
      by (auto simp: session_defs mic_send_audio_def credit_def data_count_def split: prod.splits)
  next
    case 2
    show ?thesis
    proof (cases "ss_tasks s")
      case Nil
      then show ?thesis using 2 ev by (simp add: run_strand_task_def)
    next
      case (Cons t ts)
      have "data_count (s\<lparr>ss_tasks := ts\<rparr>) + credit (s\<lparr>ss_tasks := ts\<rparr>) = data_count s + credit s"
        by (rule credit_same) simp_all
      then show ?thesis
        using 2 ev Cons credit_drain [of now "s\<lparr>ss_tasks := ts\<rparr>"]
        by (cases t) (auto simp: run_strand_task_def session_defs credit_def data_count_def Let_def)
    qed
  next
    case (3 b)
    then show ?thesis using ev by (cases b) (auto simp: session_defs credit_def data_count_def Let_def)
  next
    case 4
    let ?m = "ss_microphone s"
    let ?s = "s\<lparr>ss_microphone := ?m\<lparr>mi_in_flight := False, mi_pending := []\<rparr>\<rparr>"
    have one: "data_count ?s + credit ?s \<le> Suc (data_count s + credit s)" by (simp add: credit_def data_count_def)
    have awaits: "data_count (emit [Await Microphone_channel] t) = data_count t"
      "credit (emit [Await Microphone_channel] t) = credit t" for t :: "'a aa_session"
      by (simp_all add: emit_def data_count_def credit_def)
    show ?thesis
      using 4 ev one credit_send [of now "mi_pending ?m" ?s]
      by (simp add: mic_ack_def Let_def awaits)
  qed
qed

lemma credit_run:
  "data_count (run_session crypt evs s) + credit (run_session crypt evs s) \<le>
   data_count s + credit s + acks evs + opens evs"
proof (induction evs arbitrary: s)
  case (Cons ev evs)
  show ?case
    using Cons.IH [of "session_step crypt ev s"] credit_step [of crypt ev s] by (simp add: run_session_def)
qed (simp add: run_session_def)

lemma mic_handover_part:
  assumes "mic_handover s given h"
  shows "subseq (mic_data (ss_effects s)) given"
proof -
  have "subseq (ho_taken h) (ho_offered h)"
    using assms subseq_skip by (auto simp: mic_handover_def handover_inv_def)
  then show ?thesis
    using mic_handoverD(5,6) [OF assms] by (meson subseq_skip subseq_order.order_trans)
qed

text \<open>
  C35: Whatever the phone and the bridge do, the microphone packets that are sent are a part of those
  that were offered, in their order; after any point at most one packet more is sent than
  acknowledgements and openings arrive; at most two wait for the strand, and if one waits, a task to
  drain them is posted.
\<close>

theorem microphone_flow:
  "let s = run_session crypt before (new_session c); s' = run_session crypt later s in
   subseq (mic_data (ss_effects s')) (offered (before @ later)) \<and>
   length (mic_data (ss_effects s')) \<le> length (mic_data (ss_effects s)) + 1 + acks later + opens later \<and>
   length (in_queue (mi_ingress (ss_microphone s'))) \<le> 2 \<and>
   (in_queue (mi_ingress (ss_microphone s')) = [] \<or> Drain_audio \<in> set (ss_tasks s'))"
proof -
  obtain h where h: "mic_handover (run_session crypt (before @ later) (new_session c)) (offered (before @ later)) h"
    using mic_handover_run [OF mic_handover_new, of crypt "before @ later" c] by auto
  note facts = mic_handoverD [OF h]
  have run: "run_session crypt later (run_session crypt before (new_session c)) =
      run_session crypt (before @ later) (new_session c)"
    by (simp add: run_session_def)
  let ?s = "run_session crypt (before @ later) (new_session c)"
  have "subseq (mic_data (ss_effects ?s)) (offered (before @ later))" by (rule mic_handover_part [OF h])
  moreover have "length (in_queue (mi_ingress (ss_microphone ?s))) \<le> 2"
    using facts(1,2) by (simp add: handover_inv_def kMaximumIngressPackets_def)
  moreover have "in_queue (mi_ingress (ss_microphone ?s)) = [] \<or> Drain_audio \<in> set (ss_tasks ?s)"
    using facts(1-4) count_notin by (force simp: handover_inv_def)
  moreover have "credit (run_session crypt before (new_session c)) \<le> 1" by (simp add: credit_def)
  with credit_run [of crypt later "run_session crypt before (new_session c)"]
  have "length (mic_data (ss_effects ?s)) \<le>
      length (mic_data (ss_effects (run_session crypt before (new_session c)))) + 1 + acks later + opens later"
    by (simp add: data_count_def run)
  ultimately show ?thesis by (simp add: run Let_def)
qed

section \<open>The end of a session\<close>

definition control_report :: "aa_effect \<Rightarrow> bool" where
  "control_report e = (case e of Report_event k detail \<Rightarrow> prefix ''Android Auto control session: '' detail | _ \<Rightarrow> False)"

definition ended_inv :: "'c aa_session \<Rightarrow> bool" where
  "ended_inv s \<longleftrightarrow>
     count_list (ss_effects s) Ended = (if ss_failed s then 1 else 0) \<and>
     length (filter control_report (ss_effects s)) = (if ss_failed s then 1 else 0)"

lemma control_report_simps [simp]:
  "control_report (Transmit ch m) = False" "control_report (Await ch) = False"
  "control_report (Report_event k detail) = prefix ''Android Auto control session: '' detail"
  "control_report (Play st d) = False" "control_report (Show d) = False" "control_report Ended = False"
  "control_report Shut_down = False" "control_report Null_channel = False"
  by (simp_all add: control_report_def)

text \<open>Only \<open>session_fail\<close> ends the session; every other operation is silent about the end.\<close>

lemma ended_fail: "ended_inv s \<Longrightarrow> ended_inv (session_fail detail unplug s)"
  by (simp add: ended_inv_def session_fail_def emit_def)

definition silent :: "aa_effect list \<Rightarrow> bool" where
  "silent es \<longleftrightarrow> Ended \<notin> set es \<and> (\<forall>e\<in>set es. \<not> control_report e)"

lemma ended_quiet:
  "ended_inv s \<Longrightarrow> ss_effects s' = ss_effects s @ es \<Longrightarrow> silent es \<Longrightarrow> ss_failed s' = ss_failed s \<Longrightarrow> ended_inv s'"
  by (auto simp: ended_inv_def silent_def filter_empty_conv count_list_append)

lemma silent_simps [simp]:
  "silent []" "silent (e # es) \<longleftrightarrow> e \<noteq> Ended \<and> \<not> control_report e \<and> silent es"
  by (auto simp: silent_def)

lemma ended_emit: "ended_inv s \<Longrightarrow> silent es \<Longrightarrow> ended_inv (emit es s)"
  by (rule ended_quiet [of s _ es]) (simp_all add: emit_def)

lemma ended_update [simp]:
  "ended_inv (s\<lparr>ss_cryptor := c\<rparr>) = ended_inv s"
  "ended_inv (s\<lparr>ss_opened := b\<rparr>) = ended_inv s"
  "ended_inv (s\<lparr>ss_audio_session := f\<rparr>) = ended_inv s"
  "ended_inv (s\<lparr>ss_video_session := v\<rparr>) = ended_inv s"
  "ended_inv (s\<lparr>ss_microphone := m\<rparr>) = ended_inv s"
  "ended_inv (s\<lparr>ss_capability_pending := b\<rparr>) = ended_inv s"
  "ended_inv (s\<lparr>ss_stopping := b\<rparr>) = ended_inv s"
  "ended_inv (s\<lparr>ss_phase := p\<rparr>) = ended_inv s"
  "ended_inv (s\<lparr>ss_tasks := ts\<rparr>) = ended_inv s"
  by (simp_all add: ended_inv_def)

lemma ended_parts:
  assumes "ended_inv s"
  shows "ended_inv (session_error e s)" "ended_inv (channel_fail ch detail s)" "ended_inv (channel_error ch e s)"
    "ended_inv (respond ch m s)" "ended_inv (post ts s)" "ended_inv (send_audio_on_strand now a s)"
    "ended_inv (mic_send_audio a s)" "ended_inv (mic_drain_audio now s)"
proof -
  show fails: "ended_inv (session_error e s)" "ended_inv (channel_fail ch detail s)" for e detail
    using assms by (simp_all add: session_error_def ended_fail channel_fail_def channel_name_def ended_emit)
  show "ended_inv (channel_error ch e s)" using fails by (simp add: channel_error_def channel_fail_def)
  show "ended_inv (respond ch m s)" using assms by (simp add: respond_def ended_emit)
  show posted: "ended_inv (post ts s)" for ts using assms by (simp add: post_def)
  have sends: "ended_inv t \<Longrightarrow> ended_inv (send_audio_on_strand now a t)" for t :: "'a aa_session" and a
    by (simp add: send_audio_on_strand_def Let_def ended_emit)
  with assms show "ended_inv (send_audio_on_strand now a s)" by simp
  show "ended_inv (mic_send_audio a s)"
    using assms by (simp add: mic_send_audio_def post_def split: prod.splits)
  show "ended_inv (mic_drain_audio now s)"
    using assms by (simp add: mic_drain_audio_def post_def Let_def sends split: prod.splits option.splits)
qed

lemma ended_handshake: "ended_inv s \<Longrightarrow> ended_inv (handshake_step crypt b s)"
  by (auto simp: handshake_step_def send_handshake_def ended_parts ended_emit split: prod.splits sum.splits option.splits)

lemma ended_message: "ended_inv s \<Longrightarrow> ended_inv (on_message crypt now m s)"
  by (cases m)
    (auto simp: on_version_response_def on_handshake_def on_service_discovery_request_def on_audio_focus_request_def
      on_bye_bye_def session_stop_def audio_open_def input_open_def input_key_binding_def sensor_open_def
      sensor_start_request_def mic_open_def video_focus_request_def video_open_def video_setup_def audio_setup_def mic_setup_def audio_start_def
      video_start_def audio_stop_def video_stop_def audio_media_def audio_acknowledge_def video_media_def
      acknowledge_video_frame_def mic_request_def mic_ack_def Let_def ended_fail ended_parts ended_handshake
      ended_emit split: prod.splits option.splits)

lemma silent_awaits: "silent (map Await chs)"
  by (auto simp: silent_def)

lemma ended_step: "ended_inv s \<Longrightarrow> ended_inv (session_step crypt ev s)"
proof (cases ev)
  case (Pair now e)
  assume ok: "ended_inv s"
  show ?thesis
  proof (cases e)
    case Run_task
    then show ?thesis
      using ok Pair
      by (auto simp: run_strand_task_def send_service_discovery_response_def ended_parts ended_emit Let_def
          split: list.splits strand_task.splits)
  qed (use ok Pair in \<open>auto simp: session_start_def session_stop_def session_send_audio_def send_report_def
      capability_wake_def capability_answer_def discovery_detail_def ended_parts ended_message ended_emit
      silent_awaits split: option.splits\<close>)
qed

text \<open>
  A control session ends at most once, with exactly one report, whatever fails on its channels
  and however often.
\<close>

theorem session_ends_once:
  "let s = run_session crypt evs (new_session c); reports = length (filter control_report (ss_effects s)) in
   count_list (ss_effects s) Ended = reports \<and> reports = (if ss_failed s then 1 else 0)"
proof -
  have "ended_inv s \<Longrightarrow> ended_inv (run_session crypt evs s)" for s
    by (induction evs arbitrary: s) (simp_all add: run_session_def ended_step)
  moreover have "ended_inv (new_session c)" by (simp add: ended_inv_def new_session_def)
  ultimately show ?thesis by (auto simp: ended_inv_def Let_def)
qed

section \<open>Media channels\<close>

text \<open>What a channel for audio does on its own: the messages for it and the start of the session.\<close>

fun audio_alone :: "aa_stream \<Rightarrow> u32 \<Rightarrow> session_event list \<Rightarrow> aa_effect list" where
  "audio_alone st ident [] = []"
| "audio_alone st ident (ev # evs) =
     (let ch = channel_of st in
      case ev of
        Start_session None \<Rightarrow> Await ch # audio_alone st ident evs
      | From_phone (Open_request c) \<Rightarrow>
          (if c = ch then [Transmit ch Channel_open_response, Await ch] else []) @ audio_alone st ident evs
      | From_phone (Setup_request c pcm) \<Rightarrow>
          (if c = ch \<and> pcm then [Transmit ch Setup_response, Await ch] else []) @ audio_alone st ident evs
      | From_phone (Start_indication c v) \<Rightarrow>
          (if c = ch then Await ch # audio_alone st v evs else audio_alone st ident evs)
      | From_phone (Stop_indication c) \<Rightarrow>
          (if c = ch then Await ch # audio_alone st 0 evs else audio_alone st ident evs)
      | From_phone (Media_indication c content) \<Rightarrow>
          (if c = ch then [Play st content, Transmit ch (Media_ack ident), Await ch] else []) @ audio_alone st ident evs
      | _ \<Rightarrow> audio_alone st ident evs)"

fun video_alone :: "u32 \<Rightarrow> session_event list \<Rightarrow> aa_effect list" where
  "video_alone ident [] = []"
| "video_alone ident (ev # evs) =
     (let ch = Video_channel in
      case ev of
        Start_session None \<Rightarrow> Await ch # video_alone ident evs
      | From_phone (Open_request c) \<Rightarrow>
          (if c = ch then [Transmit ch Channel_open_response, Await ch] else []) @ video_alone ident evs
      | From_phone (Setup_request c h264) \<Rightarrow>
          (if c = ch \<and> h264 then [Transmit ch Setup_response, Transmit ch (Video_focus True), Await ch] else []) @
          video_alone ident evs
      | From_phone (Start_indication c v) \<Rightarrow>
          (if c = ch then Await ch # video_alone v evs else video_alone ident evs)
      | From_phone (Stop_indication c) \<Rightarrow> (if c = ch then Await ch # video_alone 0 evs else video_alone ident evs)
      | From_phone (Media_indication c content) \<Rightarrow>
          (if c = ch then [Show content, Transmit ch (Media_ack ident), Await ch] else []) @ video_alone ident evs
      | From_phone Video_focus_request \<Rightarrow> [Transmit ch (Video_focus False), Await ch] @ video_alone ident evs
      | _ \<Rightarrow> video_alone ident evs)"

text \<open>The effects on a channel.\<close>

definition on_channel :: "aa_channel \<Rightarrow> aa_effect \<Rightarrow> bool" where
  "on_channel ch e =
     (case e of Transmit c m \<Rightarrow> c = ch | Await c \<Rightarrow> c = ch | Play st d \<Rightarrow> channel_of st = ch
      | Show d \<Rightarrow> ch = Video_channel | _ \<Rightarrow> False)"

lemma on_channel_simps [simp]:
  "on_channel ch (Transmit c m) = (c = ch)" "on_channel ch (Await c) = (c = ch)"
  "on_channel ch (Play st d) = (channel_of st = ch)" "on_channel ch (Show d) = (ch = Video_channel)"
  "on_channel ch (Report_event k detail) = False" "on_channel ch Ended = False" "on_channel ch Shut_down = False"
  "on_channel ch Null_channel = False"
  by (simp_all add: on_channel_def)

lemma channel_of_simps [simp]:
  "channel_of Stream_media = Media_channel" "channel_of Stream_guidance = Guidance_channel"
  "channel_of Stream_system = System_channel" "channel_of st = channel_of st' \<longleftrightarrow> st = st'"
  "channel_of st \<noteq> Control_channel" "channel_of st \<noteq> Video_channel" "channel_of st \<noteq> Input_channel"
  "channel_of st \<noteq> Sensor_channel" "channel_of st \<noteq> Microphone_channel"
  "Control_channel \<noteq> channel_of st" "Video_channel \<noteq> channel_of st" "Input_channel \<noteq> channel_of st"
  "Sensor_channel \<noteq> channel_of st" "Microphone_channel \<noteq> channel_of st"
  "stream_of (channel_of st) = Some st"
  by (cases st; cases st'; simp add: channel_of_def stream_of_def)+

lemma stream_of_Some: "stream_of ch = Some st \<longleftrightarrow> ch = channel_of st"
  by (cases st) (auto simp: stream_of_def)

text \<open>The effects of a step on a channel; for a channel of audio or video, of its own events alone.\<close>

abbreviation seen :: "aa_channel \<Rightarrow> 'c aa_session \<Rightarrow> aa_effect list" where
  "seen ch s \<equiv> filter (on_channel ch) (ss_effects s)"

lemma seen_fail [simp]: "seen ch (session_fail detail unplug s) = seen ch s"
  by (simp add: session_fail_def emit_def)

lemma seen_parts [simp]:
  "seen ch (session_error e s) = seen ch s" "seen ch (channel_fail c detail s) = seen ch s"
  "seen ch (channel_error c e s) = seen ch s"
  "seen ch (emit es s) = seen ch s @ filter (on_channel ch) es" "seen ch (post ts s) = seen ch s"
  by (simp_all add: session_error_def channel_fail_def channel_error_def emit_def post_def)

text \<open>What the step leaves of the numbers of the media sessions.\<close>

abbreviation same_ids :: "'c aa_session \<Rightarrow> 'c aa_session \<Rightarrow> bool" where
  "same_ids s s' \<equiv> ss_audio_session s' = ss_audio_session s \<and> ss_video_session s' = ss_video_session s"

lemma ids_parts [simp]:
  "ss_audio_session (session_fail detail unplug s) = ss_audio_session s"
  "ss_video_session (session_fail detail unplug s) = ss_video_session s"
  "ss_audio_session (session_error e s) = ss_audio_session s"
  "ss_video_session (session_error e s) = ss_video_session s"
  "ss_audio_session (channel_fail c detail s) = ss_audio_session s"
  "ss_video_session (channel_fail c detail s) = ss_video_session s"
  "ss_audio_session (channel_error c e s) = ss_audio_session s"
  "ss_video_session (channel_error c e s) = ss_video_session s"
  "ss_audio_session (emit es s) = ss_audio_session s" "ss_video_session (emit es s) = ss_video_session s"
  "ss_audio_session (post ts s) = ss_audio_session s" "ss_video_session (post ts s) = ss_video_session s"
  by (simp_all add: session_defs)

definition media_channel :: "aa_channel \<Rightarrow> bool" where
  "media_channel ch = (ch = Video_channel \<or> (\<exists>st. ch = channel_of st))"

lemma media_channel_not:
  "media_channel ch \<Longrightarrow> Control_channel \<noteq> ch \<and> Input_channel \<noteq> ch \<and> Sensor_channel \<noteq> ch \<and> Microphone_channel \<noteq> ch"
  by (auto simp: media_channel_def)

lemma media_quiet_parts:
  assumes "media_channel ch"
  shows "seen ch (send_audio_on_strand now a s) = seen ch s \<and> same_ids s (send_audio_on_strand now a s)"
    "seen ch (handshake_step crypt b s) = seen ch s \<and> same_ids s (handshake_step crypt b s)"
  using media_channel_not [OF assms]
  by (auto simp: send_audio_on_strand_def handshake_step_def send_handshake_def respond_def Let_def
      split: prod.splits sum.splits option.splits)

lemma media_quiet_drain:
  assumes "media_channel ch"
  shows "seen ch (mic_drain_audio now s) = seen ch s \<and> same_ids s (mic_drain_audio now s)"
  by (auto simp: mic_drain_audio_def Let_def media_quiet_parts [OF assms] split: prod.splits option.splits)

text \<open>The events that a media channel reacts to.\<close>

definition media_event :: "session_event \<Rightarrow> bool" where
  "media_event ev =
     (case ev of
        Start_session failure \<Rightarrow> failure = None
      | From_phone m \<Rightarrow>
          (case m of Open_request c \<Rightarrow> True | Setup_request c b \<Rightarrow> True | Start_indication c v \<Rightarrow> True
           | Stop_indication c \<Rightarrow> True | Media_indication c d \<Rightarrow> True | Video_focus_request \<Rightarrow> True | _ \<Rightarrow> False)
      | _ \<Rightarrow> False)"

lemma media_quiet_step:
  assumes "media_channel ch" "\<not> media_event (snd ev)"
  shows "seen ch (session_step crypt ev s) = seen ch s \<and> same_ids s (session_step crypt ev s)"
proof (cases ev)
  case (Pair now e)
  note other = media_channel_not [OF assms(1)]
  show ?thesis
  proof (cases e)
    case (From_phone m)
    then show ?thesis
      using assms Pair other
      by (cases m)
        (auto simp: media_event_def on_version_response_def on_handshake_def on_service_discovery_request_def
          on_audio_focus_request_def on_bye_bye_def session_stop_def input_key_binding_def sensor_start_request_def respond_def mic_request_def mic_ack_def
          Let_def media_quiet_parts [OF assms(1)] split: prod.splits option.splits)
  next
    case Run_task
    then show ?thesis
      using Pair other
      by (auto simp: run_strand_task_def send_service_discovery_response_def respond_def Let_def
          media_quiet_drain [OF assms(1)] split: list.splits strand_task.splits)
  qed (use assms Pair in \<open>auto simp: media_event_def session_start_def session_stop_def session_send_audio_def
      mic_send_audio_def send_report_def capability_wake_def capability_answer_def split: option.splits prod.splits\<close>)
qed

lemma audio_quiet: "\<not> media_event ev \<Longrightarrow> audio_alone st ident (ev # evs) = audio_alone st ident evs"
  by (cases ev; auto simp: media_event_def Let_def split: option.splits phone_message.splits)

lemma video_quiet: "\<not> media_event ev \<Longrightarrow> video_alone ident (ev # evs) = video_alone ident evs"
  by (cases ev; auto simp: media_event_def Let_def split: option.splits phone_message.splits)

lemmas media_handlers = video_open_def video_setup_def video_start_def video_stop_def video_media_def
  acknowledge_video_frame_def audio_setup_def audio_start_def audio_stop_def audio_media_def
  audio_acknowledge_def audio_open_def input_open_def sensor_open_def mic_open_def video_focus_request_def mic_setup_def session_start_def respond_def all_channels_def

lemma audio_step:
  "seen (channel_of st) (session_step crypt ev s) @ audio_alone st (ss_audio_session (session_step crypt ev s) st) evs =
   seen (channel_of st) s @ audio_alone st (ss_audio_session s st) (snd ev # evs)"
proof (cases "media_event (snd ev)")
  case False
  have "media_channel (channel_of st)" by (auto simp: media_channel_def)
  from media_quiet_step [OF this False, of crypt s] show ?thesis by (simp add: audio_quiet [OF False] del: audio_alone.simps)
next
  case True
  obtain now e where ev: "ev = (now, e)" by (cases ev)
  show ?thesis
  proof (cases e)
    case (Start_session failure)
    then show ?thesis using True ev by (cases st) (auto simp: media_event_def media_handlers Let_def)
  next
    case (From_phone m)
    then show ?thesis
      using True ev by (cases m) (auto simp: media_event_def media_handlers stream_of_Some Let_def split: option.splits)
  qed (use True ev in \<open>simp_all add: media_event_def\<close>)
qed

lemma video_step:
  "seen Video_channel (session_step crypt ev s) @ video_alone (ss_video_session (session_step crypt ev s)) evs =
   seen Video_channel s @ video_alone (ss_video_session s) (snd ev # evs)"
proof (cases "media_event (snd ev)")
  case False
  have "media_channel Video_channel" by (simp add: media_channel_def)
  from media_quiet_step [OF this False, of crypt s] show ?thesis by (simp add: video_quiet [OF False] del: video_alone.simps)
next
  case True
  obtain now e where ev: "ev = (now, e)" by (cases ev)
  show ?thesis
  proof (cases e)
    case (Start_session failure)
    then show ?thesis using True ev by (auto simp: media_event_def media_handlers)
  next
    case (From_phone m)
    then show ?thesis
      using True ev by (cases m) (auto simp: media_event_def media_handlers stream_of_def Let_def split: option.splits)
  qed (use True ev in \<open>simp_all add: media_event_def\<close>)
qed

text \<open>
  C36: A media channel does exactly what its own messages say, whatever happens on the other channels
  and whatever fails: every frame is handed on once and acknowledged with the number of the stream
  that is started, and the channel waits for its next message.
\<close>

theorem media_channels_isolated:
  "let s = run_session crypt evs (new_session c) in
   filter (on_channel (channel_of st)) (ss_effects s) = audio_alone st 0 (map snd evs) \<and>
   filter (on_channel Video_channel) (ss_effects s) = video_alone 0 (map snd evs)"
proof -
  have audio: "seen (channel_of st) (run_session crypt evs s) =
      seen (channel_of st) s @ audio_alone st (ss_audio_session s st) (map snd evs)" for s
  proof (induction evs arbitrary: s)
    case (Cons ev evs)
    show ?case using Cons.IH [of "session_step crypt ev s"] audio_step [of st crypt ev s "map snd evs"]
      by (simp add: run_session_def del: audio_alone.simps)
  qed (simp add: run_session_def)
  have video: "seen Video_channel (run_session crypt evs s) =
      seen Video_channel s @ video_alone (ss_video_session s) (map snd evs)" for s
  proof (induction evs arbitrary: s)
    case (Cons ev evs)
    show ?case using Cons.IH [of "session_step crypt ev s"] video_step [of crypt ev s "map snd evs"]
      by (simp add: run_session_def del: video_alone.simps)
  qed (simp add: run_session_def)
  show ?thesis using audio [of "new_session c"] video [of "new_session c"] by (simp add: new_session_def Let_def)
qed

section \<open>What the model shows\<close>

text \<open>
  The worker for the capabilities does not look why it woke: after 100 ms without a request it
  computes and sends a discovery response that nobody asked for, and waits for one message more.
\<close>

lemma unrequested_discovery:
  "seen Control_channel (run_session crypt
     [(0, Start_session None), (1, Wake_capabilities), (2, Capabilities None), (3, Run_task)] (new_session c)) =
   [Transmit Control_channel Version_request, Await Control_channel,
    Transmit Control_channel (Discovery_response (discovery_response None)), Await Control_channel]"
  by (simp add: run_session_def session_start_def emit_def new_session_def capability_wake_def capability_answer_def
      post_def run_strand_task_def send_service_discovery_response_def respond_def all_channels_def)

text \<open>A report for a session whose start failed reaches a channel that does not exist.\<close>

lemma report_without_channel:
  "Null_channel \<in> set (ss_effects (run_session crypt [(0, Start_session (Some e)), (1, Send_input r)] (new_session c)))"
  by (simp add: run_session_def session_start_def session_defs new_session_def)

end
