(* ===== verification/Aa_Receiver.thy ===== *)
theory Aa_Receiver
  imports Aa_Ingress Text_Prelude
begin

text \<open>
  \<open>WiredReceiver::Impl\<close> of \<open>src/src/aa/wired_receiver.cpp\<close>: the threads that watch USB, the queues of
  input reports and microphone packets, and the life of the control session.  A step is what one
  thread does without another one in between; libusb and the hub of AASDK are events and effects.
  Control sessions are numbered: what happens inside one is modelled in \<open>Aa_Session\<close>.
\<close>

section \<open>State\<close>

datatype feed = Reports | Microphone

datatype io_task = Drain feed | Arrival nat byte byte | Departure | Session_end

datatype event_kind = Waiting | Transport_ready | Gone | Failed

datatype receiver_effect =
    Emit event_kind string
  | Arm_hub
  | Cancel_hub
  | Start_control nat
  | Stop_control nat
  | To_session nat feed bytes

record receiver =
  rc_running :: bool
  rc_stopping :: bool
  rc_reports :: "bytes ingress"
  rc_audio :: "bytes ingress"
  rc_rest :: "feed option"
  rc_tasks :: "io_task list"
  rc_active :: bool
  rc_bus :: byte
  rc_address :: byte
  rc_handle :: "nat option"
  rc_session :: "nat option"
  rc_sessions :: nat
  rc_hotplug :: bool
  rc_effects :: "receiver_effect list"

definition idle_receiver :: receiver where
  "idle_receiver =
     \<lparr>rc_running = False, rc_stopping = False, rc_reports = empty_ingress, rc_audio = empty_ingress,
      rc_rest = None, rc_tasks = [], rc_active = False, rc_bus = 0, rc_address = 0, rc_handle = None,
      rc_session = None, rc_sessions = 0, rc_hotplug = False, rc_effects = []\<rparr>"

definition effect :: "receiver_effect list \<Rightarrow> receiver \<Rightarrow> receiver" where
  "effect es s = s\<lparr>rc_effects := rc_effects s @ es\<rparr>"

definition io_post :: "io_task list \<Rightarrow> receiver \<Rightarrow> receiver" where
  "io_post ts s = s\<lparr>rc_tasks := rc_tasks s @ ts\<rparr>"

section \<open>Devices\<close>

text \<open>A device with its descriptor, if it can be read, and the handle, if it can be opened.\<close>

record usb_device =
  ud_descriptor :: "(u16 \<times> u16) option"
  ud_handle :: "nat option"
  ud_bus :: byte
  ud_address :: byte

definition is_aoap :: "usb_device \<Rightarrow> bool" where
  "is_aoap d =
     (case ud_descriptor d of
        None \<Rightarrow> False
      | Some (vendor, product) \<Rightarrow> vendor = 0x18D1 \<and> (product = 0x2D00 \<or> product = 0x2D01))"

definition handle_device_arrival :: "usb_device \<Rightarrow> receiver \<Rightarrow> receiver" where
  "handle_device_arrival d s =
     (if rc_stopping s \<or> rc_active s \<or> \<not> is_aoap d then s
      else case ud_handle d of
             None \<Rightarrow> effect [Emit Failed ''unable to open the Android Auto AOAP USB device''] s
           | Some handle \<Rightarrow> io_post [Arrival handle (ud_bus d) (ud_address d)] s)"

definition device_left :: "byte \<Rightarrow> byte \<Rightarrow> receiver \<Rightarrow> receiver" where
  "device_left bus address s =
     (if \<not> rc_active s \<or> rc_stopping s \<or> bus \<noteq> rc_bus s \<or> address \<noteq> rc_address s then s
      else io_post [Departure] s)"

section \<open>Starting and stopping\<close>

definition waiting_text :: string where
  "waiting_text = ''waiting for a wired Android Auto phone''"

definition reset_locked :: "receiver \<Rightarrow> receiver" where
  "reset_locked s =
     effect (case rc_session s of None \<Rightarrow> [] | Some i \<Rightarrow> [Stop_control i])
       (s\<lparr>rc_session := None, rc_handle := None, rc_active := False, rc_running := False\<rparr>)"

text \<open>The answers of libusb: initialisation, the hot-plug capability, the registration, the devices.\<close>

record usb_start =
  us_init :: bool
  us_capability :: bool
  us_register :: bool
  us_devices :: "usb_device list option"

definition receiver_start :: "usb_start \<Rightarrow> receiver \<Rightarrow> bool \<times> string \<times> receiver" where
  "receiver_start os s =
     (if rc_running s then (True, [], s)
      else if \<not> us_init os then (False, ''unable to initialize libusb'', s)
      else if \<not> us_capability os then (False, ''libusb hotplug support is unavailable'', s)
      else if \<not> us_register os then (False, ''unable to register USB disconnect callback'', reset_locked s)
      else
        let s = effect [Arm_hub] (s\<lparr>rc_hotplug := True, rc_stopping := False, rc_running := True\<rparr>);
            s = (case us_devices os of None \<Rightarrow> s | Some ds \<Rightarrow> fold handle_device_arrival ds s)
        in (True, [], effect [Emit Waiting waiting_text] s))"

text \<open>
  \<open>stop\<close> has two critical sections; between them the threads finish the step they are in.  The
  handlers that are posted stay in the I/O service.
\<close>

definition stop_begin :: "receiver \<Rightarrow> receiver" where
  "stop_begin s =
     (if \<not> rc_running s then s
      else effect [Cancel_hub]
             (s\<lparr>rc_stopping := True, rc_reports := empty_ingress, rc_audio := empty_ingress, rc_hotplug := False\<rparr>))"

definition stop_end :: "receiver \<Rightarrow> receiver" where
  "stop_end s = (if rc_running s \<and> rc_stopping s \<and> rc_rest s = None then reset_locked s else s)"

section \<open>Input reports and microphone packets\<close>

definition kMaximumInputReports :: nat where "kMaximumInputReports = 32"

definition kMaximumMicrophonePackets :: nat where "kMaximumMicrophonePackets = 2"

text \<open>The parser of the protocol buffers is a parameter.\<close>

definition send_input_report :: "(bytes \<Rightarrow> bool) \<Rightarrow> bytes \<Rightarrow> receiver \<Rightarrow> bool \<times> receiver" where
  "send_input_report parses report s =
     (if length report > 0x7fffffff \<or> \<not> parses report then (False, s)
      else if \<not> rc_running s \<or> rc_stopping s then (False, s)
      else case ingress_push kMaximumInputReports report (rc_reports s) of
             (schedule, q) \<Rightarrow> (True, io_post (if schedule then [Drain Reports] else []) (s\<lparr>rc_reports := q\<rparr>)))"

definition send_microphone_audio :: "bytes \<Rightarrow> receiver \<Rightarrow> bool \<times> receiver" where
  "send_microphone_audio pcm s =
     (if pcm = [] then (False, s)
      else if \<not> rc_running s \<or> rc_stopping s then (False, s)
      else case ingress_push kMaximumMicrophonePackets pcm (rc_audio s) of
             (schedule, q) \<Rightarrow> (True, io_post (if schedule then [Drain Microphone] else []) (s\<lparr>rc_audio := q\<rparr>)))"

text \<open>The part of a drain up to the hand-over to the session, and the rest.\<close>

definition hand_to_session :: "feed \<Rightarrow> bytes \<Rightarrow> receiver \<Rightarrow> receiver" where
  "hand_to_session f x s =
     effect (case rc_session s of None \<Rightarrow> [] | Some i \<Rightarrow> [To_session i f x]) s"

definition drain_input_reports :: "receiver \<Rightarrow> receiver" where
  "drain_input_reports s =
     (case ingress_take (rc_reports s) of
        (None, q) \<Rightarrow> s\<lparr>rc_reports := q\<rparr>
      | (Some report, q) \<Rightarrow> hand_to_session Reports report (s\<lparr>rc_reports := q, rc_rest := Some Reports\<rparr>))"

definition drain_input_rest :: "receiver \<Rightarrow> receiver" where
  "drain_input_rest s =
     (case ingress_again (rc_reports s) of
        (schedule, q) \<Rightarrow>
          io_post (if schedule then [Drain Reports] else []) (s\<lparr>rc_reports := q, rc_rest := None\<rparr>))"

definition drain_microphone_audio :: "receiver \<Rightarrow> receiver" where
  "drain_microphone_audio s =
     (case ingress_take (rc_audio s) of
        (None, q) \<Rightarrow> s\<lparr>rc_audio := q\<rparr>
      | (Some pcm, q) \<Rightarrow> hand_to_session Microphone pcm (s\<lparr>rc_audio := q, rc_rest := Some Microphone\<rparr>))"

definition drain_microphone_rest :: "receiver \<Rightarrow> receiver" where
  "drain_microphone_rest s =
     (case ingress_again (rc_audio s) of
        (schedule, q) \<Rightarrow>
          io_post (if schedule then [Drain Microphone] else []) (s\<lparr>rc_audio := q, rc_rest := None\<rparr>))"

section \<open>The control session\<close>

definition start_control_session :: "receiver \<Rightarrow> receiver" where
  "start_control_session s =
     effect [Start_control (rc_sessions s)] (s\<lparr>rc_session := Some (rc_sessions s), rc_sessions := Suc (rc_sessions s)\<rparr>)"

text \<open>The promise of the hub.\<close>

definition phone_found :: "nat \<Rightarrow> byte \<Rightarrow> byte \<Rightarrow> receiver \<Rightarrow> receiver" where
  "phone_found handle bus address s =
     (if rc_stopping s then s
      else start_control_session
        (effect [Emit Transport_ready
            (''AOAP transport ready on USB '' @ nat_to_string (unat bus) @ '':'' @ nat_to_string (unat address))]
          (s\<lparr>rc_bus := bus, rc_address := address, rc_handle := Some handle, rc_active := True\<rparr>)))"

definition hub_failed :: "string \<Rightarrow> receiver \<Rightarrow> receiver" where
  "hub_failed detail s =
     (if rc_stopping s then s else effect [Emit Failed (''Android Auto USB discovery failed: '' @ detail)] s)"

definition arrival :: "nat \<Rightarrow> byte \<Rightarrow> byte \<Rightarrow> receiver \<Rightarrow> receiver" where
  "arrival handle bus address s =
     (if rc_stopping s \<or> rc_active s then s
      else s\<lparr>rc_bus := bus, rc_address := address, rc_handle := Some handle, rc_active := True\<rparr>)"

definition departure :: "receiver \<Rightarrow> receiver" where
  "departure s =
     effect [Emit Gone ''wired Android Auto phone disconnected'', Arm_hub, Emit Waiting waiting_text]
       (s\<lparr>rc_active := False, rc_session := None, rc_handle := None\<rparr>)"

definition handle_control_session_end :: "receiver \<Rightarrow> receiver" where
  "handle_control_session_end s =
     (if rc_stopping s \<or> \<not> rc_active s then s
      else effect [Emit Gone ''wired Android Auto control transport ended'', Arm_hub, Emit Waiting waiting_text]
        (s\<lparr>rc_session := None, rc_handle := None, rc_active := False\<rparr>))"

section \<open>Steps\<close>

definition io_enabled :: "receiver \<Rightarrow> bool" where
  "io_enabled s = (rc_running s \<and> \<not> rc_stopping s \<and> rc_rest s = None)"

definition run_io_task :: "receiver \<Rightarrow> receiver" where
  "run_io_task s =
     (case rc_tasks s of
        [] \<Rightarrow> s
      | t # ts \<Rightarrow>
          if \<not> io_enabled s then s
          else let s = s\<lparr>rc_tasks := ts\<rparr> in
            case t of
              Drain Reports \<Rightarrow> drain_input_reports s
            | Drain Microphone \<Rightarrow> drain_microphone_audio s
            | Arrival handle bus address \<Rightarrow> arrival handle bus address s
            | Departure \<Rightarrow> departure s
            | Session_end \<Rightarrow> handle_control_session_end s)"

definition finish_drain :: "receiver \<Rightarrow> receiver" where
  "finish_drain s =
     (case rc_rest s of
        None \<Rightarrow> s
      | Some Reports \<Rightarrow> drain_input_rest s
      | Some Microphone \<Rightarrow> drain_microphone_rest s)"

datatype receiver_event =
    Start usb_start
  | Stop_begin
  | Stop_end
  | Offer_report bytes
  | Offer_audio bytes
  | Device_arrived usb_device
  | Device_left byte byte
  | Phone_found nat byte byte
  | Hub_failed string
  | Session_ended nat
  | Io_task
  | Io_finish

text \<open>The hub calls back, the sessions report and the devices change while the threads run.\<close>

fun receiver_step :: "(bytes \<Rightarrow> bool) \<Rightarrow> receiver_event \<Rightarrow> receiver \<Rightarrow> receiver" where
  "receiver_step parses (Start os) s = snd (snd (receiver_start os s))"
| "receiver_step parses Stop_begin s = stop_begin s"
| "receiver_step parses Stop_end s = stop_end s"
| "receiver_step parses (Offer_report r) s = snd (send_input_report parses r s)"
| "receiver_step parses (Offer_audio pcm) s = snd (send_microphone_audio pcm s)"
| "receiver_step parses (Device_arrived d) s = (if rc_running s then handle_device_arrival d s else s)"
| "receiver_step parses (Device_left bus address) s = (if rc_running s then device_left bus address s else s)"
| "receiver_step parses (Phone_found handle bus address) s =
     (if io_enabled s then phone_found handle bus address s else s)"
| "receiver_step parses (Hub_failed detail) s = (if io_enabled s then hub_failed detail s else s)"
| "receiver_step parses (Session_ended i) s = (if i < rc_sessions s then io_post [Session_end] s else s)"
| "receiver_step parses Io_task s = run_io_task s"
| "receiver_step parses Io_finish s = finish_drain s"

definition run_receiver :: "(bytes \<Rightarrow> bool) \<Rightarrow> receiver_event list \<Rightarrow> receiver \<Rightarrow> receiver" where
  "run_receiver parses evs s = fold (receiver_step parses) evs s"

end
