(* ===== verification/Aa_Receiver_Props.thy ===== *)
theory Aa_Receiver_Props
  imports Aa_Receiver
begin

text \<open>
  The properties of the wired receiver, over every interleaving of its threads: the two feeds are
  hand-overs, and what is fed goes to the control session that was started last.
\<close>

section \<open>The feeds\<close>

interpretation report_feed: bounded_handover kMaximumInputReports
  by unfold_locales (simp add: kMaximumInputReports_def)

interpretation audio_feed: bounded_handover kMaximumMicrophonePackets
  by unfold_locales (simp add: kMaximumMicrophonePackets_def)

text \<open>What was accepted for a feed, and what was handed to a session.\<close>

definition delivered :: "feed \<Rightarrow> receiver_effect list \<Rightarrow> bytes list" where
  "delivered f es = concat (map (\<lambda>e. case e of To_session i g x \<Rightarrow> if g = f then [x] else [] | _ \<Rightarrow> []) es)"

lemma delivered_simps [simp]:
  "delivered f [] = []" "delivered f (es @ fs) = delivered f es @ delivered f fs"
  "delivered f (e # es) = (case e of To_session i g x \<Rightarrow> if g = f then [x] else [] | _ \<Rightarrow> []) @ delivered f es"
  by (simp_all add: delivered_def)

definition feed_queue :: "feed \<Rightarrow> receiver \<Rightarrow> bytes ingress" where
  "feed_queue f s = (case f of Reports \<Rightarrow> rc_reports s | Microphone \<Rightarrow> rc_audio s)"

definition feed_limit :: "feed \<Rightarrow> nat" where
  "feed_limit f = (case f of Reports \<Rightarrow> kMaximumInputReports | Microphone \<Rightarrow> kMaximumMicrophonePackets)"

fun offered_to :: "feed \<Rightarrow> receiver_event \<Rightarrow> bytes list" where
  "offered_to Reports (Offer_report r) = [r]"
| "offered_to Microphone (Offer_audio pcm) = [pcm]"
| "offered_to _ _ = []"

text \<open>A feed is a hand-over; a report that finds no session is taken and dropped.\<close>

definition feed_handover :: "feed \<Rightarrow> receiver \<Rightarrow> bytes list \<Rightarrow> bytes handover \<Rightarrow> bool" where
  "feed_handover f s given h \<longleftrightarrow>
     handover_inv (feed_limit f) h \<and> ho_ingress h = feed_queue f s \<and>
     ho_drains h = count_list (rc_tasks s) (Drain f) \<and> (ho_running h \<longleftrightarrow> rc_rest s = Some f) \<and>
     subseq (ho_offered h) given \<and> subseq (delivered f (rc_effects s)) (ho_taken h)"

lemma feed_inv_step: "handover_inv (feed_limit f) h \<Longrightarrow> handover_inv (feed_limit f) (handover_step (feed_limit f) ev h)"
  by (cases f) (simp_all add: feed_limit_def report_feed.inv_step audio_feed.inv_step)

lemma feed_handover_new: "feed_handover f idle_receiver [] empty_handover"
proof -
  have "handover_inv (feed_limit f) empty_handover"
    by (cases f) (simp_all add: feed_limit_def report_feed.inv_empty audio_feed.inv_empty)
  then show ?thesis
    by (cases f) (simp_all add: feed_handover_def feed_queue_def idle_receiver_def empty_handover_def empty_ingress_def)
qed

text \<open>A step that leaves the feed alone.\<close>

definition feed_idle :: "feed \<Rightarrow> receiver \<Rightarrow> receiver \<Rightarrow> bool" where
  "feed_idle f s s' \<longleftrightarrow>
     feed_queue f s' = feed_queue f s \<and> count_list (rc_tasks s') (Drain f) = count_list (rc_tasks s) (Drain f) \<and>
     (rc_rest s' = Some f \<longleftrightarrow> rc_rest s = Some f) \<and> delivered f (rc_effects s') = delivered f (rc_effects s)"

lemma subseq_later: "subseq xs given \<Longrightarrow> subseq xs (given @ later)"
  by (meson list_emb_prefix subseq_order.dual_order.refl subseq_order.order_trans)

lemma feed_handover_idle:
  "feed_handover f s given h \<Longrightarrow> feed_idle f s s' \<Longrightarrow> feed_handover f s' (given @ later) h"
  by (auto simp: feed_handover_def feed_idle_def subseq_later)

lemma feed_idle_refl [simp]: "feed_idle f s s"
  by (simp add: feed_idle_def)

lemma feed_idle_trans: "feed_idle f s s' \<Longrightarrow> feed_idle f s' s'' \<Longrightarrow> feed_idle f s s''"
  by (simp add: feed_idle_def)

lemma feed_queue_simps [simp]:
  "feed_queue f (s\<lparr>rc_tasks := ts\<rparr>) = feed_queue f s" "feed_queue f (s\<lparr>rc_rest := r\<rparr>) = feed_queue f s"
  "feed_queue f (s\<lparr>rc_effects := es\<rparr>) = feed_queue f s" "feed_queue f (s\<lparr>rc_active := b\<rparr>) = feed_queue f s"
  "feed_queue f (s\<lparr>rc_bus := a\<rparr>) = feed_queue f s" "feed_queue f (s\<lparr>rc_address := a\<rparr>) = feed_queue f s"
  "feed_queue f (s\<lparr>rc_handle := n\<rparr>) = feed_queue f s" "feed_queue f (s\<lparr>rc_session := n\<rparr>) = feed_queue f s"
  "feed_queue f (s\<lparr>rc_sessions := k\<rparr>) = feed_queue f s" "feed_queue f (s\<lparr>rc_running := b\<rparr>) = feed_queue f s"
  "feed_queue f (s\<lparr>rc_stopping := b\<rparr>) = feed_queue f s" "feed_queue f (s\<lparr>rc_hotplug := b\<rparr>) = feed_queue f s"
  "feed_queue Reports (s\<lparr>rc_reports := q\<rparr>) = q" "feed_queue Reports (s\<lparr>rc_audio := q\<rparr>) = feed_queue Reports s"
  "feed_queue Microphone (s\<lparr>rc_audio := q\<rparr>) = q" "feed_queue Microphone (s\<lparr>rc_reports := q\<rparr>) = feed_queue Microphone s"
  by (cases f; simp add: feed_queue_def)+

named_theorems receiver_ops

declare effect_def [receiver_ops] io_post_def [receiver_ops] handle_device_arrival_def [receiver_ops]
  device_left_def [receiver_ops] reset_locked_def [receiver_ops] phone_found_def [receiver_ops]
  start_control_session_def [receiver_ops] hub_failed_def [receiver_ops] arrival_def [receiver_ops]
  departure_def [receiver_ops] handle_control_session_end_def [receiver_ops]

lemma feed_idle_arrivals: "feed_idle f s (fold handle_device_arrival ds s)"
proof (induction ds arbitrary: s)
  case (Cons d ds)
  have "feed_idle f s (handle_device_arrival d s)" by (auto simp: feed_idle_def receiver_ops split: option.splits)
  with Cons.IH [of "handle_device_arrival d s"] show ?case by (auto intro: feed_idle_trans)
qed simp

lemma feed_idle_start: "feed_idle f s (snd (snd (receiver_start os s)))"
proof -
  let ?s = "effect [Arm_hub] (s\<lparr>rc_hotplug := True, rc_stopping := False, rc_running := True\<rparr>)"
  have "feed_idle f s ?s" by (simp add: feed_idle_def effect_def)
  then have "feed_idle f s (case us_devices os of None \<Rightarrow> ?s | Some ds \<Rightarrow> fold handle_device_arrival ds ?s)"
    using feed_idle_arrivals by (auto intro: feed_idle_trans split: option.splits)
  then show ?thesis
    by (auto simp: receiver_start_def feed_idle_def receiver_ops Let_def split: option.splits)
qed

lemma feed_idle_other:
  "feed_idle f s (device_left bus address s)" "feed_idle f s (handle_device_arrival d s)"
  "feed_idle f s (phone_found handle bus address s)" "feed_idle f s (hub_failed detail s)"
  "feed_idle f s (stop_end s)" "feed_idle f s (io_post [Session_end] s)"
  "feed_idle f s (arrival handle bus address s)" "feed_idle f s (departure s)"
  "feed_idle f s (handle_control_session_end s)"
  by (auto simp: feed_idle_def receiver_ops stop_end_def split: option.splits)
text \<open>The steps of a feed.\<close>

lemma feed_inv_of:
  "feed_handover f s given h \<Longrightarrow> handover_inv (feed_limit f) (handover_step (feed_limit f) ev h)"
  unfolding feed_handover_def by (blast intro: feed_inv_step)

lemma feed_offer:
  assumes "feed_handover f s given h"
    and "feed_queue f s' = snd (ingress_push (feed_limit f) x (feed_queue f s))"
    and "rc_tasks s' = rc_tasks s @ (if fst (ingress_push (feed_limit f) x (feed_queue f s)) then [Drain f] else [])"
    and "rc_rest s' = rc_rest s" "rc_effects s' = rc_effects s"
  shows "feed_handover f s' (given @ [x]) (handover_step (feed_limit f) (Offer x) h)"
proof -
  have "handover_inv (feed_limit f) (handover_step (feed_limit f) (Offer x) h)"
    by (rule feed_inv_of [OF assms(1)])
  then show ?thesis
    using assms by (auto simp: feed_handover_def split: prod.splits)
qed

lemma feed_begin:
  assumes "feed_handover f s given h" "rc_tasks s = Drain f # ts" "rc_rest s = None"
    and "feed_queue f s' = snd (ingress_take (feed_queue f s))"
    and "rc_rest s' = (if fst (ingress_take (feed_queue f s)) = None then None else Some f)"
    and "rc_tasks s' = ts"
    and "delivered f (rc_effects s') = delivered f (rc_effects s) \<or>
         (\<exists>x. fst (ingress_take (feed_queue f s)) = Some x \<and>
              delivered f (rc_effects s') = delivered f (rc_effects s) @ [x])"
  shows "feed_handover f s' given (handover_step (feed_limit f) Begin_drain h)"
proof -
  have inv: "handover_inv (feed_limit f) (handover_step (feed_limit f) Begin_drain h)"
    by (rule feed_inv_of [OF assms(1)])
  have h: "\<not> ho_running h" "ho_drains h = Suc (count_list ts (Drain f))" "ho_ingress h = feed_queue f s"
    "subseq (delivered f (rc_effects s)) (ho_taken h)" "subseq (ho_offered h) given"
    using assms(1-3) by (simp_all add: feed_handover_def)
  show ?thesis
  proof (cases "in_queue (feed_queue f s)")
    case Nil
    then show ?thesis using inv h assms(4-7) by (auto simp: feed_handover_def ingress_take_def)
  next
    case (Cons x q)
    then have "subseq (delivered f (rc_effects s')) (ho_taken h @ [x])"
      using assms(7) h(4) by (auto simp: ingress_take_def subseq_later)
    then show ?thesis using inv h assms(4-6) Cons by (auto simp: feed_handover_def ingress_take_def)
  qed
qed

lemma feed_end:
  assumes "feed_handover f s given h" "rc_rest s = Some f"
    and "feed_queue f s' = snd (ingress_again (feed_queue f s))"
    and "rc_rest s' = None" "rc_effects s' = rc_effects s"
    and "rc_tasks s' = rc_tasks s @ (if fst (ingress_again (feed_queue f s)) then [Drain f] else [])"
  shows "feed_handover f s' given (handover_step (feed_limit f) End_drain h)"
proof -
  have "handover_inv (feed_limit f) (handover_step (feed_limit f) End_drain h)"
    by (rule feed_inv_of [OF assms(1)])
  then show ?thesis using assms by (auto simp: feed_handover_def split: prod.splits)
qed

lemma feed_reset:
  assumes "feed_handover f s given h" "feed_queue f s' = empty_ingress" "rc_rest s' = rc_rest s"
    and "rc_tasks s' = rc_tasks s" "delivered f (rc_effects s') = delivered f (rc_effects s)"
  shows "feed_handover f s' given (handover_step (feed_limit f) Reset h)"
proof -
  have "handover_inv (feed_limit f) (handover_step (feed_limit f) Reset h)"
    by (rule feed_inv_of [OF assms(1)])
  then show ?thesis using assms by (simp add: feed_handover_def)
qed

lemma drop_task:
  "rc_tasks s = t # ts \<Longrightarrow> t \<noteq> Drain f \<Longrightarrow> feed_idle f s (s\<lparr>rc_tasks := ts\<rparr>)"
  by (simp add: feed_idle_def)

lemma feed_offered_step:
  assumes "feed_handover f s given h"
  shows "\<exists>h'. feed_handover f (snd (send_input_report parses r s)) (given @ offered_to f (Offer_report r)) h'"
    "\<exists>h'. feed_handover f (snd (send_microphone_audio pcm s)) (given @ offered_to f (Offer_audio pcm)) h'"
proof -
  have keep: "\<exists>h'. feed_handover f s (given @ xs) h'" for xs
    using feed_handover_idle [OF assms feed_idle_refl] by blast
  show "\<exists>h'. feed_handover f (snd (send_input_report parses r s)) (given @ offered_to f (Offer_report r)) h'"
  proof (cases "length r > 0x7fffffff \<or> \<not> parses r \<or> \<not> rc_running s \<or> rc_stopping s")
    case True
    then show ?thesis using keep by (auto simp: send_input_report_def)
  next
    case False
    then obtain b q where push: "ingress_push kMaximumInputReports r (rc_reports s) = (b, q)"
      and s': "snd (send_input_report parses r s) =
        io_post (if b then [Drain Reports] else []) (s\<lparr>rc_reports := q\<rparr>)"
      by (cases "ingress_push kMaximumInputReports r (rc_reports s)") (auto simp: send_input_report_def)
    show ?thesis
    proof (cases f)
      case Reports
      then have "feed_handover f (snd (send_input_report parses r s)) (given @ [r]) (handover_step (feed_limit f) (Offer r) h)"
        by (intro feed_offer [OF assms])
          (simp_all add: s' io_post_def feed_queue_def feed_limit_def push)
      then show ?thesis using Reports by auto
    next
      case Microphone
      then have "feed_idle f s (snd (send_input_report parses r s))" by (simp add: feed_idle_def s' io_post_def)
      from feed_handover_idle [OF assms this] show ?thesis by blast
    qed
  qed
  show "\<exists>h'. feed_handover f (snd (send_microphone_audio pcm s)) (given @ offered_to f (Offer_audio pcm)) h'"
  proof (cases "pcm = [] \<or> \<not> rc_running s \<or> rc_stopping s")
    case True
    then show ?thesis using keep by (auto simp: send_microphone_audio_def)
  next
    case False
    then obtain b q where push: "ingress_push kMaximumMicrophonePackets pcm (rc_audio s) = (b, q)"
      and s': "snd (send_microphone_audio pcm s) =
        io_post (if b then [Drain Microphone] else []) (s\<lparr>rc_audio := q\<rparr>)"
      by (cases "ingress_push kMaximumMicrophonePackets pcm (rc_audio s)") (auto simp: send_microphone_audio_def)
    show ?thesis
    proof (cases f)
      case Microphone
      then have "feed_handover f (snd (send_microphone_audio pcm s)) (given @ [pcm]) (handover_step (feed_limit f) (Offer pcm) h)"
        by (intro feed_offer [OF assms])
          (simp_all add: s' io_post_def feed_queue_def feed_limit_def push)
      then show ?thesis using Microphone by auto
    next
      case Reports
      then have "feed_idle f s (snd (send_microphone_audio pcm s))" by (simp add: feed_idle_def s' io_post_def)
      from feed_handover_idle [OF assms this] show ?thesis by blast
    qed
  qed
qed

lemma feed_task_step:
  assumes "feed_handover f s given h"
  shows "\<exists>h'. feed_handover f (run_io_task s) given h'"
proof (cases "rc_tasks s")
  case Nil
  then show ?thesis using assms by (auto simp: run_io_task_def)
next
  case (Cons t ts)
  show ?thesis
  proof (cases "io_enabled s")
    case False
    then show ?thesis using assms Cons by (auto simp: run_io_task_def)
  next
    case True
    then have rest: "rc_rest s = None" by (simp add: io_enabled_def)
    show ?thesis
    proof (cases "t = Drain f")
      case drain: True
      have "feed_handover f (run_io_task s) given (handover_step (feed_limit f) Begin_drain h)"
        using Cons True drain rest
        by (intro feed_begin [OF assms, where ts = ts]; cases f; cases "in_queue (rc_reports s)"; cases "in_queue (rc_audio s)")
          (auto simp: run_io_task_def drain_input_reports_def drain_microphone_audio_def hand_to_session_def
            effect_def feed_queue_def ingress_take_def split: option.splits)
      then show ?thesis by blast
    next
      case other: False
      have "feed_idle f (s\<lparr>rc_tasks := ts\<rparr>) (run_io_task s)"
      proof (cases t)
        case (Drain g)
        then show ?thesis
          using other Cons True rest
          by (cases f; cases g)
            (auto simp: feed_idle_def run_io_task_def drain_input_reports_def drain_microphone_audio_def
              hand_to_session_def effect_def feed_queue_def Let_def split: option.splits prod.splits)
      qed (use Cons True feed_idle_other in \<open>simp_all add: run_io_task_def Let_def\<close>)
      with drop_task [OF Cons other] have "feed_idle f s (run_io_task s)" by (rule feed_idle_trans)
      from feed_handover_idle [OF assms this, of "[]"] show ?thesis by auto
    qed
  qed
qed

lemma feed_finish_step:
  assumes "feed_handover f s given h"
  shows "\<exists>h'. feed_handover f (finish_drain s) given h'"
proof (cases "rc_rest s = Some f")
  case True
  have "feed_handover f (finish_drain s) given (handover_step (feed_limit f) End_drain h)"
    using True
    by (intro feed_end [OF assms]; cases f)
      (auto simp: finish_drain_def drain_input_rest_def drain_microphone_rest_def io_post_def feed_queue_def
        ingress_again_def)
  then show ?thesis by blast
next
  case False
  then have "feed_idle f s (finish_drain s)"
    by (cases f)
      (auto simp: feed_idle_def finish_drain_def drain_input_rest_def drain_microphone_rest_def io_post_def
        feed_queue_def split: option.splits feed.splits prod.splits)
  from feed_handover_idle [OF assms this, of "[]"] show ?thesis by auto
qed

lemma feed_handover_step:
  assumes "feed_handover f s given h"
  shows "\<exists>h'. feed_handover f (receiver_step parses ev s) (given @ offered_to f ev) h'"
proof -
  have idle: "feed_idle f s s' \<Longrightarrow> \<exists>h'. feed_handover f s' (given @ offered_to f ev) h'" for s'
    using feed_handover_idle [OF assms] by blast
  have nothing: "offered_to f ev = []" if "\<forall>x. ev \<noteq> Offer_report x \<and> ev \<noteq> Offer_audio x"
    using that by (cases f; cases ev) auto
  show ?thesis
  proof (cases ev)
    case Stop_begin
    have "feed_handover f (stop_begin s) given (handover_step (feed_limit f) Reset h)" if "rc_running s"
      using that by (intro feed_reset [OF assms]; cases f) (auto simp: stop_begin_def effect_def feed_queue_def)
    then show ?thesis using Stop_begin assms nothing by (cases "rc_running s") (auto simp: stop_begin_def)
  next
    case Io_task
    then show ?thesis using feed_task_step [OF assms] nothing by simp
  next
    case Io_finish
    then show ?thesis using feed_finish_step [OF assms] nothing by simp
  qed (use feed_offered_step [OF assms] idle feed_idle_start feed_idle_other in auto)
qed

lemma feed_handover_run:
  "feed_handover f s given h \<Longrightarrow>
   \<exists>h'. feed_handover f (run_receiver parses evs s) (given @ concat (map (offered_to f) evs)) h'"
proof (induction evs arbitrary: s given h)
  case (Cons ev evs)
  obtain h' where "feed_handover f (receiver_step parses ev s) (given @ offered_to f ev) h'"
    using feed_handover_step [OF Cons.prems] by blast
  from Cons.IH [OF this] show ?case by (simp add: run_receiver_def)
qed (auto simp: run_receiver_def)

lemma feed_handover_part:
  assumes "feed_handover f s given h"
  shows "subseq (delivered f (rc_effects s)) given"
proof -
  have "subseq (ho_taken h) (ho_taken h @ in_queue (ho_ingress h))" by (simp add: list_emb_prefix)
  then have "subseq (ho_taken h) (ho_offered h)"
    using assms subseq_order.order_trans by (auto simp: feed_handover_def handover_inv_def)
  then show ?thesis using assms subseq_order.order_trans unfolding feed_handover_def by meson
qed

text \<open>
  C37: Through every start, stop, arrival and departure, a feed holds at most its limit (32 reports, 2
  packets), what is handed to the sessions is a part of what was offered, in its order, and an element
  that waits has a drain that is posted or running.
\<close>

theorem receiver_feeds:
  "let s = run_receiver parses evs idle_receiver; q = feed_queue f s in
   length (in_queue q) \<le> feed_limit f \<and>
   subseq (delivered f (rc_effects s)) (concat (map (offered_to f) evs)) \<and>
   (in_queue q = [] \<or> Drain f \<in> set (rc_tasks s) \<or> rc_rest s = Some f)"
proof -
  obtain h where h: "feed_handover f (run_receiver parses evs idle_receiver) (concat (map (offered_to f) evs)) h"
    using feed_handover_run [OF feed_handover_new] by fastforce
  let ?s = "run_receiver parses evs idle_receiver"
  have inv: "handover_inv (feed_limit f) h" "ho_ingress h = feed_queue f ?s"
    "ho_drains h = count_list (rc_tasks ?s) (Drain f)" "ho_running h \<longleftrightarrow> rc_rest ?s = Some f"
    using h by (auto simp: feed_handover_def)
  have "in_queue (feed_queue f ?s) = [] \<or> Drain f \<in> set (rc_tasks ?s) \<or> rc_rest ?s = Some f"
    using inv count_notin by (force simp: handover_inv_def)
  with feed_handover_part [OF h] show ?thesis using inv(1,2) by (simp add: handover_inv_def Let_def)
qed

section \<open>Control sessions\<close>

definition last_started :: "receiver_effect list \<Rightarrow> nat option" where
  "last_started es = fold (\<lambda>e i. case e of Start_control j \<Rightarrow> Some j | _ \<Rightarrow> i) es None"

text \<open>Whatever is handed to a session is handed to the one that was started last.\<close>

definition well_fed :: "receiver_effect list \<Rightarrow> bool" where
  "well_fed es \<longleftrightarrow> (\<forall>before i f x later. es = before @ To_session i f x # later \<longrightarrow> last_started before = Some i)"

lemma last_started_simps [simp]:
  "last_started [] = None"
  "last_started (es @ [e]) = (case e of Start_control j \<Rightarrow> Some j | _ \<Rightarrow> last_started es)"
  "last_started (es @ [e, Start_control i]) = Some i"
  by (simp_all add: last_started_def split: receiver_effect.splits)

lemma well_fed_Nil [simp]: "well_fed []"
  by (simp add: well_fed_def)

lemma well_fed_snoc:
  assumes "well_fed es" "\<And>i f x. e = To_session i f x \<Longrightarrow> last_started es = Some i"
  shows "well_fed (es @ [e])"
  unfolding well_fed_def
proof (intro allI impI)
  fix before i f x later
  assume split: "es @ [e] = before @ To_session i f x # later"
  show "last_started before = Some i"
  proof (cases later rule: rev_cases)
    case Nil
    with split assms(2) show ?thesis by simp
  next
    case (snoc l e')
    with split have "es = before @ To_session i f x # l" by simp
    with assms(1) show ?thesis by (auto simp: well_fed_def)
  qed
qed

definition session_inv :: "receiver \<Rightarrow> bool" where
  "session_inv s \<longleftrightarrow>
     well_fed (rc_effects s) \<and>
     (\<forall>i. rc_session s = Some i \<longrightarrow>
        rc_active s \<and> rc_running s \<and> rc_handle s \<noteq> None \<and> last_started (rc_effects s) = Some i)"

lemma session_effect:
  "session_inv s \<Longrightarrow> (\<And>i. e \<noteq> Start_control i) \<Longrightarrow> (\<And>i f x. e = To_session i f x \<Longrightarrow> rc_session s = Some i) \<Longrightarrow>
   session_inv (effect [e] s)"
  by (auto simp: session_inv_def effect_def intro!: well_fed_snoc split: receiver_effect.splits)

lemma effect_Nil [simp]: "effect [] s = s"
  by (simp add: effect_def)

lemma effect_Cons: "es \<noteq> [] \<Longrightarrow> effect (e # es) s = effect es (effect [e] s)"
  by (simp add: effect_def)

lemma session_idle:
  "session_inv s \<Longrightarrow> rc_effects s' = rc_effects s \<Longrightarrow> rc_session s' = rc_session s \<Longrightarrow> rc_active s' = rc_active s \<Longrightarrow>
   rc_running s' = rc_running s \<Longrightarrow> rc_handle s' = rc_handle s \<Longrightarrow> session_inv s'"
  by (simp add: session_inv_def)

text \<open>Dropping the session, and steps that only post tasks or change queues.\<close>

lemma session_drop:
  "session_inv s \<Longrightarrow> rc_effects s' = rc_effects s \<Longrightarrow> rc_session s' = None \<Longrightarrow> session_inv s'"
  by (simp add: session_inv_def)

lemma session_arrivals: "session_inv s \<Longrightarrow> session_inv (fold handle_device_arrival ds s)"
proof (induction ds arbitrary: s)
  case (Cons d ds)
  have "session_inv (handle_device_arrival d s)"
    using Cons.prems
    by (auto simp: handle_device_arrival_def io_post_def intro: session_effect session_idle split: option.splits)
  then show ?case using Cons.IH by simp
qed simp

lemma session_start:
  assumes "session_inv s"
  shows "session_inv (snd (snd (receiver_start os s)))"
proof (cases "rc_running s \<or> \<not> us_init os \<or> \<not> us_capability os")
  case True
  then show ?thesis using assms by (auto simp: receiver_start_def)
next
  case False
  then have none: "rc_session s = None" using assms by (cases "rc_session s") (auto simp: session_inv_def)
  let ?s = "effect [Arm_hub] (s\<lparr>rc_hotplug := True, rc_stopping := False, rc_running := True\<rparr>)"
  have armed: "session_inv ?s"
    using assms none by (intro session_effect) (simp_all add: session_inv_def)
  obtain t where t: "t = (case us_devices os of None \<Rightarrow> ?s | Some ds \<Rightarrow> fold handle_device_arrival ds ?s)" by blast
  have "session_inv t" using armed session_arrivals by (auto simp: t split: option.splits)
  then have "session_inv (effect [Emit Waiting waiting_text] t)" by (rule session_effect) simp_all
  moreover have "session_inv (reset_locked s)"
    using assms none by (auto simp: reset_locked_def intro: session_drop)
  ultimately show ?thesis using False by (simp add: receiver_start_def t Let_def)
qed

lemma session_inv_step:
  assumes "session_inv s"
  shows "session_inv (receiver_step parses ev s)"
proof (cases ev)
  case (Start os)
  then show ?thesis using session_start [OF assms] by simp
next
  case Stop_begin
  then show ?thesis
    using assms by (auto simp: stop_begin_def intro!: session_effect intro: session_idle)
next
  case Stop_end
  have "session_inv (reset_locked s)"
  proof (cases "rc_session s")
    case None
    then show ?thesis using assms by (auto simp: reset_locked_def intro: session_drop)
  next
    case (Some i)
    have "session_inv (s\<lparr>rc_session := None, rc_handle := None, rc_active := False, rc_running := False\<rparr>)"
      using assms by (rule session_drop) simp_all
    then show ?thesis using Some by (auto simp: reset_locked_def intro: session_effect)
  qed
  then show ?thesis using Stop_end assms by (simp add: stop_end_def)
next
  case (Offer_report r)
  then show ?thesis
    using assms by (auto simp: send_input_report_def io_post_def intro: session_idle split: prod.splits)
next
  case (Offer_audio pcm)
  then show ?thesis
    using assms by (auto simp: send_microphone_audio_def io_post_def intro: session_idle split: prod.splits)
next
  case (Device_arrived d)
  then show ?thesis using assms session_arrivals [OF assms, of "[d]"] by simp
next
  case (Device_left bus address)
  then show ?thesis using assms by (auto simp: device_left_def io_post_def intro: session_idle)
next
  case (Phone_found handle bus address)
  show ?thesis
  proof (cases "io_enabled s")
    case True
    let ?s = "s\<lparr>rc_bus := bus, rc_address := address, rc_handle := Some handle, rc_active := True\<rparr>"
    have "session_inv ?s" using assms by (simp add: session_inv_def)
    then have fed: "well_fed (rc_effects (effect [Emit k d] ?s))" for k d
      by (auto simp: session_inv_def effect_def intro: well_fed_snoc)
    have "well_fed (rc_effects (effect [Emit k d] ?s) @ [Start_control n])" for n k d
      using fed by (rule well_fed_snoc) simp
    then show ?thesis
      using True Phone_found
      by (simp add: phone_found_def start_control_session_def session_inv_def io_enabled_def effect_def)
  qed (use assms Phone_found in simp)
next
  case (Hub_failed detail)
  then show ?thesis using assms by (auto simp: hub_failed_def intro: session_effect)
next
  case (Session_ended i)
  then show ?thesis using assms by (auto simp: io_post_def intro: session_idle)
next
  case Io_task
  have lost: "session_inv (effect [Emit k d, Arm_hub, Emit k' d'] t)" if "session_inv t" for k d k' d' t
    using that by (auto simp: effect_Cons intro!: session_effect)
  have gone: "session_inv t" if "rc_effects t = rc_effects s" "rc_session t = None" for t
    using assms that by (rule session_drop)
  have hand: "session_inv (hand_to_session f x t)" if "session_inv t" for f x t
    using that by (auto simp: hand_to_session_def intro!: session_effect split: option.splits)
  show ?thesis
  proof (cases "rc_tasks s")
    case (Cons t ts)
    have same: "session_inv (s\<lparr>rc_tasks := ts\<rparr>)" using assms by (rule session_idle) simp_all
    show ?thesis
    proof (cases t)
      case (Drain f)
      then show ?thesis
        using same Cons Io_task assms
        by (cases f) (auto simp: run_io_task_def drain_input_reports_def drain_microphone_audio_def Let_def
            intro!: hand intro: session_idle split: option.splits prod.splits)
    next
      case (Arrival handle bus address)
      have "rc_active s \<or> rc_session s = None" using assms by (cases "rc_session s") (auto simp: session_inv_def)
      then show ?thesis
        using same assms Cons Io_task Arrival gone by (auto simp: run_io_task_def arrival_def Let_def)
    qed (use same assms Cons Io_task gone in \<open>auto simp: run_io_task_def departure_def
        handle_control_session_end_def Let_def intro!: lost\<close>)
  qed (use assms Io_task in \<open>simp add: run_io_task_def\<close>)
next
  case Io_finish
  then show ?thesis
    using assms by (auto simp: finish_drain_def drain_input_rest_def drain_microphone_rest_def io_post_def
        intro: session_idle split: option.splits feed.splits prod.splits)
qed

text \<open>
  Whatever the threads do, reports and packets go to the control session that was started last, and
  while there is a session the receiver runs, is active and holds the handle of the phone.
\<close>

theorem receiver_feeds_newest_session:
  "let s = run_receiver parses evs idle_receiver in
   well_fed (rc_effects s) \<and>
   (rc_session s = None \<or>
    rc_session s = last_started (rc_effects s) \<and> rc_running s \<and> rc_active s \<and> rc_handle s \<noteq> None)"
proof -
  have "session_inv s \<Longrightarrow> session_inv (run_receiver parses evs s)" for s
    by (induction evs arbitrary: s) (simp_all add: run_receiver_def session_inv_step)
  moreover have "session_inv idle_receiver" by (simp add: session_inv_def idle_receiver_def)
  ultimately have "session_inv (run_receiver parses evs idle_receiver)" by blast
  then show ?thesis
    by (cases "rc_session (run_receiver parses evs idle_receiver)") (auto simp: session_inv_def Let_def)
qed

section \<open>What the model shows\<close>

definition usb_ready :: usb_start where
  "usb_ready = \<lparr>us_init = True, us_capability = True, us_register = True, us_devices = Some []\<rparr>"

text \<open>
  A phone that is unplugged: the transfer error of the session and the departure of the device are
  both posted before either is handled; the disconnection is reported twice and the hub armed twice.
\<close>

lemma unplug_reported_twice:
  "rc_effects (run_receiver (\<lambda>_. True)
     [Start usb_ready, Phone_found 7 1 2, Session_ended 0, Device_left 1 2, Io_task, Io_task] idle_receiver) =
   [Arm_hub, Emit Waiting waiting_text, Emit Transport_ready ''AOAP transport ready on USB 1:2'', Start_control 0,
    Emit Gone ''wired Android Auto control transport ended'', Arm_hub, Emit Waiting waiting_text,
    Emit Gone ''wired Android Auto phone disconnected'', Arm_hub, Emit Waiting waiting_text]"
  by code_simp

text \<open>The end of a session that was dropped before ends the session of the next phone.\<close>

lemma old_session_ends_new_one:
  "let s = run_receiver (\<lambda>_. True)
     [Start usb_ready, Phone_found 7 1 2, Device_left 1 2, Io_task, Phone_found 8 1 3, Session_ended 0] idle_receiver
   in rc_session s = Some 1 \<and> rc_session (receiver_step (\<lambda>_. True) Io_task s) = None"
  by code_simp

text \<open>A phone that is in accessory mode when the receiver starts makes it active without a session.\<close>

lemma existing_phone_gets_no_session:
  "let s = run_receiver (\<lambda>_. True)
     [Start (usb_ready\<lparr>us_devices := Some [\<lparr>ud_descriptor = Some (0x18D1, 0x2D00), ud_handle = Some 7,
        ud_bus = 1, ud_address = 2\<rparr>]\<rparr>), Io_task] idle_receiver
   in rc_active s \<and> rc_session s = None \<and> rc_tasks s = []"
  by code_simp

text \<open>A handler that was posted before a stop runs after the next start.\<close>

lemma arrival_survives_stop:
  "let s = run_receiver (\<lambda>_. True)
     [Start usb_ready, Device_arrived \<lparr>ud_descriptor = Some (0x18D1, 0x2D01), ud_handle = Some 7, ud_bus = 1,
        ud_address = 2\<rparr>, Stop_begin, Stop_end, Start usb_ready, Io_task] idle_receiver
   in rc_active s \<and> rc_handle s = Some 7"
  by code_simp

end
