(* ===== verification/Aa_Path.thy ===== *)
theory Aa_Path
  imports Aa_Session_Props Aa_Receiver_Props
begin

text \<open>
  The composition of the wired receiver with a control session: what the bridge offers to the
  receiver, what the receiver hands to the session, and what the session sends to the phone.
\<close>

section \<open>Input reports of a session\<close>

fun input_data :: "aa_effect list \<Rightarrow> bytes list" where
  "input_data [] = []"
| "input_data (Transmit Input_channel (Input_report r) # es) = r # input_data es"
| "input_data (_ # es) = input_data es"

lemma input_data_append [simp]: "input_data (es @ fs) = input_data es @ input_data fs"
  by (induction es rule: input_data.induct) simp_all

definition task_reports :: "strand_task list \<Rightarrow> bytes list" where
  "task_reports ts = concat (map (\<lambda>t. case t of Send_report r \<Rightarrow> [r] | _ \<Rightarrow> []) ts)"

lemma task_reports_simps [simp]:
  "task_reports [] = []" "task_reports (ts @ us) = task_reports ts @ task_reports us"
  "task_reports (Drain_audio # ts) = task_reports ts" "task_reports (Send_discovery p # ts) = task_reports ts"
  "task_reports (Send_report r # ts) = r # task_reports ts"
  by (simp_all add: task_reports_def)

fun given_report :: "session_event \<Rightarrow> bytes list" where
  "given_report (Send_input r) = [r]"
| "given_report _ = []"

text \<open>What was sent and what is still posted.\<close>

definition reports_so_far :: "'c aa_session \<Rightarrow> bytes list" where
  "reports_so_far s = input_data (ss_effects s) @ task_reports (ss_tasks s)"

lemma reports_parts [simp]:
  "reports_so_far (session_fail detail unplug s) = reports_so_far s"
  "reports_so_far (session_error e s) = reports_so_far s"
  "reports_so_far (channel_fail ch detail s) = reports_so_far s"
  "reports_so_far (channel_error ch e s) = reports_so_far s"
  by (simp_all add: reports_so_far_def session_defs)

lemma reports_audio [simp]: "reports_so_far (send_audio_on_strand now a s) = reports_so_far s"
  by (auto simp: reports_so_far_def send_audio_on_strand_def emit_def Let_def task_reports_def)

lemma reports_message: "reports_so_far (on_message crypt now m s) = reports_so_far s"
proof (cases m)
  case Microphone_ack
  then show ?thesis
    by (auto simp: mic_ack_def reports_so_far_def emit_def send_audio_on_strand_def Let_def)
qed (auto simp: reports_so_far_def session_defs Let_def split: prod.splits sum.splits option.splits)

lemma reports_drain: "reports_so_far (mic_drain_audio now s) = reports_so_far s"
proof -
  have send: "input_data (ss_effects (send_audio_on_strand now a t)) = input_data (ss_effects t) \<and>
      task_reports (ss_tasks (send_audio_on_strand now a t)) = task_reports (ss_tasks t)" for a and t :: "'a aa_session"
    by (auto simp: send_audio_on_strand_def emit_def Let_def)
  then show ?thesis
    by (auto simp: mic_drain_audio_def reports_so_far_def post_def Let_def split: prod.splits option.splits)
qed

lemma reports_run_task: "ss_tasks s = t # ts \<Longrightarrow> reports_so_far (run_strand_task now s) = reports_so_far s"
  using reports_drain [of now "s\<lparr>ss_tasks := ts\<rparr>"]
  by (cases t)
    (auto simp: run_strand_task_def reports_so_far_def send_service_discovery_response_def respond_def emit_def Let_def)

lemma awaits_input [simp]: "input_data (map Await chs) = []"
  by (induction chs) simp_all

lemma reports_step:
  "subseq (reports_so_far s) given \<Longrightarrow> subseq (reports_so_far (session_step crypt ev s)) (given @ given_report (snd ev))"
proof (cases ev)
  case (Pair now e)
  assume part: "subseq (reports_so_far s) given"
  show ?thesis
  proof (cases e)
    case (From_phone m)
    then show ?thesis using part Pair by (simp add: reports_message)
  next
    case Run_task
    then show ?thesis
      using part Pair reports_run_task [of s _ _ now] by (cases "ss_tasks s") (auto simp: run_strand_task_def)
  next
    case (Send_input r)
    have "reports_so_far (send_report r s) = reports_so_far s @ (if ss_opened s then [r] else [])"
      by (simp add: reports_so_far_def send_report_def post_def emit_def)
    then show ?thesis using part Pair Send_input by (auto simp: subseq_weaken)
  qed (use part Pair in \<open>auto simp: reports_so_far_def session_start_def session_stop_def session_send_audio_def
      mic_send_audio_def capability_wake_def capability_answer_def emit_def post_def channel_error_def
      session_error_def session_fail_def channel_fail_def split: option.splits prod.splits\<close>)
qed

lemma reports_run:
  "subseq (reports_so_far s) given \<Longrightarrow>
   subseq (reports_so_far (run_session crypt evs s)) (given @ concat (map (given_report \<circ> snd) evs))"
proof (induction evs arbitrary: s given)
  case (Cons ev evs)
  from Cons.IH [OF reports_step [OF Cons.prems, of crypt ev]] show ?case by (simp add: run_session_def)
qed (simp add: run_session_def)

section \<open>From the bridge to the phone\<close>

text \<open>What the receiver handed to one session.\<close>

definition delivered_to :: "nat \<Rightarrow> feed \<Rightarrow> receiver_effect list \<Rightarrow> bytes list" where
  "delivered_to i f es =
     concat (map (\<lambda>e. case e of To_session j g x \<Rightarrow> if j = i \<and> g = f then [x] else [] | _ \<Rightarrow> []) es)"

lemma delivered_to_part: "subseq (delivered_to i f es) (delivered f es)"
proof (induction es)
  case (Cons e es)
  then show ?case by (cases e) (auto simp: delivered_to_def)
qed (simp add: delivered_to_def)

lemma feed_part: "subseq (delivered f (rc_effects (run_receiver parses evs idle_receiver))) (concat (map (offered_to f) evs))"
proof -
  obtain h where "feed_handover f (run_receiver parses evs idle_receiver) (concat (map (offered_to f) evs)) h"
    using feed_handover_run [OF feed_handover_new, of f parses evs] by auto
  then show ?thesis by (rule feed_handover_part)
qed

lemma microphone_part: "subseq (mic_data (ss_effects (run_session crypt evs (new_session c)))) (offered evs)"
proof -
  obtain h where h: "mic_handover (run_session crypt evs (new_session c)) (offered evs) h"
    using mic_handover_run [OF mic_handover_new, of crypt evs c] by auto
  then show ?thesis by (rule mic_handover_part)
qed

text \<open>
  C38: A session that is given what the receiver hands to it sends to the phone a part of what the
  bridge offered, reports and microphone packets alike, in the order of the offers and none twice.
\<close>

theorem phone_gets_offered:
  assumes "concat (map (given_report \<circ> snd) evs) = delivered_to i Reports (rc_effects (run_receiver parses revs idle_receiver))"
    and "offered evs = delivered_to i Microphone (rc_effects (run_receiver parses revs idle_receiver))"
  shows "let s = run_session crypt evs (new_session c) in
         subseq (input_data (ss_effects s)) (concat (map (offered_to Reports) revs)) \<and>
         subseq (mic_data (ss_effects s)) (concat (map (offered_to Microphone) revs))"
proof -
  let ?s = "run_session crypt evs (new_session c)" and ?r = "run_receiver parses revs idle_receiver"
  have given: "subseq (delivered_to i f (rc_effects ?r)) (concat (map (offered_to f) revs))" for f
    using delivered_to_part feed_part subseq_order.order_trans by meson
  have "reports_so_far (new_session c) = []" by (simp add: reports_so_far_def new_session_def)
  then have "subseq (reports_so_far ?s) (concat (map (given_report \<circ> snd) evs))"
    using reports_run [of "new_session c" "[]" crypt evs] by simp
  then have "subseq (input_data (ss_effects ?s)) (concat (map (given_report \<circ> snd) evs))"
    unfolding reports_so_far_def by (rule subseq_skip)
  then have "subseq (input_data (ss_effects ?s)) (concat (map (offered_to Reports) revs))"
    by (rule subseq_order.order_trans) (unfold assms(1), rule given)
  moreover have "subseq (mic_data (ss_effects ?s)) (concat (map (offered_to Microphone) revs))"
    by (rule subseq_order.order_trans [OF microphone_part]) (unfold assms(2), rule given)
  ultimately show ?thesis by (simp add: Let_def)
qed

text \<open>A report and a packet through both parts.\<close>

definition example_cryptor :: "unit cryptor" where
  "example_cryptor = \<lparr>cr_do_handshake = (\<lambda>c. (Inr True, c)), cr_write_buffer = (\<lambda>bs c. (None, c)),
     cr_read_buffer = (\<lambda>c. (Inr [], c))\<rparr>"

definition example_offers :: "receiver_event list" where
  "example_offers =
     [Start usb_ready, Phone_found 7 1 2, Offer_report [9], Offer_audio [1], Io_task, Io_finish, Io_task, Io_finish]"

definition example_run :: "(u64 \<times> session_event) list" where
  "example_run =
     [(0, Start_session None), (1, From_phone (Microphone_request True)), (2, Send_input [9]), (3, Send_audio [1]),
      (4, Run_task), (5, Run_task)]"

lemma phone_gets_offered_witness:
  "let s = run_session example_cryptor example_run (new_session ()) in
   subseq (input_data (ss_effects s)) (concat (map (offered_to Reports) example_offers)) \<and>
   subseq (mic_data (ss_effects s)) (concat (map (offered_to Microphone) example_offers)) \<and>
   input_data (ss_effects s) = [[9]] \<and> mic_data (ss_effects s) = [[1]]"
proof -
  have digits: "nat_to_string 1 = ''1''" "nat_to_string 2 = ''2''" by code_simp+
  have sent: "rc_effects (run_receiver (\<lambda>_. True) example_offers idle_receiver) =
      [Arm_hub, Emit Waiting waiting_text, Emit Transport_ready ''AOAP transport ready on USB 1:2'', Start_control 0,
       To_session 0 Reports [9], To_session 0 Microphone [1]]"
    by (simp add: example_offers_def run_receiver_def receiver_start_def usb_ready_def idle_receiver_def receiver_ops
        io_enabled_def send_input_report_def send_microphone_audio_def ingress_push_def empty_ingress_def
        kMaximumInputReports_def kMaximumMicrophonePackets_def run_io_task_def drain_input_reports_def
        ingress_take_def hand_to_session_def finish_drain_def drain_input_rest_def ingress_again_def
        drain_microphone_audio_def drain_microphone_rest_def digits [simplified] Let_def)
  have "concat (map (given_report \<circ> snd) example_run) =
      delivered_to 0 Reports (rc_effects (run_receiver (\<lambda>_. True) example_offers idle_receiver))"
    "offered example_run = delivered_to 0 Microphone (rc_effects (run_receiver (\<lambda>_. True) example_offers idle_receiver))"
    by (simp_all add: sent example_run_def delivered_to_def)
  moreover have "input_data (ss_effects (run_session example_cryptor example_run (new_session ()))) = [[9]]"
    "mic_data (ss_effects (run_session example_cryptor example_run (new_session ()))) = [[1]]"
    by (simp_all add: example_run_def run_session_def session_defs new_session_def new_microphone_def all_channels_def
        session_send_audio_def mic_send_audio_def ingress_push_def empty_ingress_def kMaximumIngressPackets_def
        run_strand_task_def mic_drain_audio_def ingress_take_def send_audio_on_strand_def ingress_again_def Let_def)
  ultimately show ?thesis
    using phone_gets_offered [of example_run 0 "\<lambda>_. True" example_offers example_cryptor "()"] by (simp add: Let_def)
qed

end
