(* ===== verification/Spec2Isabelle.thy ===== *)
theory Spec2Isabelle
  imports Iap2_Csm Iap2_Link_Props Iap2_Control Iap2_Network_Props Airplay_Rtsp Airplay_Cipher Media_Props Bplist_Props Airplay_Video Airplay_Events Airplay_Pairing_Props Bridge_Config Bridge_Ipc Bridge_Pairing Bridge_Session Management_Page Bridge_Daemon_Props Bridge_Server Airplay_Media_Props Airplay_Capabilities Airplay_Setup_Live Aa_Path
begin

text \<open>
  A verification of aa2acp, a bridge that shows an Android Auto phone on a head unit that
  speaks wireless CarPlay.  The bridge plays an iPhone towards the head unit: over Bluetooth
  it speaks iAP2 (\<open>src/src/iap2/\<close>), proves itself, hands over a Wi-Fi network and asks for a
  CarPlay session; over Wi-Fi it opens an AirPlay session (\<open>src/src/airplay/\<close>), pairs, sets
  up streams and sends video and audio; a daemon (\<open>src/src/bridge/\<close>,
  \<open>src/src/bridge_daemon_main.cpp\<close>) receives Android Auto over USB, forwards its media
  through UNIX sockets and serves a management page.

  \<^bold>\<open>Shared ground.\<close>
  \<^item> \<open>Bytes_Prelude\<close>: machine types, byte vectors, big- and little-endian numbers, searching.
  \<^item> \<open>Text_Prelude\<close>: decimal numbers, trimming, header lines.
  \<^item> \<open>Framing\<close>: the locales \<open>stream_handler\<close> and \<open>stream_codec\<close>, the contract of an
    incremental decoder, with the theorem that cutting a stream into chunks makes no
    difference.  They are interpreted on the CSM decoder (\<open>csm\<close>), the packet loop of the
    link (\<open>packets\<close>), the encrypted exchange (\<open>exchange\<close>) and the event channel
    (\<open>event\<close>).

  \<^bold>\<open>Towards the head unit over Bluetooth.\<close>
  \<^item> \<open>Iap2_Csm\<close> models \<open>csm.cpp\<close>: control-session messages, their parameters, the
    incremental decoder, the check of an MFi signature.
  \<^item> \<open>Iap2_Link\<close> models \<open>link_layer.cpp\<close>: every operation of \<open>PhoneLink\<close>, a state machine
    with sequence numbers, retransmission and a receive buffer, over a clock and a socket that
    are parameters.  \<open>Iap2_Link_Props\<close> shows the codecs, in-order delivery as a refinement
    of a queue, the invariant of the window, the hand-shake and what ends the link.
  \<^item> \<open>Iap2_Control\<close> models \<open>bootstrap.cpp\<close>, \<open>carplay_probe.cpp\<close> and the poll loop of
    \<open>iap2_bt_main.cpp\<close> that composes them with the link: CarPlay is asked for only after
    authentication.

  \<^item> \<open>Iap2_Network\<close> and \<open>Iap2_Network_Props\<close> model \<open>network_manager.cpp\<close>: one run of
    \<open>nmcli\<close> over the answers of the operating system, and joining, leaving and the hotspot over a
    world that answers each command.  They show that pass phrases stay off the command line,
    that a run returns and leaves nothing behind, and that the terse listing and the routing
    table are read back as they were printed.

  \<^bold>\<open>Towards the head unit over Wi-Fi.\<close>
  \<^item> \<open>Airplay_Rtsp\<close> models \<open>rtsp.cpp\<close>: request encoder, response framing and parser, TLV8.
  \<^item> \<open>Airplay_Cipher\<close> models \<open>crypto.cpp\<close>, \<open>control_cipher.cpp\<close> and
    \<open>send_encrypted\<close> of \<open>session.cpp\<close>; OpenSSL is the record \<open>evp\<close> and the hypothesis
    \<open>aead_correct\<close> states what RFC 8439 promises of it.
  \<^item> \<open>Airplay_Srp\<close> models \<open>srp.cpp\<close>: the client agrees with a server of RFC 5054;
    \<open>Airplay_Pairing_Store\<close> models \<open>pairing_store.cpp\<close>.
  \<^item> \<open>Airplay_Pairing\<close> and \<open>Airplay_Pairing_Props\<close> model Pair-Setup and Pair-Verify of
    \<open>session.cpp\<close>: control keys exist only if the holder of the long-term key of the pairing
    signed the exchange, and with a head unit that follows the protocol pairing completes.
  \<^item> \<open>Airplay_Capabilities\<close> models \<open>head_unit_capabilities.cpp\<close>: what the answer to \<open>/info\<close> says
    of the head unit, and the file that keeps it.
  \<^item> \<open>Airplay_Setup\<close>, \<open>Airplay_Setup_Props\<close> and \<open>Airplay_Setup_Live\<close> model the control flow of
    \<open>run_session\<close> behind the pairing: \<open>/info\<close>, SETUP of the session and of each stream, RECORD,
    TEARDOWN.  They show the order of the requests and that with a head unit that answers the
    session is set up.
  \<^item> \<open>Airplay_Media\<close> and \<open>Airplay_Media_Props\<close> model the data streams: audio packets, the
    microphone's replay window, which refines the set of seen nonces, the wait for the first key
    frame and the screen stream, which the head unit reads back.
  \<^item> \<open>Airplay_Events\<close> models the event and timing channels of \<open>session.cpp\<close>.
  \<^item> \<open>Airplay_Video\<close> models the H.264 helpers of \<open>session.cpp\<close>: splitting, grouping into
    access units, Exp-Golomb numbers, the configuration record.
  \<^item> \<open>Bplist\<close> and \<open>Bplist_Props\<close> model \<open>bplist.cpp\<close>: encoder and decoder of binary
    property lists are a round trip, and the decoder's budgets hold for any input.

  \<^bold>\<open>Media.\<close>
  \<^item> \<open>Media_Nalu\<close>, \<open>Media_Forwarder\<close> and \<open>Media_Props\<close> model \<open>media_forwarders.cpp\<close> and
    the socket readers of \<open>iap2_bt_main.cpp\<close>: the queue, the two threads as a step relation
    and the framing; the locale \<open>frame_queue\<close> is the contract of a queue and is interpreted
    on the video and on the audio forwarder.

  \<^bold>\<open>Towards the phone over USB.\<close>
  \<^item> \<open>Aa_Ingress\<close> is the hand-over queue that \<open>wired_receiver.cpp\<close> uses three times; the locale
    \<open>bounded_handover\<close> is its contract and is interpreted for the reports and packets of the
    receiver and for the packets of the microphone.
  \<^item> \<open>Aa_Session\<close> and \<open>Aa_Session_Props\<close> model the channel sessions and the control session: one
    packet of the microphone in flight, media channels that do not disturb each other, and one
    report of the end.
  \<^item> \<open>Aa_Receiver\<close> and \<open>Aa_Receiver_Props\<close> model \<open>WiredReceiver::Impl\<close> with its threads, devices,
    start and stop; \<open>Aa_Path\<close> composes the two: what is offered to the receiver and what reaches
    the phone.

  \<^bold>\<open>The daemon and its worker process.\<close>
  \<^item> \<open>Bridge_Config\<close> models \<open>config.cpp\<close>: validation, loading and the atomic save.
  \<^item> \<open>Bridge_Ipc\<close> models \<open>carplay_ipc.cpp\<close>: writer and receiver of the event and
    microphone sockets as a step relation; frames arrive in order and exactly once.
  \<^item> \<open>Bridge_Worker\<close> models \<open>carplay_worker.cpp\<close>: the control protocol between the daemon
    and the child process that runs a session, and how a session is stopped.
  \<^item> \<open>Bridge_Session\<close> models the command line of a session: built by
    \<open>run_carplay_session\<close> and parsed by \<open>run_bluetooth_worker\<close>, and the retry delay.
  \<^item> \<open>Bridge_Pairing\<close> models numeric comparison across three components: the BlueZ agent
    in the worker (\<open>bluez_pairing.cpp\<close>), the control socket and the browser request in the
    daemon; pairing is accepted only if the user confirmed the passkey of that call.
  \<^item> \<open>Bridge_Log\<close> models \<open>daemon_log.cpp\<close>: the tee to terminal and file, the recent log,
    the retention of old files.
  \<^item> \<open>Management_State\<close>, \<open>Management_Http\<close> and \<open>Management_Page\<close> model
    \<open>management_ui.cpp\<close> and the receive loop of the daemon: request framing, form fields,
    responses, and the pages with everything from outside escaped.
  \<^item> \<open>Bridge_Daemon\<close> and \<open>Bridge_Daemon_Props\<close> model the requests of the management page in
    \<open>bridge_daemon_main.cpp\<close> and the configuration the daemon starts with: who may change
    what, that file, memory and hotspot agree, and what a failed change leaves.
  \<^item> \<open>Bridge_Server\<close> models \<open>management_listener.cpp\<close> and the accept loop of the daemon: the
    listener that follows the interface, the request queue and the workers, and that every client
    is closed once.

  \<^bold>\<open>Loops.\<close>  A loop over a buffer or a list is a total function with a measure.  A loop
  that waits for the outside is a function of the list of what the outside answers, one
  entry per round: it is total, and the theorems say which answers are enough for it to
  return.  No fuel is used.

  \<^bold>\<open>Not modelled.\<close>  The H.264 normaliser, which wraps FFmpeg, the libusb and AASDK calls
  themselves, discovery and connection over D-Bus, which only call BlueZ, the
  development front ends, and the set-up of processes, threads and sockets.  Log lines are left
  out, except where a component keeps them.
\<close>

end
